(* ===== verification/Prelude.thy ===== *)
theory Prelude
  imports Main "HOL-Library.Word"
begin

unbundle bit_operations_syntax

text \<open>
  Shared vocabulary of the development: the machine integers of the Rust sources, the
  state-and-error monad in which the interpreter is written, little-endian byte strings,
  and the word lemmas the components share.

  Integers keep their Rust width. A signed Rust integer of width \<open>w\<close> is a \<open>w word\<close> as well;
  where the source reads it as signed the model uses \<open>sint\<close>, \<open>scast\<close>, \<open>signed_drop_bit\<close> or the
  signed order. Arithmetic wraps, as it does in the release profile the repository builds
  (overflow checks are off there).
\<close>

section \<open>Machine integers\<close>

type_synonym u8 = "8 word"
type_synonym u16 = "16 word"
type_synonym u32 = "32 word"
type_synonym u64 = "64 word"
type_synonym i64 = "64 word"
type_synonym i32 = "32 word"

named_theorems mask_simps \<open>conjunction with a low mask as \<open>take_bit\<close>\<close>

lemma and_low_mask [mask_simps]:
  fixes x :: "'a::len word"
  shows "x AND 1 = take_bit 1 x" and "x AND 3 = take_bit 2 x" and "x AND 7 = take_bit 3 x"
    and "x AND 15 = take_bit 4 x" and "x AND 31 = take_bit 5 x" and "x AND 63 = take_bit 6 x"
    and "x AND 127 = take_bit 7 x" and "x AND 255 = take_bit 8 x"
    and "x AND 511 = take_bit 9 x" and "x AND 1023 = take_bit 10 x"
    and "x AND 4095 = take_bit 12 x" and "x AND 65535 = take_bit 16 x"
    and "x AND 0xfffff = take_bit 20 x"
    and "x AND 0xffffffff = take_bit 32 x"
    and "x AND 0xfffffffffff = take_bit 44 x"
    and "x AND 0xfffffffffffff = take_bit 52 x"
  by (simp_all add: take_bit_eq_mask mask_numeral)

lemma unat_take_bit_less: "unat (take_bit n (x :: 'a::len word)) < 2 ^ n"
  by (simp add: unsigned_take_bit_eq)

section \<open>Bit-by-bit equality of 64-bit values\<close>

text \<open>
  Two 64-bit values are equal when their 64 bits are; the index set is written out so that
  the simplifier sees numerals, and evaluates shifts and masks at each position.
\<close>

lemma less_64_cases: "(n::nat) < 64 \<Longrightarrow> n \<in> {
      0, 1, 2, 3, 4, 5, 6, 7, 8, 9, 10, 11, 12, 13, 14, 15, 16, 17, 18, 19, 20, 21, 22, 23, 24,
      25, 26, 27, 28, 29, 30, 31, 32, 33, 34, 35, 36, 37, 38, 39, 40, 41, 42, 43, 44, 45, 46,
      47, 48, 49, 50, 51, 52, 53, 54, 55, 56, 57, 58, 59, 60, 61, 62, 63}"
  by (simp only: numeral_eq_Suc pred_numeral_simps BitM.simps less_Suc_eq) auto

lemma u64_bitsI:
  assumes "\<And>n. n \<in> {
      0, 1, 2, 3, 4, 5, 6, 7, 8, 9, 10, 11, 12, 13, 14, 15, 16, 17, 18, 19, 20, 21, 22, 23, 24,
      25, 26, 27, 28, 29, 30, 31, 32, 33, 34, 35, 36, 37, 38, 39, 40, 41, 42, 43, 44, 45, 46,
      47, 48, 49, 50, 51, 52, 53, 54, 55, 56, 57, 58, 59, 60, 61, 62, 63}
    \<Longrightarrow> bit a n \<longleftrightarrow> bit b n"
  shows "a = (b :: u64)"
proof (rule bit_word_eqI)
  fix n assume "n < LENGTH(64)"
  then have "n < 64" by simp
  then show "bit a n \<longleftrightarrow> bit b n" by (intro assms less_64_cases)
qed

lemma bit_times_2:
  "bit ((x :: 'a::len word) * 2) n \<longleftrightarrow> n \<noteq> 0 \<and> n < LENGTH('a) \<and> bit x (n - 1)"
  by (metis bit_double_iff mult.commute possible_bit_word)

lemma even_drop_bit: "even (drop_bit n (x :: 'a::len word)) \<longleftrightarrow> \<not> bit x n"
  by (simp add: even_drop_bit_iff_not_bit)

lemma bit_small_index:
  "bit x (Suc (Suc 0)) = bit x 2" "bit x (Suc (Suc (Suc 0))) = bit x 3"
  by (simp_all add: numeral_2_eq_2 numeral_3_eq_3)

lemmas bit_eval = bit_simps bit_times_2 even_drop_bit mask_simps bit_small_index

section \<open>Checked, saturating and truncating arithmetic\<close>

text \<open>The unsigned checked operations of Rust's standard library.\<close>

definition checked_sub :: "'a::len word \<Rightarrow> 'a word \<Rightarrow> 'a word option" where
  "checked_sub a b = (if b \<le> a then Some (a - b) else None)"

definition checked_add :: "'a::len word \<Rightarrow> 'a word \<Rightarrow> 'a word option" where
  "checked_add a b = (if unat a + unat b < 2 ^ LENGTH('a) then Some (a + b) else None)"

definition checked_mul :: "'a::len word \<Rightarrow> 'a word \<Rightarrow> 'a word option" where
  "checked_mul a b = (if unat a * unat b < 2 ^ LENGTH('a) then Some (a * b) else None)"

definition checked_div :: "'a::len word \<Rightarrow> 'a word \<Rightarrow> 'a word option" where
  "checked_div a b = (if b = 0 then None else Some (a div b))"

definition saturating_sub :: "'a::len word \<Rightarrow> 'a word \<Rightarrow> 'a word" where
  "saturating_sub a b = (if b \<le> a then a - b else 0)"

definition saturating_add :: "'a::len word \<Rightarrow> 'a word \<Rightarrow> 'a word" where
  "saturating_add a b = (if unat a + unat b < 2 ^ LENGTH('a) then a + b else - 1)"

lemma checked_sub_Some:
  "checked_sub a b = Some c \<longleftrightarrow> b \<le> a \<and> c = a - b"
  by (auto simp: checked_sub_def)

lemma checked_sub_unat:
  "checked_sub a b = Some c \<Longrightarrow> unat c = unat a - unat b \<and> unat b \<le> unat a"
  by (auto simp: checked_sub_def unat_sub word_le_nat_alt split: if_splits)

lemma checked_add_unat:
  "checked_add a b = Some c \<Longrightarrow> unat c = unat a + unat b"
  by (auto simp: checked_add_def unat_word_ariths split: if_splits)

text \<open>Signed division of Rust: truncating, with \<open>MIN / -1\<close> wrapping to \<open>MIN\<close>.\<close>

definition trunc_div :: "int \<Rightarrow> int \<Rightarrow> int" where
  "trunc_div a b = sgn a * sgn b * (\<bar>a\<bar> div \<bar>b\<bar>)"

definition trunc_rem :: "int \<Rightarrow> int \<Rightarrow> int" where
  "trunc_rem a b = a - b * trunc_div a b"

definition wrapping_div_i :: "'a::len word \<Rightarrow> 'a word \<Rightarrow> 'a word" where
  "wrapping_div_i a b = word_of_int (trunc_div (sint a) (sint b))"

definition wrapping_rem_i :: "'a::len word \<Rightarrow> 'a word \<Rightarrow> 'a word" where
  "wrapping_rem_i a b = word_of_int (trunc_rem (sint a) (sint b))"

definition slt :: "'a::len word \<Rightarrow> 'a word \<Rightarrow> bool" where
  "slt a b = (sint a < sint b)"

definition b2w :: "bool \<Rightarrow> 'a::len word" where
  "b2w b = (if b then 1 else 0)"

section \<open>The state-and-error monad\<close>

text \<open>
  An operation of the interpreter works on \<open>&mut self\<close> and \<open>&mut bus\<close> and returns a
  \<open>Result\<close>. The state it leaves behind is meaningful on the error branch too (a faulting
  instruction may have filled a TLB row or marked the FP state dirty), so the state is
  returned beside the sum.
\<close>

type_synonym ('e, 's, 'a) mon = "'s \<Rightarrow> ('e + 'a) \<times> 's"

definition retM :: "'a \<Rightarrow> ('e, 's, 'a) mon" where
  "retM a s = (Inr a, s)"

definition failM :: "'e \<Rightarrow> ('e, 's, 'a) mon" where
  "failM e s = (Inl e, s)"

definition bindM :: "('e, 's, 'a) mon \<Rightarrow> ('a \<Rightarrow> ('e, 's, 'b) mon) \<Rightarrow> ('e, 's, 'b) mon" where
  "bindM m f s = (case m s of (Inl e, t) \<Rightarrow> (Inl e, t) | (Inr a, t) \<Rightarrow> f a t)"

definition seqM :: "('e, 's, 'a) mon \<Rightarrow> ('e, 's, 'b) mon \<Rightarrow> ('e, 's, 'b) mon" where
  "seqM m k = bindM m (\<lambda>_. k)"

definition getM :: "('s \<Rightarrow> 'a) \<Rightarrow> ('e, 's, 'a) mon" where
  "getM f s = (Inr (f s), s)"

definition modM :: "('s \<Rightarrow> 's) \<Rightarrow> ('e, 's, unit) mon" where
  "modM f s = (Inr (), f s)"

definition mapErrM :: "('e \<Rightarrow> 'e) \<Rightarrow> ('e, 's, 'a) mon \<Rightarrow> ('e, 's, 'a) mon" where
  "mapErrM g m s = (case m s of (Inl e, t) \<Rightarrow> (Inl (g e), t) | (Inr a, t) \<Rightarrow> (Inr a, t))"

definition ofOptM :: "'e \<Rightarrow> 'a option \<Rightarrow> ('e, 's, 'a) mon" where
  "ofOptM e x = (case x of None \<Rightarrow> failM e | Some a \<Rightarrow> retM a)"

definition whenM :: "bool \<Rightarrow> ('e, 's, unit) mon \<Rightarrow> ('e, 's, unit) mon" where
  "whenM b m = (if b then m else retM ())"

lemmas monad_defs = retM_def failM_def bindM_def seqM_def getM_def modM_def mapErrM_def
  ofOptM_def whenM_def

text \<open>Evaluation of a monadic program on a given state.\<close>

named_theorems run_simps \<open>equations that run a monadic program on a state\<close>

lemma run_ret [run_simps]: "retM a s = (Inr a, s)"
  by (simp add: retM_def)

lemma run_fail [run_simps]: "failM e s = (Inl e, s)"
  by (simp add: failM_def)

lemma run_get [run_simps]: "getM f s = (Inr (f s), s)"
  by (simp add: getM_def)

lemma run_mod [run_simps]: "modM f s = (Inr (), f s)"
  by (simp add: modM_def)

lemma run_bind_Inr: "m s = (Inr a, t) \<Longrightarrow> bindM m f s = f a t"
  by (simp add: bindM_def)

lemma run_bind_Inl: "m s = (Inl e, t) \<Longrightarrow> bindM m f s = (Inl e, t)"
  by (simp add: bindM_def)

lemma run_seq_Inr: "m s = (Inr a, t) \<Longrightarrow> seqM m k s = k t"
  by (simp add: seqM_def bindM_def)

lemma run_seq_Inl: "m s = (Inl e, t) \<Longrightarrow> seqM m k s = (Inl e, t)"
  by (simp add: seqM_def bindM_def)

lemma run_mapErr: "m s = (Inr a, t) \<Longrightarrow> mapErrM g m s = (Inr a, t)"
  "m s = (Inl e, t) \<Longrightarrow> mapErrM g m s = (Inl (g e), t)"
  by (simp_all add: mapErrM_def)

lemma run_bind_prim [run_simps]:
  "bindM (retM a) f s = f a s" "bindM (failM e) f s = (Inl e, s)"
  "bindM (getM g) f s = f (g s) s" "bindM (modM h) f s = f () (h s)"
  by (simp_all add: monad_defs)

lemma run_seq_prim [run_simps]:
  "seqM (modM h) k s = k (h s)" "seqM (failM e) k s = (Inl e, s)" "seqM (retM u) k s = k s"
  by (simp_all add: monad_defs)

subsection \<open>Invariants of monadic programs\<close>

text \<open>
  \<open>valid P m Q E\<close>: started in a state with \<open>P\<close>, the program ends with \<open>Q\<close> of the result and the
  final state, or with \<open>E\<close> of the error and the final state. \<open>keeps I m\<close> is the case of an
  invariant that holds on both exits.
\<close>

definition valid :: "('s \<Rightarrow> bool) \<Rightarrow> ('e, 's, 'a) mon \<Rightarrow> ('a \<Rightarrow> 's \<Rightarrow> bool) \<Rightarrow> ('e \<Rightarrow> 's \<Rightarrow> bool) \<Rightarrow> bool" where
  "valid P m Q E \<longleftrightarrow>
     (\<forall>s. P s \<longrightarrow> (case m s of (Inl e, t) \<Rightarrow> E e t | (Inr a, t) \<Rightarrow> Q a t))"

definition keeps :: "('s \<Rightarrow> bool) \<Rightarrow> ('e, 's, 'a) mon \<Rightarrow> bool" where
  "keeps I m \<longleftrightarrow> (\<forall>s. I s \<longrightarrow> I (snd (m s)))"

named_theorems keeps_intros \<open>rules that carry an invariant through a monadic program\<close>

lemma keepsI: "(\<And>s. I s \<Longrightarrow> I (snd (m s))) \<Longrightarrow> keeps I m"
  by (simp add: keeps_def)

lemma keepsD: "keeps I m \<Longrightarrow> I s \<Longrightarrow> I (snd (m s))"
  by (simp add: keeps_def)

lemma keepsE: "keeps I m \<Longrightarrow> m s = (r, t) \<Longrightarrow> I s \<Longrightarrow> I t"
  by (metis keepsD snd_conv)

lemma keeps_ret [keeps_intros]: "keeps I (retM a)"
  by (simp add: keeps_def retM_def)

lemma keeps_fail [keeps_intros]: "keeps I (failM e)"
  by (simp add: keeps_def failM_def)

lemma keeps_get [keeps_intros]: "keeps I (getM f)"
  by (simp add: keeps_def getM_def)

lemma keeps_mod: "(\<And>s. I s \<Longrightarrow> I (f s)) \<Longrightarrow> keeps I (modM f)"
  by (simp add: keeps_def modM_def)

lemma keeps_bind [keeps_intros]:
  assumes "keeps I m" and "\<And>a. keeps I (f a)"
  shows "keeps I (bindM m f)"
proof (rule keepsI)
  fix s assume "I s"
  obtain r t where r: "m s = (r, t)" by (cases "m s")
  from assms(1) r \<open>I s\<close> have "I t" by (rule keepsE)
  with assms(2) r show "I (snd (bindM m f s))"
    by (cases r) (auto simp: bindM_def keeps_def)
qed

lemma keeps_seq [keeps_intros]: "keeps I m \<Longrightarrow> keeps I k \<Longrightarrow> keeps I (seqM m k)"
  by (simp add: seqM_def keeps_bind)

lemma keeps_mapErr [keeps_intros]: "keeps I m \<Longrightarrow> keeps I (mapErrM g m)"
  by (auto simp: keeps_def mapErrM_def split: prod.splits sum.splits)

lemma keeps_ofOpt [keeps_intros]: "keeps I (ofOptM e x)"
  by (cases x) (simp_all add: ofOptM_def keeps_ret keeps_fail)

lemma keeps_when [keeps_intros]: "keeps I m \<Longrightarrow> keeps I (whenM b m)"
  by (simp add: whenM_def keeps_ret)

lemma keeps_if [keeps_intros]: "keeps I m \<Longrightarrow> keeps I k \<Longrightarrow> keeps I (if b then m else k)"
  by simp

lemma keeps_case_option [keeps_intros]:
  "keeps I m \<Longrightarrow> (\<And>a. keeps I (f a)) \<Longrightarrow> keeps I (case x of None \<Rightarrow> m | Some a \<Rightarrow> f a)"
  by (cases x) simp_all

lemma keeps_let [keeps_intros]: "(\<And>a. keeps I (f a)) \<Longrightarrow> keeps I (let a = x in f a)"
  by simp

lemma valid_bind:
  assumes "valid P m R E" and "\<And>a. valid (R a) (f a) Q E"
  shows "valid P (bindM m f) Q E"
  using assms by (fastforce simp: valid_def bindM_def split: prod.splits sum.splits)

section \<open>Little-endian byte strings\<close>

text \<open>\<open>to_le_bytes\<close> and \<open>from_le_bytes\<close> of Rust's integers.\<close>

definition to_le :: "nat \<Rightarrow> 'a::len word \<Rightarrow> u8 list" where
  "to_le n w = map (\<lambda>i. ucast (drop_bit (8 * i) w)) [0..<n]"

fun from_le :: "u8 list \<Rightarrow> 'a::len word" where
  "from_le [] = 0"
| "from_le (b # bs) = ucast b OR push_bit 8 (from_le bs)"

lemma length_to_le [simp]: "length (to_le n w) = n"
  by (simp add: to_le_def)

lemma nth_to_le: "i < n \<Longrightarrow> to_le n w ! i = ucast (drop_bit (8 * i) w)"
  by (simp add: to_le_def)

lemma bit_from_le:
  "bit (from_le bs :: 'a::len word) n \<longleftrightarrow>
     n < LENGTH('a) \<and> n div 8 < length bs \<and> bit (bs ! (n div 8)) (n mod 8)"
proof (induction bs arbitrary: n)
  case Nil
  then show ?case by simp
next
  case (Cons b bs)
  show ?case
  proof (cases "n < 8")
    case True
    then show ?thesis by (auto simp: bit_simps)
  next
    case False
    then have "n = 8 + (n - 8)" by simp
    then obtain m where m: "n = 8 + m" by blast
    have d: "(8 + m) div 8 = Suc (m div 8)" and r: "(8 + m) mod 8 = m mod 8" by auto
    have b: "\<not> bit b (8 + m)" by (auto dest: bit_imp_le_length)
    show ?thesis
      unfolding m d r using Cons.IH [of m] b by (auto simp: bit_simps)
  qed
qed

theorem from_le_to_le:
  fixes w :: "'a::len word"
  assumes "LENGTH('a) \<le> 8 * n"
  shows "from_le (to_le n w) = w"
proof (rule bit_word_eqI)
  fix k assume k: "k < LENGTH('a)"
  then have "k div 8 < n" using assms by (simp add: div_less_iff_less_mult)
  moreover have "8 * (k div 8) + k mod 8 = k" by simp
  ultimately show "bit (from_le (to_le n w) :: 'a word) k \<longleftrightarrow> bit w k"
    using k by (simp add: bit_from_le nth_to_le bit_simps)
qed

lemma to_le_from_le:
  assumes "length bs = n" and "8 * n \<le> LENGTH('a)"
  shows "to_le n (from_le bs :: 'a::len word) = bs"
proof (rule nth_equalityI)
  show "length (to_le n (from_le bs :: 'a word)) = length bs" using assms by simp
  fix i assume "i < length (to_le n (from_le bs :: 'a word))"
  then have i: "i < n" by simp
  show "to_le n (from_le bs :: 'a word) ! i = bs ! i"
  proof (rule bit_word_eqI)
    fix k assume k: "k < LENGTH(8)"
    have "(8 * i + k) div 8 = i" and "(8 * i + k) mod 8 = k" using k by auto
    moreover have "8 * i + k < LENGTH('a)" using i k assms(2) by simp
    ultimately show "bit (to_le n (from_le bs :: 'a word) ! i) k \<longleftrightarrow> bit (bs ! i) k"
      using i k assms(1) by (simp add: nth_to_le bit_simps bit_from_le)
  qed
qed

section \<open>Slices of lists\<close>

lemma replicate_two: "replicate 2 x = [x, x]"
  by (simp add: numeral_2_eq_2)

text \<open>\<open>slice\<close> reads \<open>mem[off..off + n]\<close> and \<open>splice\<close> is \<open>copy_from_slice\<close> into it.\<close>

definition slice_at :: "nat \<Rightarrow> nat \<Rightarrow> 'a list \<Rightarrow> 'a list" where
  "slice_at off n xs = take n (drop off xs)"

definition splice_at :: "nat \<Rightarrow> 'a list \<Rightarrow> 'a list \<Rightarrow> 'a list" where
  "splice_at off ys xs = take off xs @ ys @ drop (off + length ys) xs"

lemma length_slice_at: "off + n \<le> length xs \<Longrightarrow> length (slice_at off n xs) = n"
  by (simp add: slice_at_def)

lemma length_splice_at [simp]: "off + length ys \<le> length xs \<Longrightarrow> length (splice_at off ys xs) = length xs"
  by (simp add: splice_at_def)

lemma slice_splice_same:
  "off + length ys \<le> length xs \<Longrightarrow> n = length ys \<Longrightarrow> slice_at off n (splice_at off ys xs) = ys"
  by (simp add: splice_at_def slice_at_def)

lemma nth_splice_at:
  assumes "off + length ys \<le> length xs" and "i < length xs"
  shows "splice_at off ys xs ! i =
    (if off \<le> i \<and> i < off + length ys then ys ! (i - off) else xs ! i)"
  using assms by (auto simp: splice_at_def nth_append min_def)

lemma nth_slice_at: "i < n \<Longrightarrow> off + n \<le> length xs \<Longrightarrow> slice_at off n xs ! i = xs ! (off + i)"
  by (simp add: slice_at_def)

lemma slice_splice_disjoint:
  assumes "off + length ys \<le> length xs" and "off' + n \<le> length xs"
    and "off' + n \<le> off \<or> off + length ys \<le> off'"
  shows "slice_at off' n (splice_at off ys xs) = slice_at off' n xs"
  by (rule nth_equalityI) (use assms in \<open>auto simp: length_slice_at nth_slice_at nth_splice_at\<close>)

end
