(* ===== verification/Decode.thy ===== *)
theory Decode
  imports Prelude
begin

unbundle bit_operations_syntax

text \<open>
  Field extraction of the base 32-bit encoding, \<^verbatim>\<open>crates/rv64-core/src/decode.rs\<close>: the register
  numbers, the function fields and the five immediate formats, each a sign-extended 64-bit value.
\<close>

definition opcode :: "u32 \<Rightarrow> u32" where
  "opcode insn = insn AND 0x7f"

definition rd :: "u32 \<Rightarrow> nat" where
  "rd insn = unat (drop_bit 7 insn AND 0x1f)"

definition rs1 :: "u32 \<Rightarrow> nat" where
  "rs1 insn = unat (drop_bit 15 insn AND 0x1f)"

definition rs2 :: "u32 \<Rightarrow> nat" where
  "rs2 insn = unat (drop_bit 20 insn AND 0x1f)"

definition funct3 :: "u32 \<Rightarrow> u32" where
  "funct3 insn = drop_bit 12 insn AND 7"

definition funct7 :: "u32 \<Rightarrow> u32" where
  "funct7 insn = drop_bit 25 insn"

definition imm_i :: "u32 \<Rightarrow> i64" where
  "imm_i insn = signed_drop_bit 20 (scast insn)"

definition imm_s :: "u32 \<Rightarrow> i64" where
  "imm_s insn = signed_drop_bit 20 (scast (insn AND 0xfe000000)) OR ucast (drop_bit 7 insn AND 0x1f)"

definition imm_b :: "u32 \<Rightarrow> i64" where
  "imm_b insn =
     signed_drop_bit 19 (scast (insn AND 0x80000000))
     OR push_bit 4 (ucast (insn AND 0x80))
     OR ucast (drop_bit 20 insn AND 0x7e0)
     OR ucast (drop_bit 7 insn AND 0x1e)"

definition imm_u :: "u32 \<Rightarrow> i64" where
  "imm_u insn = scast (insn AND 0xfffff000)"

definition imm_j :: "u32 \<Rightarrow> i64" where
  "imm_j insn =
     signed_drop_bit 11 (scast (insn AND 0x80000000))
     OR ucast (insn AND 0xff000)
     OR ucast (drop_bit 9 insn AND 0x800)
     OR ucast (drop_bit 20 insn AND 0x7fe)"

section \<open>Bounds\<close>

text \<open>The register numbers index the 32-entry files, and the function fields are in range.\<close>

lemma reg_bounds: "rd insn < 32" "rs1 insn < 32" "rs2 insn < 32"
  using unat_take_bit_less [of 5] by (simp_all add: rd_def rs1_def rs2_def mask_simps)

lemma funct3_bound: "funct3 insn < 8"
  using unat_take_bit_less [of 3 "drop_bit 12 insn"]
  by (simp add: funct3_def mask_simps word_less_nat_alt)

lemma funct7_bound: "funct7 insn < 128"
proof -
  have "unat insn < 2 ^ 32" using unsigned_less [of insn] by simp
  then show ?thesis
    by (simp add: funct7_def word_less_nat_alt unat_drop_bit_eq drop_bit_nat_def less_mult_imp_div_less)
qed

lemma funct3_cases:
  "funct3 insn \<in> {0, 1, 2, 3, 4, 5, 6, 7}"
proof -
  have "unat (funct3 insn) < 8" using funct3_bound [of insn] by (simp add: word_less_nat_alt)
  then have "unat (funct3 insn) \<in> {0, 1, 2, 3, 4, 5, 6, 7}" by auto
  then have "(of_nat (unat (funct3 insn)) :: u32) \<in> {0, 1, 2, 3, 4, 5, 6, 7}"
    by (elim insertE) simp_all
  then show ?thesis by simp
qed

section \<open>The low bits of the control-transfer offsets\<close>

text \<open>A branch or jump offset is even, so a transfer keeps the PC halfword aligned.\<close>

lemma imm_b_even: "\<not> bit (imm_b insn) 0"
  by (simp add: imm_b_def bit_simps)

lemma imm_j_even: "\<not> bit (imm_j insn) 0"
  by (simp add: imm_j_def bit_simps)

lemma imm_u_low: "n < 12 \<Longrightarrow> \<not> bit (imm_u insn) n"
proof -
  have m: "(0xfffff000 :: u32) = NOT (mask 12)" by (simp add: mask_numeral)
  show "n < 12 \<Longrightarrow> \<not> bit (imm_u insn) n"
    unfolding imm_u_def m by (simp add: bit_simps)
qed

end
