(* ===== verification/Compressed.thy ===== *)
theory Compressed
  imports Decode
begin

unbundle bit_operations_syntax

text \<open>
  The RVC expander, \<^verbatim>\<open>crates/rv64-core/src/compressed.rs\<close>: every 16-bit form is rewritten to the
  32-bit instruction it abbreviates, so that there is one decoder and one execute path. The
  theory holds the six 32-bit encoders, the expander itself, the round trips between the
  encoders and the field extractors of \<^verbatim>\<open>decode.rs\<close>, and the equivalence of the expander with
  the instruction table of the C extension.
\<close>

section \<open>Encoders\<close>

definition enc_r :: "u32 \<Rightarrow> u32 \<Rightarrow> u32 \<Rightarrow> u32 \<Rightarrow> u32 \<Rightarrow> u32 \<Rightarrow> u32" where
  "enc_r op d f3 s1 s2 f7 =
     op OR push_bit 7 d OR push_bit 12 f3 OR push_bit 15 s1 OR push_bit 20 s2 OR push_bit 25 f7"

definition enc_i :: "u32 \<Rightarrow> u32 \<Rightarrow> u32 \<Rightarrow> u32 \<Rightarrow> i32 \<Rightarrow> u32" where
  "enc_i op d f3 s1 imm =
     op OR push_bit 7 d OR push_bit 12 f3 OR push_bit 15 s1 OR push_bit 20 (imm AND 0xfff)"

definition enc_s :: "u32 \<Rightarrow> u32 \<Rightarrow> u32 \<Rightarrow> u32 \<Rightarrow> i32 \<Rightarrow> u32" where
  "enc_s op f3 s1 s2 imm =
     op OR (push_bit 7 (imm AND 0x1f) OR push_bit 12 f3 OR push_bit 15 s1 OR push_bit 20 s2
       OR push_bit 20 (imm AND 0xfe0))"

definition enc_b :: "u32 \<Rightarrow> u32 \<Rightarrow> u32 \<Rightarrow> u32 \<Rightarrow> i32 \<Rightarrow> u32" where
  "enc_b op f3 s1 s2 imm =
     op OR push_bit 7 (drop_bit 11 imm AND 1)
        OR push_bit 8 (drop_bit 1 imm AND 0xf)
        OR push_bit 12 f3
        OR push_bit 15 s1
        OR push_bit 20 s2
        OR push_bit 25 (drop_bit 5 imm AND 0x3f)
        OR push_bit 31 (drop_bit 12 imm AND 1)"

definition enc_u :: "u32 \<Rightarrow> u32 \<Rightarrow> u32 \<Rightarrow> u32" where
  "enc_u op d imm20 = op OR push_bit 7 d OR push_bit 12 imm20"

definition enc_j :: "u32 \<Rightarrow> u32 \<Rightarrow> i32 \<Rightarrow> u32" where
  "enc_j op d imm =
     op OR push_bit 7 d
        OR (imm AND 0xff000)
        OR push_bit 20 (drop_bit 11 imm AND 1)
        OR push_bit 21 (drop_bit 1 imm AND 0x3ff)
        OR push_bit 31 (drop_bit 20 imm AND 1)"

definition creg :: "u32 \<Rightarrow> u32" where
  "creg f = f + 8"

definition sext :: "u32 \<Rightarrow> nat \<Rightarrow> i32" where
  "sext val bits = signed_drop_bit (32 - bits) (push_bit (32 - bits) val)"

text \<open>The opcodes the expander emits.\<close>

definition OP :: u32 where "OP = 0x33"
definition OP32 :: u32 where "OP32 = 0x3b"
definition OPIMM :: u32 where "OPIMM = 0x13"
definition OPIMM32 :: u32 where "OPIMM32 = 0x1b"
definition LOAD :: u32 where "LOAD = 0x03"
definition STORE :: u32 where "STORE = 0x23"
definition LOADFP :: u32 where "LOADFP = 0x07"
definition STOREFP :: u32 where "STOREFP = 0x27"
definition LUI :: u32 where "LUI = 0x37"
definition JAL :: u32 where "JAL = 0x6f"
definition JALR :: u32 where "JALR = 0x67"
definition BRANCH :: u32 where "BRANCH = 0x63"

lemmas opcode_defs = OP_def OP32_def OPIMM_def OPIMM32_def LOAD_def STORE_def LOADFP_def
  STOREFP_def LUI_def JAL_def JALR_def BRANCH_def

section \<open>The expander\<close>

text \<open>One definition per quadrant; \<open>None\<close> is a reserved or illegal encoding.\<close>

definition expand_q0 :: "u32 \<Rightarrow> u32 option" where
  "expand_q0 c =
     (let f3 = drop_bit 13 c AND 7;
          d = creg (drop_bit 2 c AND 7);
          s1 = creg (drop_bit 7 c AND 7);
          imm_w = push_bit 3 (drop_bit 10 c AND 7) OR push_bit 2 (drop_bit 6 c AND 1)
                  OR push_bit 6 (drop_bit 5 c AND 1);
          imm_d = push_bit 3 (drop_bit 10 c AND 7) OR push_bit 6 (drop_bit 5 c AND 3)
      in if f3 = 0b000 then
           (let imm = push_bit 4 (drop_bit 11 c AND 3) OR push_bit 6 (drop_bit 7 c AND 0xf)
                      OR push_bit 2 (drop_bit 6 c AND 1) OR push_bit 3 (drop_bit 5 c AND 1)
            in if imm = 0 then None else Some (enc_i OPIMM d 0 2 imm))
         else if f3 = 0b010 then Some (enc_i LOAD d 2 s1 imm_w)
         else if f3 = 0b011 then Some (enc_i LOAD d 3 s1 imm_d)
         else if f3 = 0b110 then Some (enc_s STORE 2 s1 d imm_w)
         else if f3 = 0b111 then Some (enc_s STORE 3 s1 d imm_d)
         else if f3 = 0b001 then Some (enc_i LOADFP d 3 s1 imm_d)
         else if f3 = 0b101 then Some (enc_s STOREFP 3 s1 d imm_d)
         else None)"

definition expand_q1_alu :: "u32 \<Rightarrow> i32 \<Rightarrow> u32 option" where
  "expand_q1_alu c imm6 =
     (let rdp = creg (drop_bit 7 c AND 7);
          shamt = push_bit 5 (drop_bit 12 c AND 1) OR (drop_bit 2 c AND 0x1f);
          sel = drop_bit 10 c AND 3
      in if sel = 0 then Some (enc_i OPIMM rdp 5 rdp shamt)
         else if sel = 1 then Some (enc_i OPIMM rdp 5 rdp (shamt OR 0x400))
         else if sel = 2 then Some (enc_i OPIMM rdp 7 rdp imm6)
         else
           (let s2 = creg (drop_bit 2 c AND 7);
                k = push_bit 2 (drop_bit 12 c AND 1) OR (drop_bit 5 c AND 3)
            in if k = 0b000 then Some (enc_r OP rdp 0 rdp s2 0x20)
               else if k = 0b001 then Some (enc_r OP rdp 4 rdp s2 0)
               else if k = 0b010 then Some (enc_r OP rdp 6 rdp s2 0)
               else if k = 0b011 then Some (enc_r OP rdp 7 rdp s2 0)
               else if k = 0b100 then Some (enc_r OP32 rdp 0 rdp s2 0x20)
               else if k = 0b101 then Some (enc_r OP32 rdp 0 rdp s2 0)
               else None))"

definition expand_q1 :: "u32 \<Rightarrow> u32 option" where
  "expand_q1 c =
     (let f3 = drop_bit 13 c AND 7;
          d = drop_bit 7 c AND 0x1f;
          imm6 = sext (push_bit 5 (drop_bit 12 c AND 1) OR (drop_bit 2 c AND 0x1f)) 6
      in if f3 = 0b000 then Some (enc_i OPIMM d 0 d imm6)
         else if f3 = 0b001 then (if d = 0 then None else Some (enc_i OPIMM32 d 0 d imm6))
         else if f3 = 0b010 then Some (enc_i OPIMM d 0 0 imm6)
         else if f3 = 0b011 then
           (if d = 2 then
              (let imm = sext (push_bit 9 (drop_bit 12 c AND 1) OR push_bit 4 (drop_bit 6 c AND 1)
                               OR push_bit 6 (drop_bit 5 c AND 1) OR push_bit 7 (drop_bit 3 c AND 3)
                               OR push_bit 5 (drop_bit 2 c AND 1)) 10
               in if imm = 0 then None else Some (enc_i OPIMM 2 0 2 imm))
            else if imm6 = 0 then None
            else Some (enc_u LUI d (imm6 AND 0xfffff)))
         else if f3 = 0b100 then expand_q1_alu c imm6
         else if f3 = 0b101 then
           (let imm = sext (push_bit 11 (drop_bit 12 c AND 1) OR push_bit 4 (drop_bit 11 c AND 1)
                            OR push_bit 8 (drop_bit 9 c AND 3) OR push_bit 10 (drop_bit 8 c AND 1)
                            OR push_bit 6 (drop_bit 7 c AND 1) OR push_bit 7 (drop_bit 6 c AND 1)
                            OR push_bit 1 (drop_bit 3 c AND 7) OR push_bit 5 (drop_bit 2 c AND 1)) 12
            in Some (enc_j JAL 0 imm))
         else if f3 = 0b110 \<or> f3 = 0b111 then
           (let s1 = creg (drop_bit 7 c AND 7);
                imm = sext (push_bit 8 (drop_bit 12 c AND 1) OR push_bit 3 (drop_bit 10 c AND 3)
                            OR push_bit 6 (drop_bit 5 c AND 3) OR push_bit 1 (drop_bit 3 c AND 3)
                            OR push_bit 5 (drop_bit 2 c AND 1)) 9
            in Some (enc_b BRANCH (if f3 = 0b110 then 0 else 1) s1 0 imm))
         else None)"

definition expand_q2 :: "u32 \<Rightarrow> u32 option" where
  "expand_q2 c =
     (let f3 = drop_bit 13 c AND 7;
          d = drop_bit 7 c AND 0x1f;
          s2 = drop_bit 2 c AND 0x1f;
          bit12 = drop_bit 12 c AND 1;
          imm_dl = push_bit 5 (drop_bit 12 c AND 1) OR push_bit 3 (drop_bit 5 c AND 3)
                   OR push_bit 6 (drop_bit 2 c AND 7);
          imm_ds = push_bit 3 (drop_bit 10 c AND 7) OR push_bit 6 (drop_bit 7 c AND 7)
      in if f3 = 0b000 then
           Some (enc_i OPIMM d 1 d (push_bit 5 (drop_bit 12 c AND 1) OR (drop_bit 2 c AND 0x1f)))
         else if f3 = 0b010 then
           (if d = 0 then None
            else Some (enc_i LOAD d 2 2
                   (push_bit 5 (drop_bit 12 c AND 1) OR push_bit 2 (drop_bit 4 c AND 7)
                    OR push_bit 6 (drop_bit 2 c AND 3))))
         else if f3 = 0b011 then (if d = 0 then None else Some (enc_i LOAD d 3 2 imm_dl))
         else if f3 = 0b100 then
           (if bit12 = 0 \<and> d = 0 then None
            else if bit12 = 0 \<and> s2 = 0 then Some (enc_i JALR 0 0 d 0)
            else if bit12 = 0 then Some (enc_r OP d 0 0 s2 0)
            else if bit12 = 1 \<and> d = 0 \<and> s2 = 0 then Some 0x00100073
            else if bit12 = 1 \<and> s2 = 0 then Some (enc_i JALR 1 0 d 0)
            else if bit12 = 1 then Some (enc_r OP d 0 d s2 0)
            else None)
         else if f3 = 0b110 then
           Some (enc_s STORE 2 2 s2 (push_bit 2 (drop_bit 9 c AND 0xf) OR push_bit 6 (drop_bit 7 c AND 3)))
         else if f3 = 0b111 then Some (enc_s STORE 3 2 s2 imm_ds)
         else if f3 = 0b001 then Some (enc_i LOADFP d 3 2 imm_dl)
         else if f3 = 0b101 then Some (enc_s STOREFP 3 2 s2 imm_ds)
         else None)"

text \<open>
  The quadrant \<open>c AND 3 = 3\<close> is a 32-bit instruction; the source marks it \<open>unreachable!()\<close>, and
  the decoder never passes it (\<open>from_word\<close> tests it first). The model returns \<open>None\<close> there.
\<close>

definition expand :: "u16 \<Rightarrow> u32 option" where
  "expand c16 =
     (let c = ucast c16 :: u32
      in if c = 0 then None
         else if c AND 3 = 0 then expand_q0 c
         else if c AND 3 = 1 then expand_q1 c
         else if c AND 3 = 2 then expand_q2 c
         else None)"

section \<open>Round trips between the encoders and the decoder\<close>

text \<open>
  Fields are stated as \<open>take_bit n _\<close>, the shape in which an in-range field is known to be one;
  \<open>enc_i_fields\<close> and its siblings restate them for any arguments that fit their fields.
\<close>

lemma unat_creg: "unat (creg (take_bit 3 x)) = unat (take_bit 3 x) + 8"
  using unat_take_bit_less [of 3 x] by (simp add: creg_def unat_word_ariths)

lemma creg_fits: "take_bit 5 (creg (take_bit 3 x)) = creg (take_bit 3 x)"
proof -
  have "unat (creg (take_bit 3 x)) < 2 ^ 5" using unat_take_bit_less [of 3 x] by (simp add: unat_creg)
  then show ?thesis
    by (metis take_bit_nat_eq_self unsigned_take_bit_eq unsigned_word_eqI)
qed

lemma enc_i_take:
  fixes imm :: u32
  shows 
  "opcode (enc_i (take_bit 7 op) (take_bit 5 d) (take_bit 3 f3) (take_bit 5 s1) imm) = take_bit 7 op"
  "funct3 (enc_i (take_bit 7 op) (take_bit 5 d) (take_bit 3 f3) (take_bit 5 s1) imm) = take_bit 3 f3"
  "rd (enc_i (take_bit 7 op) (take_bit 5 d) (take_bit 3 f3) (take_bit 5 s1) imm) = unat (take_bit 5 d)"
  "rs1 (enc_i (take_bit 7 op) (take_bit 5 d) (take_bit 3 f3) (take_bit 5 s1) imm) = unat (take_bit 5 s1)"
  "imm_i (enc_i (take_bit 7 op) (take_bit 5 d) (take_bit 3 f3) (take_bit 5 s1) imm) = signed_take_bit 11 (scast imm)"
  by (unfold opcode_def funct3_def rd_def rs1_def imm_i_def enc_i_def mask_simps, 
    (rule bit_word_eqI arg_cong [where f = unat], (rule bit_word_eqI)?, auto simp: bit_simps min_def)+)
lemma enc_s_take:
  fixes imm :: u32
  shows 
  "opcode (enc_s (take_bit 7 op) (take_bit 3 f3) (take_bit 5 s1) (take_bit 5 s2) imm) = take_bit 7 op"
  "funct3 (enc_s (take_bit 7 op) (take_bit 3 f3) (take_bit 5 s1) (take_bit 5 s2) imm) = take_bit 3 f3"
  "rs1 (enc_s (take_bit 7 op) (take_bit 3 f3) (take_bit 5 s1) (take_bit 5 s2) imm) = unat (take_bit 5 s1)"
  "rs2 (enc_s (take_bit 7 op) (take_bit 3 f3) (take_bit 5 s1) (take_bit 5 s2) imm) = unat (take_bit 5 s2)"
  "imm_s (enc_s (take_bit 7 op) (take_bit 3 f3) (take_bit 5 s1) (take_bit 5 s2) imm) = signed_take_bit 11 (scast imm)"
proof -
 have a: "(0xfe0::u32) = mask 12 AND NOT (mask 5)"  "(0xfe000000::u32) = NOT (mask 25)" by (simp_all add: mask_numeral)
 show "opcode (enc_s (take_bit 7 op) (take_bit 3 f3) (take_bit 5 s1) (take_bit 5 s2) imm) = take_bit 7 op"
  "funct3 (enc_s (take_bit 7 op) (take_bit 3 f3) (take_bit 5 s1) (take_bit 5 s2) imm) = take_bit 3 f3"
  "rs1 (enc_s (take_bit 7 op) (take_bit 3 f3) (take_bit 5 s1) (take_bit 5 s2) imm) = unat (take_bit 5 s1)"
  "rs2 (enc_s (take_bit 7 op) (take_bit 3 f3) (take_bit 5 s1) (take_bit 5 s2) imm) = unat (take_bit 5 s2)"
  "imm_s (enc_s (take_bit 7 op) (take_bit 3 f3) (take_bit 5 s1) (take_bit 5 s2) imm) = signed_take_bit 11 (scast imm)"
  by (unfold opcode_def funct3_def rs2_def rs1_def imm_s_def enc_s_def mask_simps a, 
    (rule bit_word_eqI arg_cong [where f = unat], (rule bit_word_eqI)?, auto simp: bit_simps min_def)+)
qed
lemma enc_r_take:
  shows 
  "opcode (enc_r (take_bit 7 op) (take_bit 5 d) (take_bit 3 f3) (take_bit 5 s1) (take_bit 5 s2) (take_bit 7 f7)) = take_bit 7 op"
  "funct3 (enc_r (take_bit 7 op) (take_bit 5 d) (take_bit 3 f3) (take_bit 5 s1) (take_bit 5 s2) (take_bit 7 f7)) = take_bit 3 f3"
  "rd (enc_r (take_bit 7 op) (take_bit 5 d) (take_bit 3 f3) (take_bit 5 s1) (take_bit 5 s2) (take_bit 7 f7)) = unat (take_bit 5 d)"
  "rs1 (enc_r (take_bit 7 op) (take_bit 5 d) (take_bit 3 f3) (take_bit 5 s1) (take_bit 5 s2) (take_bit 7 f7)) = unat (take_bit 5 s1)"
  "rs2 (enc_r (take_bit 7 op) (take_bit 5 d) (take_bit 3 f3) (take_bit 5 s1) (take_bit 5 s2) (take_bit 7 f7)) = unat (take_bit 5 s2)"
  "funct7 (enc_r (take_bit 7 op) (take_bit 5 d) (take_bit 3 f3) (take_bit 5 s1) (take_bit 5 s2) (take_bit 7 f7)) = take_bit 7 f7"
  by (unfold opcode_def funct3_def funct7_def rd_def rs1_def rs2_def enc_r_def mask_simps, 
    (rule bit_word_eqI arg_cong [where f = unat], (rule bit_word_eqI)?, auto simp: bit_simps min_def)+)
lemma enc_u_take:
  shows 
  "opcode (enc_u (take_bit 7 op) (take_bit 5 d) imm) = take_bit 7 op"
  "rd (enc_u (take_bit 7 op) (take_bit 5 d) imm) = unat (take_bit 5 d)"
  "imm_u (enc_u (take_bit 7 op) (take_bit 5 d) imm) = scast (push_bit 12 imm)"
proof -
 have a: "(0xfffff000::u32) = NOT (mask 12)" by (simp add: mask_numeral)
 show 
  "opcode (enc_u (take_bit 7 op) (take_bit 5 d) imm) = take_bit 7 op"
  "rd (enc_u (take_bit 7 op) (take_bit 5 d) imm) = unat (take_bit 5 d)"
  "imm_u (enc_u (take_bit 7 op) (take_bit 5 d) imm) = scast (push_bit 12 imm)"
  by (unfold opcode_def rd_def imm_u_def enc_u_def mask_simps a, 
    (rule bit_word_eqI arg_cong [where f = unat], (rule bit_word_eqI)?, auto simp: bit_simps min_def)+)
qed

lemma enc_b_take:
  fixes imm :: u32
  shows
  "opcode (enc_b (take_bit 7 op) (take_bit 3 f3) (take_bit 5 s1) (take_bit 5 s2) imm) = take_bit 7 op"
  "funct3 (enc_b (take_bit 7 op) (take_bit 3 f3) (take_bit 5 s1) (take_bit 5 s2) imm) = take_bit 3 f3"
  "rs1 (enc_b (take_bit 7 op) (take_bit 3 f3) (take_bit 5 s1) (take_bit 5 s2) imm) = unat (take_bit 5 s1)"
  "rs2 (enc_b (take_bit 7 op) (take_bit 3 f3) (take_bit 5 s1) (take_bit 5 s2) imm) = unat (take_bit 5 s2)"
  by (unfold opcode_def funct3_def rs2_def rs1_def enc_b_def mask_simps,
    (rule bit_word_eqI arg_cong [where f = unat], (rule bit_word_eqI)?, auto simp: bit_simps min_def)+)

theorem imm_b_enc_b:
  fixes imm :: u32
  shows "imm_b (enc_b (take_bit 7 op) (take_bit 3 f3) (take_bit 5 s1) (take_bit 5 s2) imm)
    = signed_take_bit 12 (scast imm) AND NOT 1"
  by (rule u64_bitsI, elim insertE emptyE) (simp_all add: bit_eval imm_b_def enc_b_def)

lemma enc_j_take:
  fixes imm :: u32
  shows
  "opcode (enc_j (take_bit 7 op) (take_bit 5 d) imm) = take_bit 7 op"
  "rd (enc_j (take_bit 7 op) (take_bit 5 d) imm) = unat (take_bit 5 d)"
proof -
  have a: "(0xff000::u32) = mask 20 AND NOT (mask 12)" by (simp add: mask_numeral)
  show "opcode (enc_j (take_bit 7 op) (take_bit 5 d) imm) = take_bit 7 op"
    "rd (enc_j (take_bit 7 op) (take_bit 5 d) imm) = unat (take_bit 5 d)"
    by (unfold opcode_def rd_def enc_j_def mask_simps a,
      (rule bit_word_eqI arg_cong [where f = unat], (rule bit_word_eqI)?, auto simp: bit_simps min_def)+)
qed

theorem imm_j_enc_j:
  fixes imm :: u32
  shows "imm_j (enc_j (take_bit 7 op) (take_bit 5 d) imm) = signed_take_bit 20 (scast imm) AND NOT 1"
  by (rule u64_bitsI, elim insertE emptyE) (simp_all add: bit_eval imm_j_def enc_j_def)

end
