(* ===== verification/RvcTable.thy ===== *)
theory RvcTable
  imports Compressed
begin

unbundle bit_operations_syntax

text \<open>
  The expander against the instruction tables of the C extension. \<open>rvc_table\<close> lists, for each
  16-bit form, the base instruction it abbreviates: its format, its registers, and its immediate as
  the map from bits of the halfword to bits of the immediate that the ISA manual prints
  (\<open>gather\<close>). \<open>decode_fields\<close> reads a 32-bit word back through the extractors of \<^verbatim>\<open>decode.rs\<close>.
  \<open>expand_table\<close> says that the expander followed by the decoder is the table, on every halfword.
\<close>

section \<open>Instructions as the decoder sees them\<close>

datatype rv_insn =
    RType u32 nat u32 nat nat u32
  | IType u32 nat u32 nat i64
  | SType u32 u32 nat nat i64
  | BType u32 nat nat i64
  | UType nat i64
  | JType nat i64

definition decode_fields :: "u32 \<Rightarrow> rv_insn" where
  "decode_fields i =
     (if opcode i = OP \<or> opcode i = OP32
      then RType (opcode i) (rd i) (funct3 i) (rs1 i) (rs2 i) (funct7 i)
      else if opcode i = STORE \<or> opcode i = STOREFP
      then SType (opcode i) (funct3 i) (rs1 i) (rs2 i) (imm_s i)
      else if opcode i = BRANCH then BType (funct3 i) (rs1 i) (rs2 i) (imm_b i)
      else if opcode i = LUI then UType (rd i) (imm_u i)
      else if opcode i = JAL then JType (rd i) (imm_j i)
      else IType (opcode i) (rd i) (funct3 i) (rs1 i) (imm_i i))"

section \<open>The table\<close>

text \<open>\<open>gather c [(s, d), ...]\<close> puts bit \<open>s\<close> of the halfword at bit \<open>d\<close> of the immediate.\<close>

definition gather :: "u32 \<Rightarrow> (nat \<times> nat) list \<Rightarrow> u64" where
  "gather c ps = foldr (\<lambda>(s, d) w. if bit c s then set_bit d w else w) ps 0"

definition fld :: "u32 \<Rightarrow> nat \<Rightarrow> nat \<Rightarrow> u32" where
  "fld c lo n = take_bit n (drop_bit lo c)"

definition regp :: "u32 \<Rightarrow> nat \<Rightarrow> nat" where
  "regp c lo = unat (fld c lo 3) + 8"

definition reg :: "u32 \<Rightarrow> nat \<Rightarrow> nat" where
  "reg c lo = unat (fld c lo 5)"

definition nzuimm_4spn :: "u32 \<Rightarrow> u64" where
  "nzuimm_4spn c = gather c [(12,5),(11,4),(10,9),(9,8),(8,7),(7,6),(6,2),(5,3)]"
definition uimm_w :: "u32 \<Rightarrow> u64" where
  "uimm_w c = gather c [(12,5),(11,4),(10,3),(6,2),(5,6)]"
definition uimm_d :: "u32 \<Rightarrow> u64" where
  "uimm_d c = gather c [(12,5),(11,4),(10,3),(6,7),(5,6)]"
definition imm_6 :: "u32 \<Rightarrow> u64" where
  "imm_6 c = signed_take_bit 5 (gather c [(12,5),(6,4),(5,3),(4,2),(3,1),(2,0)])"
definition uimm_sh :: "u32 \<Rightarrow> u64" where
  "uimm_sh c = gather c [(12,5),(6,4),(5,3),(4,2),(3,1),(2,0)]"
definition imm_16sp :: "u32 \<Rightarrow> u64" where
  "imm_16sp c = signed_take_bit 9 (gather c [(12,9),(6,4),(5,6),(4,8),(3,7),(2,5)])"
definition imm_cj :: "u32 \<Rightarrow> u64" where
  "imm_cj c = signed_take_bit 11
     (gather c [(12,11),(11,4),(10,9),(9,8),(8,10),(7,6),(6,7),(5,3),(4,2),(3,1),(2,5)])"
definition imm_cb :: "u32 \<Rightarrow> u64" where
  "imm_cb c = signed_take_bit 8 (gather c [(12,8),(11,4),(10,3),(6,7),(5,6),(4,2),(3,1),(2,5)])"
definition uimm_lwsp :: "u32 \<Rightarrow> u64" where
  "uimm_lwsp c = gather c [(12,5),(6,4),(5,3),(4,2),(3,7),(2,6)]"
definition uimm_ldsp :: "u32 \<Rightarrow> u64" where
  "uimm_ldsp c = gather c [(12,5),(6,4),(5,3),(4,8),(3,7),(2,6)]"
definition uimm_swsp :: "u32 \<Rightarrow> u64" where
  "uimm_swsp c = gather c [(12,5),(11,4),(10,3),(9,2),(8,7),(7,6)]"
definition uimm_sdsp :: "u32 \<Rightarrow> u64" where
  "uimm_sdsp c = gather c [(12,5),(11,4),(10,3),(9,8),(8,7),(7,6)]"

lemmas table_imm_defs = nzuimm_4spn_def uimm_w_def uimm_d_def imm_6_def uimm_sh_def imm_16sp_def
  imm_cj_def imm_cb_def uimm_lwsp_def uimm_ldsp_def uimm_swsp_def uimm_sdsp_def

definition table_q0 :: "u32 \<Rightarrow> rv_insn option" where
  "table_q0 c =
     (let k = fld c 13 3 in
      if k = 0 then (if nzuimm_4spn c = 0 then None else Some (IType OPIMM (regp c 2) 0 2 (nzuimm_4spn c)))
      else if k = 1 then Some (IType LOADFP (regp c 2) 3 (regp c 7) (uimm_d c))
      else if k = 2 then Some (IType LOAD (regp c 2) 2 (regp c 7) (uimm_w c))
      else if k = 3 then Some (IType LOAD (regp c 2) 3 (regp c 7) (uimm_d c))
      else if k = 4 then None
      else if k = 5 then Some (SType STOREFP 3 (regp c 7) (regp c 2) (uimm_d c))
      else if k = 6 then Some (SType STORE 2 (regp c 7) (regp c 2) (uimm_w c))
      else Some (SType STORE 3 (regp c 7) (regp c 2) (uimm_d c)))"

definition table_alu :: "u32 \<Rightarrow> rv_insn option" where
  "table_alu c =
     (let r = regp c 7; t = regp c 2 in
      if fld c 10 2 = 0 then Some (IType OPIMM r 5 r (uimm_sh c))
      else if fld c 10 2 = 1 then Some (IType OPIMM r 5 r (uimm_sh c OR 0x400))
      else if fld c 10 2 = 2 then Some (IType OPIMM r 7 r (imm_6 c))
      else if fld c 12 1 = 0 then
        (if fld c 5 2 = 0 then Some (RType OP r 0 r t 0x20)
         else if fld c 5 2 = 1 then Some (RType OP r 4 r t 0)
         else if fld c 5 2 = 2 then Some (RType OP r 6 r t 0)
         else Some (RType OP r 7 r t 0))
      else if fld c 5 2 = 0 then Some (RType OP32 r 0 r t 0x20)
      else if fld c 5 2 = 1 then Some (RType OP32 r 0 r t 0)
      else None)"

definition table_q1 :: "u32 \<Rightarrow> rv_insn option" where
  "table_q1 c =
     (let k = fld c 13 3; r = reg c 7 in
      if k = 0 then Some (IType OPIMM r 0 r (imm_6 c))
      else if k = 1 then (if r = 0 then None else Some (IType OPIMM32 r 0 r (imm_6 c)))
      else if k = 2 then Some (IType OPIMM r 0 0 (imm_6 c))
      else if k = 3 then
        (if r = 2 then (if imm_16sp c = 0 then None else Some (IType OPIMM 2 0 2 (imm_16sp c)))
         else if imm_6 c = 0 then None else Some (UType r (push_bit 12 (imm_6 c))))
      else if k = 4 then table_alu c
      else if k = 5 then Some (JType 0 (imm_cj c))
      else if k = 6 then Some (BType 0 (regp c 7) 0 (imm_cb c))
      else Some (BType 1 (regp c 7) 0 (imm_cb c)))"

definition table_q2 :: "u32 \<Rightarrow> rv_insn option" where
  "table_q2 c =
     (let k = fld c 13 3; r = reg c 7; t = reg c 2 in
      if k = 0 then Some (IType OPIMM r 1 r (uimm_sh c))
      else if k = 1 then Some (IType LOADFP r 3 2 (uimm_ldsp c))
      else if k = 2 then (if r = 0 then None else Some (IType LOAD r 2 2 (uimm_lwsp c)))
      else if k = 3 then (if r = 0 then None else Some (IType LOAD r 3 2 (uimm_ldsp c)))
      else if k = 4 then
        (if fld c 12 1 = 0 then
           (if r = 0 then None
            else if t = 0 then Some (IType JALR 0 0 r 0)
            else Some (RType OP r 0 0 t 0))
         else if t = 0 then
           (if r = 0 then Some (IType 0x73 0 0 0 1) else Some (IType JALR 1 0 r 0))
         else Some (RType OP r 0 r t 0))
      else if k = 5 then Some (SType STOREFP 3 2 t (uimm_sdsp c))
      else if k = 6 then Some (SType STORE 2 2 t (uimm_swsp c))
      else Some (SType STORE 3 2 t (uimm_sdsp c)))"

definition rvc_table :: "u16 \<Rightarrow> rv_insn option" where
  "rvc_table h =
     (let c = ucast h :: u32 in
      if fld c 0 2 = 0 then table_q0 c
      else if fld c 0 2 = 1 then table_q1 c
      else if fld c 0 2 = 2 then table_q2 c
      else None)"

section \<open>Field lemmas\<close>

text \<open>Each encoder under the hypothesis that its arguments fit their fields.\<close>

lemma decode_enc_i:
  assumes "take_bit 5 d = d" "take_bit 3 f3 = f3" "take_bit 5 s1 = s1"
    and "op \<in> {OPIMM, OPIMM32, LOAD, LOADFP, JALR}"
  shows "decode_fields (enc_i op d f3 s1 imm)
    = IType op (unat d) f3 (unat s1) (signed_take_bit 11 (scast imm))"
proof -
  have "take_bit 7 op = op" using assms(4) by (auto simp: opcode_defs)
  then show ?thesis
    using enc_i_take [of op d f3 s1 imm] assms
    by (auto simp: decode_fields_def opcode_defs)
qed

lemma decode_enc_s:
  assumes "take_bit 3 f3 = f3" "take_bit 5 s1 = s1" "take_bit 5 s2 = s2"
    and "op \<in> {STORE, STOREFP}"
  shows "decode_fields (enc_s op f3 s1 s2 imm)
    = SType op f3 (unat s1) (unat s2) (signed_take_bit 11 (scast imm))"
proof -
  have "take_bit 7 op = op" using assms(4) by (auto simp: opcode_defs)
  then show ?thesis
    using enc_s_take [of op f3 s1 s2 imm] assms
    by (auto simp: decode_fields_def opcode_defs)
qed

lemma decode_enc_r:
  assumes "take_bit 5 d = d" "take_bit 3 f3 = f3" "take_bit 5 s1 = s1" "take_bit 5 s2 = s2"
    and "take_bit 7 f7 = f7" and "op \<in> {OP, OP32}"
  shows "decode_fields (enc_r op d f3 s1 s2 f7) = RType op (unat d) f3 (unat s1) (unat s2) f7"
proof -
  have "take_bit 7 op = op" using assms(6) by (auto simp: opcode_defs)
  then show ?thesis
    using enc_r_take [of op d f3 s1 s2 f7] assms
    by (auto simp: decode_fields_def opcode_defs)
qed

lemma decode_enc_b:
  assumes "take_bit 3 f3 = f3" "take_bit 5 s1 = s1" "take_bit 5 s2 = s2"
  shows "decode_fields (enc_b BRANCH f3 s1 s2 imm)
    = BType f3 (unat s1) (unat s2) (signed_take_bit 12 (scast imm) AND NOT 1)"
  using enc_b_take [of BRANCH f3 s1 s2 imm] imm_b_enc_b [of BRANCH f3 s1 s2 imm] assms
  by (auto simp: decode_fields_def opcode_defs)

lemma decode_enc_u:
  assumes "take_bit 5 d = d"
  shows "decode_fields (enc_u LUI d imm) = UType (unat d) (scast (push_bit 12 imm))"
  using enc_u_take [of LUI d imm] assms by (auto simp: decode_fields_def opcode_defs)

lemma decode_enc_j:
  assumes "take_bit 5 d = d"
  shows "decode_fields (enc_j JAL d imm) = JType (unat d) (signed_take_bit 20 (scast imm) AND NOT 1)"
  using enc_j_take [of JAL d imm] imm_j_enc_j [of JAL d imm] assms
  by (auto simp: decode_fields_def opcode_defs)

lemmas decode_enc = decode_enc_i decode_enc_s decode_enc_r decode_enc_b decode_enc_u decode_enc_j

section \<open>The immediates\<close>

lemma bit_gather: "bit (gather c ps) n \<longleftrightarrow> n < 64 \<and> (\<exists>(s, d) \<in> set ps. d = n \<and> bit c s)"
  unfolding gather_def
  by (induction ps) (auto simp: bit_simps split: if_splits)

lemma gather_4spn:
  "scast (push_bit 4 (take_bit 2 (drop_bit 11 c)) OR push_bit 6 (take_bit 4 (drop_bit 7 c))
     OR push_bit 2 (take_bit 1 (drop_bit 6 c)) OR push_bit 3 (take_bit 1 (drop_bit 5 c)) :: u32)
   = nzuimm_4spn c"
  by (rule u64_bitsI, elim insertE emptyE) (simp_all add: bit_eval bit_gather table_imm_defs)

lemma gather_w:
  "scast (push_bit 3 (take_bit 3 (drop_bit 10 c)) OR push_bit 2 (take_bit 1 (drop_bit 6 c))
     OR push_bit 6 (take_bit 1 (drop_bit 5 c)) :: u32) = uimm_w c"
  by (rule u64_bitsI, elim insertE emptyE) (simp_all add: bit_eval bit_gather table_imm_defs)

lemma gather_d:
  "scast (push_bit 3 (take_bit 3 (drop_bit 10 c)) OR push_bit 6 (take_bit 2 (drop_bit 5 c)) :: u32)
   = uimm_d c"
  by (rule u64_bitsI, elim insertE emptyE) (simp_all add: bit_eval bit_gather table_imm_defs)

lemma gather_6:
  "scast (sext (push_bit 5 (take_bit 1 (drop_bit 12 c)) OR take_bit 5 (drop_bit 2 c)) 6) = imm_6 c"
  by (rule u64_bitsI, elim insertE emptyE) (simp_all add: bit_eval bit_gather table_imm_defs sext_def)

lemma gather_sh:
  "scast (push_bit 5 (take_bit 1 (drop_bit 12 c)) OR take_bit 5 (drop_bit 2 c) :: u32) = uimm_sh c"
  by (rule u64_bitsI, elim insertE emptyE) (simp_all add: bit_eval bit_gather table_imm_defs)

lemma gather_16sp:
  "scast (sext (push_bit 9 (take_bit 1 (drop_bit 12 c)) OR push_bit 4 (take_bit 1 (drop_bit 6 c))
     OR push_bit 6 (take_bit 1 (drop_bit 5 c)) OR push_bit 7 (take_bit 2 (drop_bit 3 c))
     OR push_bit 5 (take_bit 1 (drop_bit 2 c))) 10) = imm_16sp c"
  by (rule u64_bitsI, elim insertE emptyE) (simp_all add: bit_eval bit_gather table_imm_defs sext_def)

lemma gather_cj:
  "scast (sext (push_bit 11 (take_bit 1 (drop_bit 12 c)) OR push_bit 4 (take_bit 1 (drop_bit 11 c))
     OR push_bit 8 (take_bit 2 (drop_bit 9 c)) OR push_bit 10 (take_bit 1 (drop_bit 8 c))
     OR push_bit 6 (take_bit 1 (drop_bit 7 c)) OR push_bit 7 (take_bit 1 (drop_bit 6 c))
     OR push_bit 1 (take_bit 3 (drop_bit 3 c)) OR push_bit 5 (take_bit 1 (drop_bit 2 c))) 12)
   = imm_cj c"
  by (rule u64_bitsI, elim insertE emptyE) (simp_all add: bit_eval bit_gather table_imm_defs sext_def)

lemma gather_cb:
  "scast (sext (push_bit 8 (take_bit 1 (drop_bit 12 c)) OR push_bit 3 (take_bit 2 (drop_bit 10 c))
     OR push_bit 6 (take_bit 2 (drop_bit 5 c)) OR push_bit 1 (take_bit 2 (drop_bit 3 c))
     OR push_bit 5 (take_bit 1 (drop_bit 2 c))) 9) = imm_cb c"
  by (rule u64_bitsI, elim insertE emptyE) (simp_all add: bit_eval bit_gather table_imm_defs sext_def)

lemma gather_lwsp:
  "scast (push_bit 5 (take_bit 1 (drop_bit 12 c)) OR push_bit 2 (take_bit 3 (drop_bit 4 c))
     OR push_bit 6 (take_bit 2 (drop_bit 2 c)) :: u32) = uimm_lwsp c"
  by (rule u64_bitsI, elim insertE emptyE) (simp_all add: bit_eval bit_gather table_imm_defs)

lemma gather_ldsp:
  "scast (push_bit 5 (take_bit 1 (drop_bit 12 c)) OR push_bit 3 (take_bit 2 (drop_bit 5 c))
     OR push_bit 6 (take_bit 3 (drop_bit 2 c)) :: u32) = uimm_ldsp c"
  by (rule u64_bitsI, elim insertE emptyE) (simp_all add: bit_eval bit_gather table_imm_defs)

lemma gather_swsp:
  "scast (push_bit 2 (take_bit 4 (drop_bit 9 c)) OR push_bit 6 (take_bit 2 (drop_bit 7 c)) :: u32)
   = uimm_swsp c"
  by (rule u64_bitsI, elim insertE emptyE) (simp_all add: bit_eval bit_gather table_imm_defs)

lemma gather_sdsp:
  "scast (push_bit 3 (take_bit 3 (drop_bit 10 c)) OR push_bit 6 (take_bit 3 (drop_bit 7 c)) :: u32)
   = uimm_sdsp c"
  by (rule u64_bitsI, elim insertE emptyE) (simp_all add: bit_eval bit_gather table_imm_defs)

text \<open>Every immediate survives the field it is stored in.\<close>

lemma stored_imm:
  "signed_take_bit 11 (nzuimm_4spn c) = nzuimm_4spn c" "signed_take_bit 11 (uimm_w c) = uimm_w c"
  "signed_take_bit 11 (uimm_d c) = uimm_d c" "signed_take_bit 11 (imm_6 c) = imm_6 c"
  "signed_take_bit 11 (uimm_sh c) = uimm_sh c" "signed_take_bit 11 (imm_16sp c) = imm_16sp c"
  "signed_take_bit 11 (uimm_lwsp c) = uimm_lwsp c" "signed_take_bit 11 (uimm_ldsp c) = uimm_ldsp c"
  "signed_take_bit 11 (uimm_swsp c) = uimm_swsp c" "signed_take_bit 11 (uimm_sdsp c) = uimm_sdsp c"
  "signed_take_bit 20 (imm_cj c) AND NOT 1 = imm_cj c"
  "signed_take_bit 12 (imm_cb c) AND NOT 1 = imm_cb c"
  by (rule bit_word_eqI; auto simp: bit_simps bit_gather table_imm_defs bit_0_eq min_def)+

section \<open>Fields of the halfword\<close>

lemma scast_zero_iff: "(scast (x :: u32) :: u64) = 0 \<longleftrightarrow> x = 0"
proof
  assume "(scast x :: u64) = 0"
  then have *: "\<not> bit (scast x :: u64) n" for n by simp
  show "x = 0"
  proof (rule bit_word_eqI)
    fix n assume "n < LENGTH(32)"
    then show "bit x n \<longleftrightarrow> bit (0 :: u32) n" using * [of n] by (auto simp: bit_simps split: if_splits)
  qed
qed simp

lemma fld_folds:
  "drop_bit lo c AND 1 = fld c lo 1" "drop_bit lo c AND 3 = fld c lo 2"
  "drop_bit lo c AND 7 = fld c lo 3" "drop_bit lo c AND 0xf = fld c lo 4"
  "drop_bit lo c AND 0x1f = fld c lo 5"
  by (simp_all only: fld_def mask_simps)

lemma fld_fits: "n \<le> m \<Longrightarrow> take_bit m (fld c lo n) = fld c lo n"
  by (simp add: fld_def min_def)

lemma creg_fld: "take_bit 5 (creg (fld c lo 3)) = creg (fld c lo 3)" "unat (creg (fld c lo 3)) = regp c lo"
  by (simp_all only: fld_def creg_fits unat_creg regp_def)

lemmas gather_folds = gather_4spn gather_w gather_d gather_6 gather_sh gather_16sp gather_cj gather_cb
 gather_lwsp gather_ldsp gather_swsp gather_sdsp
lemmas gather_fld = gather_folds [folded fld_def]

text \<open>The immediates that a reserved encoding is recognised by, and the two that are not stored as they are.\<close>

lemma imm_zero:
  "(push_bit 4 (fld c 11 2) OR push_bit 6 (fld c 7 4) OR push_bit 2 (fld c 6 1) OR push_bit 3 (fld c 5 1)) = 0
   \<longleftrightarrow> nzuimm_4spn c = 0"
  "sext (push_bit 9 (fld c 12 1) OR push_bit 4 (fld c 6 1)
     OR push_bit 6 (fld c 5 1) OR push_bit 7 (fld c 3 2) OR push_bit 5 (fld c 2 1)) 10 = 0 \<longleftrightarrow> imm_16sp c = 0"
  "sext (push_bit 5 (fld c 12 1) OR fld c 2 5) 6 = 0 \<longleftrightarrow> imm_6 c = 0"
  by (simp_all only: gather_fld [symmetric] scast_zero_iff)

lemma gather_sra:
  "scast ((push_bit 5 (fld c 12 1) OR fld c 2 5) OR 0x400) = uimm_sh c OR 0x400"
 unfolding fld_def 
  by (rule u64_bitsI, elim insertE emptyE) (simp_all add: bit_eval bit_gather table_imm_defs)

lemma gather_lui: "scast (push_bit 12 (sext (push_bit 5 (fld c 12 1) OR fld c 2 5) 6 AND 0xfffff))
   = push_bit 12 (imm_6 c)"
 unfolding fld_def 
  by (rule u64_bitsI, elim insertE emptyE) (simp_all add: bit_eval bit_gather table_imm_defs sext_def)

lemma stored_sra: "signed_take_bit 11 (uimm_sh c OR 0x400) = uimm_sh c OR 0x400"
  by (rule u64_bitsI, elim insertE emptyE) (simp_all add: bit_eval bit_gather table_imm_defs)

lemma fld3_cases: "fld c lo 3 \<in> {0,1,2,3,4,5,6,7}"
proof -
  have "funct3 (push_bit 12 (fld c lo 3)) = fld c lo 3"
    by (rule bit_word_eqI) (auto simp: funct3_def fld_def bit_simps mask_simps)
  then show ?thesis using funct3_cases by metis
qed
lemma fld2_cases: "fld c lo 2 \<in> {0,1,2,3}"
proof -
  have "fld (drop_bit lo (take_bit (lo+2) c)) 0 3 = fld c lo 2"
    by (rule bit_word_eqI) (auto simp: fld_def bit_simps)
  moreover have "fld c lo 2 < 4" using unat_take_bit_less [of 2 "drop_bit lo c"] by (simp add: fld_def word_less_nat_alt)
  ultimately show ?thesis using fld3_cases [of "drop_bit lo (take_bit (lo+2) c)" 0] by auto
qed
lemma fld1_cases: "fld c lo 1 \<in> {0,1}"
 by (cases "even (drop_bit lo c)") (simp_all add: fld_def take_bit_Suc odd_iff_mod_2_eq_one even_iff_mod_2_eq_zero del: even_drop_bit_iff_not_bit) 


section \<open>The quadrants\<close>

lemma expand_q0_table: "map_option decode_fields (expand_q0 c) = table_q0 c"
  using fld3_cases [of c 13]
  unfolding expand_q0_def table_q0_def Let_def fld_folds
  by (elim insertE emptyE; simp add: imm_zero decode_enc gather_fld stored_imm creg_fld fld_fits del: One_nat_def)


lemma reg_fld: "unat (fld c lo 5) = reg c lo" "fld c lo 5 = 0 \<longleftrightarrow> reg c lo = 0" "fld c lo 5 = 2 \<longleftrightarrow> reg c lo = 2"
proof -
  show r: "unat (fld c lo 5) = reg c lo" by (simp add: reg_def)
  show "fld c lo 5 = 0 \<longleftrightarrow> reg c lo = 0" using r by (metis unat_eq_zero)
  show "fld c lo 5 = 2 \<longleftrightarrow> reg c lo = 2" unfolding r [symmetric] by (simp add: word_unat_eq_iff)
qed

lemma k3: "push_bit 2 (fld c 12 1) OR fld c 5 2 = (if fld c 12 1 = 0 then fld c 5 2 else fld c 5 2 + 4)"
  using fld2_cases [of c 5] fld1_cases [of c 12] by (elim insertE emptyE) (simp_all only:, simp_all)

lemma decode_enc_alu:
  "f3 \<in> {0, 4, 6, 7} \<Longrightarrow> f7 \<in> {0, 0x20} \<Longrightarrow> op \<in> {OP, OP32} \<Longrightarrow>
    decode_fields (enc_r op (creg (fld c 7 3)) f3 (creg (fld c 7 3)) (creg (fld c 2 3)) f7)
    = RType op (regp c 7) f3 (regp c 7) (regp c 2) f7"
  by (subst decode_enc_r) (auto simp: creg_fld)

lemma decode_enc_alui:
  "f3 \<in> {5, 7} \<Longrightarrow>
    decode_fields (enc_i OPIMM (creg (fld c 7 3)) f3 (creg (fld c 7 3)) imm)
    = IType OPIMM (regp c 7) f3 (regp c 7) (signed_take_bit 11 (scast imm))"
  by (subst decode_enc_i) (auto simp: creg_fld)

lemma expand_alu_table: "map_option decode_fields (expand_q1_alu c (sext (push_bit 5 (fld c 12 1) OR fld c 2 5) 6)) = table_alu c"
proof -
  note rules = decode_enc decode_enc_alu decode_enc_alui gather_fld gather_sra stored_sra stored_imm creg_fld fld_fits
  consider "fld c 10 2 = 0" | "fld c 10 2 = 1" | "fld c 10 2 = 2" | "fld c 10 2 = 3"
    using fld2_cases [of c 10] by blast
  then show ?thesis
  proof cases
    case 4
    show ?thesis
      using fld2_cases [of c 5] fld1_cases [of c 12]
      unfolding expand_q1_alu_def table_alu_def Let_def fld_folds 4
      by (elim insertE emptyE) (simp_all (no_asm_simp) add: rules del: One_nat_def)
  qed (simp_all add: expand_q1_alu_def table_alu_def Let_def fld_folds rules del: One_nat_def)
qed

lemma expand_q1_table: "map_option decode_fields (expand_q1 c) = table_q1 c"
  using fld3_cases [of c 13]
  unfolding expand_q1_def table_q1_def Let_def fld_folds
  by (elim insertE emptyE; simp add: imm_zero expand_alu_table decode_enc gather_fld gather_lui stored_imm stored_imm [simplified] creg_fld fld_fits reg_fld del: One_nat_def push_bit_and)

lemma expand_q2_table: "map_option decode_fields (expand_q2 c) = table_q2 c"
proof -
  note rules = decode_enc gather_fld stored_imm creg_fld fld_fits reg_fld
  consider "fld c 13 3 = 4" | "fld c 13 3 \<in> {0,1,2,3,5,6,7}"
    using fld3_cases [of c 13] by blast
  then show ?thesis
  proof cases
    case 1
    have b: "decode_fields 0x00100073 = IType 0x73 0 0 0 1" by (simp add: decode_fields_def opcode_defs opcode_def rd_def funct3_def rs1_def imm_i_def)
    from fld1_cases [of c 12] show ?thesis
      unfolding expand_q2_def table_q2_def Let_def fld_folds 1
      by (elim insertE emptyE) (simp_all add: rules b del: One_nat_def)
  next
    case 2
    then show ?thesis
      unfolding expand_q2_def table_q2_def Let_def fld_folds
      by (elim insertE emptyE) (simp_all add: rules del: One_nat_def)
  qed
qed

section \<open>The expander is the table\<close>

text \<open>
  Property C9. On every halfword, expanding and then decoding yields exactly the base
  instruction the C-extension table lists, with its registers and its sign- or zero-extended
  immediate, and fails exactly on the reserved encodings.
\<close>

theorem expand_table: "map_option decode_fields (expand h) = rvc_table h"
proof (cases "ucast h = (0 :: u32)")
  case True
  then show ?thesis by (simp add: expand_def rvc_table_def fld_def table_q0_def nzuimm_4spn_def gather_def)
next
  case False
  have "ucast h AND 3 = fld (ucast h) 0 2" by (simp add: fld_def mask_simps)
  with False show ?thesis 
    using fld2_cases [of "ucast h" 0] 
    unfolding expand_def rvc_table_def Let_def 
  by (simp add: expand_q0_table expand_q1_table expand_q2_table)
qed

end
