(* ===== verification/SoftFp.thy ===== *)
theory SoftFp
  imports Prelude
begin

unbundle bit_operations_syntax

text \<open>
  The software floating point of \<^verbatim>\<open>crates/rv64-core/src/softfp.rs\<close>. The macro \<^verbatim>\<open>softfp!\<close> is a set of
  definitions over a format record (word size, mantissa and exponent sizes) and any word type; \<open>sf32\<close> and
  \<open>sf64\<close> are its two instances. The sticky flags are threaded as in the source (\<^verbatim>\<open>fl: &mut u32\<close>): an
  operation takes the flags and returns its result with the flags it leaves.

  Exponents are \<^verbatim>\<open>i32\<close> in the source and stay within a few thousand; they are \<open>int\<close> here. Shift
  amounts that are computed are reduced modulo the word size, as the release profile does. The
  double-width products and quotients are computed on natural numbers.
\<close>

section \<open>Flags, rounding modes and formats\<close>

definition FFLAG_INEXACT :: u32 where "FFLAG_INEXACT = push_bit 0 1"
definition FFLAG_UNDERFLOW :: u32 where "FFLAG_UNDERFLOW = push_bit 1 1"
definition FFLAG_DIVIDE_ZERO :: u32 where "FFLAG_DIVIDE_ZERO = push_bit 2 1"
definition FFLAG_OVERFLOW :: u32 where "FFLAG_OVERFLOW = push_bit 3 1"
definition FFLAG_INVALID_OP :: u32 where "FFLAG_INVALID_OP = push_bit 4 1"

definition RM_RNE :: u32 where "RM_RNE = 0"
definition RM_RTZ :: u32 where "RM_RTZ = 1"
definition RM_RDN :: u32 where "RM_RDN = 2"
definition RM_RUP :: u32 where "RM_RUP = 3"
definition RM_RMM :: u32 where "RM_RMM = 4"

lemmas fflag_defs = FFLAG_INEXACT_def FFLAG_UNDERFLOW_def FFLAG_DIVIDE_ZERO_def FFLAG_OVERFLOW_def
  FFLAG_INVALID_OP_def
lemmas rm_defs = RM_RNE_def RM_RTZ_def RM_RDN_def RM_RUP_def RM_RMM_def

record fpfmt =
  F_SIZE :: nat
  MANT_SIZE :: nat
  EXP_SIZE :: nat

definition sf32 :: fpfmt where "sf32 = \<lparr>F_SIZE = 32, MANT_SIZE = 23, EXP_SIZE = 8\<rparr>"
definition sf64 :: fpfmt where "sf64 = \<lparr>F_SIZE = 64, MANT_SIZE = 52, EXP_SIZE = 11\<rparr>"

definition EXP_MASK :: "fpfmt \<Rightarrow> int" where "EXP_MASK f = 2 ^ EXP_SIZE f - 1"
definition MANT_MASK :: "fpfmt \<Rightarrow> 'a::len word" where "MANT_MASK f = push_bit (MANT_SIZE f) 1 - 1"
definition SIGN_MASK :: "fpfmt \<Rightarrow> 'a::len word" where "SIGN_MASK f = push_bit (F_SIZE f - 1) 1"
definition IMANT_SIZE :: "fpfmt \<Rightarrow> nat" where "IMANT_SIZE f = F_SIZE f - 2"
definition RND_SIZE :: "fpfmt \<Rightarrow> nat" where "RND_SIZE f = IMANT_SIZE f - MANT_SIZE f"
definition QNAN_MASK :: "fpfmt \<Rightarrow> 'a::len word" where "QNAN_MASK f = push_bit (MANT_SIZE f - 1) 1"
definition QNAN :: "fpfmt \<Rightarrow> 'a::len word" where
  "QNAN f = push_bit (MANT_SIZE f) (word_of_int (EXP_MASK f)) OR push_bit (MANT_SIZE f - 1) 1"

text \<open>Computed shifts, and the count of leading zeros.\<close>

definition shl :: "'a::len word \<Rightarrow> int \<Rightarrow> 'a word" where
  "shl w k = push_bit (nat (k mod int LENGTH('a))) w"

definition shr :: "'a::len word \<Rightarrow> int \<Rightarrow> 'a word" where
  "shr w k = drop_bit (nat (k mod int LENGTH('a))) w"

fun bit_len :: "nat \<Rightarrow> nat" where
  "bit_len n = (if n = 0 then 0 else Suc (bit_len (n div 2)))"

declare bit_len.simps [simp del]

definition leading_zeros :: "'a::len word \<Rightarrow> int" where
  "leading_zeros w = int LENGTH('a) - int (bit_len (unat w))"

definition sign_of :: "fpfmt \<Rightarrow> 'a::len word \<Rightarrow> u32" where
  "sign_of f a = ucast (drop_bit (F_SIZE f - 1) a)"

definition exp_of :: "fpfmt \<Rightarrow> 'a::len word \<Rightarrow> int" where
  "exp_of f a = uint (ucast (drop_bit (MANT_SIZE f) a) AND (word_of_int (EXP_MASK f) :: u32))"

definition mant_of :: "fpfmt \<Rightarrow> 'a::len word \<Rightarrow> 'a word" where
  "mant_of f a = a AND MANT_MASK f"

section \<open>Packing and rounding\<close>

definition pack :: "fpfmt \<Rightarrow> u32 \<Rightarrow> int \<Rightarrow> 'a::len word \<Rightarrow> 'a word" where
  "pack f sign exp mant =
     push_bit (F_SIZE f - 1) (ucast sign) OR push_bit (MANT_SIZE f) (word_of_int exp)
       OR (mant AND MANT_MASK f)"

definition rshift_rnd :: "'a::len word \<Rightarrow> int \<Rightarrow> 'a word" where
  "rshift_rnd a d =
     (if d = 0 then a
      else if d \<ge> int LENGTH('a) then b2w (a \<noteq> 0)
      else (let mask = shl 1 d - 1 in shr a d OR b2w (a AND mask \<noteq> 0)))"

definition rnd_addend :: "fpfmt \<Rightarrow> u32 \<Rightarrow> u32 \<Rightarrow> 'a::len word" where
  "rnd_addend f sign rm =
     (if rm = RM_RNE \<or> rm = RM_RMM then push_bit (RND_SIZE f - 1) 1
      else if rm = RM_RTZ then 0
      else if sign XOR (rm AND 1) \<noteq> 0 then push_bit (RND_SIZE f) 1 - 1 else 0)"

definition round_pack :: "fpfmt \<Rightarrow> u32 \<Rightarrow> int \<Rightarrow> 'a::len word \<Rightarrow> u32 \<Rightarrow> u32 \<Rightarrow> 'a word \<times> u32" where
  "round_pack f sign exp mant rm fl =
     (let addend = rnd_addend f sign rm;
          rmask = push_bit (RND_SIZE f) 1 - 1;
          (mant, rnd_bits, fl, exp) =
            (if exp \<le> 0 then
               (let is_subnormal = exp < 0 \<or> mant + addend < push_bit (F_SIZE f - 1) 1;
                    mant = rshift_rnd mant (1 - exp);
                    rnd_bits = mant AND rmask
                in (mant, rnd_bits,
                    if is_subnormal \<and> rnd_bits \<noteq> 0 then fl OR FFLAG_UNDERFLOW else fl, 1))
             else (mant, mant AND rmask, fl, exp));
          fl = (if rnd_bits \<noteq> 0 then fl OR FFLAG_INEXACT else fl);
          mant = drop_bit (RND_SIZE f) (mant + addend);
          mant = (if rm = RM_RNE \<and> rnd_bits = push_bit (RND_SIZE f - 1) 1 then mant AND NOT 1 else mant);
          exp = exp + uint (drop_bit (MANT_SIZE f + 1) mant)
      in if mant \<le> MANT_MASK f then (pack f sign 0 mant, fl)
         else if exp \<ge> EXP_MASK f then
           (if addend = 0 then pack f sign (EXP_MASK f - 1) (MANT_MASK f) else pack f sign (EXP_MASK f) 0,
            fl OR (FFLAG_OVERFLOW OR FFLAG_INEXACT))
         else (pack f sign exp mant, fl))"

definition normalize :: "fpfmt \<Rightarrow> u32 \<Rightarrow> int \<Rightarrow> 'a::len word \<Rightarrow> u32 \<Rightarrow> u32 \<Rightarrow> 'a word \<times> u32" where
  "normalize f sign exp mant rm fl =
     (let shift = leading_zeros mant - int (F_SIZE f - 1 - IMANT_SIZE f)
      in round_pack f sign (exp - shift) (shl mant shift) rm fl)"

definition normalize2 :: "fpfmt \<Rightarrow> u32 \<Rightarrow> int \<Rightarrow> 'a::len word \<Rightarrow> 'a word \<Rightarrow> u32 \<Rightarrow> u32 \<Rightarrow> 'a word \<times> u32"
where
  "normalize2 f sign exp hi lo rm fl =
     (let fs = int (F_SIZE f);
          l = (if hi = 0 then fs + leading_zeros lo else leading_zeros hi);
          shift = l - int (F_SIZE f - 1 - IMANT_SIZE f);
          exp = exp - shift;
          hi' = (if shift = 0 then hi OR b2w (lo \<noteq> 0)
                 else if shift < fs then
                   ((shl hi shift OR shr lo (fs - shift)) OR b2w (shl lo shift \<noteq> 0))
                 else shl lo (shift - fs))
      in round_pack f sign exp hi' rm fl)"

definition is_nan :: "fpfmt \<Rightarrow> 'a::len word \<Rightarrow> bool" where
  "is_nan f a \<longleftrightarrow> exp_of f a = EXP_MASK f \<and> mant_of f a \<noteq> 0"

definition is_signan :: "fpfmt \<Rightarrow> 'a::len word \<Rightarrow> bool" where
  "is_signan f a \<longleftrightarrow>
     (let exp1 = uint (ucast (drop_bit (MANT_SIZE f - 1) a) AND (push_bit (EXP_SIZE f + 1) 1 - 1 :: u32))
      in exp1 = 2 * EXP_MASK f \<and> a AND MANT_MASK f \<noteq> 0)"

definition normalize_subnormal :: "fpfmt \<Rightarrow> 'a::len word \<Rightarrow> int \<times> 'a word" where
  "normalize_subnormal f mant =
     (let shift = int (MANT_SIZE f) - (int (F_SIZE f) - 1 - leading_zeros mant)
      in (1 - shift, shl mant shift))"

text \<open>The significand with its hidden bit, and its exponent.\<close>

definition unpack :: "fpfmt \<Rightarrow> 'a::len word \<Rightarrow> int \<times> 'a word" where
  "unpack f a =
     (if exp_of f a = 0 then normalize_subnormal f (mant_of f a)
      else (exp_of f a, mant_of f a OR push_bit (MANT_SIZE f) 1))"

definition is_zero :: "fpfmt \<Rightarrow> 'a::len word \<Rightarrow> bool" where
  "is_zero f a \<longleftrightarrow> exp_of f a = 0 \<and> mant_of f a = 0"

section \<open>Arithmetic\<close>

definition fadd :: "fpfmt \<Rightarrow> 'a::len word \<Rightarrow> 'a word \<Rightarrow> u32 \<Rightarrow> u32 \<Rightarrow> 'a word \<times> u32" where
  "fadd f a0 b0 rm fl =
     (let sw = a0 AND NOT (SIGN_MASK f) < b0 AND NOT (SIGN_MASK f);
          a = (if sw then b0 else a0);
          b = (if sw then a0 else b0);
          a_sign = sign_of f a;
          b_sign = sign_of f b;
          a_exp = exp_of f a;
          b_exp = exp_of f b;
          a_mant = push_bit 3 (mant_of f a);
          b_mant = push_bit 3 (mant_of f b)
      in if a_exp = EXP_MASK f then
           (if a_mant \<noteq> 0 then
              (QNAN f, if a_mant AND push_bit 3 (QNAN_MASK f) = 0 \<or> is_signan f b
                       then fl OR FFLAG_INVALID_OP else fl)
            else if b_exp = EXP_MASK f \<and> a_sign \<noteq> b_sign then (QNAN f, fl OR FFLAG_INVALID_OP)
            else (a, fl))
         else
           (let hidden = push_bit (MANT_SIZE f + 3) 1;
                (a_exp, a_mant) = (if a_exp = 0 then (1, a_mant) else (a_exp, a_mant OR hidden));
                (b_exp, b_mant) = (if b_exp = 0 then (1, b_mant) else (b_exp, b_mant OR hidden));
                b_mant = rshift_rnd b_mant (a_exp - b_exp);
                (a_sign, a_mant) =
                  (if a_sign = b_sign then (a_sign, a_mant + b_mant)
                   else (let d = a_mant - b_mant in (if d = 0 then b2w (rm = RM_RDN) else a_sign, d)))
            in normalize f a_sign (a_exp + (int (RND_SIZE f) - 3)) a_mant rm fl))"

definition fsub :: "fpfmt \<Rightarrow> 'a::len word \<Rightarrow> 'a word \<Rightarrow> u32 \<Rightarrow> u32 \<Rightarrow> 'a word \<times> u32" where
  "fsub f a b rm fl = fadd f a (b XOR SIGN_MASK f) rm fl"

definition mul_u :: "'a::len word \<Rightarrow> 'a word \<Rightarrow> 'a word \<times> 'a word" where
  "mul_u a b = (let r = unat a * unat b in (of_nat (r div 2 ^ LENGTH('a)), of_nat r))"

definition fmul :: "fpfmt \<Rightarrow> 'a::len word \<Rightarrow> 'a word \<Rightarrow> u32 \<Rightarrow> u32 \<Rightarrow> 'a word \<times> u32" where
  "fmul f a b rm fl =
     (let r_sign = sign_of f a XOR sign_of f b;
          a_exp = exp_of f a;
          b_exp = exp_of f b
      in if a_exp = EXP_MASK f \<or> b_exp = EXP_MASK f then
           (if is_nan f a \<or> is_nan f b then
              (QNAN f, if is_signan f a \<or> is_signan f b then fl OR FFLAG_INVALID_OP else fl)
            else if (a_exp = EXP_MASK f \<and> is_zero f b) \<or> (b_exp = EXP_MASK f \<and> is_zero f a)
            then (QNAN f, fl OR FFLAG_INVALID_OP)
            else (pack f r_sign (EXP_MASK f) 0, fl))
         else if is_zero f a then (pack f r_sign 0 0, fl)
         else if is_zero f b then (pack f r_sign 0 0, fl)
         else
           (let (a_exp, a_mant) = unpack f a;
                (b_exp, b_mant) = unpack f b;
                r_exp = a_exp + b_exp - 2 ^ (EXP_SIZE f - 1) + 2;
                (r_mant, r_low) = mul_u (push_bit (RND_SIZE f) a_mant) (push_bit (RND_SIZE f + 1) b_mant)
            in normalize f r_sign r_exp (r_mant OR b2w (r_low \<noteq> 0)) rm fl))"

text \<open>Fused multiply-add: the alignment of the smaller operand, then the sum, then one rounding.\<close>

definition fma_align :: "fpfmt \<Rightarrow> int \<Rightarrow> 'a::len word \<Rightarrow> 'a word \<Rightarrow> 'a word \<times> 'a word" where
  "fma_align f shift c1 c0 =
     (let fs = int (F_SIZE f) in
      if shift \<ge> 2 * fs then (0, b2w (c0 OR c1 \<noteq> 0))
      else if shift > fs then (0, rshift_rnd c1 (shift - fs))
      else if shift = fs then (0, c1 OR b2w (c0 \<noteq> 0))
      else if shift \<noteq> 0 then
        (let mask = shl 1 shift - 1
         in (shr c1 shift, (shl c1 (fs - shift) OR shr c0 shift) OR b2w (c0 AND mask \<noteq> 0)))
      else (c1, c0))"

definition fma_sum :: "fpfmt \<Rightarrow> u32 \<Rightarrow> int \<Rightarrow> 'a::len word \<Rightarrow> 'a word \<Rightarrow> u32 \<Rightarrow> int \<Rightarrow> 'a word
    \<Rightarrow> u32 \<Rightarrow> u32 \<Rightarrow> 'a word \<times> u32" where
  "fma_sum f r_sign r_exp r1 r0 c_sign c_exp c1 rm fl =
     (let keep = r_exp > c_exp \<or> (r_exp = c_exp \<and> r1 \<ge> c1);
          (r_sign, r_exp, r1, r0, c_sign, c_exp, c1, c0) =
            (if keep then (r_sign, r_exp, r1, r0, c_sign, c_exp, c1, 0)
             else (c_sign, c_exp, c1, 0, r_sign, r_exp, r1, r0));
          (c1, c0) = fma_align f (r_exp - c_exp) c1 c0
      in if r_sign = c_sign then
           (let s0 = r0 + c0; s1 = r1 + c1 + b2w (s0 < c0)
            in normalize2 f r_sign r_exp s1 s0 rm fl)
         else
           (let s0 = r0 - c0; s1 = r1 - c1 - b2w (s0 > r0);
                sg = (if s0 OR s1 = 0 then b2w (rm = RM_RDN) else r_sign)
            in normalize2 f sg r_exp s1 s0 rm fl))"

definition fma :: "fpfmt \<Rightarrow> 'a::len word \<Rightarrow> 'a word \<Rightarrow> 'a word \<Rightarrow> u32 \<Rightarrow> u32 \<Rightarrow> 'a word \<times> u32" where
  "fma f a b c rm fl =
     (let c_sign = sign_of f c;
          r_sign = sign_of f a XOR sign_of f b;
          a_exp = exp_of f a;
          b_exp = exp_of f b;
          c_exp = exp_of f c
      in if a_exp = EXP_MASK f \<or> b_exp = EXP_MASK f \<or> c_exp = EXP_MASK f then
           (if is_nan f a \<or> is_nan f b \<or> is_nan f c then
              (QNAN f, if is_signan f a \<or> is_signan f b \<or> is_signan f c
                       then fl OR FFLAG_INVALID_OP else fl)
            else if (a_exp = EXP_MASK f \<and> is_zero f b) \<or> (b_exp = EXP_MASK f \<and> is_zero f a)
              \<or> ((a_exp = EXP_MASK f \<or> b_exp = EXP_MASK f) \<and> (c_exp = EXP_MASK f \<and> r_sign \<noteq> c_sign))
            then (QNAN f, fl OR FFLAG_INVALID_OP)
            else if c_exp = EXP_MASK f then (pack f c_sign (EXP_MASK f) 0, fl)
            else (pack f r_sign (EXP_MASK f) 0, fl))
         else if is_zero f a \<or> is_zero f b then
           (if is_zero f c then (pack f (if c_sign \<noteq> r_sign then b2w (rm = RM_RDN) else r_sign) 0 0, fl)
            else (c, fl))
         else
           (let (a_exp, a_mant) = unpack f a;
                (b_exp, b_mant) = unpack f b;
                r_exp = a_exp + b_exp - 2 ^ (EXP_SIZE f - 1) + 3;
                (r1, r0) = mul_u (push_bit (RND_SIZE f) a_mant) (push_bit (RND_SIZE f) b_mant);
                (r1, r0, r_exp) =
                  (if r1 < push_bit (F_SIZE f - 3) 1
                   then (push_bit 1 r1 OR drop_bit (F_SIZE f - 1) r0, push_bit 1 r0, r_exp - 1)
                   else (r1, r0, r_exp))
            in if is_zero f c then normalize f r_sign r_exp (r1 OR b2w (r0 \<noteq> 0)) rm fl
               else
                 (let (c_exp, c_mant) = unpack f c
                  in fma_sum f r_sign r_exp r1 r0 c_sign (c_exp + 1) (push_bit (RND_SIZE f - 1) c_mant) rm fl)))"

definition divrem_u :: "'a::len word \<Rightarrow> 'a word \<Rightarrow> 'a word \<Rightarrow> 'a word \<times> 'a word" where
  "divrem_u ah al b =
     (let a = unat ah * 2 ^ LENGTH('a) + unat al
      in (of_nat (a div unat b), of_nat (a mod unat b)))"

definition fdiv :: "fpfmt \<Rightarrow> 'a::len word \<Rightarrow> 'a word \<Rightarrow> u32 \<Rightarrow> u32 \<Rightarrow> 'a word \<times> u32" where
  "fdiv f a b rm fl =
     (let r_sign = sign_of f a XOR sign_of f b;
          a_exp = exp_of f a;
          b_exp = exp_of f b
      in if a_exp = EXP_MASK f then
           (if mant_of f a \<noteq> 0 \<or> is_nan f b then
              (QNAN f, if is_signan f a \<or> is_signan f b then fl OR FFLAG_INVALID_OP else fl)
            else if b_exp = EXP_MASK f then (QNAN f, fl OR FFLAG_INVALID_OP)
            else (pack f r_sign (EXP_MASK f) 0, fl))
         else if b_exp = EXP_MASK f then
           (if mant_of f b \<noteq> 0 then
              (QNAN f, if is_signan f a \<or> is_signan f b then fl OR FFLAG_INVALID_OP else fl)
            else (pack f r_sign 0 0, fl))
         else if is_zero f b then
           (if is_zero f a then (QNAN f, fl OR FFLAG_INVALID_OP)
            else (pack f r_sign (EXP_MASK f) 0, fl OR FFLAG_DIVIDE_ZERO))
         else if is_zero f a then (pack f r_sign 0 0, fl)
         else
           (let (b_exp, b_mant) = unpack f b;
                (a_exp, a_mant) = unpack f a;
                r_exp = a_exp - b_exp + 2 ^ (EXP_SIZE f - 1) - 1;
                (r_mant, rem_r) = divrem_u a_mant 0 (push_bit 2 b_mant)
            in normalize f r_sign r_exp (if rem_r \<noteq> 0 then r_mant OR 1 else r_mant) rm fl))"

section \<open>Square root\<close>

text \<open>The Newton loop of \<open>sqrtrem_u\<close> on the double-width value.\<close>

function newton :: "nat \<Rightarrow> nat \<Rightarrow> nat" where
  "newton a s = (let u = (a div s + s) div 2 in if u \<ge> s then s else newton a u)"
  by pat_completeness auto
termination by (relation "measure snd") auto

declare newton.simps [simp del]

definition sqrtrem_u :: "'a::len word \<Rightarrow> 'a word \<Rightarrow> 'a word \<times> bool" where
  "sqrtrem_u ah al =
     (if ah = 0 \<and> al = 0 then (0, False)
      else
        (let a = unat ah * 2 ^ LENGTH('a) + unat al;
             l = (if ah \<noteq> 0 then 2 * int LENGTH('a) - leading_zeros (ah - 1)
                  else int LENGTH('a) - leading_zeros (al - 1));
             s = newton a (2 ^ ((nat l + 1) div 2))
         in (of_nat s, a - s * s \<noteq> 0)))"

definition fsqrt :: "fpfmt \<Rightarrow> 'a::len word \<Rightarrow> u32 \<Rightarrow> u32 \<Rightarrow> 'a word \<times> u32" where
  "fsqrt f a rm fl =
     (let a_sign = sign_of f a;
          a_exp = exp_of f a
      in if a_exp = EXP_MASK f then
           (if mant_of f a \<noteq> 0 then (QNAN f, if is_signan f a then fl OR FFLAG_INVALID_OP else fl)
            else if a_sign \<noteq> 0 then (QNAN f, fl OR FFLAG_INVALID_OP)
            else (a, fl))
         else if a_sign \<noteq> 0 then
           (if is_zero f a then (a, fl) else (QNAN f, fl OR FFLAG_INVALID_OP))
         else if is_zero f a then (pack f 0 0 0, fl)
         else
           (let (a_exp, a_mant) = unpack f a;
                a_exp = a_exp - EXP_MASK f div 2;
                (a_exp, a_mant) = (if odd a_exp then (a_exp - 1, push_bit 1 a_mant) else (a_exp, a_mant));
                a_exp = a_exp div 2 + EXP_MASK f div 2;
                a_mant = push_bit (F_SIZE f - 4 - MANT_SIZE f) a_mant;
                (root, inexact) = sqrtrem_u a_mant 0
            in normalize f a_sign a_exp (if inexact then root OR 1 else root) rm fl))"

section \<open>Minimum, maximum and comparisons\<close>

definition min_max_nan :: "fpfmt \<Rightarrow> 'a::len word \<Rightarrow> 'a word \<Rightarrow> u32 \<Rightarrow> 'a word \<times> u32" where
  "min_max_nan f a b fl =
     (if is_nan f a then (if is_nan f b then QNAN f else b) else a,
      if is_signan f a \<or> is_signan f b then fl OR FFLAG_INVALID_OP else fl)"

definition fmin :: "fpfmt \<Rightarrow> 'a::len word \<Rightarrow> 'a word \<Rightarrow> u32 \<Rightarrow> 'a word \<times> u32" where
  "fmin f a b fl =
     (if is_nan f a \<or> is_nan f b then min_max_nan f a b fl
      else
        (let a_sign = sign_of f a; b_sign = sign_of f b
         in if a_sign \<noteq> b_sign then (if a_sign \<noteq> 0 then a else b, fl)
            else if b2w (a < b) XOR a_sign \<noteq> 0 then (a, fl) else (b, fl)))"

definition fmax :: "fpfmt \<Rightarrow> 'a::len word \<Rightarrow> 'a word \<Rightarrow> u32 \<Rightarrow> 'a word \<times> u32" where
  "fmax f a b fl =
     (if is_nan f a \<or> is_nan f b then min_max_nan f a b fl
      else
        (let a_sign = sign_of f a; b_sign = sign_of f b
         in if a_sign \<noteq> b_sign then (if a_sign \<noteq> 0 then b else a, fl)
            else if b2w (a < b) XOR a_sign \<noteq> 0 then (b, fl) else (a, fl)))"

definition eq_quiet :: "fpfmt \<Rightarrow> 'a::len word \<Rightarrow> 'a word \<Rightarrow> u32 \<Rightarrow> bool \<times> u32" where
  "eq_quiet f a b fl =
     (if is_nan f a \<or> is_nan f b then
        (False, if is_signan f a \<or> is_signan f b then fl OR FFLAG_INVALID_OP else fl)
      else if push_bit 1 (a OR b) = 0 then (True, fl)
      else (a = b, fl))"

definition fle :: "fpfmt \<Rightarrow> 'a::len word \<Rightarrow> 'a word \<Rightarrow> u32 \<Rightarrow> bool \<times> u32" where
  "fle f a b fl =
     (if is_nan f a \<or> is_nan f b then (False, fl OR FFLAG_INVALID_OP)
      else
        (let a_sign = drop_bit (F_SIZE f - 1) a; b_sign = drop_bit (F_SIZE f - 1) b
         in (if a_sign \<noteq> b_sign then a_sign \<noteq> 0 \<or> push_bit 1 (a OR b) = 0
             else if a_sign \<noteq> 0 then a \<ge> b else a \<le> b, fl)))"

definition flt :: "fpfmt \<Rightarrow> 'a::len word \<Rightarrow> 'a word \<Rightarrow> u32 \<Rightarrow> bool \<times> u32" where
  "flt f a b fl =
     (if is_nan f a \<or> is_nan f b then (False, fl OR FFLAG_INVALID_OP)
      else
        (let a_sign = drop_bit (F_SIZE f - 1) a; b_sign = drop_bit (F_SIZE f - 1) b
         in (if a_sign \<noteq> b_sign then a_sign \<noteq> 0 \<and> push_bit 1 (a OR b) \<noteq> 0
             else if a_sign \<noteq> 0 then a > b else a < b, fl)))"

definition fclass :: "fpfmt \<Rightarrow> 'a::len word \<Rightarrow> u32" where
  "fclass f a =
     (let a_sign = sign_of f a; a_exp = exp_of f a; a_mant = mant_of f a
      in if a_exp = EXP_MASK f then
           (if a_mant \<noteq> 0 then (if a_mant AND QNAN_MASK f \<noteq> 0 then push_bit 9 1 else push_bit 8 1)
            else if a_sign \<noteq> 0 then push_bit 0 1 else push_bit 7 1)
         else if a_exp = 0 then
           (if a_mant = 0 then (if a_sign \<noteq> 0 then push_bit 3 1 else push_bit 4 1)
            else if a_sign \<noteq> 0 then push_bit 2 1 else push_bit 5 1)
         else if a_sign \<noteq> 0 then push_bit 1 1 else push_bit 6 1)"

section \<open>Conversions\<close>

text \<open>Float to integer; the result type \<open>'i\<close> is \<^verbatim>\<open>u32\<close> or \<^verbatim>\<open>u64\<close> (macro \<^verbatim>\<open>cvt_f_to_i!\<close>).\<close>

definition cvt_to_i :: "fpfmt \<Rightarrow> 'a::len word \<Rightarrow> u32 \<Rightarrow> u32 \<Rightarrow> bool \<Rightarrow> 'i::len word \<times> u32" where
  "cvt_to_i f a rm fl uns =
     (let isz = int LENGTH('i);
          a_exp0 = exp_of f a;
          a_sign = (if a_exp0 = EXP_MASK f \<and> mant_of f a \<noteq> 0 then 0 else sign_of f a);
          (a_exp, a_mant) =
            (if a_exp0 = 0 then (1, mant_of f a) else (a_exp0, mant_of f a OR push_bit (MANT_SIZE f) 1));
          a_mant = push_bit (RND_SIZE f) a_mant;
          a_exp = a_exp - EXP_MASK f div 2 - int (MANT_SIZE f);
          r_max = (if uns then ucast a_sign - 1
                   else push_bit (LENGTH('i) - 1) 1 - ucast (a_sign XOR 1)) :: 'i word
      in if a_exp \<ge> 0 then
           (if a_exp \<le> isz - 1 - int (MANT_SIZE f) then
              (let r = shl (ucast (drop_bit (RND_SIZE f) a_mant)) a_exp
               in if r > r_max then (r_max, fl OR FFLAG_INVALID_OP)
                  else (if a_sign \<noteq> 0 then - r else r, fl))
            else (r_max, fl OR FFLAG_INVALID_OP))
         else
           (let a_mant = rshift_rnd a_mant (- a_exp);
                addend = rnd_addend f a_sign rm;
                rnd_bits = a_mant AND (push_bit (RND_SIZE f) 1 - 1);
                a_mant = drop_bit (RND_SIZE f) (a_mant + addend);
                a_mant = (if rm = RM_RNE \<and> rnd_bits = push_bit (RND_SIZE f - 1) 1
                          then a_mant AND NOT 1 else a_mant)
            in if unat a_mant > unat r_max then (r_max, fl OR FFLAG_INVALID_OP)
               else
                 (let r = ucast a_mant
                  in (if a_sign \<noteq> 0 then - r else r,
                      if rnd_bits \<noteq> 0 then fl OR FFLAG_INEXACT else fl))))"

text \<open>Integer to float (macro \<^verbatim>\<open>cvt_i_to_f!\<close>).\<close>

definition cvt_from_i :: "fpfmt \<Rightarrow> 'i::len word \<Rightarrow> u32 \<Rightarrow> u32 \<Rightarrow> bool \<Rightarrow> 'a::len word \<times> u32" where
  "cvt_from_i f a rm fl uns =
     (let neg = \<not> uns \<and> sint a < 0;
          a_sign = b2w neg;
          r = (if neg then - a else a);
          a_exp = EXP_MASK f div 2 + int (F_SIZE f) - 2;
          l = int LENGTH('i) - (if r = 0 then int LENGTH('i) else leading_zeros r) - (int (F_SIZE f) - 1);
          (r, a_exp) =
            (if l > 0 then
               (let mask = shl 1 l - 1 in (shr r l OR b2w (r AND mask \<noteq> 0), a_exp + l))
             else (r, a_exp))
      in normalize f a_sign a_exp (ucast r) rm fl)"

definition cvt_sf32_sf64 :: "u32 \<Rightarrow> u32 \<Rightarrow> u64 \<times> u32" where
  "cvt_sf32_sf64 a fl =
     (let a_sign = ucast (drop_bit 31 a) :: u64;
          a_exp = drop_bit 23 a AND 0xff;
          a_mant = a AND 0x7fffff
      in if a_exp = 0xff then
           (if a_mant \<noteq> 0 then (QNAN sf64, if is_signan sf32 a then fl OR FFLAG_INVALID_OP else fl)
            else (push_bit 63 a_sign OR push_bit 52 0x7ff, fl))
         else if a_exp = 0 then
           (if a_mant = 0 then (push_bit 63 a_sign, fl)
            else
              (let shift = 23 - (31 - leading_zeros a_mant);
                   mant = shl a_mant shift AND 0x7fffff;
                   e = word_of_int (1 - shift - 0x7f + 0x3ff) :: u64
               in (push_bit 63 a_sign OR push_bit 52 e OR push_bit 29 (ucast mant), fl)))
         else
           (let e = ucast (a_exp - 0x7f + 0x3ff) :: u64
            in (push_bit 63 a_sign OR push_bit 52 e OR push_bit 29 (ucast a_mant), fl)))"

definition rshift_rnd_u64 :: "u64 \<Rightarrow> int \<Rightarrow> u64" where
  "rshift_rnd_u64 a d =
     (if d = 0 then a
      else if d \<ge> 64 then b2w (a \<noteq> 0)
      else (let mask = shl 1 d - 1 in shr a d OR b2w (a AND mask \<noteq> 0)))"

text \<open>The local copy of \<open>round_pack\<close> for \<^verbatim>\<open>f32\<close>, with its constants written out.\<close>

definition round_pack_sf32 :: "u32 \<Rightarrow> int \<Rightarrow> u32 \<Rightarrow> u32 \<Rightarrow> u32 \<Rightarrow> u32 \<times> u32" where
  "round_pack_sf32 sign exp mant rm fl =
     (let addend =
            (if rm = RM_RNE \<or> rm = RM_RMM then push_bit 6 1
             else if rm = RM_RTZ then 0
             else if sign XOR (rm AND 1) \<noteq> 0 then push_bit 7 1 - 1 else 0);
          (mant, rnd_bits, fl, exp) =
            (if exp \<le> 0 then
               (let is_subnormal = exp < 0 \<or> mant + addend < push_bit 31 1;
                    mant = ucast (rshift_rnd_u64 (ucast mant) (1 - exp));
                    rnd_bits = mant AND (push_bit 7 1 - 1)
                in (mant, rnd_bits,
                    if is_subnormal \<and> rnd_bits \<noteq> 0 then fl OR FFLAG_UNDERFLOW else fl, 1))
             else (mant, mant AND (push_bit 7 1 - 1), fl, exp));
          fl = (if rnd_bits \<noteq> 0 then fl OR FFLAG_INEXACT else fl);
          mant = drop_bit 7 (mant + addend);
          mant = (if rm = RM_RNE \<and> rnd_bits = push_bit 6 1 then mant AND NOT 1 else mant);
          exp = exp + uint (drop_bit (23 + 1) mant)
      in if mant \<le> push_bit 23 1 - 1 then (pack sf32 sign 0 mant, fl)
         else if exp \<ge> 0xff then
           (if addend = 0 then pack sf32 sign (0xff - 1) (push_bit 23 1 - 1) else pack sf32 sign 0xff 0,
            fl OR (FFLAG_OVERFLOW OR FFLAG_INEXACT))
         else (pack sf32 sign exp mant, fl))"

definition normalize_sf32_from :: "u32 \<Rightarrow> int \<Rightarrow> u32 \<Rightarrow> u32 \<Rightarrow> u32 \<Rightarrow> u32 \<times> u32" where
  "normalize_sf32_from sign exp mant rm fl =
     (let shift = leading_zeros mant - 1
      in round_pack_sf32 sign (exp - shift) (shl mant shift) rm fl)"

definition cvt_sf64_sf32 :: "u64 \<Rightarrow> u32 \<Rightarrow> u32 \<Rightarrow> u32 \<times> u32" where
  "cvt_sf64_sf32 a rm fl =
     (let a_sign = ucast (drop_bit 63 a) :: u32;
          a_exp = uint (drop_bit 52 a AND 0x7ff);
          a_mant = a AND 0xfffffffffffff
      in if a_exp = 0x7ff then
           (if a_mant \<noteq> 0 then (QNAN sf32, if is_signan sf64 a then fl OR FFLAG_INVALID_OP else fl)
            else (pack sf32 a_sign 0xff 0, fl))
         else if a_exp = 0 \<and> a_mant = 0 then (pack sf32 a_sign 0 0, fl)
         else
           (let (a_exp, a_mant) =
                  (if a_exp = 0 then
                     (let shift = 52 - (63 - leading_zeros a_mant) in (1 - shift, shl a_mant shift))
                   else (a_exp, a_mant OR push_bit 52 1));
                exp32 = a_exp - 0x3ff + 0x7f;
                mant = rshift_rnd_u64 a_mant (52 - 30)
            in normalize_sf32_from a_sign exp32 (ucast mant) rm fl))"

end
