(* ===== verification/SoftFpSpec.thy ===== *)
theory SoftFpSpec
  imports SoftFp
begin

unbundle bit_operations_syntax

text \<open>
  What the software floating point computes: the number a bit pattern stands for (as a multiple of the
  smallest subnormal, an integer), the order of the comparisons and of minimum and maximum on it, the
  square root loop, and the agreement of the two copies of the rounding step.
\<close>

section \<open>Bit patterns as numbers\<close>

text \<open>A format whose fields fill the words of a type.\<close>

definition fits :: "fpfmt \<Rightarrow> 'a::len itself \<Rightarrow> bool" where
  "fits f T \<longleftrightarrow> F_SIZE f = LENGTH('a) \<and> F_SIZE f = 1 + EXP_SIZE f + MANT_SIZE f \<and> 2 \<le> MANT_SIZE f
     \<and> 2 \<le> EXP_SIZE f \<and> EXP_SIZE f < 30"

lemma fits_sf32: "fits sf32 TYPE(32)"
  by (simp add: fits_def sf32_def)

lemma fits_sf64: "fits sf64 TYPE(64)"
  by (simp add: fits_def sf64_def)

text \<open>The magnitude of a pattern without its sign, in units of the smallest subnormal.\<close>

definition mag :: "fpfmt \<Rightarrow> nat \<Rightarrow> nat" where
  "mag f n = (let e = n div 2 ^ MANT_SIZE f; m = n mod 2 ^ MANT_SIZE f
              in if e = 0 then m else (2 ^ MANT_SIZE f + m) * 2 ^ (e - 1))"

definition abs_bits :: "fpfmt \<Rightarrow> 'a::len word \<Rightarrow> nat" where
  "abs_bits f a = unat a mod 2 ^ (F_SIZE f - 1)"

definition fvalue :: "fpfmt \<Rightarrow> 'a::len word \<Rightarrow> int" where
  "fvalue f a = (if bit a (F_SIZE f - 1) then - int (mag f (abs_bits f a)) else int (mag f (abs_bits f a)))"

lemma mag_0 [simp]: "mag f 0 = 0"
  by (simp add: mag_def)

lemma mag_Suc: "mag f n < mag f (Suc n)"
proof -
  let ?M = "2 ^ MANT_SIZE f :: nat"
  have M: "0 < ?M" by simp
  show ?thesis
  proof (cases "Suc n mod ?M = 0")
    case True
    then have d: "Suc n div ?M = Suc (n div ?M)" "n mod ?M = ?M - 1"
      by (auto simp: div_Suc mod_Suc split: if_splits)
    show ?thesis
    proof (cases "n div ?M")
      case 0 then show ?thesis using True d M unfolding mag_def Let_def by simp
    next
      case (Suc k)
      have "?M + (?M - 1) < 2 * ?M" using M by linarith
      then have "(?M + (?M - 1)) * 2 ^ k < (2 * ?M) * 2 ^ k" by (rule mult_strict_right_mono) simp
      then have "(?M + (?M - 1)) * 2 ^ k < ?M * (2 * 2 ^ k)" by (simp only: mult_ac)
      then show ?thesis using True d Suc M unfolding mag_def Let_def by simp
    qed
  next
    case False
    then have d: "Suc n div ?M = n div ?M" "Suc n mod ?M = Suc (n mod ?M)"
      by (auto simp: div_Suc mod_Suc split: if_splits)
    then show ?thesis unfolding mag_def Let_def by simp
  qed
qed

lemma mag_less_iff [simp]: "mag f m < mag f n \<longleftrightarrow> m < n"
  using strict_mono_less[of "mag f"] strict_mono_Suc_iff mag_Suc by metis

lemma mag_le_iff [simp]: "mag f m \<le> mag f n \<longleftrightarrow> m \<le> n"
  using mag_less_iff[of f n m] by linarith

lemma mag_eq_iff [simp]: "mag f m = mag f n \<longleftrightarrow> m = n"
  using mag_le_iff by (metis order_antisym order_refl)

text \<open>The sign bit and the rest of a pattern.\<close>

lemma unat_sign_split:
  fixes a :: "'a::len word"
  assumes "n = LENGTH('a) - 1"
  shows "unat a = (if bit a n then 2 ^ n else 0) + unat a mod 2 ^ n"
proof -
  have L: "unat a < 2 * 2 ^ n"
    using unsigned_less[of a] assms by (metis Suc_diff_1 len_gt_0 power_Suc)
  have b: "bit a n = odd (unat a div 2 ^ n)"
    by (simp add: bit_unsigned_iff bit_nat_iff flip: bit_iff_odd [of "unat a"])
  have "unat a div 2 ^ n < 2" using L by (simp add: less_mult_imp_div_less)
  then have "unat a div 2 ^ n = (if bit a n then 1 else 0)"
    using b by (cases "unat a div 2 ^ n"; cases "unat a div 2 ^ n - 1") (auto)
  then show ?thesis using div_mult_mod_eq[of "unat a" "2 ^ n"] by (auto split: if_splits)
qed



definition is_neg :: "fpfmt \<Rightarrow> 'a::len word \<Rightarrow> bool" where
  "is_neg f a \<longleftrightarrow> bit a (F_SIZE f - 1)"

lemma fits_sizes:
  assumes "fits f TYPE('a::len)"
  shows "F_SIZE f - 1 = EXP_SIZE f + MANT_SIZE f" "F_SIZE f = LENGTH('a)"
    "LENGTH('a) = Suc (F_SIZE f - 1)" "F_SIZE f - 1 < LENGTH('a)" "MANT_SIZE f < LENGTH('a)"
  using assms by (auto simp: fits_def)

lemma abs_bits_less: "abs_bits f a < 2 ^ (F_SIZE f - 1)"
  by (simp add: abs_bits_def)

lemma drop_top_bit:
  fixes a :: "'a::len word"
  assumes "LENGTH('a) = Suc n"
  shows "drop_bit n a = b2w (bit a n)" "(ucast (drop_bit n a) :: u32) = b2w (bit a n)"
proof -
  have "unat (drop_bit n a) = unat a div 2 ^ n"
    by (subst unat_drop_bit_eq) (simp add: drop_bit_eq_div)
  moreover have "unat a div 2 ^ n = (if bit a n then 1 else 0)"
  proof -
    have "unat a = (if bit a n then 1 else 0) * 2 ^ n + unat a mod 2 ^ n"
      using unat_sign_split[of n a] unfolding assms by (cases "bit a n") (simp_all only: if_True if_False mult_1 mult_zero_left diff_Suc_1 refl simp_thms)
    then have "unat a div 2 ^ n = ((if bit a n then 1 else 0) * 2 ^ n + unat a mod 2 ^ n) div 2 ^ n"
      by (rule arg_cong)
    then show ?thesis by simp
  qed
  ultimately have u: "unat (drop_bit n a) = (if bit a n then 1 else 0)" by simp
  then show d: "drop_bit n a = b2w (bit a n)" by (auto simp: b2w_def word_unat_eq_iff)
  show "(ucast (drop_bit n a) :: u32) = b2w (bit a n)" unfolding d by (simp add: b2w_def)
qed

lemma sign_of_iff:
  assumes "fits f TYPE('a)"
  shows "sign_of f (a::'a::len word) = b2w (is_neg f a)"
  unfolding sign_of_def is_neg_def using drop_top_bit(2)[OF fits_sizes(3)[OF assms]] .

lemma top_bit_eq:
  assumes "fits f TYPE('a)"
  shows "drop_bit (F_SIZE f - 1) (a::'a::len word) = b2w (is_neg f a)"
  unfolding is_neg_def using drop_top_bit(1)[OF fits_sizes(3)[OF assms]] .

lemma split_bits:
  assumes "fits f TYPE('a)"
  shows "unat (a::'a::len word) = (if is_neg f a then 2 ^ (F_SIZE f - 1) else 0) + abs_bits f a"
  unfolding is_neg_def abs_bits_def by (rule unat_sign_split) (use fits_sizes(3)[OF assms] in simp)

lemma less_by_sign:
  assumes "fits f TYPE('a)"
  shows "(a::'a::len word) < b \<longleftrightarrow>
    (if is_neg f a = is_neg f b then abs_bits f a < abs_bits f b else is_neg f b)"
  using split_bits[OF assms, of a] split_bits[OF assms, of b] abs_bits_less[of f a] abs_bits_less[of f b]
  unfolding word_less_nat_alt by (simp split: if_splits)

lemma eq_by_sign:
  assumes "fits f TYPE('a)"
  shows "(a::'a::len word) = b \<longleftrightarrow> is_neg f a = is_neg f b \<and> abs_bits f a = abs_bits f b"
  using split_bits[OF assms, of a] split_bits[OF assms, of b]
  unfolding is_neg_def abs_bits_def by (metis word_unat_eq_iff)

lemma abs_bits_0_iff:
  "abs_bits f (a::'a::len word) = 0 \<longleftrightarrow> (\<forall>i<F_SIZE f - 1. \<not> bit a i)"
proof -
  have "abs_bits f a = take_bit (F_SIZE f - 1) (unat a)"
    by (simp add: abs_bits_def take_bit_eq_mod)
  then show ?thesis by (auto simp: bit_eq_iff bit_simps)
qed

lemma shifted_or_0_iff:
  assumes "fits f TYPE('a)"
  shows "push_bit 1 ((a::'a::len word) OR b) = 0 \<longleftrightarrow> abs_bits f a = 0 \<and> abs_bits f b = 0"
proof -
  have L: "LENGTH('a) = Suc (F_SIZE f - 1)" by (rule fits_sizes(3)[OF assms])
  have "push_bit 1 (a OR b) = 0 \<longleftrightarrow> (\<forall>i<F_SIZE f - 1. \<not> bit (a OR b) i)"
  proof
    assume h: "push_bit 1 (a OR b) = 0"
    show "\<forall>i<F_SIZE f - 1. \<not> bit (a OR b) i"
    proof (intro allI impI)
      fix i assume "i < F_SIZE f - 1"
      then have "bit (push_bit 1 (a OR b)) (Suc i) = bit (a OR b) i"
        using L unfolding bit_push_bit_iff possible_bit_word by simp linarith
      then show "\<not> bit (a OR b) i" using h by simp
    qed
  next
    assume h: "\<forall>i<F_SIZE f - 1. \<not> bit (a OR b) i"
    show "push_bit 1 (a OR b) = 0"
    proof (rule bit_word_eqI)
      fix i assume "i < LENGTH('a)"
      then have "0 < i \<Longrightarrow> i - 1 < F_SIZE f - 1" using L by linarith
      then show "bit (push_bit 1 (a OR b)) i = bit (0::'a word) i"
        using h unfolding bit_push_bit_iff by (cases i) auto
    qed
  qed
  then show ?thesis unfolding abs_bits_0_iff by (auto simp: bit_simps)
qed

lemma fvalue_neg: "fvalue f a = (if is_neg f a then - int (mag f (abs_bits f a)) else int (mag f (abs_bits f a)))"
  unfolding fvalue_def is_neg_def ..

lemma value_less_iff:
  "fvalue f (a::'a::len word) < fvalue f b \<longleftrightarrow>
    (if is_neg f a = is_neg f b
     then (if is_neg f a then abs_bits f b < abs_bits f a else abs_bits f a < abs_bits f b)
     else is_neg f a \<and> \<not> (abs_bits f a = 0 \<and> abs_bits f b = 0))"
proof -
  have z: "mag f n = 0 \<longleftrightarrow> n = 0" for n using mag_eq_iff[of f n 0] by simp
  show ?thesis unfolding fvalue_neg using z[of "abs_bits f a"] z[of "abs_bits f b"] by auto
qed

lemma value_eq_iff:
  "fvalue f (a::'a::len word) = fvalue f b \<longleftrightarrow>
    abs_bits f a = abs_bits f b \<and> (is_neg f a = is_neg f b \<or> abs_bits f a = 0)"
proof -
  have z: "mag f n = 0 \<longleftrightarrow> n = 0" for n using mag_eq_iff[of f n 0] by simp
  show ?thesis unfolding fvalue_neg using z[of "abs_bits f a"] z[of "abs_bits f b"] by auto
qed

section \<open>Comparisons\<close>

lemma flt_value:
  assumes "fits f TYPE('a)" "\<not> is_nan f (a::'a::len word)" "\<not> is_nan f b"
  shows "flt f a b fl = (fvalue f a < fvalue f b, fl)"
  unfolding flt_def Let_def top_bit_eq[OF assms(1)] shifted_or_0_iff[OF assms(1)] value_less_iff
    less_by_sign[OF assms(1)]
  using assms(2,3) by (auto simp: b2w_def)

lemma fle_value:
  assumes "fits f TYPE('a)" "\<not> is_nan f (a::'a::len word)" "\<not> is_nan f b"
  shows "fle f a b fl = (fvalue f a \<le> fvalue f b, fl)"
  unfolding fle_def Let_def top_bit_eq[OF assms(1)] shifted_or_0_iff[OF assms(1)]
    not_less[symmetric] value_less_iff less_by_sign[OF assms(1)]
  using assms(2,3) by (auto simp: b2w_def)

lemma eq_quiet_value:
  assumes "fits f TYPE('a)" "\<not> is_nan f (a::'a::len word)" "\<not> is_nan f b"
  shows "eq_quiet f a b fl = (fvalue f a = fvalue f b, fl)"
proof -
  have "eq_quiet f a b fl = (if abs_bits f a = 0 \<and> abs_bits f b = 0 then (True, fl) else (a = b, fl))"
    using assms(2,3) unfolding eq_quiet_def shifted_or_0_iff[OF assms(1)] by simp
  then show ?thesis using value_eq_iff[of f a b] eq_by_sign[OF assms(1), of a b] by auto
qed

lemma sign_bit_nonzero: "(b2w p :: 'a::len word) \<noteq> 0 \<longleftrightarrow> p" "(b2w p :: 'a word) \<noteq> b2w q \<longleftrightarrow> p \<noteq> q"
  "(b2w p XOR b2w q :: 'a word) \<noteq> 0 \<longleftrightarrow> p \<noteq> q"
  by (auto simp: b2w_def)

lemma sign_order:
  assumes "fits f TYPE('a)" "fvalue f (a::'a::len word) < fvalue f b"
  shows "if is_neg f a = is_neg f b then (a < b) \<noteq> is_neg f a else is_neg f a"
  using assms(2) unfolding value_less_iff less_by_sign[OF assms(1)] by (auto split: if_splits)

lemma sign_order':
  assumes "fits f TYPE('a)" "fvalue f b < fvalue f (a::'a::len word)"
  shows "\<not> (if is_neg f a = is_neg f b then (a < b) \<noteq> is_neg f a else is_neg f a)"
  using assms(2) unfolding value_less_iff less_by_sign[OF assms(1)] by (auto split: if_splits)

lemma fmin_value:
  assumes "fits f TYPE('a)" "\<not> is_nan f (a::'a::len word)" "\<not> is_nan f b"
  shows "fvalue f (fst (fmin f a b fl)) = min (fvalue f a) (fvalue f b)"
    "fst (fmin f a b fl) \<in> {a, b}" "snd (fmin f a b fl) = fl"
proof -
  have *: "fmin f a b fl = (if (if is_neg f a = is_neg f b then (a < b) \<noteq> is_neg f a else is_neg f a) then a else b, fl)"
    using assms(2,3) unfolding fmin_def Let_def sign_of_iff[OF assms(1)] sign_bit_nonzero by simp
  show "fst (fmin f a b fl) \<in> {a, b}" "snd (fmin f a b fl) = fl" unfolding * by simp_all
  show "fvalue f (fst (fmin f a b fl)) = min (fvalue f a) (fvalue f b)"
    unfolding * using sign_order[OF assms(1), of a b] sign_order'[OF assms(1), of b a]
    by (cases "fvalue f a" "fvalue f b" rule: linorder_cases) simp_all
qed

lemma fmax_value:
  assumes "fits f TYPE('a)" "\<not> is_nan f (a::'a::len word)" "\<not> is_nan f b"
  shows "fvalue f (fst (fmax f a b fl)) = max (fvalue f a) (fvalue f b)"
    "fst (fmax f a b fl) \<in> {a, b}" "snd (fmax f a b fl) = fl"
proof -
  have *: "fmax f a b fl = (if (if is_neg f a = is_neg f b then (a < b) \<noteq> is_neg f a else is_neg f a) then b else a, fl)"
    using assms(2,3) unfolding fmax_def Let_def sign_of_iff[OF assms(1)] sign_bit_nonzero by simp
  show "fst (fmax f a b fl) \<in> {a, b}" "snd (fmax f a b fl) = fl" unfolding * by simp_all
  show "fvalue f (fst (fmax f a b fl)) = max (fvalue f a) (fvalue f b)"
    unfolding * using sign_order[OF assms(1), of a b] sign_order'[OF assms(1), of b a]
    by (cases "fvalue f a" "fvalue f b" rule: linorder_cases) simp_all
qed

section \<open>The square root loop\<close>

lemma newton_bound:
  assumes "a < (Suc s)\<^sup>2"
  shows "(newton a s)\<^sup>2 \<le> a \<and> a < (Suc (newton a s))\<^sup>2"
  using assms
proof (induction a s rule: newton.induct)
  case (1 a s)
  let ?u = "(a div s + s) div 2"
  show ?case
  proof (cases "?u \<ge> s")
    case True
    then have "s \<le> a div s" by linarith
    then have "s * s \<le> a div s * s" by (rule mult_right_mono) simp
    then have "s * s \<le> a" using div_times_less_eq_dividend order_trans by blast
    then show ?thesis using 1 True by (subst (1 2) newton.simps) (simp add: Let_def power2_eq_square)
  next
    case False
    then have s: "0 < s" by (cases s) auto
    let ?q = "a div s"
    have "a < (?q + 1) * s" using s by (metis Suc_eq_plus1 dividend_less_times_div mult.commute mult_Suc_right add.commute)
    moreover have h: "x + 1 + y \<le> 2 * Suc ((x + y) div 2)" for x y :: nat by presburger
    have "(?q + 1 + s)\<^sup>2 \<le> (2 * Suc ?u)\<^sup>2" by (rule power_mono[OF h]) simp
    moreover have "4 * ((?q + 1) * s) \<le> (?q + 1 + s)\<^sup>2"
    proof -
      have "int (4 * ((?q + 1) * s)) \<le> int ((?q + 1 + s)\<^sup>2)"
        using zero_le_power2[of "int (?q + 1) - int s"]
        by (simp add: power2_eq_square algebra_simps)
      then show ?thesis by linarith
    qed
    ultimately have "4 * a < 4 * (Suc ?u)\<^sup>2" by (simp add: power2_eq_square)
    then have "a < (Suc ?u)\<^sup>2" by simp
    then show ?thesis using 1 False by (subst (1 2) newton.simps) (simp add: Let_def)
  qed
qed

lemma bit_len_less: "n < 2 ^ bit_len n"
proof (induction n rule: bit_len.induct)
  case (1 n)
  show ?case
  proof (cases "n = 0")
    case True then show ?thesis by (simp add: bit_len.simps)
  next
    case False
    then have "n div 2 < 2 ^ bit_len (n div 2)" using 1 by blast
    then show ?thesis using False by (subst bit_len.simps) simp
  qed
qed

lemma bit_len_le: "n < 2 ^ k \<Longrightarrow> bit_len n \<le> k"
proof (induction k arbitrary: n)
  case 0 then show ?case by (simp add: bit_len.simps)
next
  case (Suc k)
  then have "n div 2 < 2 ^ k" by simp
  then show ?case using Suc.IH by (subst bit_len.simps) simp
qed

lemma leading_zeros_bit_len:
  "leading_zeros (w::'a::len word) = int (LENGTH('a) - bit_len (unat w))" "bit_len (unat w) \<le> LENGTH('a)"
  using bit_len_le[OF unsigned_less[of w]] by (simp_all add: leading_zeros_def)

text \<open>The loop's first value is above the root, so the loop ends on the root rounded down.\<close>

lemma sqrtrem_root:
  fixes ah :: "'a::len word"
  assumes "unat ah \<le> 2 ^ (LENGTH('a) - 2)" "even LENGTH('a)"
  defines "n \<equiv> unat ah * 2 ^ LENGTH('a)"
  shows "(unat (fst (sqrtrem_u ah 0)))\<^sup>2 \<le> n \<and> n < (Suc (unat (fst (sqrtrem_u ah 0))))\<^sup>2
    \<and> (snd (sqrtrem_u ah 0) \<longleftrightarrow> (unat (fst (sqrtrem_u ah 0)))\<^sup>2 \<noteq> n)"
proof (cases "ah = 0")
  case True then show ?thesis by (simp add: sqrtrem_u_def n_def)
next
  case False
  let ?L = "LENGTH('a)"
  define k where "k = ?L + bit_len (unat (ah - 1))"
  define s where "s = newton n (2 ^ ((k + 1) div 2))"
  have l: "nat (2 * int ?L - leading_zeros (ah - 1)) = k"
    using leading_zeros_bit_len[of "ah - 1"] by (simp add: k_def)
  have eq: "sqrtrem_u ah 0 = (of_nat s, n - s * s \<noteq> 0)"
    using False l by (simp add: sqrtrem_u_def Let_def n_def s_def)
  have "unat ah = Suc (unat (ah - 1))" using False
    by (metis Suc_pred' unat_gt_0 unat_minus_one)
  then have "unat ah \<le> 2 ^ bit_len (unat (ah - 1))" using bit_len_less[of "unat (ah - 1)"] by linarith
  then have "n \<le> 2 ^ k" unfolding n_def k_def power_add by (simp add: mult.commute)
  also have "(2::nat) ^ k \<le> 2 ^ (2 * ((k + 1) div 2))" by (rule power_increasing) auto
  also have "\<dots> = (2 ^ ((k + 1) div 2))\<^sup>2" by (subst mult.commute) (rule power_mult)
  also have "\<dots> < (Suc (2 ^ ((k + 1) div 2)))\<^sup>2" by (rule power_strict_mono) auto
  finally have b: "s\<^sup>2 \<le> n" "n < (Suc s)\<^sup>2" using newton_bound[of n "2 ^ ((k + 1) div 2)"] by (simp_all add: s_def)
  have "n \<le> 2 ^ (?L - 2) * 2 ^ ?L" unfolding n_def using assms(1) by simp
  also have "\<dots> < (2 ^ ?L)\<^sup>2" by (simp add: power2_eq_square) 
  finally have "s\<^sup>2 < (2 ^ ?L)\<^sup>2" using b by linarith
  then have "s < 2 ^ ?L" by (rule power_less_imp_less_base) simp
  then have u: "unat (of_nat s :: 'a word) = s" by (simp add: unat_of_nat take_bit_nat_eq_self)
  show ?thesis using b u by (auto simp: eq power2_eq_square)
qed

section \<open>The two copies of the rounding step\<close>

lemma low_bits: "(a :: 'a::len word) AND (push_bit n 1 - 1) = take_bit n a"
  by (simp add: take_bit_eq_mask mask_eq_exp_minus_1 push_bit_eq_mult)

lemma shift_in_range: "0 \<le> d \<Longrightarrow> d < int LENGTH('a) \<Longrightarrow> shr (a::'a::len word) d = drop_bit (nat d) a"
  "0 \<le> d \<Longrightarrow> d < int LENGTH('a) \<Longrightarrow> shl (a::'a::len word) d = push_bit (nat d) a"
  by (simp_all add: shr_def shl_def)

lemma rshift_rnd_in_range:
  assumes "0 \<le> d" "d < int LENGTH('a)"
  shows "rshift_rnd (a::'a::len word) d = (if d = 0 then a else drop_bit (nat d) a OR b2w (take_bit (nat d) a \<noteq> 0))"
  using assms by (simp only: rshift_rnd_def Let_def shift_in_range low_bits) simp

lemma rshift_rnd_u64_eq: "rshift_rnd_u64 = rshift_rnd"
  by (intro ext) (simp add: rshift_rnd_u64_def rshift_rnd_def)

lemma ucast_or_b2w: "ucast (a OR b2w p :: u64) = (ucast a OR b2w p :: u32)"
  by (rule bit_word_eqI) (auto simp: b2w_def bit_simps)

lemma rshift_copies:
  assumes "0 < d"
  shows "ucast (rshift_rnd_u64 (ucast (m :: u32)) d) = rshift_rnd m d"
proof -
  consider "d < 32" | "32 \<le> d" "d < 64" | "64 \<le> d" by linarith
  then show ?thesis
  proof cases
    case 1
    have t: "take_bit (nat d) (ucast m :: u64) = 0 \<longleftrightarrow> take_bit (nat d) m = 0"
      using 1 assms by (auto simp: bit_eq_iff bit_simps)
    have "ucast (drop_bit (nat d) (ucast m :: u64)) = drop_bit (nat d) m"
      by (rule bit_word_eqI) (auto simp: bit_simps dest: bit_imp_le_length)
    then show ?thesis using 1 assms
      by (simp add: rshift_rnd_u64_eq rshift_rnd_in_range t ucast_or_b2w)
  next
    case 2
    have hi: "n < 32 \<and> n < 64 \<and> n < nat d" if "bit m n" for n using bit_imp_le_length[OF that] 2 by auto
    then have t: "take_bit (nat d) (ucast m :: u64) = 0 \<longleftrightarrow> m = 0"
      using 2 by (auto simp: bit_eq_iff bit_simps)
    have "ucast (drop_bit (nat d) (ucast m :: u64)) = (0 :: u32)"
      by (intro bit_word_eqI) (auto simp: bit_simps dest!: hi)
    then show ?thesis using 2
      by (simp add: rshift_rnd_u64_eq rshift_rnd_in_range t ucast_or_b2w) (simp add: rshift_rnd_def)
  next
    case 3
    have "n < 32 \<and> n < 64" if "bit m n" for n using bit_imp_le_length[OF that] by simp
    then have "(ucast m :: u64) = 0 \<longleftrightarrow> m = 0" by (auto simp: bit_eq_iff bit_simps)
    then show ?thesis using 3 assms by (simp add: rshift_rnd_u64_def rshift_rnd_def b2w_def)
  qed
qed

lemma sf32_sizes: "RND_SIZE sf32 = 7" "MANT_SIZE sf32 = 23" "F_SIZE sf32 = 32" "EXP_MASK sf32 = 0xff"
  "MANT_MASK sf32 = (push_bit 23 1 - 1 :: u32)" "IMANT_SIZE sf32 = 30"
  by (simp_all add: RND_SIZE_def IMANT_SIZE_def sf32_def EXP_MASK_def MANT_MASK_def)

lemma round_pack_copies: "round_pack_sf32 sign exp mant rm fl = round_pack sf32 sign exp mant rm fl"
proof -
  have ar: "(7::nat) - 1 = 6" "(32::nat) - 1 = 31" by simp_all
  show ?thesis
  proof (cases "exp \<le> 0")
    case True
    then have "ucast (rshift_rnd_u64 (ucast mant) (1 - exp)) = rshift_rnd mant (1 - exp)"
      by (intro rshift_copies) simp
    then show ?thesis using True
      unfolding round_pack_sf32_def round_pack_def rnd_addend_def sf32_sizes ar
      by (simp only: if_True Let_def[of "push_bit 7 1 - 1 :: u32"])
  next
    case False
    then show ?thesis
      unfolding round_pack_sf32_def round_pack_def rnd_addend_def sf32_sizes ar
      by (simp only: if_False Let_def[of "push_bit 7 1 - 1 :: u32"])
  qed
qed

lemma normalize_copies: "normalize_sf32_from sign exp mant rm fl = normalize sf32 sign exp mant rm fl"
  by (simp add: normalize_sf32_from_def normalize_def round_pack_copies sf32_sizes)

section \<open>Classification\<close>

lemma exp_of_unat:
  assumes "fits f TYPE('a)"
  shows "exp_of f (a::'a::len word) = int (abs_bits f a div 2 ^ MANT_SIZE f)"
proof -
  have M: "(word_of_int (EXP_MASK f) :: u32) = mask (EXP_SIZE f)"
    by (simp add: EXP_MASK_def mask_eq_exp_minus_1)
  have E: "EXP_SIZE f < 32" using assms by (simp add: fits_def)
  have "uint (ucast (drop_bit (MANT_SIZE f) a) AND (word_of_int (EXP_MASK f) :: u32))
      = uint (take_bit (EXP_SIZE f) (ucast (drop_bit (MANT_SIZE f) a) :: u32))"
    by (simp only: M take_bit_eq_mask)
  also have "\<dots> = take_bit (EXP_SIZE f) (drop_bit (MANT_SIZE f) (uint a))"
    using E by (auto simp: bit_eq_iff bit_simps)
  also have "\<dots> = int (take_bit (EXP_SIZE f) (drop_bit (MANT_SIZE f) (unat a)))"
    by (simp add: of_nat_take_bit of_nat_drop_bit)
  also have "take_bit (EXP_SIZE f) (drop_bit (MANT_SIZE f) (unat a))
      = drop_bit (MANT_SIZE f) (take_bit (EXP_SIZE f + MANT_SIZE f) (unat a))"
    by (auto simp: bit_eq_iff bit_simps)
  also have "\<dots> = abs_bits f a div 2 ^ MANT_SIZE f"
    by (simp add: abs_bits_def fits_sizes(1)[OF assms, simplified] drop_bit_eq_div take_bit_eq_mod)
  finally show ?thesis unfolding exp_of_def .
qed

lemma mant_of_unat:
  assumes "fits f TYPE('a)"
  shows "unat (mant_of f (a::'a::len word)) = abs_bits f a mod 2 ^ MANT_SIZE f"
proof -
  have "mant_of f a = take_bit (MANT_SIZE f) a"
    unfolding mant_of_def MANT_MASK_def low_bits ..
  then have "unat (mant_of f a) = take_bit (MANT_SIZE f) (unat a)" by (simp add: unsigned_take_bit_eq)
  also have "\<dots> = abs_bits f a mod 2 ^ MANT_SIZE f"
    unfolding abs_bits_def take_bit_eq_mod fits_sizes(1)[OF assms]
    by (simp add: mod_mod_cancel le_imp_power_dvd)
  finally show ?thesis .
qed

section \<open>Properties\<close>

lemmas fp_eval = is_nan_def exp_of_def mant_of_def EXP_MASK_def MANT_MASK_def sf32_def sf64_def

text \<open>
  Property C37. The three comparisons agree with the order of the numbers: for operands that are not NaN,
  \<open>flt\<close>, \<open>fle\<close> and \<open>eq_quiet\<close> decide less, at most and equal of the values the patterns stand for
  (so the two zeros are equal), and raise no flag.
\<close>

theorem float_compare:
  assumes "fits f TYPE('a)" "\<not> is_nan f (a::'a::len word)" "\<not> is_nan f b"
  shows "flt f a b fl = (fvalue f a < fvalue f b, fl) \<and> fle f a b fl = (fvalue f a \<le> fvalue f b, fl)
    \<and> eq_quiet f a b fl = (fvalue f a = fvalue f b, fl)"
  by (intro conjI flt_value fle_value eq_quiet_value assms)

lemma float_compare_witness:
  "flt sf32 (0xBF800000 :: u32) 0x80000000 0 = (True, 0)"
proof -
  have n: "\<not> is_nan sf32 (0xBF800000 :: u32)" "\<not> is_nan sf32 (0x80000000 :: u32)"
    by (simp_all add: fp_eval)
  have v: "fvalue sf32 (0xBF800000 :: u32) < fvalue sf32 (0x80000000 :: u32)"
    by (simp add: fvalue_def abs_bits_def mag_def Let_def sf32_def bit_iff_odd_drop_bit)
  show ?thesis using float_compare[OF fits_sf32 n, of 0] v by simp
qed

text \<open>
  Minimum and maximum of two operands that are not NaN return one of the operands, whose
  value is the smaller or the larger one, and raise no flag.
\<close>

theorem float_min_max:
  assumes "fits f TYPE('a)" "\<not> is_nan f (a::'a::len word)" "\<not> is_nan f b"
  shows "fvalue f (fst (fmin f a b fl)) = min (fvalue f a) (fvalue f b) \<and> fst (fmin f a b fl) \<in> {a, b}
    \<and> fvalue f (fst (fmax f a b fl)) = max (fvalue f a) (fvalue f b) \<and> fst (fmax f a b fl) \<in> {a, b}
    \<and> snd (fmin f a b fl) = fl \<and> snd (fmax f a b fl) = fl"
  by (intro conjI fmin_value fmax_value assms)

lemma float_min_max_witness:
  "fst (fmin sf32 (0x80000000 :: u32) 0xBF800000 0) \<in> {0x80000000, 0xBF800000}"
proof -
  have n: "\<not> is_nan sf32 (0x80000000 :: u32)" "\<not> is_nan sf32 (0xBF800000 :: u32)"
    by (simp_all add: fp_eval)
  show ?thesis using float_min_max[OF fits_sf32 n, of 0] by blast
qed

text \<open>
  Property C35. The square root loop terminates on the exact root: for a radicand \<open>ah\<close> in the range of its
  caller, the root is the integer square root of \<open>ah * 2^LENGTH('a)\<close>, and the second component tells
  whether the root is inexact.
\<close>

theorem sqrt_loop_exact:
  fixes ah :: "'a::len word"
  assumes "unat ah \<le> 2 ^ (LENGTH('a) - 2)" "even LENGTH('a)"
  shows "(unat (fst (sqrtrem_u ah 0)))\<^sup>2 \<le> unat ah * 2 ^ LENGTH('a)
    \<and> unat ah * 2 ^ LENGTH('a) < (Suc (unat (fst (sqrtrem_u ah 0))))\<^sup>2
    \<and> (snd (sqrtrem_u ah 0) \<longleftrightarrow> (unat (fst (sqrtrem_u ah 0)))\<^sup>2 \<noteq> unat ah * 2 ^ LENGTH('a))"
  by (rule sqrtrem_root[OF assms])

lemma sqrt_loop_exact_witness:
  "(unat (fst (sqrtrem_u (2 :: u32) 0)))\<^sup>2 \<le> 2 * 2 ^ 32"
proof -
  have "unat (2 :: u32) \<le> 2 ^ (LENGTH(32) - 2)" "even LENGTH(32)" by simp_all
  from sqrt_loop_exact[OF this] show ?thesis by simp
qed

text \<open>
  Property C36. The narrowing conversion's local copies of the shift, the rounding step and the
  normalisation agree with the generic ones on every input (the source keeps them in sync by hand).
\<close>

theorem rounding_copies_in_sync:
  "rshift_rnd_u64 a d = rshift_rnd a d
    \<and> round_pack_sf32 sign exp mant rm fl = round_pack sf32 sign exp mant rm fl
    \<and> normalize_sf32_from sign exp mant rm fl = normalize sf32 sign exp mant rm fl"
  by (simp add: rshift_rnd_u64_eq round_pack_copies normalize_copies)

end
