(* ===== verification/Exceptions.thy ===== *)
theory Exceptions
  imports Prelude
begin

text \<open>
  The synchronous exceptions of \<^verbatim>\<open>crates/rv64-core/src/exception.rs\<close> and their \<open>mcause\<close> codes.
\<close>

datatype exception =
    InstructionAddressMisaligned u64
  | InstructionAccessFault u64
  | IllegalInstruction u32
  | Breakpoint
  | LoadAddressMisaligned u64
  | LoadAccessFault u64
  | StoreAddressMisaligned u64
  | StoreAccessFault u64
  | EnvironmentCallFromUMode
  | EnvironmentCallFromSMode
  | EnvironmentCallFromMMode
  | InstructionPageFault u64
  | LoadPageFault u64
  | StorePageFault u64

fun cause :: "exception \<Rightarrow> u64" where
  "cause (InstructionAddressMisaligned _) = 0"
| "cause (InstructionAccessFault _) = 1"
| "cause (IllegalInstruction _) = 2"
| "cause Breakpoint = 3"
| "cause (LoadAddressMisaligned _) = 4"
| "cause (LoadAccessFault _) = 5"
| "cause (StoreAddressMisaligned _) = 6"
| "cause (StoreAccessFault _) = 7"
| "cause EnvironmentCallFromUMode = 8"
| "cause EnvironmentCallFromSMode = 9"
| "cause EnvironmentCallFromMMode = 11"
| "cause (InstructionPageFault _) = 12"
| "cause (LoadPageFault _) = 13"
| "cause (StorePageFault _) = 15"

text \<open>No code is one of the reserved values, and every code fits the four bits the counters index.\<close>

lemma cause_bound: "cause e < 16" and cause_reserved: "cause e \<noteq> 10" "cause e \<noteq> 14"
  by (cases e; simp)+

type_synonym ('s, 'a) exec = "(exception, 's, 'a) mon"

end
