(* ===== verification/Bus.thy ===== *)
theory Bus
  imports Exceptions
begin

unbundle bit_operations_syntax

text \<open>
  The memory interface of \<^verbatim>\<open>crates/rv64-core/src/bus.rs\<close>. The trait \<^verbatim>\<open>Bus\<close> is a record of
  operations on a bus state (\<open>bus_ops\<close>), the argument that every operation of the hart takes; its
  default methods are definitions. \<^verbatim>\<open>FlatMemory\<close> is modelled whole. The locale \<open>byte_bus\<close> states
  what the hart relies on: which 8-byte words can be read, that reading is repeatable and that a
  write changes one aligned word.
\<close>

section \<open>The trait\<close>

record 'b bus_ops =
  read8 :: "u64 \<Rightarrow> ('b, u8) exec"
  read16 :: "u64 \<Rightarrow> ('b, u16) exec"
  read32 :: "u64 \<Rightarrow> ('b, u32) exec"
  read64 :: "u64 \<Rightarrow> ('b, u64) exec"
  write8 :: "u64 \<Rightarrow> u8 \<Rightarrow> ('b, unit) exec"
  write16 :: "u64 \<Rightarrow> u16 \<Rightarrow> ('b, unit) exec"
  write32 :: "u64 \<Rightarrow> u32 \<Rightarrow> ('b, unit) exec"
  write64 :: "u64 \<Rightarrow> u64 \<Rightarrow> ('b, unit) exec"
  jit_fast_off :: "u64 \<Rightarrow> u64 \<Rightarrow> bool \<Rightarrow> 'b \<Rightarrow> i64 option"
  fetch16 :: "u64 \<Rightarrow> ('b, u16) exec"
  fetch32_if_safe :: "u64 \<Rightarrow> 'b \<Rightarrow> u32 option \<times> 'b"
  irq_lines :: "'b \<Rightarrow> u64 \<times> 'b"

definition default_jit_fast_off :: "u64 \<Rightarrow> u64 \<Rightarrow> bool \<Rightarrow> 'b \<Rightarrow> i64 option" where
  "default_jit_fast_off va pa st b = None"

definition default_fetch32 :: "(u64 \<Rightarrow> ('b, u32) exec) \<Rightarrow> u64 \<Rightarrow> ('b, u32) exec" where
  "default_fetch32 rd32 addr = mapErrM (\<lambda>_. InstructionAccessFault addr) (rd32 addr)"

definition default_fetch16 :: "(u64 \<Rightarrow> ('b, u16) exec) \<Rightarrow> u64 \<Rightarrow> ('b, u16) exec" where
  "default_fetch16 rd16 addr = mapErrM (\<lambda>_. InstructionAccessFault addr) (rd16 addr)"

definition default_irq_lines :: "'b \<Rightarrow> u64 \<times> 'b" where
  "default_irq_lines b = (0, b)"

section \<open>Flat memory\<close>

record flat_memory =
  fm_base :: u64
  fm_mem :: "u8 list"

text \<open>\<open>offset\<close> is the checked range computation; \<open>len\<close> is 1, 2, 4 or 8.\<close>

definition flat_offset :: "flat_memory \<Rightarrow> u64 \<Rightarrow> u64 \<Rightarrow> nat option" where
  "flat_offset m addr len =
     (case checked_sub addr (fm_base m) of None \<Rightarrow> None
      | Some off \<Rightarrow>
          (case checked_add off len of None \<Rightarrow> None
           | Some e \<Rightarrow> if unat e \<le> length (fm_mem m) then Some (unat off) else None))"

text \<open>The macro \<^verbatim>\<open>flat_rw!\<close> for an \<open>n\<close>-byte integer type.\<close>

definition flat_read :: "nat \<Rightarrow> u64 \<Rightarrow> (flat_memory, 'a::len word) exec" where
  "flat_read n addr m =
     (case flat_offset m addr (of_nat n) of
        None \<Rightarrow> (Inl (LoadAccessFault addr), m)
      | Some off \<Rightarrow> (Inr (from_le (slice_at off n (fm_mem m))), m))"

definition flat_write :: "nat \<Rightarrow> u64 \<Rightarrow> 'a::len word \<Rightarrow> (flat_memory, unit) exec" where
  "flat_write n addr v m =
     (case flat_offset m addr (of_nat n) of
        None \<Rightarrow> (Inl (StoreAccessFault addr), m)
      | Some off \<Rightarrow> (Inr (), m\<lparr>fm_mem := splice_at off (to_le n v) (fm_mem m)\<rparr>))"

definition flat_fetch32_if_safe :: "u64 \<Rightarrow> flat_memory \<Rightarrow> u32 option \<times> flat_memory" where
  "flat_fetch32_if_safe addr m =
     (map_option (\<lambda>off. from_le (slice_at off 4 (fm_mem m))) (flat_offset m addr 4), m)"

definition flat_bus :: "flat_memory bus_ops" where
  "flat_bus = \<lparr>
     read8 = flat_read 1, read16 = flat_read 2, read32 = flat_read 4, read64 = flat_read 8,
     write8 = flat_write 1, write16 = flat_write 2, write32 = flat_write 4, write64 = flat_write 8,
     jit_fast_off = default_jit_fast_off,
     fetch16 = default_fetch16 (flat_read 2),
     fetch32_if_safe = flat_fetch32_if_safe,
     irq_lines = default_irq_lines\<rparr>"

section \<open>Flat memory is a bounded byte store\<close>

lemma flat_offset_Some:
  "flat_offset m addr len = Some k \<longleftrightarrow>
     unat (fm_base m) \<le> unat addr \<and> k = unat addr - unat (fm_base m)
     \<and> k + unat len < 2 ^ 64 \<and> k + unat len \<le> length (fm_mem m)"
  by (auto simp: flat_offset_def checked_sub_def checked_add_def word_le_nat_alt unat_sub
      unat_word_ariths split: if_splits)

lemma flat_offset_mem:
  "length ys = length (fm_mem m) \<Longrightarrow> flat_offset (m\<lparr>fm_mem := ys\<rparr>) addr len = flat_offset m addr len"
  by (simp add: flat_offset_def split: option.splits)

lemma flat_offset_bound: "flat_offset m addr len = Some k \<Longrightarrow> k + unat len \<le> length (fm_mem m)"
  unfolding flat_offset_Some by linarith

lemma flat_offset_write:
  assumes "flat_offset m addr len = Some k" and "n = unat len"
  shows "flat_offset (m\<lparr>fm_mem := splice_at k (to_le n v) (fm_mem m)\<rparr>) a l = flat_offset m a l"
  using flat_offset_bound [OF assms(1)] assms(2) by (simp add: flat_offset_mem)

text \<open>
  A read of flat memory fails exactly when the range is not inside the buffer, with a load
  access fault of the address, and it never changes the memory.
\<close>

theorem flat_read_error:
  "flat_read n addr m = (Inl e, m') \<longleftrightarrow>
     flat_offset m addr (of_nat n) = None \<and> e = LoadAccessFault addr \<and> m' = m"
  by (auto simp: flat_read_def split: option.splits)

lemma flat_read_back:
  fixes v :: "'a::len word"
  assumes "flat_write n addr v m = (Inr (), m')" and "LENGTH('a) = 8 * n" and "n < 16"
  shows "flat_read n addr m' = (Inr v, m')"
proof -
  have n: "unat (of_nat n :: u64) = n" using assms(3) by (simp add: unat_of_nat)
  from assms(1) obtain k where k: "flat_offset m addr (of_nat n) = Some k"
    and m': "m' = m\<lparr>fm_mem := splice_at k (to_le n v) (fm_mem m)\<rparr>"
    by (auto simp: flat_write_def split: option.splits)
  have "k + n \<le> length (fm_mem m)" using flat_offset_bound [OF k] n by simp
  moreover have "flat_offset m' addr (of_nat n) = Some k"
    unfolding m' using k n by (subst flat_offset_write [OF k]) simp_all
  ultimately show ?thesis
    using assms(2) m' by (simp add: flat_read_def slice_splice_same from_le_to_le)
qed

text \<open>
  Reading back the range a store has written gives the stored value, for each of the
  access sizes (\<open>n\<close> bytes of an \<open>8 * n\<close>-bit integer).
\<close>

theorem flat_write_read:
  fixes v :: "'a::len word"
  assumes "flat_write n addr v m = (Inr (), m')" and "LENGTH('a) = 8 * n" and "n < 16"
  shows "flat_read n addr m' = (Inr v, m')"
  using assms by (rule flat_read_back)

theorem flat_write_read_witness:
  "flat_read 2 0x101 (\<lparr>fm_base = 0x100, fm_mem = [0, 0xcd, 0xab, 0]\<rparr>) = (Inr (0xabcd :: u16),
     \<lparr>fm_base = 0x100, fm_mem = [0, 0xcd, 0xab, 0]\<rparr>)"
proof -
  have "flat_write 2 0x101 (0xabcd :: u16) \<lparr>fm_base = 0x100, fm_mem = [0, 0, 0, 0]\<rparr>
    = (Inr (), \<lparr>fm_base = 0x100, fm_mem = [0, 0xcd, 0xab, 0]\<rparr>)"
    by (simp add: flat_write_def flat_offset_def checked_sub_def checked_add_def splice_at_def
        to_le_def upt_rec)
  then show ?thesis by (rule flat_write_read) simp_all
qed

lemma flat_frame:
  fixes v :: "'a::len word"
  assumes "flat_write n addr v m = (Inr (), m')"
    and "unat addr + n \<le> unat a \<or> unat a + k \<le> unat addr" and "n < 16" and "k < 16"
  shows "fst (flat_read k a m') = fst (flat_read k a m)"
proof -
  have n: "unat (of_nat n :: u64) = n" "unat (of_nat k :: u64) = k"
    using assms(3,4) by (simp_all add: unat_of_nat)
  from assms(1) obtain i where i: "flat_offset m addr (of_nat n) = Some i"
    and m': "m' = m\<lparr>fm_mem := splice_at i (to_le n v) (fm_mem m)\<rparr>"
    by (auto simp: flat_write_def split: option.splits)
  have o: "flat_offset m' a (of_nat k) = flat_offset m a (of_nat k)"
    unfolding m' using n(1) by (intro flat_offset_write [OF i]) simp
  show ?thesis
  proof (cases "flat_offset m a (of_nat k)")
    case None
    then show ?thesis using o by (simp add: flat_read_def)
  next
    case (Some j)
    have "slice_at j k (splice_at i (to_le n v) (fm_mem m)) = slice_at j k (fm_mem m)"
    proof (rule slice_splice_disjoint)
      show "i + length (to_le n v) \<le> length (fm_mem m)" and "j + k \<le> length (fm_mem m)"
        using flat_offset_bound [OF i] flat_offset_bound [OF Some] n by simp_all
      show "j + k \<le> i \<or> i + length (to_le n v) \<le> j"
        using i Some assms(2) n unfolding flat_offset_Some length_to_le by linarith
    qed
    then have "slice_at j k (fm_mem m') = slice_at j k (fm_mem m)" by (simp add: m')
    then show ?thesis using Some o by (simp add: flat_read_def)
  qed
qed

text \<open>
  A store changes no byte outside its range: a read of a disjoint range gives what it gave
  before.
\<close>

theorem flat_write_frame:
  fixes v :: "'a::len word"
  assumes "flat_write n addr v m = (Inr (), m')"
    and "unat addr + n \<le> unat a \<or> unat a + k \<le> unat addr" and "n < 16" and "k < 16"
  shows "fst (flat_read k a m') = fst (flat_read k a m)"
  using assms by (rule flat_frame)

theorem flat_write_frame_witness:
  "fst (flat_read 1 0x103 (\<lparr>fm_base = 0x100, fm_mem = [0, 0xcd, 0xab, 7]\<rparr>)) = Inr (7 :: u8)"
proof -
  have "flat_write 2 0x101 (0xabcd :: u16) \<lparr>fm_base = 0x100, fm_mem = [0, 0, 0, 7]\<rparr>
    = (Inr (), \<lparr>fm_base = 0x100, fm_mem = [0, 0xcd, 0xab, 7]\<rparr>)"
    by (simp add: flat_write_def flat_offset_def checked_sub_def checked_add_def splice_at_def
        to_le_def upt_rec)
  then have "fst (flat_read 1 0x103 (\<lparr>fm_base = 0x100, fm_mem = [0, 0xcd, 0xab, 7]\<rparr>) :: (exception + u8) \<times> _)
    = fst (flat_read 1 0x103 \<lparr>fm_base = 0x100, fm_mem = [0, 0, 0, 7]\<rparr>)"
    by (rule flat_write_frame) simp_all
  also have "\<dots> = Inr 7"
    by (simp add: flat_read_def flat_offset_def checked_sub_def checked_add_def slice_at_def)
  finally show ?thesis .
qed

section \<open>The contract of the page-table walker\<close>

text \<open>
  \<open>wd b a\<close> is the aligned 8-byte word of memory at \<open>a\<close>, where there is memory. The hart's page
  walks rely on two laws: a word of memory is read without any effect, and a write to one
  changes that word and no other. Nothing is promised of addresses where \<open>wd\<close> is \<open>None\<close>
  (device registers and holes).
\<close>

locale word_bus =
  fixes ops :: "'b bus_ops" and wd :: "'b \<Rightarrow> u64 \<Rightarrow> u64 option"
  assumes read_word: "a AND 7 = 0 \<Longrightarrow> wd b a = Some v \<Longrightarrow> read64 ops a b = (Inr v, b)"
    and write_ok: "a AND 7 = 0 \<Longrightarrow> wd b a = Some v \<Longrightarrow> fst (write64 ops a w b) = Inr ()"
    and write_word: "a AND 7 = 0 \<Longrightarrow> wd b a = Some v \<Longrightarrow> k AND 7 = 0 \<Longrightarrow>
      wd (snd (write64 ops a w b)) k = (if k = a then Some w else wd b k)"
begin

lemma write_pair:
  "a AND 7 = 0 \<Longrightarrow> wd b a = Some v \<Longrightarrow> write64 ops a w b = (Inr (), snd (write64 ops a w b))"
  using write_ok [of a b v w] by (cases "write64 ops a w b") simp

lemma write_read: "a AND 7 = 0 \<Longrightarrow> wd b a = Some v \<Longrightarrow>
  read64 ops a (snd (write64 ops a w b)) = (Inr w, snd (write64 ops a w b))"
  by (rule read_word) (simp_all add: write_word)

end

definition flat_words :: "flat_memory \<Rightarrow> u64 \<Rightarrow> u64 option" where
  "flat_words m a = map_option (\<lambda>off. from_le (slice_at off 8 (fm_mem m))) (flat_offset m a 8)"

lemma aligned_dvd: "(a :: u64) AND 7 = 0 \<Longrightarrow> 8 dvd unat a"
proof -
  assume "a AND 7 = 0"
  then have "take_bit 3 a = 0" by (simp add: mask_simps)
  then have "unat (take_bit 3 a) = unat (0 :: u64)" by (rule arg_cong)
  then have "take_bit 3 (unat a) = 0" by (simp only: unsigned_take_bit_eq unsigned_0)
  then show ?thesis by (simp add: take_bit_eq_mod dvd_eq_mod_eq_0)
qed

lemma aligned_apart:
  assumes "(a :: u64) AND 7 = 0" and "k AND 7 = 0" and "k \<noteq> a"
  shows "unat a + 8 \<le> unat k \<or> unat k + 8 \<le> unat a"
proof -
  obtain i j where "unat a = 8 * i" "unat k = 8 * j"
    using aligned_dvd [OF assms(1)] aligned_dvd [OF assms(2)] by (auto elim!: dvdE)
  moreover from this have "i \<noteq> j" using assms(3) by (metis unsigned_word_eqI)
  ultimately show ?thesis by presburger
qed

interpretation flat: word_bus flat_bus flat_words
proof
  fix a k v w :: u64 and b :: flat_memory
  assume a: "a AND 7 = 0" and v: "flat_words b a = Some v"
  show "read64 flat_bus a b = (Inr v, b)"
    using v by (auto simp: flat_bus_def flat_words_def flat_read_def)
  show ok: "fst (write64 flat_bus a w b) = Inr ()"
    using v by (auto simp: flat_bus_def flat_words_def flat_write_def)
  assume k: "k AND 7 = 0"
  let ?m = "snd (write64 flat_bus a w b)"
  have w: "flat_write 8 a w b = (Inr (), ?m)"
    using ok by (cases "flat_write 8 a w b") (simp add: flat_bus_def)
  have as_read: "flat_words m c = (case fst (flat_read 8 c m) of Inl e \<Rightarrow> None | Inr u \<Rightarrow> Some u)" for m c
    by (simp add: flat_words_def flat_read_def split: option.splits)
  show "flat_words ?m k = (if k = a then Some w else flat_words b k)"
  proof (cases "k = a")
    case True
    then show ?thesis using flat_read_back [OF w] by (simp add: as_read)
  next
    case False
    have "fst (flat_read 8 k ?m :: (exception + u64) \<times> _) = fst (flat_read 8 k b)"
      using flat_frame [OF w, of k 8] aligned_apart [OF a k False] by simp
    then show ?thesis using False by (simp add: as_read)
  qed
qed

end
