(* ===== verification/Csr.thy ===== *)
theory Csr
  imports Prelude
begin

unbundle bit_operations_syntax

text \<open>
  Privileged state, \<^verbatim>\<open>crates/rv64-core/src/csr.rs\<close>: the privilege modes, the CSR addresses, the
  layout of \<^verbatim>\<open>mstatus\<close>, and the record \<^verbatim>\<open>SysCsrs\<close> of the privileged registers with its reset value.
\<close>

section \<open>Privilege modes\<close>

datatype mode = User | Supervisor | Machine

fun mode_bits :: "mode \<Rightarrow> u64" where
  "mode_bits User = 0"
| "mode_bits Supervisor = 1"
| "mode_bits Machine = 3"

definition mode_from_bits :: "u64 \<Rightarrow> mode" where
  "mode_from_bits b =
     (let k = b AND 3 in if k = 0 then User else if k = 1 then Supervisor else Machine)"

lemma mode_from_bits_mode_bits [simp]: "mode_from_bits (mode_bits m) = m"
  by (cases m) (simp_all add: mode_from_bits_def)

lemma mode_bits_inj [simp]: "mode_bits m = mode_bits n \<longleftrightarrow> m = n"
  by (cases m; cases n) simp_all

lemma mode_bits_cases: "mode_bits m \<in> {0, 1, 3}"
  by (cases m) simp_all

section \<open>CSR addresses\<close>

definition FFLAGS :: u32 where "FFLAGS = 0x001"
definition FRM :: u32 where "FRM = 0x002"
definition FCSR :: u32 where "FCSR = 0x003"
definition SSTATUS :: u32 where "SSTATUS = 0x100"
definition SIE :: u32 where "SIE = 0x104"
definition STVEC :: u32 where "STVEC = 0x105"
definition SCOUNTEREN :: u32 where "SCOUNTEREN = 0x106"
definition SSCRATCH :: u32 where "SSCRATCH = 0x140"
definition SEPC :: u32 where "SEPC = 0x141"
definition SCAUSE :: u32 where "SCAUSE = 0x142"
definition STVAL :: u32 where "STVAL = 0x143"
definition SIP :: u32 where "SIP = 0x144"
definition SATP :: u32 where "SATP = 0x180"
definition MSTATUS :: u32 where "MSTATUS = 0x300"
definition MISA :: u32 where "MISA = 0x301"
definition MEDELEG :: u32 where "MEDELEG = 0x302"
definition MIDELEG :: u32 where "MIDELEG = 0x303"
definition MIE :: u32 where "MIE = 0x304"
definition MTVEC :: u32 where "MTVEC = 0x305"
definition MCOUNTEREN :: u32 where "MCOUNTEREN = 0x306"
definition MSCRATCH :: u32 where "MSCRATCH = 0x340"
definition MEPC :: u32 where "MEPC = 0x341"
definition MCAUSE :: u32 where "MCAUSE = 0x342"
definition MTVAL :: u32 where "MTVAL = 0x343"
definition MIP :: u32 where "MIP = 0x344"
definition MCYCLE :: u32 where "MCYCLE = 0xb00"
definition MINSTRET :: u32 where "MINSTRET = 0xb02"
definition CYCLE :: u32 where "CYCLE = 0xc00"
definition TIME :: u32 where "TIME = 0xc01"
definition INSTRET :: u32 where "INSTRET = 0xc02"
definition MVENDORID :: u32 where "MVENDORID = 0xf11"
definition MARCHID :: u32 where "MARCHID = 0xf12"
definition MIMPID :: u32 where "MIMPID = 0xf13"
definition MHARTID :: u32 where "MHARTID = 0xf14"

lemmas csr_addr_defs = FFLAGS_def FRM_def FCSR_def SSTATUS_def SIE_def STVEC_def
  SCOUNTEREN_def SSCRATCH_def SEPC_def SCAUSE_def STVAL_def SIP_def SATP_def MSTATUS_def
  MISA_def MEDELEG_def MIDELEG_def MIE_def MTVEC_def MCOUNTEREN_def MSCRATCH_def MEPC_def
  MCAUSE_def MTVAL_def MIP_def MCYCLE_def MINSTRET_def CYCLE_def TIME_def INSTRET_def
  MVENDORID_def MARCHID_def MIMPID_def MHARTID_def

section \<open>Bits of \<^verbatim>\<open>mstatus\<close>, \<^verbatim>\<open>mip\<close> and \<^verbatim>\<open>misa\<close>\<close>

definition MSTATUS_SIE :: u64 where "MSTATUS_SIE = push_bit 1 1"
definition MSTATUS_MIE :: u64 where "MSTATUS_MIE = push_bit 3 1"
definition MSTATUS_SPIE :: u64 where "MSTATUS_SPIE = push_bit 5 1"
definition MSTATUS_MPIE :: u64 where "MSTATUS_MPIE = push_bit 7 1"
definition MSTATUS_SPP :: u64 where "MSTATUS_SPP = push_bit 8 1"
definition MSTATUS_MPP :: u64 where "MSTATUS_MPP = push_bit 11 3"
definition MSTATUS_FS :: u64 where "MSTATUS_FS = push_bit 13 3"
definition MSTATUS_MPRV :: u64 where "MSTATUS_MPRV = push_bit 17 1"
definition MSTATUS_SUM :: u64 where "MSTATUS_SUM = push_bit 18 1"
definition MSTATUS_MXR :: u64 where "MSTATUS_MXR = push_bit 19 1"
definition MSTATUS_TVM :: u64 where "MSTATUS_TVM = push_bit 20 1"
definition MSTATUS_TW :: u64 where "MSTATUS_TW = push_bit 21 1"
definition MSTATUS_TSR :: u64 where "MSTATUS_TSR = push_bit 22 1"
definition MSTATUS_UXL :: u64 where "MSTATUS_UXL = push_bit 32 3"
definition MSTATUS_SXL :: u64 where "MSTATUS_SXL = push_bit 34 3"
definition MSTATUS_SD :: u64 where "MSTATUS_SD = push_bit 63 1"
definition IRQ_SSIP :: u64 where "IRQ_SSIP = push_bit 1 1"
definition IRQ_MSIP :: u64 where "IRQ_MSIP = push_bit 3 1"
definition IRQ_STIP :: u64 where "IRQ_STIP = push_bit 5 1"
definition IRQ_MTIP :: u64 where "IRQ_MTIP = push_bit 7 1"
definition IRQ_SEIP :: u64 where "IRQ_SEIP = push_bit 9 1"
definition IRQ_MEIP :: u64 where "IRQ_MEIP = push_bit 11 1"

text \<open>Bits of \<^verbatim>\<open>mstatus\<close> visible and writable through \<^verbatim>\<open>sstatus\<close>.\<close>

definition SSTATUS_MASK :: u64 where
  "SSTATUS_MASK = MSTATUS_SIE OR MSTATUS_SPIE OR MSTATUS_SPP OR MSTATUS_FS OR MSTATUS_SUM
     OR MSTATUS_MXR OR MSTATUS_UXL OR MSTATUS_SD"

definition MISA_VALUE :: u64 where
  "MISA_VALUE = push_bit 62 2 OR push_bit 0 1 OR push_bit 2 1 OR push_bit 3 1 OR push_bit 5 1
     OR push_bit 8 1 OR push_bit 12 1 OR push_bit 18 1 OR push_bit 20 1"

lemmas mstatus_defs = MSTATUS_SIE_def MSTATUS_MIE_def MSTATUS_SPIE_def MSTATUS_MPIE_def
  MSTATUS_SPP_def MSTATUS_MPP_def MSTATUS_FS_def MSTATUS_MPRV_def MSTATUS_SUM_def
  MSTATUS_MXR_def MSTATUS_TVM_def MSTATUS_TW_def MSTATUS_TSR_def MSTATUS_UXL_def MSTATUS_SXL_def
  MSTATUS_SD_def

lemmas irq_defs = IRQ_SSIP_def IRQ_MSIP_def IRQ_STIP_def IRQ_MTIP_def IRQ_SEIP_def
  IRQ_MEIP_def

section \<open>The privileged registers\<close>

record sys_csrs =
  sys_mode :: mode
  mstatus :: u64
  medeleg :: u64
  mideleg :: u64
  mie :: u64
  mip :: u64
  mtvec :: u64
  mcounteren :: u64
  mscratch :: u64
  mepc :: u64
  mcause :: u64
  mtval :: u64
  stvec :: u64
  scounteren :: u64
  sscratch :: u64
  sepc :: u64
  scause :: u64
  stval :: u64
  satp :: u64
  mhartid :: u64
  mtime :: u64
  time_scale :: u64
  time_offset :: u64
  pmpcfg :: "u64 list"
  pmpaddr :: "u64 list"
  minstret_off :: u64

definition sys_new :: sys_csrs where
  "sys_new = \<lparr>
     sys_mode = Machine,
     mstatus = (MSTATUS_UXL AND push_bit 32 2) OR (MSTATUS_SXL AND push_bit 34 2),
     medeleg = 0,
     mideleg = 0,
     mie = 0,
     mip = 0,
     mtvec = 0,
     mcounteren = 0,
     mscratch = 0,
     mepc = 0,
     mcause = 0,
     mtval = 0,
     stvec = 0,
     scounteren = 0,
     sscratch = 0,
     sepc = 0,
     scause = 0,
     stval = 0,
     satp = 0,
     mhartid = 0,
     mtime = 0,
     time_scale = 0,
     time_offset = 0,
     pmpcfg = replicate 8 0,
     pmpaddr = replicate 64 0,
     minstret_off = 0\<rparr>"

text \<open>The reset state is machine mode with the address-space widths fixed at 64 bits and FS off.\<close>

lemma sys_new_mode [simp]: "sys_mode sys_new = Machine"
  by (simp add: sys_new_def)

lemma sys_new_mstatus: "mstatus sys_new = 0xa00000000"
  by (simp add: sys_new_def mstatus_defs)

end
