(* ===== verification/Plic.thy ===== *)
theory Plic
  imports Prelude
begin

unbundle bit_operations_syntax

text \<open>
  The platform-level interrupt controller of \<^verbatim>\<open>crates/rv64-system/src/virt.rs\<close>: priorities, enables,
  thresholds, level-driven pending bits, and the claim and complete protocol of its two contexts.
\<close>

section \<open>The device\<close>

definition PLIC_SOURCES :: nat where "PLIC_SOURCES = 32"
definition PLIC_CONTEXTS :: nat where "PLIC_CONTEXTS = 2"

record plic =
  priority :: "u32 list"
  plic_pending :: u32
  enable :: "u32 list"
  threshold :: "u32 list"
  claimed :: u32

definition plic_new :: plic where
  "plic_new = \<lparr>
     priority = replicate PLIC_SOURCES 0,
     plic_pending = 0,
     enable = replicate PLIC_CONTEXTS 0,
     threshold = replicate PLIC_CONTEXTS 0,
     claimed = 0\<rparr>"

definition trailing_zeros :: "'a::len word \<Rightarrow> nat" where
  "trailing_zeros w = length (takeWhile (\<lambda>i. \<not> bit w i) [0..<LENGTH('a)])"

lemma trailing_zeros:
  assumes "w \<noteq> (0 :: 'a::len word)"
  shows "bit w (trailing_zeros w)" and "trailing_zeros w < LENGTH('a)"
    and "j < trailing_zeros w \<Longrightarrow> \<not> bit w j"
proof -
  let ?xs = "[0..<LENGTH('a)]" and ?P = "\<lambda>i. \<not> bit w i"
  obtain n where n: "bit w n" using assms by (auto simp: bit_eq_iff)
  then have "n < LENGTH('a)" by (rule bit_imp_le_length)
  then have "takeWhile ?P ?xs \<noteq> ?xs" using n by (auto simp: takeWhile_eq_all_conv)
  then have l: "length (takeWhile ?P ?xs) < length ?xs"
    by (metis length_takeWhile_le le_neq_implies_less takeWhile_eq_take take_all order_refl)
  then show "trailing_zeros w < LENGTH('a)" by (simp add: trailing_zeros_def)
  show "bit w (trailing_zeros w)"
    using nth_length_takeWhile [OF l] l by (simp add: trailing_zeros_def)
  assume j: "j < trailing_zeros w"
  then have "takeWhile ?P ?xs ! j \<in> set (takeWhile ?P ?xs)"
    by (intro nth_mem) (simp add: trailing_zeros_def)
  then have "\<not> bit w (takeWhile ?P ?xs ! j)" by (auto dest: set_takeWhileD)
  moreover have "takeWhile ?P ?xs ! j = j"
    using j l by (simp add: trailing_zeros_def takeWhile_nth)
  ultimately show "\<not> bit w j" by simp
qed

text \<open>\<open>m AND (m - 1)\<close> drops the lowest set bit.\<close>

lemma drop_lowest_bit:
  assumes "m \<noteq> (0 :: 'a::len word)"
  shows "bit (m AND (m - 1)) j \<longleftrightarrow> bit m j \<and> j \<noteq> trailing_zeros m"
proof -
  let ?i = "trailing_zeros m"
  note z = trailing_zeros [OF assms]
  define a where "a = push_bit (Suc ?i) (drop_bit (Suc ?i) m)"
  have a: "bit a k \<longleftrightarrow> ?i < k \<and> bit m k" for k
    unfolding a_def bit_push_bit_iff bit_drop_bit_eq o_def by (auto dest: bit_imp_le_length)
  have "m = a OR push_bit ?i 1"
  proof (rule bit_word_eqI)
    fix k assume "k < LENGTH('a)"
    then show "bit m k \<longleftrightarrow> bit (a OR push_bit ?i 1) k"
      using z unfolding bit_or_iff bit_push_bit_iff a bit_1_iff by (cases k ?i rule: linorder_cases) auto
  qed
  also have "\<dots> = a + push_bit ?i 1"
    by (rule disjunctive_add_eq_or [symmetric]) (rule bit_word_eqI, simp add: a bit_and_iff bit_exp_iff)
  finally have "m - 1 = a + mask ?i" by (simp add: mask_eq_exp_minus_1)
  also have "\<dots> = a OR mask ?i"
    by (rule disjunctive_add_eq_or) (rule bit_word_eqI, simp add: a bit_and_iff bit_mask_iff)
  finally have "bit (m - 1) j \<longleftrightarrow> ?i < j \<and> bit m j \<or> j < ?i \<and> j < LENGTH('a)"
    by (auto simp: a bit_or_iff bit_mask_iff)
  then show ?thesis using z(3) [of j] by (auto simp: bit_and_iff)
qed

lemma drop_lowest_less: "m \<noteq> 0 \<Longrightarrow> unat (m AND (m - 1)) < unat (m :: 'a::len word)"
proof -
  assume m: "m \<noteq> 0"
  have "m AND (m - 1) \<le> m - 1" by (rule word_and_le1)
  then have "unat (m AND (m - 1)) \<le> unat m - 1" using m by (simp add: word_le_nat_alt unat_minus_one)
  then show ?thesis using m by (simp add: unat_gt_0 order.strict_trans1)
qed

text \<open>The loop of \<open>best\<close> over the eligible sources, from the lowest id.\<close>

function plic_scan :: "plic \<Rightarrow> nat \<Rightarrow> u32 \<Rightarrow> u32 \<Rightarrow> u32 \<Rightarrow> u32" where
  "plic_scan p ctx m best_id best_pri =
     (if m = 0 then best_id
      else
        (let i = trailing_zeros m;
             m = m AND (m - 1);
             pri = priority p ! i
         in if threshold p ! ctx < pri \<and> best_pri \<le> pri then plic_scan p ctx m (of_nat i) pri
            else plic_scan p ctx m best_id best_pri))"
  by pat_completeness auto
termination by (relation "measure (\<lambda>(p, ctx, m, best_id, best_pri). unat m)") (auto intro: drop_lowest_less)

declare plic_scan.simps [simp del]

definition plic_best :: "plic \<Rightarrow> nat \<Rightarrow> u32" where
  "plic_best p ctx =
     (let elig = plic_pending p AND enable p ! ctx AND NOT (claimed p) in plic_scan p ctx elig 0 0)"

definition pending_ctx :: "plic \<Rightarrow> nat \<Rightarrow> bool" where
  "pending_ctx p ctx \<longleftrightarrow> plic_best p ctx \<noteq> 0"

definition plic_claim :: "nat \<Rightarrow> plic \<Rightarrow> u32 \<times> plic" where
  "plic_claim ctx p =
     (let i = plic_best p ctx
      in (i, if i \<noteq> 0 then p\<lparr>claimed := claimed p OR push_bit (unat i) 1\<rparr> else p))"

definition plic_read :: "u64 \<Rightarrow> plic \<Rightarrow> u32 \<times> plic" where
  "plic_read off p =
     (if off \<le> 0x0fff then
        (let i = unat (off div 4) in (if i < length (priority p) then priority p ! i else 0, p))
      else if off = 0x1000 then (plic_pending p, p)
      else if off = 0x1004 then (0, p)
      else if 0x2000 \<le> off \<and> off < 0x2000 + of_nat PLIC_CONTEXTS * 0x80 then
        (let ctx = unat ((off - 0x2000) div 0x80)
         in (if (off - 0x2000) mod 0x80 = 0 then enable p ! ctx else 0, p))
      else if 0x200000 \<le> off then
        (let ctx = unat ((off - 0x200000) div 0x1000);
             reg = (off - 0x200000) mod 0x1000
         in if ctx \<ge> PLIC_CONTEXTS then (0, p)
            else if reg = 0x0 then (threshold p ! ctx, p)
            else if reg = 0x4 then plic_claim ctx p
            else (0, p))
      else (0, p))"

definition plic_complete :: "u32 \<Rightarrow> plic \<Rightarrow> plic" where
  "plic_complete val p =
     (if unat val < PLIC_SOURCES then p\<lparr>claimed := claimed p AND NOT (push_bit (unat val) 1)\<rparr> else p)"

definition plic_write :: "u64 \<Rightarrow> u32 \<Rightarrow> plic \<Rightarrow> plic" where
  "plic_write off val p =
     (if off \<le> 0x0fff then
        (let i = unat (off div 4)
         in if i \<noteq> 0 \<and> i < length (priority p) then p\<lparr>priority := (priority p)[i := val]\<rparr> else p)
      else if 0x2000 \<le> off \<and> off < 0x2000 + of_nat PLIC_CONTEXTS * 0x80 then
        (let ctx = unat ((off - 0x2000) div 0x80)
         in if (off - 0x2000) mod 0x80 = 0 then p\<lparr>enable := (enable p)[ctx := val AND NOT 1]\<rparr> else p)
      else if 0x200000 \<le> off then
        (let ctx = unat ((off - 0x200000) div 0x1000);
             reg = (off - 0x200000) mod 0x1000
         in if ctx \<ge> PLIC_CONTEXTS then p
            else if reg = 0x0 then p\<lparr>threshold := (threshold p)[ctx := val]\<rparr>
            else if reg = 0x4 then plic_complete val p
            else p)
      else p)"

section \<open>The source that is delivered\<close>

definition eligible :: "plic \<Rightarrow> nat \<Rightarrow> nat \<Rightarrow> bool" where
  "eligible p ctx i \<longleftrightarrow>
     bit (plic_pending p) i \<and> bit (enable p ! ctx) i \<and> \<not> bit (claimed p) i
     \<and> threshold p ! ctx < priority p ! i"

text \<open>\<open>i\<close> is at least as urgent as \<open>j\<close>: by priority, then by the higher id.\<close>

definition outranks :: "plic \<Rightarrow> nat \<Rightarrow> nat \<Rightarrow> bool" where
  "outranks p i j \<longleftrightarrow> priority p ! j < priority p ! i \<or> priority p ! j = priority p ! i \<and> j \<le> i"

lemma plic_scan_spec:
  fixes best_id :: u32
  shows "(plic_scan p ctx m best_id best_pri = best_id
        \<and> (\<forall>j. bit m j \<and> threshold p ! ctx < priority p ! j \<longrightarrow> priority p ! j < best_pri))
     \<or> (\<exists>i. bit m i \<and> threshold p ! ctx < priority p ! i \<and> best_pri \<le> priority p ! i
        \<and> plic_scan p ctx m best_id best_pri = of_nat i
        \<and> (\<forall>j. bit m j \<and> threshold p ! ctx < priority p ! j \<longrightarrow> outranks p i j))"
proof (induction p ctx m best_id best_pri rule: plic_scan.induct)
  case (1 p ctx m best_id best_pri)
  show ?case
  proof (cases "m = 0")
    case True
    then show ?thesis by (simp add: plic_scan.simps [of p ctx 0])
  next
    case False
    let ?i = "trailing_zeros m" and ?m = "m AND (m - 1)"
    have b: "bit m j \<longleftrightarrow> bit ?m j \<or> j = ?i" for j
      using drop_lowest_bit [OF False, of j] trailing_zeros(1) [OF False] by blast
    have lt: "bit ?m j \<Longrightarrow> ?i < j" for j
      using drop_lowest_bit [OF False, of j] trailing_zeros(3) [OF False, of j] by (meson not_less_iff_gr_or_eq)
    show ?thesis
    proof (cases "threshold p ! ctx < priority p ! ?i \<and> best_pri \<le> priority p ! ?i")
      case True
      then have e: "plic_scan p ctx m best_id best_pri = plic_scan p ctx ?m (of_nat ?i) (priority p ! ?i)"
        using False by (subst plic_scan.simps) (simp add: Let_def)
      consider "plic_scan p ctx ?m (of_nat ?i) (priority p ! ?i) = of_nat ?i"
          "\<forall>j. bit ?m j \<and> threshold p ! ctx < priority p ! j \<longrightarrow> priority p ! j < priority p ! ?i"
        | i where "bit ?m i" "threshold p ! ctx < priority p ! i" "priority p ! ?i \<le> priority p ! i"
          "plic_scan p ctx ?m (of_nat ?i) (priority p ! ?i) = of_nat i"
          "\<forall>j. bit ?m j \<and> threshold p ! ctx < priority p ! j \<longrightarrow> outranks p i j"
        using 1(1) [OF False refl refl refl True] by blast
      then show ?thesis
      proof cases
        case first: 1
        have "\<forall>j. bit m j \<and> threshold p ! ctx < priority p ! j \<longrightarrow> outranks p ?i j"
          using first(2) b by (auto simp: outranks_def)
        then show ?thesis using e first(1) True b by auto
      next
        case (2 i)
        have "outranks p i ?i" using lt [OF 2(1)] 2(3) by (auto simp: outranks_def)
        then have "\<forall>j. bit m j \<and> threshold p ! ctx < priority p ! j \<longrightarrow> outranks p i j"
          using 2(5) b by auto
        moreover have "best_pri \<le> priority p ! i" using True 2(3) by (blast intro: order_trans)
        ultimately show ?thesis using e 2 b by auto
      qed
    next
      case f: False
      then have e: "plic_scan p ctx m best_id best_pri = plic_scan p ctx ?m best_id best_pri"
        using False by (subst plic_scan.simps) (auto simp: Let_def)
      consider "plic_scan p ctx ?m best_id best_pri = best_id"
          "\<forall>j. bit ?m j \<and> threshold p ! ctx < priority p ! j \<longrightarrow> priority p ! j < best_pri"
        | i where "bit ?m i" "threshold p ! ctx < priority p ! i" "best_pri \<le> priority p ! i"
          "plic_scan p ctx ?m best_id best_pri = of_nat i"
          "\<forall>j. bit ?m j \<and> threshold p ! ctx < priority p ! j \<longrightarrow> outranks p i j"
        using 1(2) [OF False refl refl refl f] by blast
      then show ?thesis
      proof cases
        case first: 1
        have "\<forall>j. bit m j \<and> threshold p ! ctx < priority p ! j \<longrightarrow> priority p ! j < best_pri"
          using first(2) b f by auto
        then show ?thesis using e first(1) by simp
      next
        case (2 i)
        have "threshold p ! ctx < priority p ! ?i \<Longrightarrow> outranks p i ?i"
          using f 2(3) by (auto simp: outranks_def)
        then have "\<forall>j. bit m j \<and> threshold p ! ctx < priority p ! j \<longrightarrow> outranks p i j"
          using 2(5) b by auto
        then show ?thesis using e 2 b by auto
      qed
    qed
  qed
qed


text \<open>In a well-formed controller source 0, which does not exist, is enabled nowhere.\<close>

definition plic_ok :: "plic \<Rightarrow> bool" where
  "plic_ok p \<longleftrightarrow>
     length (priority p) = PLIC_SOURCES \<and> length (enable p) = PLIC_CONTEXTS
     \<and> length (threshold p) = PLIC_CONTEXTS \<and> (\<forall>ctx < PLIC_CONTEXTS. \<not> bit (enable p ! ctx) 0)"

lemma plic_best_spec:
  assumes "plic_ok p" and "ctx < PLIC_CONTEXTS"
  shows "if \<exists>i. eligible p ctx i
    then eligible p ctx (unat (plic_best p ctx)) \<and> plic_best p ctx \<noteq> 0
      \<and> (\<forall>j. eligible p ctx j \<longrightarrow> outranks p (unat (plic_best p ctx)) j)
    else plic_best p ctx = 0"
proof -
  let ?m = "plic_pending p AND enable p ! ctx AND NOT (claimed p)"
  have e: "bit ?m j \<and> threshold p ! ctx < priority p ! j \<longleftrightarrow> eligible p ctx j" for j
    by (auto simp: eligible_def bit_and_iff bit_not_iff dest: bit_imp_le_length)
  have u: "unat (of_nat i :: u32) = i \<and> i \<noteq> 0" if "eligible p ctx i" for i
  proof -
    from that have "bit (plic_pending p) i" and "bit (enable p ! ctx) i" by (simp_all add: eligible_def)
    then have "i < 32" and "i \<noteq> 0"
      using assms by (auto simp: plic_ok_def dest: bit_imp_le_length intro: gr0I)
    then show ?thesis by (simp add: unat_of_nat)
  qed
  consider "plic_best p ctx = 0" "\<forall>j. \<not> eligible p ctx j"
    | i where "eligible p ctx i" "plic_best p ctx = of_nat i" "\<forall>j. eligible p ctx j \<longrightarrow> outranks p i j"
    using plic_scan_spec [of p ctx ?m 0 0] e unfolding plic_best_def Let_def by (auto simp: word_neq_0_conv)
  then show ?thesis
  proof cases
    case (2 i)
    have "unat (plic_best p ctx) = i" and "i \<noteq> 0" using u [OF 2(1)] 2(2) by simp_all
    then have "plic_best p ctx \<noteq> 0" by auto
    then show ?thesis using 2 \<open>unat (plic_best p ctx) = i\<close> by auto
  qed auto
qed

datatype plic_op = PRead u64 | PWrite u64 u32 | PLines u32

fun plic_exec :: "plic_op \<Rightarrow> plic \<Rightarrow> plic" where
  "plic_exec (PRead off) p = snd (plic_read off p)"
| "plic_exec (PWrite off val) p = plic_write off val p"
| "plic_exec (PLines lines) p = p\<lparr>plic_pending := lines\<rparr>"

lemma plic_new_ok: "plic_ok plic_new"
  by (simp add: plic_ok_def plic_new_def PLIC_SOURCES_def PLIC_CONTEXTS_def)

lemma even_update:
  "bit ((xs :: u32 list)[k := v AND - 2] ! c) 0 \<Longrightarrow> c < length xs \<Longrightarrow> bit (xs ! c) 0"
  by (cases "k = c") (simp_all add: bit_and_iff)

lemma plic_exec_ok: "plic_ok p \<Longrightarrow> plic_ok (plic_exec x p)"
proof (cases x)
  case (PWrite off val)
  assume "plic_ok p"
  then show ?thesis
    by (auto simp: PWrite plic_ok_def plic_write_def plic_complete_def Let_def dest: even_update)
qed (auto simp: plic_ok_def plic_read_def plic_claim_def Let_def)

definition claim_reg :: "nat \<Rightarrow> u64" where
  "claim_reg ctx = 0x200004 + of_nat ctx * 0x1000"

lemma claim_reg_access:
  "plic_read (claim_reg 0) p = plic_claim 0 p" "plic_read (claim_reg 1) p = plic_claim 1 p"
  "plic_write (claim_reg 0) val p = plic_complete val p" "plic_write (claim_reg 1) val p = plic_complete val p"
  by (simp_all add: claim_reg_def plic_read_def plic_write_def PLIC_CONTEXTS_def)

lemma claim_reg_cases:
  assumes "ctx < PLIC_CONTEXTS"
  shows "plic_read (claim_reg ctx) p = plic_claim ctx p" "plic_write (claim_reg ctx) val p = plic_complete val p"
  using assms claim_reg_access unfolding PLIC_CONTEXTS_def less_2_cases_iff One_nat_def [symmetric]
  by (elim disjE; simp)+

text \<open>An operation that writes \<open>i\<close> to no completion register leaves \<open>i\<close> in service.\<close>

definition completes :: "nat \<Rightarrow> plic_op \<Rightarrow> bool" where
  "completes i x \<longleftrightarrow> (\<exists>off val. x = PWrite off val \<and> unat val = i \<and> (\<exists>ctx < PLIC_CONTEXTS. off = claim_reg ctx))"

lemma claim_reg_only:
  assumes "0x200000 \<le> off" and "unat ((off - 0x200000) div 0x1000) < PLIC_CONTEXTS"
    and "(off - 0x200000) mod 0x1000 = (4 :: u64)"
  shows "off = claim_reg (unat ((off - 0x200000) div 0x1000))"
proof -
  have "off - 0x200000 = (off - 0x200000) div 0x1000 * 0x1000 + (off - 0x200000) mod 0x1000"
    by (simp add: word_mod_div_equality)
  then show ?thesis using assms(3) by (simp add: claim_reg_def algebra_simps)
qed

lemma in_service_kept:
  assumes "bit (claimed p) i" and "\<not> completes i x"
  shows "bit (claimed (plic_exec x p)) i"
proof (cases x)
  case (PRead off)
  have "claimed (snd (plic_read off p)) \<in> {claimed p, claimed p OR push_bit (unat (plic_best p 0)) 1,
      claimed p OR push_bit (unat (plic_best p 1)) 1}"
    by (simp add: plic_read_def plic_claim_def Let_def PLIC_CONTEXTS_def less_2_cases_iff not_le)
  then show ?thesis using assms(1) PRead by (auto simp: bit_or_iff)
next
  case (PWrite off val)
  have i: "i < 32" using bit_imp_le_length [OF assms(1)] by simp
  show ?thesis
  proof (cases "0x200000 \<le> off \<and> unat ((off - 0x200000) div 0x1000) < PLIC_CONTEXTS
      \<and> (off - 0x200000) mod 0x1000 = 4")
    case True
    then have "unat val \<noteq> i"
      using assms(2) claim_reg_only [of off] by (auto simp: PWrite completes_def)
    moreover obtain c where "off = claim_reg c" "c < PLIC_CONTEXTS"
      using True claim_reg_only [of off] by blast
    then have "plic_exec x p = plic_complete val p" by (simp add: PWrite claim_reg_cases)
    ultimately show ?thesis
      using assms(1) i by (auto simp: plic_complete_def bit_and_iff bit_not_iff bit_exp_iff)
  next
    case False
    then have "claimed (plic_write off val p) = claimed p"
      by (auto simp: plic_write_def Let_def)
    then show ?thesis using assms(1) PWrite by simp
  qed
qed (use assms(1) in simp)

lemma in_service_run:
  "bit (claimed p) i \<Longrightarrow> list_all (\<lambda>x. \<not> completes i x) xs \<Longrightarrow> bit (claimed (fold plic_exec xs p)) i"
  by (induction xs arbitrary: p) (simp_all add: in_service_kept)

lemma plic_run_ok: "plic_ok p \<Longrightarrow> plic_ok (fold plic_exec xs p)"
  by (induction xs arbitrary: p) (simp_all add: plic_exec_ok)

text \<open>
  Property C13. The claim protocol: in any reachable controller a read of a context's claim register
  returns a source that is pending, enabled, not in service and above the threshold, of the
  highest priority and, among equals, the highest id; it returns 0 exactly when there is none. A
  claimed source is delivered to no context again, whatever is read, written and raised, until
  it is completed.
\<close>

theorem plic_claim_protocol:
  fixes ys xs :: "plic_op list"
  defines "p \<equiv> fold plic_exec ys plic_new"
  assumes "ctx < PLIC_CONTEXTS" and "plic_read (claim_reg ctx) p = (src, q)"
  shows "(if \<exists>i. eligible p ctx i
      then eligible p ctx (unat src) \<and> (\<forall>j. eligible p ctx j \<longrightarrow> outranks p (unat src) j) else src = 0)
    \<and> (src \<noteq> 0 \<longrightarrow> list_all (\<lambda>x. \<not> completes (unat src) x) xs \<longrightarrow>
        (\<forall>c < PLIC_CONTEXTS. plic_best (fold plic_exec xs q) c \<noteq> src))"
proof -
  have ok: "plic_ok p" unfolding p_def by (intro plic_run_ok plic_new_ok)
  have r: "src = plic_best p ctx"
    "q = (if src \<noteq> 0 then p\<lparr>claimed := claimed p OR push_bit (unat src) 1\<rparr> else p)"
    using assms(2,3) by (auto simp: claim_reg_cases plic_claim_def Let_def)
  have "plic_best (fold plic_exec xs q) c \<noteq> src"
    if s: "src \<noteq> 0" and xs: "list_all (\<lambda>x. \<not> completes (unat src) x) xs" and c: "c < PLIC_CONTEXTS" for c
  proof -
    have "\<exists>i. eligible p ctx i" using plic_best_spec [OF ok assms(2)] s r(1) by metis
    then have "eligible p ctx (unat src)" using plic_best_spec [OF ok assms(2)] r(1) by simp
    then have "unat src < 32" using bit_imp_le_length by (fastforce simp: eligible_def)
    then have "bit (claimed q) (unat src)" using r(2) s by (simp add: bit_or_iff bit_exp_iff)
    from in_service_run [OF this xs] have "\<not> eligible (fold plic_exec xs q) c (unat src)"
      by (simp add: eligible_def)
    moreover have "plic_ok q" using ok r(2) by (simp add: plic_ok_def)
    note plic_best_spec [OF plic_run_ok [OF this] c, of xs]
    ultimately show ?thesis using s by metis
  qed
  then show ?thesis using plic_best_spec [OF ok assms(2)] r(1) by simp
qed

definition demo_plic :: plic where
  "demo_plic = \<lparr>priority = (replicate 32 0)[1 := 7, 2 := 7], plic_pending = 6, enable = [0, 6],
     threshold = [0, 0], claimed = 0\<rparr>"

lemma demo_plic_run: "fold plic_exec [PWrite 4 7, PWrite 8 7, PWrite 0x2080 6, PLines 6] plic_new = demo_plic"
  by (simp add: plic_write_def plic_new_def demo_plic_def PLIC_SOURCES_def PLIC_CONTEXTS_def replicate_two)

lemma demo_plic_best: "plic_best demo_plic 1 = 2"
proof -
  have z: "trailing_zeros (6 :: u32) = 1" "trailing_zeros (4 :: u32) = 2"
    by (simp_all add: trailing_zeros_def upt_rec)
  have p: "priority demo_plic ! 1 = 7" "priority demo_plic ! 2 = 7" "threshold demo_plic ! 1 = 0"
    by (simp_all add: demo_plic_def)
  have "plic_scan demo_plic 1 6 0 0 = plic_scan demo_plic 1 4 1 7"
    using p by (subst plic_scan.simps) (simp add: z Let_def)
  also have "\<dots> = plic_scan demo_plic 1 0 2 7"
    using p by (subst plic_scan.simps) (simp add: z Let_def)
  also have "\<dots> = 2" by (simp add: plic_scan.simps [of _ _ 0])
  finally show ?thesis by (simp add: plic_best_def demo_plic_def)
qed

theorem plic_claim_protocol_witness:
  "\<exists>q. plic_read (claim_reg 1)
      (fold plic_exec [PWrite 4 7, PWrite 8 7, PWrite 0x2080 6, PLines 6] plic_new) = (2, q)
    \<and> plic_best (fold plic_exec [PLines 4, PRead 0x1000] q) 1 \<noteq> 2"
proof -
  have c: "1 < PLIC_CONTEXTS" by (simp add: PLIC_CONTEXTS_def)
  let ?xs = "[PLines 4, PRead 0x1000]"
  have r: "plic_read (claim_reg 1) (fold plic_exec [PWrite 4 7, PWrite 8 7, PWrite 0x2080 6, PLines 6] plic_new)
    = (2, demo_plic\<lparr>claimed := claimed demo_plic OR push_bit (unat (2 :: u32)) 1\<rparr>)" (is "_ = (2, ?q)")
    unfolding demo_plic_run claim_reg_cases(1) [OF c] plic_claim_def demo_plic_best Let_def by simp
  have x: "list_all (\<lambda>x. \<not> completes (unat (2 :: u32)) x) ?xs" by (simp add: completes_def)
  have "(2 :: u32) \<noteq> 0" by simp
  from mp [OF mp [OF conjunct2 [OF plic_claim_protocol [OF c r, of ?xs]] this] x] c
  have "plic_best (fold plic_exec ?xs ?q) 1 \<noteq> 2" by blast
  with r show ?thesis by blast
qed

end
