(* ===== verification/Uart.thy ===== *)
theory Uart
  imports Prelude
begin

unbundle bit_operations_syntax

text \<open>
  The ns16550 UART of \<^verbatim>\<open>crates/rv64-system/src/virt.rs\<close>: register reads and writes, the console
  queues, and the interrupt line.
\<close>

record uart =
  ier :: u8
  lcr :: u8
  mcr :: u8
  scr :: u8
  rx :: "u8 list"
  tx_out :: "u8 list"
  thre_ip :: bool

definition uart_new :: uart where
  "uart_new = \<lparr>ier = 0, lcr = 0, mcr = 0, scr = 0, rx = [], tx_out = [], thre_ip = False\<rparr>"

definition dlab :: "uart \<Rightarrow> bool" where
  "dlab u = (lcr u AND 0x80 \<noteq> 0)"

definition pop_rx :: "uart \<Rightarrow> u8 \<times> uart" where
  "pop_rx u = (case rx u of [] \<Rightarrow> (0, u) | b # bs \<Rightarrow> (b, u\<lparr>rx := bs\<rparr>))"

definition uart_read :: "u64 \<Rightarrow> uart \<Rightarrow> u8 \<times> uart" where
  "uart_read off u =
     (if off = 0 then (if \<not> dlab u then pop_rx u else (0, u))
      else if off = 1 then (if \<not> dlab u then (ier u, u) else (0, u))
      else if off = 2 then
        (if ier u AND 1 \<noteq> 0 \<and> rx u \<noteq> [] then (0xc4, u)
         else if thre_ip u then (0xc2, u\<lparr>thre_ip := False\<rparr>)
         else (0xc1, u))
      else if off = 3 then (lcr u, u)
      else if off = 4 then (mcr u, u)
      else if off = 5 then (if rx u \<noteq> [] then 0x60 OR 0x01 else 0x60, u)
      else if off = 6 then (0xb0, u)
      else if off = 7 then (scr u, u)
      else (0, u))"

definition uart_write :: "u64 \<Rightarrow> u8 \<Rightarrow> uart \<Rightarrow> uart" where
  "uart_write off val u =
     (if off = 0 \<and> \<not> dlab u then
        (let u = u\<lparr>tx_out := tx_out u @ [val]\<rparr>
         in if ier u AND 2 \<noteq> 0 then u\<lparr>thre_ip := True\<rparr> else u)
      else if off = 1 \<and> \<not> dlab u then
        (let was = ier u; u = u\<lparr>ier := val\<rparr>
         in if val AND 2 \<noteq> 0 \<and> was AND 2 = 0 then u\<lparr>thre_ip := True\<rparr> else u)
      else if off = 3 then u\<lparr>lcr := val\<rparr>
      else if off = 4 then u\<lparr>mcr := val\<rparr>
      else if off = 7 then u\<lparr>scr := val\<rparr>
      else u)"

definition uart_irq :: "uart \<Rightarrow> bool" where
  "uart_irq u \<longleftrightarrow> (ier u AND 1 \<noteq> 0 \<and> rx u \<noteq> []) \<or> thre_ip u"

definition uart_take :: "uart \<Rightarrow> u8 list \<times> uart" where
  "uart_take u = (tx_out u, u\<lparr>tx_out := []\<rparr>)"

definition uart_input :: "u8 list \<Rightarrow> uart \<Rightarrow> uart" where
  "uart_input bs u = u\<lparr>rx := rx u @ bs\<rparr>"

section \<open>The console is a pair of queues\<close>

datatype uart_op = UInput "u8 list" | URead u64 | UWrite u64 u8 | UTake

fun uart_exec :: "uart_op \<Rightarrow> uart \<Rightarrow> uart" where
  "uart_exec (UInput bs) u = uart_input bs u"
| "uart_exec (URead off) u = snd (uart_read off u)"
| "uart_exec (UWrite off val) u = uart_write off val u"
| "uart_exec UTake u = snd (uart_take u)"

text \<open>
  What a run of operations moves: the bytes the host feeds in, the bytes the guest reads
  from the receive buffer, the bytes the guest writes for transmission, the bytes the host takes.
\<close>

record traffic =
  fed :: "u8 list"
  got :: "u8 list"
  sent :: "u8 list"
  taken :: "u8 list"

definition no_traffic :: traffic where
  "no_traffic = \<lparr>fed = [], got = [], sent = [], taken = []\<rparr>"

fun move :: "uart_op \<Rightarrow> uart \<Rightarrow> traffic \<Rightarrow> traffic" where
  "move (UInput bs) u t = t\<lparr>fed := fed t @ bs\<rparr>"
| "move (URead off) u t =
     (if off = 0 \<and> \<not> dlab u \<and> rx u \<noteq> [] then t\<lparr>got := got t @ [fst (uart_read off u)]\<rparr> else t)"
| "move (UWrite off val) u t =
     (if off = 0 \<and> \<not> dlab u then t\<lparr>sent := sent t @ [val]\<rparr> else t)"
| "move UTake u t = t\<lparr>taken := taken t @ fst (uart_take u)\<rparr>"

fun observe :: "uart_op list \<Rightarrow> uart \<times> traffic \<Rightarrow> uart \<times> traffic" where
  "observe [] s = s"
| "observe (x # xs) (u, t) = observe xs (uart_exec x u, move x u t)"

lemma observe_queues:
  assumes "observe xs (u, t) = (u', t')"
    and "fed t = got t @ rx u" and "sent t = taken t @ tx_out u"
  shows "fed t' = got t' @ rx u' \<and> sent t' = taken t' @ tx_out u'"
  using assms
proof (induction xs arbitrary: u t)
  case Nil
  then show ?case by simp
next
  case (Cons x xs)
  have "fed (move x u t) = got (move x u t) @ rx (uart_exec x u)
    \<and> sent (move x u t) = taken (move x u t) @ tx_out (uart_exec x u)"
    using Cons.prems(2,3)
    by (cases x) (auto simp: uart_input_def uart_read_def pop_rx_def uart_write_def uart_take_def Let_def
        split: list.splits)
  with Cons.IH [of "uart_exec x u" "move x u t"] Cons.prems(1) show ?case by simp
qed

text \<open>
  Property C33. No console byte is lost, repeated or reordered: after any interleaving of host input, guest
  register accesses and host drains on a new UART, the bytes fed in are those the guest has
  read followed by those still queued, and the bytes the guest sent are those the host has taken
  followed by those still queued.
\<close>

theorem uart_lossless:
  assumes "observe xs (uart_new, no_traffic) = (u, t)"
  shows "fed t = got t @ rx u \<and> sent t = taken t @ tx_out u"
  using observe_queues [OF assms] by (simp add: uart_new_def no_traffic_def)

theorem uart_lossless_witness:
  "\<exists>u t. observe [UInput [65, 66], URead 0, UWrite 0 67, UTake, UWrite 0 68] (uart_new, no_traffic) = (u, t)
    \<and> got t = [65] \<and> rx u = [66] \<and> taken t = [67] \<and> fed t = [65] @ [66] \<and> sent t = [67] @ [68]"
proof -
  let ?xs = "[UInput [65, 66], URead 0, UWrite 0 67, UTake, UWrite 0 68]"
  obtain u t where e: "observe ?xs (uart_new, no_traffic) = (u, t)" by fastforce
  then have "got t = [65] \<and> rx u = [66] \<and> taken t = [67] \<and> tx_out u = [68]"
    by (auto simp: uart_new_def no_traffic_def uart_read_def uart_write_def uart_input_def uart_take_def
        pop_rx_def dlab_def Let_def)
  with e uart_lossless [OF e] show ?thesis by auto
qed

text \<open>
  The THR-empty condition is latched: a write that disables the interrupt leaves the line up until
  the guest reads the identification register.
\<close>

lemma thre_survives_disable:
  "let u = uart_write 1 0 (uart_write 1 2 uart_new) in ier u = 0 \<and> uart_irq u \<and> \<not> uart_irq (snd (uart_read 2 u))"
  by (simp add: uart_write_def uart_read_def uart_new_def dlab_def uart_irq_def Let_def)

end
