(* ===== verification/Rtc.thy ===== *)
theory Rtc
  imports Prelude
begin

unbundle bit_operations_syntax

text \<open>
  The Goldfish real-time clock of \<^verbatim>\<open>crates/rv64-system/src/rtc.rs\<close>. The guest's adjustment is an
  \<^verbatim>\<open>i128\<close> difference of two 64-bit times; its sums stay far inside that range, so it is an
  integer here.
\<close>

section \<open>The device\<close>

definition TIME_LOW :: u64 where "TIME_LOW = 0x00"
definition TIME_HIGH :: u64 where "TIME_HIGH = 0x04"
definition ALARM_LOW :: u64 where "ALARM_LOW = 0x08"
definition ALARM_HIGH :: u64 where "ALARM_HIGH = 0x0c"
definition IRQ_ENABLED :: u64 where "IRQ_ENABLED = 0x10"
definition CLEAR_ALARM :: u64 where "CLEAR_ALARM = 0x14"
definition ALARM_STATUS :: u64 where "ALARM_STATUS = 0x18"
definition CLEAR_INTERRUPT :: u64 where "CLEAR_INTERRUPT = 0x1c"

lemmas rtc_regs = TIME_LOW_def TIME_HIGH_def ALARM_LOW_def ALARM_HIGH_def IRQ_ENABLED_def
  CLEAR_ALARM_def ALARM_STATUS_def CLEAR_INTERRUPT_def

record goldfish_rtc =
  host_ns :: u64
  guest_offset_ns :: int
  latched_time_high :: u32
  write_time_high :: u32
  alarm_high :: u32
  alarm_ns :: u64
  alarm_armed :: bool
  irq_enabled :: bool
  irq_pending :: bool

definition rtc_new :: goldfish_rtc where
  "rtc_new = \<lparr>
     host_ns = 0, guest_offset_ns = 0, latched_time_high = 0, write_time_high = 0, alarm_high = 0,
     alarm_ns = 0, alarm_armed = False, irq_enabled = False, irq_pending = False\<rparr>"

definition time_ns :: "goldfish_rtc \<Rightarrow> u64" where
  "time_ns r = word_of_int (min (2 ^ 64 - 1) (max 0 (uint (host_ns r) + guest_offset_ns r)))"

definition update_alarm :: "goldfish_rtc \<Rightarrow> goldfish_rtc" where
  "update_alarm r =
     (if alarm_armed r \<and> irq_enabled r \<and> alarm_ns r \<le> time_ns r
      then r\<lparr>alarm_armed := False, irq_pending := True\<rparr> else r)"

definition set_host_time_ns :: "u64 \<Rightarrow> goldfish_rtc \<Rightarrow> goldfish_rtc" where
  "set_host_time_ns ns r = update_alarm (r\<lparr>host_ns := ns\<rparr>)"

definition rtc_read :: "u64 \<Rightarrow> goldfish_rtc \<Rightarrow> u32 \<times> goldfish_rtc" where
  "rtc_read off r =
     (if off = TIME_LOW then
        (let now = time_ns r in (ucast now, r\<lparr>latched_time_high := ucast (drop_bit 32 now)\<rparr>))
      else if off = TIME_HIGH then (latched_time_high r, r)
      else if off = ALARM_LOW then (ucast (alarm_ns r), r)
      else if off = ALARM_HIGH then (ucast (drop_bit 32 (alarm_ns r)), r)
      else if off = IRQ_ENABLED then (b2w (irq_enabled r), r)
      else if off = ALARM_STATUS then (b2w (alarm_armed r), r)
      else (0, r))"

definition wide :: "u32 \<Rightarrow> u32 \<Rightarrow> u64" where
  "wide hi lo = push_bit 32 (ucast hi) OR ucast lo"

definition rtc_write :: "u64 \<Rightarrow> u32 \<Rightarrow> goldfish_rtc \<Rightarrow> goldfish_rtc" where
  "rtc_write off val r =
     (if off = TIME_HIGH then r\<lparr>write_time_high := val\<rparr>
      else if off = TIME_LOW then
        (let requested = wide (write_time_high r) val
         in update_alarm (r\<lparr>guest_offset_ns := uint requested - uint (host_ns r)\<rparr>))
      else if off = ALARM_HIGH then r\<lparr>alarm_high := val\<rparr>
      else if off = ALARM_LOW then
        update_alarm (r\<lparr>alarm_ns := wide (alarm_high r) val, alarm_armed := True\<rparr>)
      else if off = IRQ_ENABLED then update_alarm (r\<lparr>irq_enabled := (val \<noteq> 0)\<rparr>)
      else if off = CLEAR_ALARM then r\<lparr>alarm_armed := False, irq_pending := False\<rparr>
      else if off = CLEAR_INTERRUPT then r\<lparr>irq_pending := False\<rparr>
      else r)"

definition rtc_irq :: "goldfish_rtc \<Rightarrow> bool" where
  "rtc_irq r = irq_pending r"

section \<open>Laws\<close>

text \<open>No armed and enabled alarm is overdue: its interrupt has been raised.\<close>

definition no_missed_alarm :: "goldfish_rtc \<Rightarrow> bool" where
  "no_missed_alarm r \<longleftrightarrow> \<not> (alarm_armed r \<and> irq_enabled r \<and> alarm_ns r \<le> time_ns r)"

lemma time_ns_cong:
  "host_ns s = host_ns r \<Longrightarrow> guest_offset_ns s = guest_offset_ns r \<Longrightarrow> time_ns s = time_ns r"
  by (simp add: time_ns_def)

lemma update_alarm_settles: "no_missed_alarm (update_alarm r)"
  by (auto simp: no_missed_alarm_def update_alarm_def time_ns_def)

datatype rtc_op = HostTime u64 | ReadReg u64 | WriteReg u64 u32

fun rtc_exec :: "rtc_op \<Rightarrow> goldfish_rtc \<Rightarrow> goldfish_rtc" where
  "rtc_exec (HostTime ns) r = set_host_time_ns ns r"
| "rtc_exec (ReadReg off) r = snd (rtc_read off r)"
| "rtc_exec (WriteReg off val) r = rtc_write off val r"

lemma no_missed_alarm_simps:
  "no_missed_alarm (r\<lparr>latched_time_high := v\<rparr>) = no_missed_alarm r"
  "no_missed_alarm (r\<lparr>write_time_high := v\<rparr>) = no_missed_alarm r"
  "no_missed_alarm (r\<lparr>alarm_high := v\<rparr>) = no_missed_alarm r"
  "no_missed_alarm (r\<lparr>irq_pending := p\<rparr>) = no_missed_alarm r"
  "no_missed_alarm (r\<lparr>alarm_armed := False\<rparr>)"
  by (simp_all add: no_missed_alarm_def time_ns_def)

lemma no_missed_alarm_kept: "no_missed_alarm r \<Longrightarrow> no_missed_alarm (rtc_exec x r)"
  by (cases x) (simp_all add: set_host_time_ns_def rtc_read_def rtc_write_def Let_def
      update_alarm_settles no_missed_alarm_simps)

lemma wide_split: "wide (ucast (drop_bit 32 t)) (ucast (t :: u64)) = t"
  by (rule bit_word_eqI) (auto simp: wide_def bit_simps)

lemma update_alarm_time [simp]: "time_ns (update_alarm r) = time_ns r"
  by (simp add: update_alarm_def time_ns_def)

lemma update_alarm_keeps [simp]:
  "host_ns (update_alarm r) = host_ns r" "guest_offset_ns (update_alarm r) = guest_offset_ns r"
  by (simp_all add: update_alarm_def)

text \<open>Setting the time through the two registers, and the host clock running on from there.\<close>

definition set_guest_time :: "u64 \<Rightarrow> goldfish_rtc \<Rightarrow> goldfish_rtc" where
  "set_guest_time t r =
     rtc_write TIME_LOW (ucast t) (rtc_write TIME_HIGH (ucast (drop_bit 32 t)) r)"

lemma set_guest_time_offset:
  "guest_offset_ns (set_guest_time t r) = uint t - uint (host_ns r)" "host_ns (set_guest_time t r) = host_ns r"
  by (simp_all add: set_guest_time_def rtc_write_def rtc_regs Let_def wide_split)

lemma guest_time_runs:
  assumes "host_ns r \<le> h" and "uint t + uint (h - host_ns r) < 2 ^ 64"
  shows "time_ns (set_host_time_ns h (set_guest_time t r)) = t + (h - host_ns r)"
proof -
  let ?s = "set_host_time_ns h (set_guest_time t r)"
  have d: "uint (h - host_ns r) = uint h - uint (host_ns r)"
    using assms(1) by (simp add: uint_minus_simple_alt [symmetric] word_le_def)
  have "uint (host_ns ?s) + guest_offset_ns ?s = uint t + uint (h - host_ns r)"
    unfolding d by (simp add: set_host_time_ns_def set_guest_time_offset)
  then have "time_ns ?s = word_of_int (uint t + uint (h - host_ns r))"
    using assms(2) by (simp add: time_ns_def)
  then show ?thesis by (simp add: wi_hom_syms)
qed

text \<open>What one operation may do to the alarm and the interrupt of a clock that has missed no alarm.\<close>

lemma time_ns_upd:
  "time_ns (r\<lparr>latched_time_high := v\<rparr>) = time_ns r" "time_ns (r\<lparr>write_time_high := v\<rparr>) = time_ns r"
  "time_ns (r\<lparr>alarm_high := v\<rparr>) = time_ns r" "time_ns (r\<lparr>irq_pending := p\<rparr>) = time_ns r"
  "time_ns (r\<lparr>alarm_armed := p\<rparr>) = time_ns r" "time_ns (r\<lparr>alarm_ns := a\<rparr>) = time_ns r"
  "time_ns (r\<lparr>irq_enabled := p\<rparr>) = time_ns r"
  by (simp_all add: time_ns_def)

definition alarm_law :: "bool \<Rightarrow> bool \<Rightarrow> bool \<Rightarrow> goldfish_rtc \<Rightarrow> goldfish_rtc \<Rightarrow> bool" where
  "alarm_law cleared acked armed r s \<longleftrightarrow>
     (alarm_armed r \<and> \<not> alarm_armed s \<longrightarrow> cleared \<or> irq_pending s \<and> irq_enabled s \<and> alarm_ns s \<le> time_ns s)
   \<and> (irq_pending r \<and> \<not> irq_pending s \<longrightarrow> cleared \<or> acked)
   \<and> (\<not> irq_pending r \<and> irq_pending s \<longrightarrow> irq_enabled s \<and> alarm_ns s \<le> time_ns s \<and> (alarm_armed r \<or> armed))"

lemma update_alarm_law:
  assumes "irq_pending s = irq_pending r" and "alarm_armed s \<longleftrightarrow> alarm_armed r \<or> armed"
  shows "alarm_law cleared acked armed r (update_alarm s)"
  using assms by (auto simp: alarm_law_def update_alarm_def time_ns_upd)

lemma rtc_write_law:
  "alarm_law (off = CLEAR_ALARM) (off = CLEAR_INTERRUPT) (off = ALARM_LOW) r (rtc_write off v r)"
proof -
  consider "off = TIME_LOW" | "off = ALARM_LOW" | "off = IRQ_ENABLED" | "off \<notin> {TIME_LOW, ALARM_LOW, IRQ_ENABLED}"
    by blast
  then show ?thesis
  proof cases
    case 4
    then show ?thesis by (simp add: rtc_write_def alarm_law_def)
  qed (simp_all add: rtc_write_def rtc_regs Let_def update_alarm_law)
qed

lemma alarm_step:
  "alarm_law (\<exists>v. x = WriteReg CLEAR_ALARM v) (\<exists>v. x = WriteReg CLEAR_INTERRUPT v) (\<exists>v. x = WriteReg ALARM_LOW v)
     r (rtc_exec x r)"
proof (cases x)
  case (ReadReg off)
  then show ?thesis by (simp add: alarm_law_def rtc_read_def Let_def)
next
  case (WriteReg off v)
  then show ?thesis using rtc_write_law [of off r v] by simp
qed (simp add: set_host_time_ns_def update_alarm_law)

lemma alarm_written:
  "alarm_ns (rtc_write ALARM_LOW v r) = wide (alarm_high r) v
   \<and> (alarm_armed (rtc_write ALARM_LOW v r)
      \<or> irq_pending (rtc_write ALARM_LOW v r) \<and> irq_enabled (rtc_write ALARM_LOW v r)
        \<and> alarm_ns (rtc_write ALARM_LOW v r) \<le> time_ns (rtc_write ALARM_LOW v r))"
  by (simp add: rtc_write_def rtc_regs update_alarm_def time_ns_def)

lemma reachable_clock: "no_missed_alarm (fold rtc_exec xs rtc_new)"
proof -
  have "no_missed_alarm s \<Longrightarrow> no_missed_alarm (fold rtc_exec xs s)" for s
    by (induction xs arbitrary: s) (simp_all add: no_missed_alarm_kept)
  moreover have "no_missed_alarm rtc_new" by (simp add: no_missed_alarm_def rtc_new_def)
  ultimately show ?thesis by simp
qed

text \<open>
  Property C34. The clock keeps the guest's time and misses no alarm, whatever operations came before. After any
  further one, no armed and enabled alarm is due; an alarm that is disarmed was either cleared by the
  guest (register 0x14) or is due and has raised the interrupt; writing the alarm's low half (0x08) sets
  the alarm time and arms it or, when it is due and enabled, raises the interrupt at once; a pending
  interrupt goes away only by the guest's writes of 0x14 or 0x1c, and a new one comes only from an
  enabled alarm that is due and was armed. A time written through the HIGH and LOW registers is
  read back and advances with the host clock, the LOW read latching the HIGH half of the same instant.
\<close>

theorem rtc_keeps_time:
  fixes xs :: "rtc_op list"
  defines "r \<equiv> fold rtc_exec xs rtc_new"
  assumes "r' = rtc_exec x r" and "host_ns r \<le> h" and "uint t + uint (h - host_ns r) < 2 ^ 64"
  shows "\<not> (alarm_armed r' \<and> irq_enabled r' \<and> alarm_ns r' \<le> time_ns r')
    \<and> (alarm_armed r \<and> \<not> alarm_armed r' \<longrightarrow> (\<exists>v. x = WriteReg 0x14 v)
         \<or> irq_pending r' \<and> irq_enabled r' \<and> alarm_ns r' \<le> time_ns r')
    \<and> (\<forall>v. x = WriteReg 0x08 v \<longrightarrow> alarm_ns r' = push_bit 32 (ucast (alarm_high r)) OR ucast v
         \<and> (alarm_armed r' \<or> irq_pending r' \<and> irq_enabled r' \<and> alarm_ns r' \<le> time_ns r'))
    \<and> (irq_pending r \<and> \<not> irq_pending r' \<longrightarrow> (\<exists>v. x = WriteReg 0x14 v \<or> x = WriteReg 0x1c v))
    \<and> (\<not> irq_pending r \<and> irq_pending r' \<longrightarrow> irq_enabled r' \<and> alarm_ns r' \<le> time_ns r'
         \<and> (alarm_armed r \<or> (\<exists>v. x = WriteReg 0x08 v)))
    \<and> rtc_irq r' = irq_pending r'
    \<and> (let s = set_host_time_ns h (rtc_write 0 (ucast t) (rtc_write 4 (ucast (drop_bit 32 t)) r));
           (lo, s1) = rtc_read 0 s;
           (hi, s2) = rtc_read 4 s1
       in push_bit 32 (ucast hi) OR ucast lo = t + (h - host_ns r))"
proof -
  have "no_missed_alarm r'" unfolding assms(2) by (rule no_missed_alarm_kept) (simp add: r_def reachable_clock)
  then have due: "\<not> (alarm_armed r' \<and> irq_enabled r' \<and> alarm_ns r' \<le> time_ns r')" by (simp add: no_missed_alarm_def)
  have wr: "x = WriteReg 0x08 v \<longrightarrow> alarm_ns r' = push_bit 32 (ucast (alarm_high r)) OR ucast v
      \<and> (alarm_armed r' \<or> irq_pending r' \<and> irq_enabled r' \<and> alarm_ns r' \<le> time_ns r')" for v
    using alarm_written [of v r] unfolding assms(2) wide_def rtc_regs by auto
  have "let s = set_host_time_ns h (rtc_write 0 (ucast t) (rtc_write 4 (ucast (drop_bit 32 t)) r));
      (lo, s1) = rtc_read 0 s; (hi, s2) = rtc_read 4 s1
    in push_bit 32 (ucast hi) OR ucast lo = t + (h - host_ns r)"
    using guest_time_runs [OF assms(3,4)]
    by (simp add: set_guest_time_def rtc_read_def rtc_regs Let_def wide_split [unfolded wide_def])
  then show ?thesis
    using due wr alarm_step [of x r, folded assms(2)] unfolding alarm_law_def rtc_regs rtc_irq_def by blast
qed

theorem rtc_keeps_time_witness:
  "let r = fold rtc_exec [HostTime 100, WriteReg 0x08 200, WriteReg 0x10 1] rtc_new; r' = rtc_exec (HostTime 250) r
   in alarm_armed r \<and> \<not> alarm_armed r' \<and> rtc_irq r'"
proof -
  let ?xs = "[HostTime 100, WriteReg 0x08 200, WriteReg 0x10 1]"
  let ?r = "fold rtc_exec ?xs rtc_new"
  have e: "host_ns ?r = 100" "alarm_armed ?r" "\<not> alarm_armed (rtc_exec (HostTime 250) ?r)"
    by (simp_all add: set_host_time_ns_def rtc_write_def rtc_regs rtc_new_def update_alarm_def
        time_ns_def wide_def)
  show ?thesis
    using rtc_keeps_time [OF refl, where xs = ?xs and x = "HostTime 250" and h = 300 and t = 7] e
    unfolding rtc_irq_def by (simp add: Let_def)
qed

end
