(* ===== verification/JitPages.thy ===== *)
theory JitPages
  imports Prelude
begin

unbundle bit_operations_syntax

text \<open>
  The state that a machine shares with its devices and with the compiler of guest code
  (\<^verbatim>\<open>crates/rv64-system/src/lib.rs\<close>): the checked conversion of a guest-physical range to a range
  of the RAM buffer, and \<^verbatim>\<open>JitPageState\<close>, the bitmaps of RAM pages that back compiled code and
  of those written since the last drain. The bitmaps refine an abstract state of a set, a list and
  a counter per page (\<open>pages_view\<close>). Lengths and page indices are \<^verbatim>\<open>usize\<close> of a 64-bit host.
\<close>

section \<open>Ranges of RAM\<close>

definition RAM_BASE :: u64 where "RAM_BASE = 0x80000000"

definition checked_ram_range :: "nat \<Rightarrow> u64 \<Rightarrow> u64 \<Rightarrow> nat \<Rightarrow> (nat \<times> nat) option" where
  "checked_ram_range ram_len ram_base addr n =
     (case checked_sub addr ram_base of None \<Rightarrow> None
      | Some offset \<Rightarrow>
          if 2 ^ 64 \<le> unat offset + n then None
          else if ram_len < unat offset + n then None
          else Some (unat offset, unat offset + n))"

lemma checked_ram_range_Some:
  "checked_ram_range ram_len base addr n = Some r \<longleftrightarrow>
     unat base \<le> unat addr \<and> r = (unat addr - unat base, unat addr - unat base + n)
     \<and> unat addr - unat base + n < 2 ^ 64 \<and> unat addr - unat base + n \<le> ram_len"
  by (auto simp: checked_ram_range_def checked_sub_def word_le_nat_alt unat_sub split: if_splits)

section \<open>The page bitmaps\<close>

definition JIT_PAGE_SHIFT :: nat where "JIT_PAGE_SHIFT = 12"
definition JIT_PAGE_SIZE :: nat where "JIT_PAGE_SIZE = 2 ^ JIT_PAGE_SHIFT"

record jit_page_flags =
  marked :: u64
  dirty :: u64

record jit_page_state =
  page_count :: nat
  jit_flags :: "jit_page_flags list"
  dirty_pages :: "u64 list"
  write_generations :: "u64 list"

definition jit_new :: "nat \<Rightarrow> jit_page_state" where
  "jit_new ram_bytes =
     (let page_count = (ram_bytes + JIT_PAGE_SIZE - 1) div JIT_PAGE_SIZE;
          word_count = (page_count + 63) div 64
      in \<lparr>page_count = page_count,
          jit_flags = replicate word_count \<lparr>marked = 0, dirty = 0\<rparr>,
          dirty_pages = [],
          write_generations = replicate page_count 0\<rparr>)"

definition page_for_address :: "jit_page_state \<Rightarrow> u64 \<Rightarrow> nat option" where
  "page_for_address j pa =
     (case checked_sub pa RAM_BASE of None \<Rightarrow> None
      | Some d \<Rightarrow>
          (let page = unat (drop_bit JIT_PAGE_SHIFT d)
           in if page < page_count j then Some page else None))"

definition page_mask :: "nat \<Rightarrow> u64" where
  "page_mask page = push_bit (page mod 64) 1"

definition word_and_mask :: "jit_page_state \<Rightarrow> u64 \<Rightarrow> (nat \<times> u64) option" where
  "word_and_mask j page =
     (if unat page < page_count j then Some (unat page div 64, page_mask (unat page)) else None)"

definition put_flags :: "nat \<Rightarrow> (jit_page_flags \<Rightarrow> jit_page_flags) \<Rightarrow> jit_page_state \<Rightarrow> jit_page_state" where
  "put_flags w f j = j\<lparr>jit_flags := (jit_flags j)[w := f (jit_flags j ! w)]\<rparr>"

definition mark_address :: "u64 \<Rightarrow> jit_page_state \<Rightarrow> bool \<times> jit_page_state" where
  "mark_address pa j =
     (case page_for_address j pa of
        Some page \<Rightarrow>
          (let m = page_mask page
           in (marked (jit_flags j ! (page div 64)) AND m = 0,
               put_flags (page div 64) (\<lambda>f. f\<lparr>marked := marked f OR m\<rparr>) j))
      | None \<Rightarrow> (False, j))"

definition unmark_page :: "u64 \<Rightarrow> jit_page_state \<Rightarrow> jit_page_state" where
  "unmark_page page j =
     (case word_and_mask j page of
        Some (w, m) \<Rightarrow> put_flags w (\<lambda>f. f\<lparr>marked := marked f AND NOT m\<rparr>) j
      | None \<Rightarrow> j)"

definition page_marked :: "jit_page_state \<Rightarrow> u64 \<Rightarrow> bool" where
  "page_marked j page =
     (case word_and_mask j page of
        Some (w, m) \<Rightarrow> marked (jit_flags j ! w) AND m \<noteq> 0
      | None \<Rightarrow> False)"

definition address_marked :: "jit_page_state \<Rightarrow> u64 \<Rightarrow> bool" where
  "address_marked j pa =
     (case page_for_address j pa of
        Some page \<Rightarrow> marked (jit_flags j ! (page div 64)) AND page_mask page \<noteq> 0
      | None \<Rightarrow> False)"

definition page_generation :: "jit_page_state \<Rightarrow> u64 \<Rightarrow> u64 option" where
  "page_generation j page =
     (if unat page < length (write_generations j) then Some (write_generations j ! unat page) else None)"

definition note_page_write :: "nat \<Rightarrow> jit_page_state \<Rightarrow> jit_page_state" where
  "note_page_write page j =
     (let w = page div 64;
          m = page_mask page;
          f = jit_flags j ! w
      in if marked f AND m \<noteq> 0 \<and> dirty f AND m = 0
         then (put_flags w (\<lambda>f. f\<lparr>dirty := dirty f OR m\<rparr>) j)
                \<lparr>write_generations := (write_generations j)[page := write_generations j ! page + 1],
                 dirty_pages := dirty_pages j @ [of_nat page]\<rparr>
         else j)"

definition note_store :: "u64 \<Rightarrow> jit_page_state \<Rightarrow> jit_page_state" where
  "note_store pa j =
     (case page_for_address j pa of Some page \<Rightarrow> note_page_write page j | None \<Rightarrow> j)"

definition note_write :: "u64 \<Rightarrow> nat \<Rightarrow> jit_page_state \<Rightarrow> jit_page_state" where
  "note_write pa n j =
     (if n = 0 then j
      else case checked_add pa (of_nat n - 1) of None \<Rightarrow> j
      | Some end_pa \<Rightarrow>
          (case (page_for_address j pa, page_for_address j end_pa) of
             (Some first_page, Some last_page) \<Rightarrow> fold note_page_write [first_page..<Suc last_page] j
           | _ \<Rightarrow> j))"

definition has_dirty :: "jit_page_state \<Rightarrow> bool" where
  "has_dirty j = (dirty_pages j \<noteq> [])"

definition is_dirty :: "jit_page_state \<Rightarrow> u64 \<Rightarrow> bool" where
  "is_dirty j page =
     (case word_and_mask j page of
        Some (w, m) \<Rightarrow> dirty (jit_flags j ! w) AND m \<noteq> 0
      | None \<Rightarrow> False)"

text \<open>The loop of \<open>take_dirty\<close>; its \<^verbatim>\<open>expect\<close> never fires on a well-formed state (\<open>pages_ok\<close>).\<close>

definition clear_dirty :: "u64 \<Rightarrow> jit_page_state \<Rightarrow> jit_page_state" where
  "clear_dirty page j =
     (case word_and_mask j page of
        Some (w, m) \<Rightarrow> put_flags w (\<lambda>f. f\<lparr>dirty := dirty f AND NOT m\<rparr>) j
      | None \<Rightarrow> j)"

definition take_dirty :: "jit_page_state \<Rightarrow> u64 list \<times> jit_page_state" where
  "take_dirty j = (let pages = dirty_pages j in (pages, fold clear_dirty pages (j\<lparr>dirty_pages := []\<rparr>)))"

section \<open>Pages as sets\<close>

text \<open>What the bitmaps say of a page.\<close>

definition mark_bit :: "jit_page_state \<Rightarrow> nat \<Rightarrow> bool" where
  "mark_bit j p = bit (marked (jit_flags j ! (p div 64))) (p mod 64)"

definition dirty_bit :: "jit_page_state \<Rightarrow> nat \<Rightarrow> bool" where
  "dirty_bit j p = bit (dirty (jit_flags j ! (p div 64))) (p mod 64)"

text \<open>
  Well-formed: the arrays have the lengths that the page count asks for, and the dirty list holds
  each dirty page once and nothing else.
\<close>

definition pages_ok :: "jit_page_state \<Rightarrow> bool" where
  "pages_ok j \<longleftrightarrow>
     page_count j \<le> 64 * length (jit_flags j) \<and> length (write_generations j) = page_count j
     \<and> page_count j < 2 ^ 64 \<and> distinct (dirty_pages j)
     \<and> (\<forall>p \<in> set (dirty_pages j). unat p < page_count j)
     \<and> (\<forall>p < page_count j. dirty_bit j p \<longleftrightarrow> of_nat p \<in> set (dirty_pages j))"


lemma page_mask_bit: "bit (page_mask p) n \<longleftrightarrow> n = p mod 64"
  by (auto simp: page_mask_def bit_simps)

lemma and_page_mask: "w AND page_mask p \<noteq> 0 \<longleftrightarrow> bit w (p mod 64)"
proof
  assume "w AND page_mask p \<noteq> 0"
  then obtain n where "bit (w AND page_mask p) n" by (metis bit_eqI bit_0_eq bot_apply bot_bool_def)
  then show "bit w (p mod 64)" by (auto simp: bit_and_iff page_mask_bit)
next
  assume "bit w (p mod 64)"
  then have "bit (w AND page_mask p) (p mod 64)" by (simp add: bit_and_iff page_mask_bit)
  then show "w AND page_mask p \<noteq> 0" by auto
qed

lemma and_page_mask_0: "w AND page_mask p = 0 \<longleftrightarrow> \<not> bit w (p mod 64)"
  using and_page_mask by blast

lemma same_page: "q div 64 = p div 64 \<Longrightarrow> q mod 64 = p mod 64 \<longleftrightarrow> q = (p :: nat)"
  by (metis div_mult_mod_eq)

lemma put_flags_simps [simp]:
  "page_count (put_flags w f j) = page_count j"
  "write_generations (put_flags w f j) = write_generations j"
  "dirty_pages (put_flags w f j) = dirty_pages j"
  "length (jit_flags (put_flags w f j)) = length (jit_flags j)"
  by (simp_all add: put_flags_def)

lemma bits_update [simp]:
  "mark_bit (j\<lparr>write_generations := g\<rparr>) p = mark_bit j p"
  "dirty_bit (j\<lparr>write_generations := g\<rparr>) p = dirty_bit j p"
  "mark_bit (j\<lparr>dirty_pages := d\<rparr>) p = mark_bit j p"
  "dirty_bit (j\<lparr>dirty_pages := d\<rparr>) p = dirty_bit j p"
  by (simp_all add: mark_bit_def dirty_bit_def)

lemma put_flags_bits:
  assumes "w < length (jit_flags j)"
  shows "mark_bit (put_flags w f j) p =
      (if p div 64 = w then bit (marked (f (jit_flags j ! w))) (p mod 64) else mark_bit j p)"
    and "dirty_bit (put_flags w f j) p =
      (if p div 64 = w then bit (dirty (f (jit_flags j ! w))) (p mod 64) else dirty_bit j p)"
  using assms by (simp_all add: put_flags_def mark_bit_def dirty_bit_def nth_list_update)

lemma word_index: "pages_ok j \<Longrightarrow> p < page_count j \<Longrightarrow> p div 64 < length (jit_flags j)"
  unfolding pages_ok_def by (auto simp: less_mult_imp_div_less mult.commute)

text \<open>What each bitmap update does to the bits of every page.\<close>

lemma update_bits:
  assumes "pages_ok j" and "p < page_count j"
  shows "mark_bit (put_flags (p div 64) (\<lambda>f. f\<lparr>marked := marked f OR page_mask p\<rparr>) j) q \<longleftrightarrow> q = p \<or> mark_bit j q"
    and "dirty_bit (put_flags (p div 64) (\<lambda>f. f\<lparr>marked := marked f OR page_mask p\<rparr>) j) q = dirty_bit j q"
    and "mark_bit (put_flags (p div 64) (\<lambda>f. f\<lparr>marked := marked f AND NOT (page_mask p)\<rparr>) j) q \<longleftrightarrow> q \<noteq> p \<and> mark_bit j q"
    and "dirty_bit (put_flags (p div 64) (\<lambda>f. f\<lparr>marked := marked f AND NOT (page_mask p)\<rparr>) j) q = dirty_bit j q"
    and "dirty_bit (put_flags (p div 64) (\<lambda>f. f\<lparr>dirty := dirty f OR page_mask p\<rparr>) j) q \<longleftrightarrow> q = p \<or> dirty_bit j q"
    and "mark_bit (put_flags (p div 64) (\<lambda>f. f\<lparr>dirty := dirty f OR page_mask p\<rparr>) j) q = mark_bit j q"
    and "dirty_bit (put_flags (p div 64) (\<lambda>f. f\<lparr>dirty := dirty f AND NOT (page_mask p)\<rparr>) j) q \<longleftrightarrow> q \<noteq> p \<and> dirty_bit j q"
    and "mark_bit (put_flags (p div 64) (\<lambda>f. f\<lparr>dirty := dirty f AND NOT (page_mask p)\<rparr>) j) q = mark_bit j q"
  using same_page [of q p] unfolding put_flags_bits [OF word_index [OF assms]]
  by (auto simp: mark_bit_def dirty_bit_def page_mask_bit bit_or_iff bit_and_iff bit_not_iff)

section \<open>The abstract state\<close>

record pages_view =
  v_marked :: "nat set"
  v_dirty :: "nat list"
  v_gen :: "nat \<Rightarrow> u64"

definition pages_view :: "jit_page_state \<Rightarrow> pages_view" where
  "pages_view j = \<lparr>
     v_marked = {p. p < page_count j \<and> mark_bit j p},
     v_dirty = map unat (dirty_pages j),
     v_gen = (\<lambda>p. if p < page_count j then write_generations j ! p else 0)\<rparr>"

text \<open>A write to a marked page counts once until the next drain.\<close>

definition touch :: "nat \<Rightarrow> pages_view \<Rightarrow> pages_view" where
  "touch p v =
     (if p \<in> v_marked v \<and> p \<notin> set (v_dirty v)
      then v\<lparr>v_dirty := v_dirty v @ [p], v_gen := (v_gen v)(p := v_gen v p + 1)\<rparr> else v)"

lemma dirty_mem:
  assumes "pages_ok j" and "p < page_count j"
  shows "p \<in> set (map unat (dirty_pages j)) \<longleftrightarrow> dirty_bit j p"
proof -
  have p: "unat (of_nat p :: u64) = p" using assms by (simp add: pages_ok_def unat_of_nat)
  have "p \<in> unat ` set (dirty_pages j) \<longleftrightarrow> of_nat p \<in> set (dirty_pages j)"
    using p by (metis (no_types, lifting) image_iff word_unat_eq_iff)
  then show ?thesis using assms by (simp add: pages_ok_def)
qed

lemma note_page_write_ok:
  assumes "pages_ok j" and "p < page_count j"
  shows "pages_ok (note_page_write p j)" and "page_count (note_page_write p j) = page_count j"
proof -
  show n: "page_count (note_page_write p j) = page_count j" by (simp add: note_page_write_def Let_def)
  let ?b = "put_flags (p div 64) (\<lambda>f. f\<lparr>dirty := dirty f OR page_mask p\<rparr>) j"
  have u: "unat (of_nat q :: u64) = q" if "q < page_count j" for q
    using assms(1) that by (simp add: pages_ok_def unat_of_nat)
  then have inj: "(of_nat q :: u64) = of_nat p \<longleftrightarrow> q = p" if "q < page_count j" for q
    using assms(2) that by metis
  show "pages_ok (note_page_write p j)"
  proof (cases "mark_bit j p \<and> \<not> dirty_bit j p")
    case True
    then have e: "note_page_write p j = ?b\<lparr>write_generations := (write_generations j)[p := write_generations j ! p + 1],
        dirty_pages := dirty_pages j @ [of_nat p]\<rparr>"
      by (simp add: note_page_write_def Let_def and_page_mask and_page_mask_0 mark_bit_def dirty_bit_def)
    have "of_nat p \<notin> set (dirty_pages j)" using True assms by (simp add: pages_ok_def)
    then show ?thesis
      using assms u inj by (auto simp: e pages_ok_def update_bits [OF assms])
  next
    case False
    then have "note_page_write p j = j"
      by (auto simp: note_page_write_def Let_def and_page_mask and_page_mask_0 mark_bit_def dirty_bit_def)
    then show ?thesis using assms(1) by simp
  qed
qed

lemma note_page_write_view:
  assumes "pages_ok j" and "p < page_count j"
  shows "pages_view (note_page_write p j) = touch p (pages_view j)"
proof (cases "mark_bit j p \<and> \<not> dirty_bit j p")
  case True
  then have e: "note_page_write p j = (put_flags (p div 64) (\<lambda>f. f\<lparr>dirty := dirty f OR page_mask p\<rparr>) j)
        \<lparr>write_generations := (write_generations j)[p := write_generations j ! p + 1],
         dirty_pages := dirty_pages j @ [of_nat p]\<rparr>"
    by (simp add: note_page_write_def Let_def and_page_mask and_page_mask_0 mark_bit_def dirty_bit_def)
  have l: "length (write_generations j) = page_count j" and u: "unat (of_nat p :: u64) = p"
    using assms by (simp_all add: pages_ok_def unat_of_nat)
  have "p \<notin> set (map unat (dirty_pages j))" using True dirty_mem [OF assms] by simp
  then show ?thesis
    using True assms(2) l u
    by (auto simp: e pages_view_def touch_def update_bits [OF assms] nth_list_update fun_eq_iff)
next
  case False
  then have "note_page_write p j = j"
    by (auto simp: note_page_write_def Let_def and_page_mask and_page_mask_0 mark_bit_def dirty_bit_def)
  moreover have "touch p (pages_view j) = pages_view j"
    using False assms dirty_mem [OF assms] by (auto simp: touch_def pages_view_def)
  ultimately show ?thesis by simp
qed


text \<open>The number of the RAM page that holds an address, of \<open>n\<close> pages.\<close>

definition page_of :: "nat \<Rightarrow> u64 \<Rightarrow> nat option" where
  "page_of n pa =
     (if RAM_BASE \<le> pa \<and> (unat pa - unat RAM_BASE) div 4096 < n
      then Some ((unat pa - unat RAM_BASE) div 4096) else None)"

lemma page_for_address_of: "page_for_address j pa = page_of (page_count j) pa"
proof (cases "RAM_BASE \<le> pa")
  case True
  then have "unat (drop_bit JIT_PAGE_SHIFT (pa - RAM_BASE)) = (unat pa - unat RAM_BASE) div 4096"
    by (simp add: JIT_PAGE_SHIFT_def drop_bit_eq_div unat_div unat_sub)
  with True show ?thesis by (simp add: page_for_address_def page_of_def checked_sub_def)
qed (simp add: page_for_address_def page_of_def checked_sub_def)

lemma page_of_bound: "page_of n pa = Some p \<Longrightarrow> p < n"
  by (auto simp: page_of_def split: if_splits)

datatype jit_op = Mark u64 | Unmark u64 | Store u64 | Dma u64 nat | Drain

fun jit_exec :: "jit_op \<Rightarrow> jit_page_state \<Rightarrow> jit_page_state" where
  "jit_exec (Mark pa) j = snd (mark_address pa j)"
| "jit_exec (Unmark page) j = unmark_page page j"
| "jit_exec (Store pa) j = note_store pa j"
| "jit_exec (Dma pa n) j = note_write pa n j"
| "jit_exec Drain j = snd (take_dirty j)"

text \<open>The same operations on the abstract state of \<open>n\<close> pages.\<close>

fun view_exec :: "nat \<Rightarrow> jit_op \<Rightarrow> pages_view \<Rightarrow> pages_view" where
  "view_exec n (Mark pa) v =
     (case page_of n pa of Some p \<Rightarrow> v\<lparr>v_marked := insert p (v_marked v)\<rparr> | None \<Rightarrow> v)"
| "view_exec n (Unmark page) v = v\<lparr>v_marked := v_marked v - {unat page}\<rparr>"
| "view_exec n (Store pa) v = (case page_of n pa of Some p \<Rightarrow> touch p v | None \<Rightarrow> v)"
| "view_exec n (Dma pa len) v =
     (if len = 0 then v
      else case (page_of n pa, page_of n (pa + of_nat len - 1)) of
             (Some p, Some q) \<Rightarrow> if unat pa + (len - 1) < 2 ^ 64 then fold touch [p..<Suc q] v else v
           | _ \<Rightarrow> v)"
| "view_exec n Drain v = v\<lparr>v_dirty := []\<rparr>"

lemma fold_note_page_write:
  assumes "pages_ok j" and "\<And>p. p \<in> set ps \<Longrightarrow> p < page_count j"
  shows "pages_ok (fold note_page_write ps j)
    \<and> page_count (fold note_page_write ps j) = page_count j
    \<and> pages_view (fold note_page_write ps j) = fold touch ps (pages_view j)"
  using assms
proof (induction ps arbitrary: j)
  case Nil
  then show ?case by simp
next
  case (Cons p ps)
  have p: "p < page_count j" using Cons.prems(2) by simp
  note w = note_page_write_ok [OF Cons.prems(1) p] note_page_write_view [OF Cons.prems(1) p]
  show ?case using Cons.IH [OF w(1)] Cons.prems(2) w by simp
qed

lemma mark_address_view:
  assumes "pages_ok j"
  shows "pages_ok (snd (mark_address pa j))" "page_count (snd (mark_address pa j)) = page_count j"
    "pages_view (snd (mark_address pa j)) = view_exec (page_count j) (Mark pa) (pages_view j)"
  using assms page_of_bound [of "page_count j" pa]
  by (auto simp: mark_address_def page_for_address_of Let_def pages_ok_def pages_view_def
      update_bits [OF assms] split: option.splits)

lemma unmark_page_view:
  assumes "pages_ok j"
  shows "pages_ok (unmark_page page j)" "page_count (unmark_page page j) = page_count j"
    "pages_view (unmark_page page j) = view_exec (page_count j) (Unmark page) (pages_view j)"
  using assms
  by (auto simp: unmark_page_def word_and_mask_def pages_ok_def pages_view_def update_bits [OF assms])

lemma note_store_view:
  assumes "pages_ok j"
  shows "pages_ok (note_store pa j)" "page_count (note_store pa j) = page_count j"
    "pages_view (note_store pa j) = view_exec (page_count j) (Store pa) (pages_view j)"
  using assms note_page_write_ok [OF assms] note_page_write_view [OF assms]
  by (simp_all add: note_store_def page_for_address_of page_of_bound split: option.splits)

lemma note_write_view:
  assumes "pages_ok j" and "n < 2 ^ 64"
  shows "pages_ok (note_write pa n j)" "page_count (note_write pa n j) = page_count j"
    "pages_view (note_write pa n j) = view_exec (page_count j) (Dma pa n) (pages_view j)"
proof -
  have u: "n \<noteq> 0 \<Longrightarrow> unat (of_nat n - 1 :: u64) = n - 1"
    using assms(2) by (cases n) (simp_all add: unat_of_nat)
  have all: "pages_ok (note_write pa n j) \<and> page_count (note_write pa n j) = page_count j
    \<and> pages_view (note_write pa n j) = view_exec (page_count j) (Dma pa n) (pages_view j)"
  proof (cases "n \<noteq> 0 \<and> unat pa + (n - 1) < 2 ^ 64")
    case False
    then show ?thesis
      using assms(1) u by (auto simp: note_write_def checked_add_def split: option.splits)
  next
    case True
    then have a: "checked_add pa (of_nat n - 1) = Some (pa + of_nat n - 1)"
      using u by (simp add: checked_add_def add_diff_eq) linarith
    show ?thesis
    proof (cases "page_of (page_count j) pa"; cases "page_of (page_count j) (pa + of_nat n - 1)")
      fix p q
      assume p: "page_of (page_count j) pa = Some p" and q: "page_of (page_count j) (pa + of_nat n - 1) = Some q"
      have r: "r < page_count j" if "r \<in> set [p..<Suc q]" for r
        using that page_of_bound [OF q] by auto
      have "unat pa + n - Suc 0 < 2 ^ 64" using True by linarith
      with fold_note_page_write [OF assms(1), of "[p..<Suc q]"] r show ?thesis
        using True by (simp add: note_write_def a page_for_address_of p q del: upt_Suc)
    qed (use True assms(1) in \<open>simp_all add: note_write_def a page_for_address_of\<close>)
  qed
  then show "pages_ok (note_write pa n j)" "page_count (note_write pa n j) = page_count j"
    "pages_view (note_write pa n j) = view_exec (page_count j) (Dma pa n) (pages_view j)"
    by blast+
qed

text \<open>The drain clears exactly the bits of the pages it returns.\<close>

lemma clear_dirty_bits:
  assumes "page_count j \<le> 64 * length (jit_flags j)"
  shows "mark_bit (clear_dirty page j) q = mark_bit j q
    \<and> (q < page_count j \<longrightarrow> (dirty_bit (clear_dirty page j) q \<longleftrightarrow> q \<noteq> unat page \<and> dirty_bit j q))"
proof (cases "unat page < page_count j")
  case True
  then have i: "unat page div 64 < length (jit_flags j)"
    using assms by (simp add: less_mult_imp_div_less mult.commute)
  have e: "clear_dirty page j
    = put_flags (unat page div 64) (\<lambda>f. f\<lparr>dirty := dirty f AND NOT (page_mask (unat page))\<rparr>) j"
    by (simp add: clear_dirty_def word_and_mask_def True)
  show ?thesis
    using same_page [of q "unat page"] unfolding e put_flags_bits [OF i]
    by (auto simp: page_mask_bit bit_and_iff bit_not_iff dirty_bit_def mark_bit_def)
next
  case False
  then show ?thesis by (auto simp: clear_dirty_def word_and_mask_def)
qed

lemma clear_dirty_simps [simp]:
  "page_count (clear_dirty page j) = page_count j"
  "write_generations (clear_dirty page j) = write_generations j"
  "dirty_pages (clear_dirty page j) = dirty_pages j"
  "length (jit_flags (clear_dirty page j)) = length (jit_flags j)"
  by (simp_all add: clear_dirty_def split: option.splits)

lemma fold_clear_dirty:
  fixes ps :: "u64 list"
  assumes "page_count j \<le> 64 * length (jit_flags j)"
  shows "page_count (fold clear_dirty ps j) = page_count j
    \<and> write_generations (fold clear_dirty ps j) = write_generations j
    \<and> dirty_pages (fold clear_dirty ps j) = dirty_pages j
    \<and> length (jit_flags (fold clear_dirty ps j)) = length (jit_flags j)
    \<and> (\<forall>q. mark_bit (fold clear_dirty ps j) q = mark_bit j q)
    \<and> (\<forall>q < page_count j. dirty_bit (fold clear_dirty ps j) q \<longleftrightarrow> q \<notin> unat ` set ps \<and> dirty_bit j q)"
  using assms
proof (induction ps arbitrary: j)
  case (Cons p ps)
  have "page_count (clear_dirty p j) \<le> 64 * length (jit_flags (clear_dirty p j))"
    using Cons.prems by simp
  from Cons.IH [OF this] show ?case
    using clear_dirty_bits [OF Cons.prems, of p] by auto
qed simp

lemma take_dirty_view:
  assumes "pages_ok j"
  shows "pages_ok (snd (take_dirty j))" "page_count (snd (take_dirty j)) = page_count j"
    "pages_view (snd (take_dirty j)) = view_exec (page_count j) Drain (pages_view j)"
proof -
  let ?k = "j\<lparr>dirty_pages := []\<rparr>"
  have "page_count ?k \<le> 64 * length (jit_flags ?k)" using assms by (simp add: pages_ok_def)
  note f = fold_clear_dirty [OF this, of "dirty_pages j"]
  have d: "\<not> dirty_bit (snd (take_dirty j)) q" if q: "q < page_count j" for q
    using f q dirty_mem [OF assms q] by (simp add: take_dirty_def Let_def)
  show "pages_ok (snd (take_dirty j))"
    using f d assms by (simp add: take_dirty_def Let_def pages_ok_def)
  show "page_count (snd (take_dirty j)) = page_count j" using f by (simp add: take_dirty_def Let_def)
  show "pages_view (snd (take_dirty j)) = view_exec (page_count j) Drain (pages_view j)"
    using f by (simp add: take_dirty_def Let_def pages_view_def fun_eq_iff)
qed


definition dma_sizes :: "jit_op list \<Rightarrow> bool" where
  "dma_sizes ops \<longleftrightarrow> list_all (\<lambda>x. case x of Dma pa n \<Rightarrow> n < 2 ^ 64 | _ \<Rightarrow> True) ops"

lemma jit_exec_view:
  assumes "pages_ok j" and "dma_sizes [x]"
  shows "pages_ok (jit_exec x j) \<and> page_count (jit_exec x j) = page_count j
    \<and> pages_view (jit_exec x j) = view_exec (page_count j) x (pages_view j)"
proof (cases x)
  case (Dma pa n)
  with assms(2) have "n < 2 ^ 64" by (simp add: dma_sizes_def)
  from note_write_view [OF assms(1) this] Dma show ?thesis by simp
qed (use assms(1) mark_address_view unmark_page_view note_store_view take_dirty_view in simp_all)

lemma jit_run_view:
  "pages_ok j \<Longrightarrow> dma_sizes ops \<Longrightarrow>
     pages_ok (fold jit_exec ops j) \<and> page_count (fold jit_exec ops j) = page_count j
     \<and> pages_view (fold jit_exec ops j) = fold (view_exec (page_count j)) ops (pages_view j)"
proof (induction ops arbitrary: j)
  case (Cons x ops)
  have "dma_sizes [x]" "dma_sizes ops" using Cons.prems(2) by (simp_all add: dma_sizes_def)
  with jit_exec_view [OF Cons.prems(1), of x] Cons.IH [of "jit_exec x j"] show ?case by simp
qed simp

lemma jit_new_ok:
  assumes "ram_bytes < 2 ^ 63"
  shows "pages_ok (jit_new ram_bytes)"
    and "pages_view (jit_new ram_bytes) = \<lparr>v_marked = {}, v_dirty = [], v_gen = \<lambda>_. 0\<rparr>"
proof -
  let ?n = "page_count (jit_new ram_bytes)" and ?w = "length (jit_flags (jit_new ram_bytes))"
  have n: "?n \<le> 64 * ?w" "?n < 2 ^ 64"
    using assms by (simp_all add: jit_new_def Let_def JIT_PAGE_SIZE_def JIT_PAGE_SHIFT_def)
  then have i: "p < ?n \<Longrightarrow> p div 64 < ?w" for p by (simp add: less_mult_imp_div_less mult.commute)
  have b: "p < ?n \<Longrightarrow> \<not> mark_bit (jit_new ram_bytes) p \<and> \<not> dirty_bit (jit_new ram_bytes) p" for p
    using i [of p] by (simp add: mark_bit_def dirty_bit_def jit_new_def Let_def)
  show "pages_ok (jit_new ram_bytes)"
    using n b by (simp add: pages_ok_def) (simp add: jit_new_def Let_def)
  show "pages_view (jit_new ram_bytes) = \<lparr>v_marked = {}, v_dirty = [], v_gen = \<lambda>_. 0\<rparr>"
    using b by (auto simp: pages_view_def fun_eq_iff) (simp_all add: jit_new_def Let_def)
qed

lemma page_queries:
  assumes "pages_ok j"
  shows "is_dirty j p \<longleftrightarrow> unat p \<in> set (v_dirty (pages_view j))"
    and "page_marked j p \<longleftrightarrow> unat p \<in> v_marked (pages_view j)"
proof -
  have d: "unat p < page_count j" if "unat p \<in> unat ` set (dirty_pages j)"
    using assms that by (auto simp: pages_ok_def)
  show "is_dirty j p \<longleftrightarrow> unat p \<in> set (v_dirty (pages_view j))"
    using d dirty_mem [OF assms, of "unat p"]
    by (auto simp: is_dirty_def word_and_mask_def and_page_mask pages_view_def dirty_bit_def)
  show "page_marked j p \<longleftrightarrow> unat p \<in> v_marked (pages_view j)"
    by (simp add: page_marked_def word_and_mask_def and_page_mask pages_view_def mark_bit_def)
qed

text \<open>
  Property C12. After any sequence of marks, unmarks, CPU stores, DMA writes and drains on a fresh state,
  the bitmaps stand for the sets and the list that the same sequence makes abstractly: a write to
  a marked page is reported once, in first-write order, until the next drain, with one step of its
  generation; the drain returns the list without repetition; the queries answer by the sets.
\<close>

theorem jit_pages_refine:
  fixes ops :: "jit_op list" and ram_bytes :: nat and p :: u64
  defines "j \<equiv> fold jit_exec ops (jit_new ram_bytes)"
    and "v \<equiv> fold (view_exec ((ram_bytes + 4095) div 4096)) ops
      \<lparr>v_marked = {}, v_dirty = [], v_gen = \<lambda>_. 0\<rparr>"
  assumes "ram_bytes < 2 ^ 63" and "dma_sizes ops"
  shows "pages_view j = v \<and> map unat (fst (take_dirty j)) = v_dirty v \<and> distinct (v_dirty v)
    \<and> (is_dirty j p \<longleftrightarrow> unat p \<in> set (v_dirty v)) \<and> (page_marked j p \<longleftrightarrow> unat p \<in> v_marked v)"
proof -
  have n: "page_count (jit_new ram_bytes) = (ram_bytes + 4095) div 4096"
    by (simp add: jit_new_def Let_def JIT_PAGE_SIZE_def JIT_PAGE_SHIFT_def)
  from jit_run_view [OF jit_new_ok(1) [OF assms(3)] assms(4)] have j: "pages_ok j" "pages_view j = v"
    by (simp_all add: j_def v_def n jit_new_ok(2) [OF assms(3)])
  moreover have "distinct (map unat (dirty_pages j))"
    using j(1) by (simp add: pages_ok_def distinct_map inj_on_def word_unat_eq_iff)
  ultimately show ?thesis
    using page_queries [OF j(1)] by (auto simp: take_dirty_def Let_def pages_view_def)
qed

theorem jit_pages_refine_witness:
  "map unat (fst (take_dirty (fold jit_exec [Mark 0x80001000, Store 0x80001004, Dma 0x80000ffe 8]
     (jit_new 0x3000)))) = [1]"
proof -
  let ?ops = "[Mark 0x80001000, Store 0x80001004, Dma 0x80000ffe 8]"
  have "dma_sizes ?ops" by (simp add: dma_sizes_def)
  moreover have "v_dirty (fold (view_exec ((0x3000 + 4095) div 4096)) ?ops
      \<lparr>v_marked = {}, v_dirty = [], v_gen = \<lambda>_. 0\<rparr>) = [1]"
    by (simp add: page_of_def RAM_BASE_def touch_def)
  ultimately show ?thesis using jit_pages_refine [where ram_bytes = "0x3000" and ops = ?ops] by simp
qed

end
