(* ===== verification/Dma.thy ===== *)
theory Dma
  imports JitPages
begin

unbundle bit_operations_syntax

text \<open>
  Guest RAM as the devices see it (\<^verbatim>\<open>crates/rv64-system/src/virtio.rs\<close>, the functions on
  \<^verbatim>\<open>ram\<close>, \<^verbatim>\<open>ram_base\<close> and \<^verbatim>\<open>jit\<close>). Every caller passes \<^verbatim>\<open>RAM_BASE\<close>. \<open>noted\<close> relates
  the memory before and after a device operation: no write escapes the page bitmaps.
\<close>

text \<open>
  The buffer and the bitmaps that a device operation may change, with the process-wide counter
  \<^verbatim>\<open>NEXT_BLOCK_REQUEST_ID\<close>.
\<close>

record dma =
  dm_ram :: "u8 list"
  dm_jit :: jit_page_state
  dm_next_id :: u64

definition in_ram :: "dma \<Rightarrow> u64 \<Rightarrow> nat \<Rightarrow> bool" where
  "in_ram d addr n \<longleftrightarrow> checked_ram_range (length (dm_ram d)) RAM_BASE addr n \<noteq> None"

definition guest_slice :: "dma \<Rightarrow> u64 \<Rightarrow> nat \<Rightarrow> u8 list option" where
  "guest_slice d addr n =
     (case checked_ram_range (length (dm_ram d)) RAM_BASE addr n of None \<Rightarrow> None
      | Some (a, e) \<Rightarrow> Some (slice_at a (e - a) (dm_ram d)))"

definition guest_write :: "u64 \<Rightarrow> u8 list \<Rightarrow> dma \<Rightarrow> bool \<times> dma" where
  "guest_write addr bytes d =
     (case checked_ram_range (length (dm_ram d)) RAM_BASE addr (length bytes) of None \<Rightarrow> (False, d)
      | Some (a, e) \<Rightarrow>
          (True, d\<lparr>dm_ram := splice_at a bytes (dm_ram d),
                   dm_jit := note_write addr (length bytes) (dm_jit d)\<rparr>))"

definition ram_read16 :: "dma \<Rightarrow> u64 \<Rightarrow> u16 option" where
  "ram_read16 d addr = map_option from_le (guest_slice d addr 2)"

definition ram_read32 :: "dma \<Rightarrow> u64 \<Rightarrow> u32 option" where
  "ram_read32 d addr = map_option from_le (guest_slice d addr 4)"

definition ram_read64 :: "dma \<Rightarrow> u64 \<Rightarrow> u64 option" where
  "ram_read64 d addr = map_option from_le (guest_slice d addr 8)"

definition ram_write16 :: "u64 \<Rightarrow> u16 \<Rightarrow> dma \<Rightarrow> dma" where
  "ram_write16 addr v d = snd (guest_write addr (to_le 2 v) d)"

definition ram_write32 :: "u64 \<Rightarrow> u32 \<Rightarrow> dma \<Rightarrow> dma" where
  "ram_write32 addr v d = snd (guest_write addr (to_le 4 v) d)"

section \<open>No write escapes the page bitmaps\<close>

definition dma_ok :: "dma \<Rightarrow> bool" where
  "dma_ok d \<longleftrightarrow>
     pages_ok (dm_jit d) \<and> length (dm_ram d) \<le> 4096 * page_count (dm_jit d)
     \<and> unat RAM_BASE + length (dm_ram d) \<le> 2 ^ 64"

definition marked_pages :: "dma \<Rightarrow> nat set" where
  "marked_pages d = v_marked (pages_view (dm_jit d))"

definition reported_pages :: "dma \<Rightarrow> nat set" where
  "reported_pages d = set (v_dirty (pages_view (dm_jit d)))"

definition noted :: "dma \<Rightarrow> dma \<Rightarrow> bool" where
  "noted d d' \<longleftrightarrow>
     dma_ok d' \<and> length (dm_ram d') = length (dm_ram d) \<and> marked_pages d' = marked_pages d
     \<and> reported_pages d \<subseteq> reported_pages d'
     \<and> (\<forall>i < length (dm_ram d). dm_ram d' ! i \<noteq> dm_ram d ! i \<longrightarrow> i div 4096 \<in> marked_pages d
          \<longrightarrow> i div 4096 \<in> reported_pages d')"

named_theorems noted_intros \<open>operations on guest memory that report every change\<close>

lemma noted_refl [noted_intros]: "dma_ok d \<Longrightarrow> noted d d"
  by (simp add: noted_def)

lemma noted_ok: "noted d d' \<Longrightarrow> dma_ok d'"
  by (simp add: noted_def)

lemma noted_length: "noted d d' \<Longrightarrow> length (dm_ram d') = length (dm_ram d)"
  by (simp add: noted_def)

lemma noted_trans:
  assumes "noted a b" and "noted b c"
  shows "noted a c"
proof -
  have "i div 4096 \<in> reported_pages c"
    if "i < length (dm_ram a)" "dm_ram c ! i \<noteq> dm_ram a ! i" "i div 4096 \<in> marked_pages a" for i
  proof (cases "dm_ram b ! i = dm_ram a ! i")
    case True
    with that assms show ?thesis by (simp add: noted_def)
  next
    case False
    with that assms(1) have "i div 4096 \<in> reported_pages b" by (simp add: noted_def)
    with assms(2) show ?thesis by (auto simp: noted_def)
  qed
  with assms show ?thesis by (auto simp: noted_def)
qed

lemma touch_marked [simp]: "v_marked (touch p v) = v_marked v"
  by (simp add: touch_def)

lemma fold_touch:
  "v_marked (fold touch ps v) = v_marked v
   \<and> set (v_dirty (fold touch ps v)) = set (v_dirty v) \<union> (set ps \<inter> v_marked v)"
  by (induction ps arbitrary: v) (auto simp: touch_def)

text \<open>A DMA write inside RAM touches exactly the pages from its first byte to its last.\<close>

lemma len64: "LENGTH(64) = 64" by simp

lemma note_write_pages:
  assumes "dma_ok d" and "checked_ram_range (length (dm_ram d)) RAM_BASE addr n = Some (a, e)" and "n \<noteq> 0"
  shows "pages_view (note_write addr n (dm_jit d))
    = fold touch [a div 4096..<Suc ((e - 1) div 4096)] (pages_view (dm_jit d))"
proof -
  from assms(2) have r: "RAM_BASE \<le> addr" "a = unat addr - unat RAM_BASE" "e = a + n" "e \<le> length (dm_ram d)"
    "n < 2 ^ 64"
    by (auto simp: checked_ram_range_Some word_le_nat_alt)
  have le: "unat RAM_BASE \<le> unat addr" using r(1) by (simp add: word_le_nat_alt)
  have last_nat: "unat addr + (n - 1) < 2 ^ 64" "unat addr + (n - 1) = unat RAM_BASE + (e - 1)"
    using r le assms(1,3) by (auto simp: dma_ok_def)
  have u: "unat (addr + of_nat n - 1) = unat addr + (n - 1)"
  proof -
    have "addr + of_nat n - 1 = of_nat (unat addr + (n - 1))"
      using assms(3) by (cases n) (simp_all add: algebra_simps)
    then have "unat (addr + of_nat n - 1) = unat (of_nat (unat addr + (n - 1)) :: u64)" by (rule arg_cong)
    then show ?thesis using last_nat(1) by (simp only: unat_of_nat len64 mod_less)
  qed
  have c: "k div 4096 < page_count (dm_jit d)" if "k < e" for k
    using that r(4) assms(1) by (simp add: dma_ok_def less_mult_imp_div_less mult.commute)
  have p: "page_of (page_count (dm_jit d)) addr = Some (a div 4096)"
    using c [of a] r assms(3) by (simp add: page_of_def)
  have q: "page_of (page_count (dm_jit d)) (addr + of_nat n - 1) = Some ((e - 1) div 4096)"
    using c [of "e - 1"] r(3) assms(3) u last_nat by (simp add: page_of_def word_le_nat_alt)
  show ?thesis
    using note_write_view(3) [of "dm_jit d" n addr] assms(1,3) r(5) p q last_nat(1)
    by (simp add: dma_ok_def del: upt_Suc)
qed

lemma noted_guest_write [noted_intros]:
  assumes "dma_ok d"
  shows "noted d (snd (guest_write addr bytes d))"
proof (cases "checked_ram_range (length (dm_ram d)) RAM_BASE addr (length bytes)")
  case None
  then show ?thesis using noted_refl [OF assms] by (simp add: guest_write_def)
next
  case (Some r)
  obtain a e where r: "r = (a, e)" by (cases r)
  let ?n = "length bytes"
  have b: "e = a + ?n" "e \<le> length (dm_ram d)" "?n < 2 ^ 64"
    using Some r by (auto simp: checked_ram_range_Some)
  let ?d = "d\<lparr>dm_ram := splice_at a bytes (dm_ram d), dm_jit := note_write addr ?n (dm_jit d)\<rparr>"
  have d: "snd (guest_write addr bytes d) = ?d" by (simp add: guest_write_def Some r)
  have l: "length (dm_ram ?d) = length (dm_ram d)" using b by simp
  have j: "pages_ok (dm_jit d)" using assms by (simp add: dma_ok_def)
  note w = note_write_view [OF j b(3)]
  have ok: "dma_ok ?d" using assms w b by (simp add: dma_ok_def)
  show ?thesis
  proof (cases "?n = 0")
    case True
    then have "?d = d" by (simp add: note_write_def splice_at_def)
    then show ?thesis using noted_refl [OF assms] d by simp
  next
    case False
    note v = note_write_pages [OF assms Some [unfolded r] False]
    have "i div 4096 \<in> {a div 4096..<Suc ((e - 1) div 4096)}"
      if "i < length (dm_ram d)" "splice_at a bytes (dm_ram d) ! i \<noteq> dm_ram d ! i" for i
    proof -
      have "a \<le> i \<and> i < e" using that b by (auto simp: nth_splice_at split: if_splits)
      then show ?thesis by (auto simp: div_le_mono less_Suc_eq_le)
    qed
    then show ?thesis
      using ok l fold_touch unfolding d noted_def marked_pages_def reported_pages_def
      by (auto simp: v simp del: upt_Suc)
  qed
qed

lemma noted_write32 [noted_intros]: "dma_ok d \<Longrightarrow> noted d (ram_write32 addr v d)"
  and noted_write16 [noted_intros]: "dma_ok d \<Longrightarrow> noted d (ram_write16 addr w d)"
  by (simp_all add: ram_write32_def ram_write16_def noted_guest_write)

lemma noted_next_id [simp]: "noted a (b\<lparr>dm_next_id := k\<rparr>) = noted a b"
  by (simp add: noted_def dma_ok_def marked_pages_def reported_pages_def)

end
