(* ===== verification/Virtio.thy ===== *)
theory Virtio
  imports Dma
begin

unbundle bit_operations_syntax

text \<open>
  The virtio-mmio transport of \<^verbatim>\<open>crates/rv64-system/src/virtio.rs\<close>: the register file, split
  virtqueues, and the in-memory block, external block and network backends. An operation on a
  device works on the device and on guest memory (\<open>dma\<close>). A guest can overlap its rings so that the
  service loop of a queue never ends (\<open>overlapping_rings\<close>): \<open>process_call\<close> is the call as written, whose
  value is \<open>None\<close> when it never returns, and \<open>process n\<close> what the first \<open>n\<close> rounds of it give.
\<close>

section \<open>Data\<close>

datatype block_request_kind = ReadReq | WriteReq | FlushReq

record pending_block_request =
  req_id :: u64
  req_kind :: block_request_kind
  req_offset :: u64
  req_data :: "u8 list"
  req_length :: u64
  read_buffers :: "(u64 \<times> u32) list"
  status_addr :: u64
  queue_index :: nat
  req_head :: u16
  used_index_addr :: u64
  used_entry :: u64
  used_idx :: u16

datatype backend =
    Block "u8 list"
  | ExternalBlock u64 "pending_block_request option"
  | Net "u8 list" "u8 list list" "u8 list list"

definition MAX_QUEUES :: nat where "MAX_QUEUES = 2"
definition NET_HDR_LEN :: nat where "NET_HDR_LEN = 12"
definition NET_MAX_FRAME :: nat where "NET_MAX_FRAME = 1600"
definition NET_QUEUE_LIMIT :: nat where "NET_QUEUE_LIMIT = 256"
definition VIRTIO_BLK_T_IN :: u32 where "VIRTIO_BLK_T_IN = 0"
definition VIRTIO_BLK_T_OUT :: u32 where "VIRTIO_BLK_T_OUT = 1"
definition VIRTIO_BLK_T_FLUSH :: u32 where "VIRTIO_BLK_T_FLUSH = 4"
definition VIRTIO_BLK_F_SIZE_MAX :: nat where "VIRTIO_BLK_F_SIZE_MAX = 1"
definition VIRTIO_BLK_F_SEG_MAX :: nat where "VIRTIO_BLK_F_SEG_MAX = 2"
definition MAX_DISK_OPERATION :: u64 where "MAX_DISK_OPERATION = 64 * 1024"
definition MAX_DISK_SEGMENTS :: u32 where "MAX_DISK_SEGMENTS = 1"
definition SECTOR :: nat where "SECTOR = 512"

record queue =
  q_ready :: u32
  q_num :: u32
  q_desc :: u64
  q_avail :: u64
  q_used :: u64
  last_avail_idx :: u16

definition queue_default :: queue where
  "queue_default = \<lparr>q_ready = 0, q_num = 0, q_desc = 0, q_avail = 0, q_used = 0, last_avail_idx = 0\<rparr>"

record virtio_dev =
  vd_backend :: backend
  vd_status :: u32
  device_features_sel :: u32
  driver_features_sel :: u32
  queue_sel :: u32
  queues :: "queue list"
  int_status :: u32

definition virtio_new :: "backend \<Rightarrow> virtio_dev" where
  "virtio_new b = \<lparr>
     vd_backend = b, vd_status = 0, device_features_sel = 0, driver_features_sel = 0, queue_sel = 0,
     queues = replicate MAX_QUEUES queue_default, int_status = 0\<rparr>"

section \<open>Registers\<close>

definition device_id :: "virtio_dev \<Rightarrow> u32" where
  "device_id v = (case vd_backend v of Block _ \<Rightarrow> 2 | ExternalBlock _ _ \<Rightarrow> 2 | Net _ _ _ \<Rightarrow> 1)"

definition device_features :: "virtio_dev \<Rightarrow> u32 \<Rightarrow> u32" where
  "device_features v sel =
     (if sel = 1 then 1
      else if sel = 0 then
        (case vd_backend v of
           Net _ _ _ \<Rightarrow> push_bit 5 1
         | ExternalBlock _ _ \<Rightarrow>
             push_bit VIRTIO_BLK_F_SIZE_MAX 1 OR push_bit VIRTIO_BLK_F_SEG_MAX 1 OR push_bit 9 1
         | _ \<Rightarrow> 0)
      else 0)"

definition queue_num_max :: "virtio_dev \<Rightarrow> u32" where
  "queue_num_max v = (case vd_backend v of Net _ _ _ \<Rightarrow> 256 | _ \<Rightarrow> 16)"

definition virtio_irq_pending :: "virtio_dev \<Rightarrow> bool" where
  "virtio_irq_pending v \<longleftrightarrow> int_status v \<noteq> 0"

definition sel_queue :: "virtio_dev \<Rightarrow> queue" where
  "sel_queue v = queues v ! unat (queue_sel v)"

definition upd_queue :: "nat \<Rightarrow> (queue \<Rightarrow> queue) \<Rightarrow> virtio_dev \<Rightarrow> virtio_dev" where
  "upd_queue i f v = v\<lparr>queues := (queues v)[i := f (queues v ! i)]\<rparr>"

definition upd_sel :: "(queue \<Rightarrow> queue) \<Rightarrow> virtio_dev \<Rightarrow> virtio_dev" where
  "upd_sel f v = upd_queue (unat (queue_sel v)) f v"

definition byte_at :: "u8 list \<Rightarrow> u64 \<Rightarrow> u8" where
  "byte_at bs off = (if unat off < length bs then bs ! unat off else 0)"

definition config_u8 :: "virtio_dev \<Rightarrow> u64 \<Rightarrow> u8" where
  "config_u8 v off =
     (case vd_backend v of
        Block disk \<Rightarrow> byte_at (to_le 8 (of_nat (length disk div SECTOR) :: u64)) off
      | ExternalBlock cap _ \<Rightarrow>
          (let sectors = to_le 8 (cap div of_nat SECTOR);
               size_max = to_le 4 (ucast MAX_DISK_OPERATION :: u32);
               seg_max = to_le 4 MAX_DISK_SEGMENTS
           in if off \<le> 7 then sectors ! unat off
              else if off \<le> 11 then size_max ! unat (off - 8)
              else if off \<le> 15 then seg_max ! unat (off - 12)
              else 0)
      | Net mac _ _ \<Rightarrow> byte_at mac off)"

definition virtio_read :: "virtio_dev \<Rightarrow> u64 \<Rightarrow> u32" where
  "virtio_read v offset =
     (if offset = 0x000 then 0x74726976
      else if offset = 0x004 then 2
      else if offset = 0x008 then device_id v
      else if offset = 0x00c then 0xffff
      else if offset = 0x010 then device_features v (device_features_sel v)
      else if offset = 0x034 then queue_num_max v
      else if offset = 0x044 then q_ready (sel_queue v)
      else if offset = 0x060 then int_status v
      else if offset = 0x070 then vd_status v
      else if offset = 0x0fc then 0
      else if 0x100 \<le> offset then
        (let o4 = offset - 0x100
         in from_le [config_u8 v o4, config_u8 v (o4 + 1), config_u8 v (o4 + 2), config_u8 v (o4 + 3)])
      else 0)"

definition read_sized :: "virtio_dev \<Rightarrow> u64 \<Rightarrow> nat \<Rightarrow> u32" where
  "read_sized v offset n =
     (if 0x100 \<le> offset \<and> n < 4 then
        (let o4 = offset - 0x100
         in fold (\<lambda>i r. r OR push_bit (8 * i) (ucast (config_u8 v (o4 + of_nat i)))) [0..<n] 0)
      else virtio_read v offset)"

definition set_lo :: "u64 \<Rightarrow> u32 \<Rightarrow> u64" where
  "set_lo v val = (v AND NOT 0xffffffff) OR ucast val"

definition set_hi :: "u64 \<Rightarrow> u32 \<Rightarrow> u64" where
  "set_hi v val = (v AND 0xffffffff) OR push_bit 32 (ucast val)"

definition virtio_reset :: "virtio_dev \<Rightarrow> virtio_dev" where
  "virtio_reset v =
     v\<lparr>queues := replicate MAX_QUEUES queue_default, int_status := 0,
       vd_backend := (case vd_backend v of ExternalBlock cap _ \<Rightarrow> ExternalBlock cap None | b \<Rightarrow> b)\<rparr>"

text \<open>A register write; the result is the queue to process after a notify.\<close>

definition virtio_write :: "u64 \<Rightarrow> u32 \<Rightarrow> virtio_dev \<Rightarrow> u32 option \<times> virtio_dev" where
  "virtio_write offset val v =
     (if offset = 0x014 then (None, v\<lparr>device_features_sel := val\<rparr>)
      else if offset = 0x024 then (None, v\<lparr>driver_features_sel := val\<rparr>)
      else if offset = 0x030 then (None, v\<lparr>queue_sel := min val (of_nat MAX_QUEUES - 1)\<rparr>)
      else if offset = 0x038 then
        (let m = queue_num_max v in (None, upd_sel (\<lambda>q. q\<lparr>q_num := min val m\<rparr>) v))
      else if offset = 0x044 then (None, upd_sel (\<lambda>q. q\<lparr>q_ready := val AND 1\<rparr>) v)
      else if offset = 0x050 then (Some val, v)
      else if offset = 0x064 then (None, v\<lparr>int_status := int_status v AND NOT val\<rparr>)
      else if offset = 0x070 then
        (let v = v\<lparr>vd_status := val\<rparr> in (None, if val = 0 then virtio_reset v else v))
      else if offset = 0x080 then (None, upd_sel (\<lambda>q. q\<lparr>q_desc := set_lo (q_desc q) val\<rparr>) v)
      else if offset = 0x084 then (None, upd_sel (\<lambda>q. q\<lparr>q_desc := set_hi (q_desc q) val\<rparr>) v)
      else if offset = 0x090 then (None, upd_sel (\<lambda>q. q\<lparr>q_avail := set_lo (q_avail q) val\<rparr>) v)
      else if offset = 0x094 then (None, upd_sel (\<lambda>q. q\<lparr>q_avail := set_hi (q_avail q) val\<rparr>) v)
      else if offset = 0x0a0 then (None, upd_sel (\<lambda>q. q\<lparr>q_used := set_lo (q_used q) val\<rparr>) v)
      else if offset = 0x0a4 then (None, upd_sel (\<lambda>q. q\<lparr>q_used := set_hi (q_used q) val\<rparr>) v)
      else (None, v))"

section \<open>The mailboxes of the network device\<close>

definition net_input :: "u8 list \<Rightarrow> virtio_dev \<Rightarrow> virtio_dev" where
  "net_input frame v =
     (case vd_backend v of
        Net mac inbox outbox \<Rightarrow>
          if length frame \<le> NET_MAX_FRAME \<and> length inbox < NET_QUEUE_LIMIT
          then v\<lparr>vd_backend := Net mac (inbox @ [frame]) outbox\<rparr> else v
      | _ \<Rightarrow> v)"

definition net_take_output :: "virtio_dev \<Rightarrow> u8 list list \<times> virtio_dev" where
  "net_take_output v =
     (case vd_backend v of
        Net mac inbox outbox \<Rightarrow> (outbox, v\<lparr>vd_backend := Net mac inbox []\<rparr>)
      | _ \<Rightarrow> ([], v))"

definition net_rx_pending :: "virtio_dev \<Rightarrow> bool" where
  "net_rx_pending v = (case vd_backend v of Net _ inbox _ \<Rightarrow> inbox \<noteq> [] | _ \<Rightarrow> False)"

section \<open>Serving a descriptor chain\<close>

type_synonym desc_chain = "(u64 \<times> u32 \<times> bool) list"

text \<open>\<^verbatim>\<open>chain.get(1..chain.len().saturating_sub(1))\<close>: no body when the range is reversed.\<close>

definition chain_body :: "desc_chain \<Rightarrow> desc_chain option" where
  "chain_body chain = (if length chain < 2 then None else Some (take (length chain - 2) (drop 1 chain)))"

definition status_byte :: "bool \<Rightarrow> u8" where
  "status_byte ok = (if ok then 0 else 1)"

text \<open>The in-memory disk: one data descriptor, then the request.\<close>

record block_run =
  br_pos :: "nat option"
  br_written :: u32
  br_ok :: bool
  br_disk :: "u8 list"
  br_dma :: dma

definition disk_range :: "nat option \<Rightarrow> nat \<Rightarrow> nat \<Rightarrow> (nat \<times> nat) option" where
  "disk_range pos n disk_len =
     (case pos of None \<Rightarrow> None
      | Some start \<Rightarrow> if start + n < 2 ^ 64 \<and> start + n \<le> disk_len then Some (start, start + n) else None)"

definition advance_pos :: "nat option \<Rightarrow> nat \<Rightarrow> nat option" where
  "advance_pos pos n =
     (case pos of None \<Rightarrow> None | Some p \<Rightarrow> if p + n < 2 ^ 64 then Some (p + n) else None)"

definition block_data :: "u32 \<Rightarrow> u64 \<times> u32 \<times> bool \<Rightarrow> block_run \<Rightarrow> block_run" where
  "block_data req_type desc r =
     (let (addr, len_u32, writable) = desc;
          n = unat len_u32;
          range = disk_range (br_pos r) n (length (br_disk r));
          r' =
            (if req_type = VIRTIO_BLK_T_IN \<and> writable then
               (let (ok, d) = (case range of
                       Some (start, e) \<Rightarrow> guest_write addr (slice_at start (e - start) (br_disk r)) (br_dma r)
                     | None \<Rightarrow> (False, br_dma r))
                in r\<lparr>br_dma := d, br_ok := (br_ok r \<and> ok), br_written := br_written r + len_u32\<rparr>)
             else if req_type = VIRTIO_BLK_T_OUT \<and> \<not> writable then
               (case (range, guest_slice (br_dma r) addr n) of
                  (Some (start, e), Some source) \<Rightarrow> r\<lparr>br_disk := splice_at start source (br_disk r)\<rparr>
                | _ \<Rightarrow> r\<lparr>br_ok := False\<rparr>)
             else r\<lparr>br_ok := False\<rparr>)
      in r'\<lparr>br_pos := advance_pos (br_pos r) n\<rparr>)"

definition service_block :: "u8 list \<Rightarrow> desc_chain \<Rightarrow> dma \<Rightarrow> u32 option \<times> u8 list \<times> dma" where
  "service_block disk chain d =
     (case chain of [] \<Rightarrow> (None, disk, d)
      | (hdr_addr, _, _) # _ \<Rightarrow>
         (case guest_slice d hdr_addr 16 of None \<Rightarrow> (Some 0, disk, d)
          | Some header \<Rightarrow>
              (let req_type = from_le (take 4 header) :: u32;
                   sector = from_le (slice_at 8 8 header) :: u64;
                   pos = (if unat sector * SECTOR < 2 ^ 64 then Some (unat sector * SECTOR) else None)
               in case chain_body chain of None \<Rightarrow> (None, disk, d)
                  | Some body \<Rightarrow>
                      (let r = fold (block_data req_type) body
                             \<lparr>br_pos = pos, br_written = 0, br_ok = True, br_disk = disk, br_dma = d\<rparr>;
                           (saddr, _, _) = last chain
                       in (Some (br_written r + 1), br_disk r,
                           snd (guest_write saddr [status_byte (br_ok r)] (br_dma r)))))))"


text \<open>
  The external disk: a request is checked whole, then parked for the host. A rejected request
  writes an error status. The walk over the body gives the total length and the read buffers, or
  \<open>None\<close> for a rejection.
\<close>

definition desc_valid :: "dma \<Rightarrow> block_request_kind \<Rightarrow> u64 \<times> u32 \<times> bool \<Rightarrow> bool" where
  "desc_valid d kind desc =
     (let (addr, len, writable) = desc
      in case kind of
           ReadReq \<Rightarrow> writable \<and> in_ram d addr (unat len)
         | WriteReq \<Rightarrow> \<not> writable \<and> guest_slice d addr (unat len) \<noteq> None
         | FlushReq \<Rightarrow> len = 0)"

fun body_scan :: "dma \<Rightarrow> block_request_kind \<Rightarrow> desc_chain \<Rightarrow> u64 \<Rightarrow> (u64 \<times> u32) list \<Rightarrow>
    (u64 \<times> (u64 \<times> u32) list) option" where
  "body_scan d kind [] body_len bufs = Some (body_len, bufs)"
| "body_scan d kind ((addr, len, writable) # ds) body_len bufs =
     (if \<not> desc_valid d kind (addr, len, writable) then None
      else case checked_add body_len (ucast len) of None \<Rightarrow> None
      | Some nxt \<Rightarrow>
          if MAX_DISK_OPERATION < nxt then None
          else body_scan d kind ds nxt (if kind = ReadReq then bufs @ [(addr, len)] else bufs))"

definition request_kind :: "u32 \<Rightarrow> block_request_kind option" where
  "request_kind t =
     (if t = VIRTIO_BLK_T_IN then Some ReadReq
      else if t = VIRTIO_BLK_T_OUT then Some WriteReq
      else if t = VIRTIO_BLK_T_FLUSH then Some FlushReq
      else None)"

definition range_end :: "block_request_kind \<Rightarrow> u64 \<Rightarrow> u64 \<Rightarrow> u64 option" where
  "range_end kind offset body_len =
     (case kind of FlushReq \<Rightarrow> Some 0 | _ \<Rightarrow> checked_add offset body_len)"

definition write_data :: "dma \<Rightarrow> desc_chain \<Rightarrow> u8 list" where
  "write_data d body =
     concat (map (\<lambda>(addr, len, _). case guest_slice d addr (unat len) of Some s \<Rightarrow> s | None \<Rightarrow> []) body)"

text \<open>The checks on a request with a readable header, and the request that passes them.\<close>

definition check_request :: "u64 \<Rightarrow> desc_chain \<Rightarrow> desc_chain \<Rightarrow> u8 list \<Rightarrow> u64 \<Rightarrow> dma \<Rightarrow> pending_block_request option" where
  "check_request cap chain body header saddr d =
     (case request_kind (from_le (take 4 header)) of None \<Rightarrow> None
      | Some kind \<Rightarrow>
     (case checked_mul (from_le (slice_at 8 8 header)) (of_nat SECTOR) of None \<Rightarrow> None
      | Some offset \<Rightarrow>
     (case body_scan d kind body 0 [] of None \<Rightarrow> None
      | Some (body_len, bufs) \<Rightarrow>
     if kind = FlushReq \<and> length chain \<noteq> 2 then None
     else (case range_end kind offset body_len of None \<Rightarrow> None
      | Some e \<Rightarrow>
     if cap < e \<or> (kind \<noteq> FlushReq \<and> body_len = 0) \<or> (kind = FlushReq \<and> body_len \<noteq> 0) then None
     else Some \<lparr>
       req_id = dm_next_id d, req_kind = kind, req_offset = offset,
       req_data = (if kind = WriteReq then write_data d body else []),
       req_length = body_len, read_buffers = bufs, status_addr = saddr,
       queue_index = 0, req_head = 0, used_index_addr = 0, used_entry = 0, used_idx = 0\<rparr>))))"

definition service_external :: "u64 \<Rightarrow> pending_block_request option \<Rightarrow> nat \<Rightarrow> desc_chain \<Rightarrow> dma \<Rightarrow>
    u32 option \<times> pending_block_request option \<times> dma" where
  "service_external cap pending qi chain d =
     (if qi \<noteq> 0 then (Some 0, pending, d)
      else if pending \<noteq> None then (None, pending, d)
      else case chain of [] \<Rightarrow> (Some 0, pending, d)
      | (hdr_addr, hdr_len, hdr_writable) # _ \<Rightarrow>
          (let (saddr, status_len, status_writable) = last chain;
               reject = (Some 1, pending, snd (guest_write saddr [1] d))
           in if status_len < 1 \<or> \<not> status_writable \<or> \<not> in_ram d saddr 1 then (Some 0, pending, d)
              else if length chain < 2 \<or> hdr_len < 16 \<or> hdr_writable then reject
              else case guest_slice d hdr_addr 16 of None \<Rightarrow> reject
              | Some header \<Rightarrow>
                  (case chain_body chain of None \<Rightarrow> (None, pending, d)
                   | Some body \<Rightarrow>
                       (case check_request cap chain body header saddr d of None \<Rightarrow> reject
                        | Some r \<Rightarrow> (None, Some r, d\<lparr>dm_next_id := dm_next_id d + 1\<rparr>)))))"

text \<open>The network device: a frame into the writable descriptors, or one out of the readable ones.\<close>

fun net_scatter :: "desc_chain \<Rightarrow> u8 list \<Rightarrow> nat \<Rightarrow> dma \<Rightarrow> nat \<times> dma" where
  "net_scatter [] src written d = (written, d)"
| "net_scatter ((addr, len, writable) # ds) src written d =
     (if \<not> writable \<or> length src \<le> written then net_scatter ds src written d
      else
        (let n = min (length src - written) (unat len);
             (ok, d') = guest_write addr (slice_at written n src) d
         in if ok then net_scatter ds src (written + n) d' else (written, d')))"

fun net_gather :: "desc_chain \<Rightarrow> dma \<Rightarrow> u8 list option" where
  "net_gather [] d = Some []"
| "net_gather ((addr, len, writable) # ds) d =
     (if writable then net_gather ds d
      else case guest_slice d addr (unat len) of None \<Rightarrow> None
      | Some s \<Rightarrow> map_option (\<lambda>rest. s @ rest) (net_gather ds d))"

definition net_header :: "u8 list" where
  "net_header = (replicate NET_HDR_LEN 0)[10 := 1]"

definition service_net :: "u8 list \<Rightarrow> u8 list list \<Rightarrow> u8 list list \<Rightarrow> nat \<Rightarrow> desc_chain \<Rightarrow> dma \<Rightarrow>
    u32 option \<times> backend \<times> dma" where
  "service_net mac inbox outbox qi chain d =
     (if qi = 0 then
        (case inbox of [] \<Rightarrow> (None, Net mac inbox outbox, d)
         | frame # rest \<Rightarrow>
             (let need = NET_HDR_LEN + length frame;
                  capacity = sum_list (map (\<lambda>(_, len, _). unat len) (filter (\<lambda>(_, _, writable). writable) chain))
              in if capacity < need then (None, Net mac rest outbox, d)
                 else
                   (let (written, d') = net_scatter chain (net_header @ frame) 0 d
                    in (Some (of_nat written), Net mac rest outbox, d'))))
      else
        (case net_gather chain d of None \<Rightarrow> (Some 0, Net mac inbox outbox, d)
         | Some frame \<Rightarrow>
             (Some 0,
              if NET_HDR_LEN < length frame \<and> length frame - NET_HDR_LEN \<le> NET_MAX_FRAME
                 \<and> length outbox < NET_QUEUE_LIMIT
              then Net mac inbox (outbox @ [drop NET_HDR_LEN frame]) else Net mac inbox outbox,
              d)))"

definition service :: "nat \<Rightarrow> desc_chain \<Rightarrow> virtio_dev \<times> dma \<Rightarrow> u32 option \<times> virtio_dev \<times> dma" where
  "service qi chain s =
     (let (v, d) = s
      in case vd_backend v of
           Block disk \<Rightarrow>
             (let (w, disk', d') = service_block disk chain d in (w, v\<lparr>vd_backend := Block disk'\<rparr>, d'))
         | ExternalBlock cap pending \<Rightarrow>
             (let (w, pending', d') = service_external cap pending qi chain d
              in (w, v\<lparr>vd_backend := ExternalBlock cap pending'\<rparr>, d'))
         | Net mac inbox outbox \<Rightarrow>
             (let (w, b, d') = service_net mac inbox outbox qi chain d in (w, v\<lparr>vd_backend := b\<rparr>, d')))"

section \<open>The virtqueue\<close>

fun walk_chain :: "dma \<Rightarrow> u64 \<Rightarrow> nat \<Rightarrow> u64 \<Rightarrow> desc_chain option" where
  "walk_chain d desc 0 di = Some []"
| "walk_chain d desc (Suc n) di =
     (case checked_mul di 16 of None \<Rightarrow> None | Some off \<Rightarrow>
     (case checked_add desc off of None \<Rightarrow> None | Some base \<Rightarrow>
     (case ram_read64 d base of None \<Rightarrow> None | Some addr \<Rightarrow>
     (case Option.bind (checked_add base 8) (ram_read32 d) of None \<Rightarrow> None | Some len \<Rightarrow>
     (case Option.bind (checked_add base 12) (ram_read16 d) of None \<Rightarrow> None | Some flags \<Rightarrow>
     if flags AND 1 = 0 then Some [(addr, len, flags AND 2 \<noteq> 0)]
     else (case Option.bind (checked_add base 14) (ram_read16 d) of None \<Rightarrow> None | Some nxt \<Rightarrow>
       map_option (\<lambda>rest. (addr, len, flags AND 2 \<noteq> 0) # rest) (walk_chain d desc n (ucast nxt))))))))"

text \<open>What one round finds before it serves: the head, its chain, and where to publish.\<close>

definition read_avail_idx :: "queue \<Rightarrow> dma \<Rightarrow> u16 option" where
  "read_avail_idx q d = Option.bind (checked_add (q_avail q) 2) (ram_read16 d)"

definition read_head :: "queue \<Rightarrow> dma \<Rightarrow> u16 option" where
  "read_head q d =
     (let slot = (ucast (last_avail_idx q) :: u64) mod ucast (q_num q)
      in Option.bind (checked_add (q_avail q) (4 + slot * 2)) (ram_read16 d))"

definition used_slot :: "queue \<Rightarrow> dma \<Rightarrow> (u64 \<times> u16 \<times> u64) option" where
  "used_slot q d =
     (case checked_add (q_used q) 2 of None \<Rightarrow> None
      | Some index_addr \<Rightarrow>
     (case ram_read16 d index_addr of None \<Rightarrow> None
      | Some idx \<Rightarrow>
          (let uslot = (ucast idx :: u64) mod ucast (q_num q)
           in case checked_add (q_used q) (4 + uslot * 8) of None \<Rightarrow> None
              | Some entry \<Rightarrow> if in_ram d entry 8 then Some (index_addr, idx, entry) else None)))"

definition park :: "u16 \<Rightarrow> u64 \<Rightarrow> u64 \<Rightarrow> u16 \<Rightarrow> virtio_dev \<Rightarrow> virtio_dev" where
  "park head index_addr entry idx v =
     (case vd_backend v of
        ExternalBlock cap (Some p) \<Rightarrow>
          v\<lparr>vd_backend := ExternalBlock cap (Some (p\<lparr>req_head := head, used_index_addr := index_addr,
              used_entry := entry, used_idx := idx\<rparr>))\<rparr>
      | _ \<Rightarrow> v)"

definition publish :: "u64 \<Rightarrow> u64 \<Rightarrow> u16 \<Rightarrow> u16 \<Rightarrow> u32 \<Rightarrow> dma \<Rightarrow> dma" where
  "publish entry index_addr idx head written d =
     ram_write16 index_addr (idx + 1) (ram_write32 (entry + 4) written (ram_write32 entry (ucast head) d))"

text \<open>
  One round of the loop. The boolean tells that the loop goes on; every return and break of the
  source leaves with \<open>False\<close>.
\<close>

definition process_round :: "nat \<Rightarrow> virtio_dev \<times> dma \<Rightarrow> bool \<times> virtio_dev \<times> dma" where
  "process_round qi s =
     (let (v, d) = s; q = queues v ! qi
      in if q_num q = 0 then (False, s)
         else case read_avail_idx q d of None \<Rightarrow> (False, s)
         | Some avail_idx \<Rightarrow>
        if last_avail_idx q = avail_idx then (False, s)
        else case read_head q d of None \<Rightarrow> (False, s)
         | Some head \<Rightarrow>
        (case walk_chain d (q_desc q) (unat (q_num q)) (ucast head) of None \<Rightarrow> (False, s)
         | Some chain \<Rightarrow>
        (case used_slot q d of None \<Rightarrow> (False, s)
         | Some (index_addr, idx, entry) \<Rightarrow>
        (case service qi chain (v, d) of
           (None, v', d') \<Rightarrow> (False, park head index_addr entry idx v', d')
         | (Some written, v', d') \<Rightarrow>
             (True,
              upd_queue qi (\<lambda>q. q\<lparr>last_avail_idx := last_avail_idx q + 1\<rparr>)
                (v'\<lparr>int_status := int_status v' OR 1\<rparr>),
              publish entry index_addr idx head written d')))))"

fun process_loop :: "nat \<Rightarrow> nat \<Rightarrow> virtio_dev \<times> dma \<Rightarrow> (virtio_dev \<times> dma) option" where
  "process_loop 0 qi s = None"
| "process_loop (Suc n) qi s =
     (let (again, s') = process_round qi s in if again then process_loop n qi s' else Some s')"

definition has_pending :: "virtio_dev \<Rightarrow> bool" where
  "has_pending v = (case vd_backend v of ExternalBlock _ (Some _) \<Rightarrow> True | _ \<Rightarrow> False)"

definition process :: "nat \<Rightarrow> nat \<Rightarrow> virtio_dev \<times> dma \<Rightarrow> (virtio_dev \<times> dma) option" where
  "process fuel qi s =
     (if qi \<ge> MAX_QUEUES \<or> q_ready (queues (fst s) ! qi) = 0 then Some s
      else if has_pending (fst s) then Some s
      else process_loop fuel qi s)"

text \<open>The call without a bound on its rounds: it has no value exactly when no number of rounds is enough.\<close>

partial_function (option) serve_loop :: "nat \<Rightarrow> virtio_dev \<times> dma \<Rightarrow> (virtio_dev \<times> dma) option" where
  "serve_loop qi s = (let (again, s') = process_round qi s in if again then serve_loop qi s' else Some s')"

definition process_call :: "nat \<Rightarrow> virtio_dev \<times> dma \<Rightarrow> (virtio_dev \<times> dma) option" where
  "process_call qi s =
     (if qi \<ge> MAX_QUEUES \<or> q_ready (queues (fst s) ! qi) = 0 then Some s
      else if has_pending (fst s) then Some s
      else serve_loop qi s)"

lemma serve_loop_rounds: "serve_loop qi s = Some t \<longleftrightarrow> (\<exists>n. process_loop n qi s = Some t)"
proof
  assume "serve_loop qi s = Some t"
  then show "\<exists>n. process_loop n qi s = Some t"
  proof (rule serve_loop.raw_induct [rotated])
    fix f qi s t
    assume IH: "\<And>qi s t. f qi s = Some t \<Longrightarrow> \<exists>n. process_loop n qi s = Some t"
      and body: "(let (again, s') = process_round qi s in if again then f qi s' else Some s') = Some t"
    obtain again s' where r: "process_round qi s = (again, s')" by (rule prod.exhaust)
    show "\<exists>n. process_loop n qi s = Some t"
    proof (cases again)
      case True
      then obtain n where "process_loop n qi s' = Some t" using IH [of qi s' t] body r by auto
      then have "process_loop (Suc n) qi s = Some t" using r True by simp
      then show ?thesis by blast
    next
      case False
      then have "process_loop (Suc 0) qi s = Some t" using body r by simp
      then show ?thesis by blast
    qed
  qed
next
  assume "\<exists>n. process_loop n qi s = Some t"
  then obtain n where "process_loop n qi s = Some t" by blast
  then show "serve_loop qi s = Some t"
  proof (induction n arbitrary: s)
    case (Suc n)
    then show ?case by (subst serve_loop.simps) (auto simp: Let_def split: prod.splits if_splits)
  qed simp
qed

lemma process_call_Some: "process_call qi s = Some t \<longleftrightarrow> (\<exists>n. process n qi s = Some t)"
  by (auto simp: process_call_def process_def serve_loop_rounds)

lemma process_call_None: "process_call qi s = None \<longleftrightarrow> (\<forall>n. process n qi s = None)"
  using process_call_Some [of qi s] by (metis not_None_eq)

section \<open>Completion of an external request\<close>

definition pending_request :: "virtio_dev \<Rightarrow> pending_block_request option" where
  "pending_request v = (case vd_backend v of ExternalBlock _ p \<Rightarrow> p | _ \<Rightarrow> None)"

definition targets_valid :: "pending_block_request \<Rightarrow> dma \<Rightarrow> bool" where
  "targets_valid r d \<longleftrightarrow>
     (req_kind r \<noteq> ReadReq \<or> list_all (\<lambda>(addr, len). in_ram d addr (unat len)) (read_buffers r))
     \<and> in_ram d (status_addr r) 1 \<and> in_ram d (used_entry r) 8 \<and> in_ram d (used_index_addr r) 2"

definition data_valid :: "pending_block_request \<Rightarrow> u8 list \<Rightarrow> bool" where
  "data_valid r data =
     (case req_kind r of ReadReq \<Rightarrow> of_nat (length data) = req_length r | _ \<Rightarrow> data = [])"

fun scatter :: "(u64 \<times> u32) list \<Rightarrow> u8 list \<Rightarrow> nat \<Rightarrow> bool \<Rightarrow> dma \<Rightarrow> bool \<times> dma" where
  "scatter [] data copied ok d = (ok, d)"
| "scatter ((addr, len) # bs) data copied ok d =
     (let e = copied + unat len;
          (w, d') = guest_write addr (slice_at copied (unat len) data) d
      in scatter bs data e (ok \<and> w) d')"

definition complete_block_request ::
    "u64 \<Rightarrow> u8 list \<Rightarrow> bool \<Rightarrow> virtio_dev \<times> dma \<Rightarrow> bool \<times> virtio_dev \<times> dma" where
  "complete_block_request i data ok s =
     (let (v, d) = s
      in case vd_backend v of
           ExternalBlock cap (Some r) \<Rightarrow>
             if req_id r \<noteq> i \<or> \<not> targets_valid r d then (False, s)
             else
               (let success = (ok \<and> data_valid r data);
                    (success, d1) = (if success \<and> req_kind r = ReadReq
                      then scatter (read_buffers r) data 0 success d else (success, d));
                    (w, d2) = guest_write (status_addr r) [status_byte success] d1;
                    success = (success \<and> w);
                    written = (if req_kind r = ReadReq \<and> success then ucast (req_length r) + 1 else 1)
                in (True,
                    upd_queue (queue_index r) (\<lambda>q. q\<lparr>last_avail_idx := last_avail_idx q + 1\<rparr>)
                      (v\<lparr>vd_backend := ExternalBlock cap None, int_status := int_status v OR 1\<rparr>),
                    publish (used_entry r) (used_index_addr r) (used_idx r) (req_head r) written d2))
         | _ \<Rightarrow> (False, s))"

end
