(* ===== verification/VirtBus.thy ===== *)
theory VirtBus
  imports Bus Csr Plic Uart Rtc Virtio
begin

unbundle bit_operations_syntax

text \<open>
  The bus of the machine (\<^verbatim>\<open>VirtBus\<close> in \<^verbatim>\<open>crates/rv64-system/src/virt.rs\<close>): RAM, the CLINT, the
  PLIC with its level-driven inputs, the UART, the clock and the virtio slots behind one
  address map. The fields \<^verbatim>\<open>ram\<close> and \<^verbatim>\<open>jit\<close> are the \<open>dma\<close> that the devices share. A queue
  notification runs the service loop of the device, which a guest can keep from ending. \<open>vb_hang\<close> is then the
  call that never returns, its queue, device and memory; a bus with one is no state of the program, and
  the machine's entry points give no result for it.
\<close>

section \<open>The address map\<close>

definition TEST_BASE :: u64 where "TEST_BASE = 0x100000"
definition CLINT_BASE :: u64 where "CLINT_BASE = 0x2000000"
definition CLINT_SIZE :: u64 where "CLINT_SIZE = 0x10000"
definition PLIC_BASE :: u64 where "PLIC_BASE = 0xc000000"
definition PLIC_SIZE :: u64 where "PLIC_SIZE = 0x4000000"
definition UART_BASE :: u64 where "UART_BASE = 0x10000000"
definition UART_SIZE :: u64 where "UART_SIZE = 0x100"
definition GOLDFISH_RTC_BASE :: u64 where "GOLDFISH_RTC_BASE = 0x101000"
definition GOLDFISH_RTC_SIZE :: u64 where "GOLDFISH_RTC_SIZE = 0x1000"
definition VIRTIO_BASE :: u64 where "VIRTIO_BASE = 0x10001000"
definition VIRTIO_SIZE :: u64 where "VIRTIO_SIZE = 0x1000"
definition VIRTIO_COUNT :: u64 where "VIRTIO_COUNT = 8"
definition UART_IRQ :: nat where "UART_IRQ = 10"
definition GOLDFISH_RTC_IRQ :: nat where "GOLDFISH_RTC_IRQ = 11"
definition VIRTIO_IRQ_BASE :: nat where "VIRTIO_IRQ_BASE = 1"

definition in_window :: "u64 \<Rightarrow> u64 \<Rightarrow> u64 \<Rightarrow> bool" where
  "in_window base n addr \<longleftrightarrow> base \<le> addr \<and> addr < base + n"

section \<open>State\<close>

record virt_bus =
  vb_mem :: dma
  vb_mtime :: u64
  vb_mtimecmp :: u64
  vb_msip :: bool
  vb_rtc :: goldfish_rtc
  vb_plic :: plic
  vb_uart :: uart
  vb_virtio :: "virtio_dev list"
  vb_power_off :: bool
  vb_direct_sbi :: bool
  vb_hang :: "(nat \<times> virtio_dev \<times> dma) option"

definition refresh_plic :: "virt_bus \<Rightarrow> virt_bus" where
  "refresh_plic b =
     (let p = (if uart_irq (vb_uart b) then push_bit UART_IRQ 1 else 0);
          p = (if rtc_irq (vb_rtc b) then p OR push_bit GOLDFISH_RTC_IRQ 1 else p);
          p = fold (\<lambda>(i, v) p. if virtio_irq_pending v then p OR push_bit (VIRTIO_IRQ_BASE + i) 1 else p)
                (enumerate 0 (vb_virtio b)) p
      in b\<lparr>vb_plic := (vb_plic b)\<lparr>plic_pending := p\<rparr>\<rparr>)"

section \<open>Device registers\<close>

definition virtio_slot :: "u64 \<Rightarrow> nat" where
  "virtio_slot addr = unat ((addr - VIRTIO_BASE) div VIRTIO_SIZE)"

definition mmio_read :: "u64 \<Rightarrow> nat \<Rightarrow> virt_bus \<Rightarrow> u64 option \<times> virt_bus" where
  "mmio_read addr n b =
     (if in_window TEST_BASE 0x1000 addr then (Some 0, b)
      else if in_window CLINT_BASE CLINT_SIZE addr then
        (Some (if addr - CLINT_BASE = 0x0 then b2w (vb_msip b)
               else if addr - CLINT_BASE = 0x4000 then vb_mtimecmp b
               else if addr - CLINT_BASE = 0xbff8 then vb_mtime b
               else 0), b)
      else if in_window PLIC_BASE PLIC_SIZE addr then
        (let (v, p) = plic_read (addr - PLIC_BASE) (vb_plic b) in (Some (ucast v), b\<lparr>vb_plic := p\<rparr>))
      else if in_window UART_BASE UART_SIZE addr then
        (let (v, u) = uart_read (addr - UART_BASE) (vb_uart b) in (Some (ucast v), b\<lparr>vb_uart := u\<rparr>))
      else if in_window GOLDFISH_RTC_BASE GOLDFISH_RTC_SIZE addr then
        (let (v, r) = rtc_read (addr - GOLDFISH_RTC_BASE) (vb_rtc b) in (Some (ucast v), b\<lparr>vb_rtc := r\<rparr>))
      else if in_window VIRTIO_BASE (VIRTIO_COUNT * VIRTIO_SIZE) addr then
        (let i = virtio_slot addr; off = (addr - VIRTIO_BASE) mod VIRTIO_SIZE
         in (if i < length (vb_virtio b) then Some (ucast (read_sized (vb_virtio b ! i) off n)) else None, b))
      else (None, b))"

text \<open>Device \<open>i\<close> is taken out of the vector while its queue is processed and put back.\<close>

definition process_dev :: "nat \<Rightarrow> nat \<Rightarrow> virt_bus \<Rightarrow> virt_bus" where
  "process_dev i qi b =
     (case process_call qi (vb_virtio b ! i, vb_mem b) of
        None \<Rightarrow> if vb_hang b = None then b\<lparr>vb_hang := Some (qi, vb_virtio b ! i, vb_mem b)\<rparr> else b
      | Some (v, m) \<Rightarrow> b\<lparr>vb_virtio := (vb_virtio b)[i := v], vb_mem := m\<rparr>)"

definition mmio_write :: "u64 \<Rightarrow> u64 \<Rightarrow> virt_bus \<Rightarrow> bool \<times> virt_bus" where
  "mmio_write addr val b =
     (if in_window TEST_BASE 0x1000 addr then
        (let v = (ucast val :: u32) AND 0xffff
         in (True, if v = 0x5555 \<or> v = 0x7777 \<or> v = 0x3333 then b\<lparr>vb_power_off := True\<rparr> else b))
      else if in_window CLINT_BASE CLINT_SIZE addr then
        (True, if addr - CLINT_BASE = 0x0 then b\<lparr>vb_msip := (val AND 1 \<noteq> 0)\<rparr>
               else if addr - CLINT_BASE = 0x4000 then b\<lparr>vb_mtimecmp := val\<rparr>
               else b)
      else if in_window PLIC_BASE PLIC_SIZE addr then
        (True, b\<lparr>vb_plic := plic_write (addr - PLIC_BASE) (ucast val) (vb_plic b)\<rparr>)
      else if in_window UART_BASE UART_SIZE addr then
        (True, b\<lparr>vb_uart := uart_write (addr - UART_BASE) (ucast val) (vb_uart b)\<rparr>)
      else if in_window GOLDFISH_RTC_BASE GOLDFISH_RTC_SIZE addr then
        (True, b\<lparr>vb_rtc := rtc_write (addr - GOLDFISH_RTC_BASE) (ucast val) (vb_rtc b)\<rparr>)
      else if in_window VIRTIO_BASE (VIRTIO_COUNT * VIRTIO_SIZE) addr then
        (let i = virtio_slot addr; off = (addr - VIRTIO_BASE) mod VIRTIO_SIZE
         in (True,
             if i < length (vb_virtio b) then
               (let (q, v) = virtio_write off (ucast val) (vb_virtio b ! i);
                    b = b\<lparr>vb_virtio := (vb_virtio b)[i := v]\<rparr>
                in case q of None \<Rightarrow> b | Some q \<Rightarrow> process_dev i (unat q) b)
             else b))
      else (False, b))"

definition poll_virtio :: "virt_bus \<Rightarrow> virt_bus" where
  "poll_virtio b =
     fold (\<lambda>i b. fold (process_dev i) [0..<2] b) [0..<length (vb_virtio b)] b"

section \<open>The trait implementation\<close>

definition jit_check_store :: "u64 \<Rightarrow> virt_bus \<Rightarrow> virt_bus" where
  "jit_check_store addr b =
     b\<lparr>vb_mem := (vb_mem b)\<lparr>dm_jit := note_store addr (dm_jit (vb_mem b))\<rparr>\<rparr>"

definition ram_slice :: "u64 \<Rightarrow> nat \<Rightarrow> virt_bus \<Rightarrow> u8 list option" where
  "ram_slice addr n b = guest_slice (vb_mem b) addr n"

definition ram_store :: "u64 \<Rightarrow> u8 list \<Rightarrow> virt_bus \<Rightarrow> virt_bus option" where
  "ram_store addr bytes b =
     (case checked_ram_range (length (dm_ram (vb_mem b))) RAM_BASE addr (length bytes) of None \<Rightarrow> None
      | Some (a, e) \<Rightarrow> Some (b\<lparr>vb_mem := (vb_mem b)\<lparr>dm_ram := splice_at a bytes (dm_ram (vb_mem b))\<rparr>\<rparr>))"

definition virt_read :: "nat \<Rightarrow> u64 \<Rightarrow> (virt_bus, 'a::len word) exec" where
  "virt_read n addr b =
     (case ram_slice addr n b of
        Some s \<Rightarrow> (Inr (from_le s), b)
      | None \<Rightarrow>
          (case mmio_read addr n b of
             (Some v, b') \<Rightarrow> (Inr (ucast v), b')
           | (None, b') \<Rightarrow> (Inl (LoadAccessFault addr), b')))"

definition virt_write :: "nat \<Rightarrow> u64 \<Rightarrow> 'a::len word \<Rightarrow> (virt_bus, unit) exec" where
  "virt_write n addr val b =
     (let b = jit_check_store addr b
      in case ram_store addr (to_le n val) b of
           Some b' \<Rightarrow> (Inr (), b')
         | None \<Rightarrow>
             (let (ok, b') = mmio_write addr (ucast val) b
              in (if ok then Inr () else Inl (StoreAccessFault addr), b')))"

definition virt_fetch32_if_safe :: "u64 \<Rightarrow> virt_bus \<Rightarrow> u32 option \<times> virt_bus" where
  "virt_fetch32_if_safe addr b = (map_option from_le (ram_slice addr 4 b), b)"

definition virt_irq_lines :: "virt_bus \<Rightarrow> u64 \<times> virt_bus" where
  "virt_irq_lines b =
     (let b = refresh_plic b;
          m = (if \<not> vb_direct_sbi b \<and> vb_mtimecmp b \<le> vb_mtime b then IRQ_MTIP else 0);
          m = (if vb_msip b then m OR IRQ_MSIP else m);
          m = (if pending_ctx (vb_plic b) 0 then m OR IRQ_MEIP else m);
          m = (if pending_ctx (vb_plic b) 1 then m OR IRQ_SEIP else m)
      in (m, b))"

text \<open>\<open>host\<close> is the address of the RAM buffer in the host process, fixed when it is allocated.\<close>

definition virt_jit_fast_off :: "i64 \<Rightarrow> u64 \<Rightarrow> u64 \<Rightarrow> bool \<Rightarrow> virt_bus \<Rightarrow> i64 option" where
  "virt_jit_fast_off host va pa store b =
     (if pa < RAM_BASE \<or> RAM_BASE + of_nat (length (dm_ram (vb_mem b))) \<le> (pa OR 0xfff) then None
      else if store \<and> address_marked (dm_jit (vb_mem b)) pa then None
      else Some (host + (pa - RAM_BASE) - va))"

definition virt_bus_ops :: "i64 \<Rightarrow> virt_bus bus_ops" where
  "virt_bus_ops host = \<lparr>
     read8 = virt_read 1, read16 = virt_read 2, read32 = virt_read 4, read64 = virt_read 8,
     write8 = virt_write 1, write16 = virt_write 2, write32 = virt_write 4, write64 = virt_write 8,
     jit_fast_off = virt_jit_fast_off host,
     fetch16 = default_fetch16 (virt_read 2),
     fetch32_if_safe = virt_fetch32_if_safe,
     irq_lines = virt_irq_lines\<rparr>"

section \<open>RAM behind the bus\<close>

definition virt_words :: "virt_bus \<Rightarrow> u64 \<Rightarrow> u64 option" where
  "virt_words b a = map_option from_le (ram_slice a 8 b)"

lemma ram_slice_store:
  assumes "ram_store addr bytes b = Some b'"
  shows "unat a = unat addr \<Longrightarrow> n = length bytes \<Longrightarrow> ram_slice a n b' = Some bytes"
    and "unat a + n \<le> unat addr \<or> unat addr + length bytes \<le> unat a \<Longrightarrow> ram_slice a n b' = ram_slice a n b"
proof -
  obtain x e where r: "checked_ram_range (length (dm_ram (vb_mem b))) RAM_BASE addr (length bytes) = Some (x, e)"
    and b': "b' = b\<lparr>vb_mem := (vb_mem b)\<lparr>dm_ram := splice_at x bytes (dm_ram (vb_mem b))\<rparr>\<rparr>"
    using assms by (auto simp: ram_store_def split: option.splits)
  note w = r [unfolded checked_ram_range_Some]
  have l: "length (splice_at x bytes (dm_ram (vb_mem b))) = length (dm_ram (vb_mem b))" using w by auto
  {
    assume "unat a = unat addr" "n = length bytes"
    then have "a = addr" by (simp add: word_unat_eq_iff)
    then show "ram_slice a n b' = Some bytes"
      using r w \<open>n = length bytes\<close> l by (auto simp: ram_slice_def guest_slice_def b' slice_splice_same)
  }
  assume d: "unat a + n \<le> unat addr \<or> unat addr + length bytes \<le> unat a"
  show "ram_slice a n b' = ram_slice a n b"
  proof (cases "checked_ram_range (length (dm_ram (vb_mem b))) RAM_BASE a n")
    case None
    then show ?thesis using l by (simp add: ram_slice_def guest_slice_def b')
  next
    case (Some t)
    obtain y f where t: "t = (y, f)" by (cases t)
    note v = Some [unfolded t checked_ram_range_Some]
    have "unat addr = x + unat RAM_BASE" "unat a = y + unat RAM_BASE"
      "x + length bytes \<le> length (dm_ram (vb_mem b))" "y + n \<le> length (dm_ram (vb_mem b))" "f = y + n"
      using w v by auto
    then have "slice_at y n (splice_at x bytes (dm_ram (vb_mem b))) = slice_at y n (dm_ram (vb_mem b))"
      using d by (intro slice_splice_disjoint) auto
    then show ?thesis using Some l t \<open>f = y + n\<close> by (simp add: ram_slice_def guest_slice_def b')
  qed
qed

lemma ram_slice_check [simp]: "ram_slice a n (jit_check_store c b) = ram_slice a n b"
  by (simp add: ram_slice_def guest_slice_def jit_check_store_def split: option.split)

lemma ram_store_defined: "ram_store addr bytes b \<noteq> None \<longleftrightarrow> ram_slice addr (length bytes) b \<noteq> None"
  by (auto simp: ram_store_def ram_slice_def guest_slice_def split: option.splits)

interpretation virt: word_bus "virt_bus_ops host" virt_words
proof
  fix a k v w :: u64 and b :: virt_bus
  assume a: "a AND 7 = 0" and v: "virt_words b a = Some v"
  show "read64 (virt_bus_ops host) a b = (Inr v, b)"
    using v by (auto simp: virt_bus_ops_def virt_words_def virt_read_def)
  have "ram_slice a (length (to_le 8 w)) (jit_check_store a b) \<noteq> None" using v by (auto simp: virt_words_def)
  then obtain b' where s: "ram_store a (to_le 8 w) (jit_check_store a b) = Some b'"
    using ram_store_defined by (metis option.exhaust)
  then have wr: "write64 (virt_bus_ops host) a w b = (Inr (), b')"
    by (simp add: virt_bus_ops_def virt_write_def Let_def)
  then show "fst (write64 (virt_bus_ops host) a w b) = Inr ()" by simp
  assume k: "k AND 7 = 0"
  show "virt_words (snd (write64 (virt_bus_ops host) a w b)) k = (if k = a then Some w else virt_words b k)"
  proof (cases "k = a")
    case True
    then show ?thesis using ram_slice_store(1) [OF s, of a 8] by (simp add: wr virt_words_def from_le_to_le)
  next
    case False
    then have "unat k + 8 \<le> unat a \<or> unat a + length (to_le 8 w) \<le> unat k"
      using aligned_apart [OF a k] by auto
    then show ?thesis using ram_slice_store(2) [OF s] False by (simp add: wr virt_words_def)
  qed
qed

end
