(* ===== verification/VirtioSpec.thy ===== *)
theory VirtioSpec
  imports Virtio
begin

unbundle bit_operations_syntax

text \<open>
  What the virtio devices promise: every byte they change in guest RAM is reported to the page
  bitmaps; their memory is bounded and a parked disk request is inside the disk, whatever the guest
  and the host do; a completion is one commit; and when the service loop of a queue returns.
\<close>

section \<open>Every device write is reported\<close>


lemma noted_chain: "noted a b \<Longrightarrow> (dma_ok b \<Longrightarrow> noted b c) \<Longrightarrow> noted a c"
  using noted_trans noted_ok by blast

lemma noted_writes: "dma_ok d \<Longrightarrow> guest_write a bs d = (ok, d') \<Longrightarrow> noted d d'"
  using noted_guest_write [of d a bs] by simp

lemma noted_block_data:
  "dma_ok (br_dma r) \<Longrightarrow> noted (br_dma r) (br_dma (block_data t x r))"
  by (cases x) (auto simp: block_data_def Let_def intro: noted_refl noted_writes
      split: option.splits prod.splits)

lemma noted_block_fold:
  "dma_ok (br_dma r) \<Longrightarrow> noted (br_dma r) (br_dma (fold (block_data t) xs r))"
proof (induction xs arbitrary: r)
  case (Cons x xs)
  show ?case using noted_block_data [OF Cons.prems, of t x] Cons.IH by (auto intro: noted_chain)
qed (simp add: noted_refl)

lemma noted_service_block:
  assumes "dma_ok d" and "service_block disk chain d = (w, disk', d')"
  shows "noted d d'"
proof -
  have "noted d (snd (guest_write a bs (br_dma (fold (block_data t) body
      \<lparr>br_pos = p, br_written = n, br_ok = ok, br_disk = dk, br_dma = d\<rparr>))))" for a bs t body p n ok dk
    using noted_block_fold [of "\<lparr>br_pos = p, br_written = n, br_ok = ok, br_disk = dk, br_dma = d\<rparr>" t body] assms(1)
    by (simp add: noted_chain noted_guest_write)
  then show ?thesis
    using assms noted_refl [OF assms(1)]
    by (auto simp: service_block_def Let_def split: list.splits option.splits prod.splits)
qed

lemma noted_service_external:
  "dma_ok d \<Longrightarrow> service_external cap p qi chain d = (w, p', d') \<Longrightarrow> noted d d'"
  using noted_refl noted_guest_write
  by (auto simp: service_external_def Let_def split: list.splits option.splits prod.splits if_splits)

lemma noted_net_scatter: "dma_ok d \<Longrightarrow> noted d (snd (net_scatter chain src n d))"
proof (induction chain src n d rule: net_scatter.induct)
  case (2 addr len writable ds src written d)
  let ?n = "min (length src - written) (unat len)"
  obtain ok d' where g: "guest_write addr (slice_at written ?n src) d = (ok, d')" by fastforce
  have n: "noted d d'" by (rule noted_writes [OF 2(3) g])
  show ?case
    using 2(1,3) 2(2) [OF _ refl g [symmetric]] n noted_ok [OF n] noted_trans [OF n]
    by (auto simp: g Let_def)
qed (simp add: noted_refl)

lemma noted_service_net:
  "dma_ok d \<Longrightarrow> service_net mac inbox outbox qi chain d = (w, b, d') \<Longrightarrow> noted d d'"
  using noted_refl noted_net_scatter [of d chain]
  by (auto simp: service_net_def Let_def split: list.splits option.splits prod.splits if_splits)
    (metis snd_conv)+

lemma noted_service:
  assumes "dma_ok d" and "service qi chain (v, d) = (w, v', d')"
  shows "noted d d'"
proof (cases "vd_backend v")
  case (Block disk)
  then show ?thesis
    using assms noted_service_block [OF assms(1)] by (auto simp: service_def Let_def split: prod.splits)
next
  case (ExternalBlock cap p)
  then show ?thesis
    using assms noted_service_external [OF assms(1)] by (auto simp: service_def Let_def split: prod.splits)
next
  case (Net mac inbox outbox)
  then show ?thesis
    using assms noted_service_net [OF assms(1)] by (auto simp: service_def Let_def split: prod.splits)
qed

lemma noted_publish: "dma_ok d \<Longrightarrow> noted d (publish entry ia idx head w d)"
  unfolding publish_def
  by (meson noted_chain noted_write16 noted_write32)

text \<open>The ways one round can end.\<close>

lemma process_round_cases:
  obtains (idle) "process_round qi (v, d) = (False, v, d)"
  | (parked) chain head ia idx entry v' d' where
      "service qi chain (v, d) = (None, v', d')"
      "used_slot (queues v ! qi) d = Some (ia, idx, entry)"
      "process_round qi (v, d) = (False, park head ia entry idx v', d')"
  | (served) chain head ia idx entry w v' d' avail_idx where
      "service qi chain (v, d) = (Some w, v', d')"
      "used_slot (queues v ! qi) d = Some (ia, idx, entry)"
      "read_avail_idx (queues v ! qi) d = Some avail_idx" "last_avail_idx (queues v ! qi) \<noteq> avail_idx"
      "process_round qi (v, d) = (True,
         upd_queue qi (\<lambda>q. q\<lparr>last_avail_idx := last_avail_idx q + 1\<rparr>) (v'\<lparr>int_status := int_status v' OR 1\<rparr>),
         publish entry ia idx head w d')"
proof -
  let ?q = "queues v ! qi"
  show thesis
  proof (cases "q_num ?q = 0")
    case True
    then show thesis by (intro idle) (simp add: process_round_def)
  next
    case n: False
    show thesis
    proof (cases "read_avail_idx ?q d")
      case None
      then show thesis using n by (intro idle) (simp add: process_round_def)
    next
      case a: (Some avail_idx)
      show thesis
      proof (cases "last_avail_idx ?q = avail_idx \<or> read_head ?q d = None
          \<or> walk_chain d (q_desc ?q) (unat (q_num ?q)) (ucast (the (read_head ?q d))) = None
          \<or> used_slot ?q d = None")
        case True
        then show thesis using n a
          by (intro idle) (auto simp: process_round_def Let_def split: option.splits)
      next
        case False
        then obtain head chain ia idx entry where f: "last_avail_idx ?q \<noteq> avail_idx" "read_head ?q d = Some head"
          "walk_chain d (q_desc ?q) (unat (q_num ?q)) (ucast head) = Some chain"
          "used_slot ?q d = Some (ia, idx, entry)" by auto
        obtain w v' d' where s: "service qi chain (v, d) = (w, v', d')" by (metis prod_cases3)
        note r = process_round_def Let_def n a f s
        show thesis
        proof (cases w)
          case None
          with s have "service qi chain (v, d) = (None, v', d')" by simp
          moreover have "process_round qi (v, d) = (False, park head ia entry idx v', d')"
            using None by (simp add: r)
          ultimately show thesis using f(4) by (intro parked)
        next
          case (Some w)
          with s have "service qi chain (v, d) = (Some w, v', d')" by simp
          moreover have "process_round qi (v, d) = (True,
              upd_queue qi (\<lambda>q. q\<lparr>last_avail_idx := last_avail_idx q + 1\<rparr>) (v'\<lparr>int_status := int_status v' OR 1\<rparr>),
              publish entry ia idx head w d')"
            using Some by (simp add: r)
          ultimately show thesis using f(1,4) a by (intro served)
        qed
      qed
    qed
  qed
qed

lemma noted_round:
  assumes "dma_ok d" and "process_round qi (v, d) = (again, v', d')"
  shows "noted d d'"
proof (cases qi v d rule: process_round_cases)
  case idle
  then show ?thesis using assms noted_refl by simp
next
  case (parked chain head ia idx entry v1 d1)
  then show ?thesis using assms noted_service [OF assms(1)] by auto
next
  case (served chain head ia idx entry w v1 d1 avail_idx)
  have n: "noted d d1" by (rule noted_service [OF assms(1) served(1)])
  show ?thesis using noted_trans [OF n noted_publish [OF noted_ok [OF n]]] served(5) assms(2) by simp
qed

lemma noted_loop:
  "dma_ok d \<Longrightarrow> process_loop n qi (v, d) = Some (v', d') \<Longrightarrow> noted d d'"
proof (induction n arbitrary: v d)
  case (Suc n)
  obtain again v1 d1 where r: "process_round qi (v, d) = (again, v1, d1)" by (metis prod_cases3)
  note n = noted_round [OF Suc.prems(1) r]
  show ?case
    using Suc.prems(2) Suc.IH [OF noted_ok [OF n]] noted_trans [OF n] n
    by (cases again) (auto simp: r)
qed simp

lemma noted_process:
  "dma_ok d \<Longrightarrow> process n qi (v, d) = Some (v', d') \<Longrightarrow> noted d d'"
  using noted_loop noted_refl by (auto simp: process_def split: if_splits)

lemma noted_scatter: "dma_ok d \<Longrightarrow> noted d (snd (scatter bufs data n ok d))"
proof (induction bufs data n ok d rule: scatter.induct)
  case (2 addr len bs data copied ok d)
  obtain w d' where g: "guest_write addr (slice_at copied (unat len) data) d = (w, d')" by fastforce
  have n: "noted d d'" by (rule noted_writes [OF 2(2) g])
  show ?case using 2(1) [OF refl g [symmetric] refl] noted_ok [OF n] noted_trans [OF n] by (simp add: g Let_def)
qed (simp add: noted_refl)

lemma noted_complete:
  assumes "dma_ok d" and "complete_block_request i data ok (v, d) = (res, v', d')"
  shows "noted d d'"
proof (cases "\<exists>cap r. vd_backend v = ExternalBlock cap (Some r) \<and> req_id r = i \<and> targets_valid r d")
  case False
  then have "d' = d"
    using assms(2) by (auto simp: complete_block_request_def split: backend.splits option.splits if_splits)
  then show ?thesis using noted_refl [OF assms(1)] by simp
next
  case True
  then obtain cap r where r: "vd_backend v = ExternalBlock cap (Some r)" "req_id r = i" "targets_valid r d" by blast
  define s0 where "s0 \<longleftrightarrow> ok \<and> data_valid r data"
  obtain s1 d1 where s1: "(if s0 \<and> req_kind r = ReadReq then scatter (read_buffers r) data 0 s0 d else (s0, d)) = (s1, d1)"
    by fastforce
  obtain w d2 where w: "guest_write (status_addr r) [status_byte s1] d1 = (w, d2)" by fastforce
  have n1: "noted d d1"
    using s1 noted_scatter [OF assms(1), of "read_buffers r" data 0 s0] noted_refl [OF assms(1)]
    by (auto split: if_splits)
  have n2: "noted d1 d2" by (rule noted_writes [OF noted_ok [OF n1] w])
  have "\<exists>wr. d' = publish (used_entry r) (used_index_addr r) (used_idx r) (req_head r) wr d2"
    using assms(2) s1 w unfolding s0_def
    by (auto simp: complete_block_request_def r Let_def split: prod.splits)
  then show ?thesis using noted_publish [OF noted_ok [OF n2]] noted_trans [OF n1 noted_trans [OF n2]] by blast
qed


section \<open>Bounds\<close>

text \<open>
  A parked request lies inside the disk and moves at most \<open>MAX_DISK_OPERATION\<close> bytes; a write
  carries exactly its length, and the buffers of a read add up to it, so that the slices of the
  completion are in range.
\<close>

definition request_ok :: "u64 \<Rightarrow> pending_block_request \<Rightarrow> bool" where
  "request_ok cap r \<longleftrightarrow>
     queue_index r = 0 \<and> req_length r \<le> MAX_DISK_OPERATION
     \<and> (req_kind r \<noteq> FlushReq \<longrightarrow>
          req_length r \<noteq> 0 \<and> unat (req_offset r) + unat (req_length r) \<le> unat cap)
     \<and> (case req_kind r of
          ReadReq \<Rightarrow> sum_list (map (\<lambda>(_, len). unat len) (read_buffers r)) = unat (req_length r)
        | WriteReq \<Rightarrow> length (req_data r) = unat (req_length r)
        | FlushReq \<Rightarrow> req_length r = 0)"

definition small_frames :: "u8 list list \<Rightarrow> bool" where
  "small_frames fs \<longleftrightarrow> length fs \<le> NET_QUEUE_LIMIT \<and> list_all (\<lambda>f. length f \<le> NET_MAX_FRAME) fs"

definition backend_ok :: "backend \<Rightarrow> bool" where
  "backend_ok b \<longleftrightarrow>
     (case b of
        Block _ \<Rightarrow> True
      | ExternalBlock cap p \<Rightarrow> pred_option (request_ok cap) p
      | Net _ inbox outbox \<Rightarrow> small_frames inbox \<and> small_frames outbox)"

definition virtio_ok :: "virtio_dev \<Rightarrow> bool" where
  "virtio_ok v \<longleftrightarrow>
     length (queues v) = MAX_QUEUES \<and> unat (queue_sel v) < MAX_QUEUES
     \<and> list_all (\<lambda>q. q_num q \<le> queue_num_max v) (queues v) \<and> backend_ok (vd_backend v)"

text \<open>A device keeps its kind: the size of its disk, its capacity or its MAC address.\<close>

definition same_device :: "backend \<Rightarrow> backend \<Rightarrow> bool" where
  "same_device b b' \<longleftrightarrow>
     (case (b, b') of
        (Block x, Block y) \<Rightarrow> length x = length y
      | (ExternalBlock c _, ExternalBlock c' _) \<Rightarrow> c = c'
      | (Net m _ _, Net m' _ _) \<Rightarrow> m = m'
      | _ \<Rightarrow> False)"

lemma same_device_refl [simp]: "same_device b b"
  by (simp add: same_device_def split: backend.splits)

lemma same_device_trans: "same_device a b \<Longrightarrow> same_device b c \<Longrightarrow> same_device a c"
  by (auto simp: same_device_def split: backend.splits)

lemma guest_slice_length: "guest_slice d addr n = Some s \<Longrightarrow> length s = n"
  by (auto simp: guest_slice_def checked_ram_range_Some length_slice_at split: option.splits prod.splits)

lemma unat_ucast_wide: "unat (ucast (x :: u32) :: u64) = unat x"
proof -
  have "unat x < 2 ^ 64" by (rule order_less_le_trans [OF unsigned_less]) simp
  then show ?thesis by (simp add: unsigned_ucast_eq take_bit_nat_eq_self)
qed

lemma body_scan_total:
  "body_scan d kind ds n bufs = Some (m, bufs') \<Longrightarrow>
     unat m = unat n + sum_list (map (\<lambda>(_, len, _). unat len) ds)
     \<and> list_all (desc_valid d kind) ds
     \<and> bufs' = (if kind = ReadReq then bufs @ map (\<lambda>(addr, len, _). (addr, len)) ds else bufs)
     \<and> (n \<le> MAX_DISK_OPERATION \<longrightarrow> m \<le> MAX_DISK_OPERATION)"
proof (induction d kind ds n bufs rule: body_scan.induct)
  case (2 d kind addr len writable ds n bufs)
  then obtain nxt where nxt: "checked_add n (ucast len) = Some nxt" "nxt \<le> MAX_DISK_OPERATION"
    and v: "desc_valid d kind (addr, len, writable)"
    and rest: "body_scan d kind ds nxt (if kind = ReadReq then bufs @ [(addr, len)] else bufs) = Some (m, bufs')"
    by (auto split: option.splits if_splits)
  have "unat nxt = unat n + unat len" using checked_add_unat [OF nxt(1)] by (simp add: unat_ucast_wide)
  then show ?case using 2(1) [OF _ nxt(1) _ rest] v nxt(2) by auto
qed simp

lemma write_data_length:
  "list_all (desc_valid d WriteReq) body \<Longrightarrow>
     length (write_data d body) = sum_list (map (\<lambda>(_, len, _). unat len) body)"
  by (induction body) (auto simp: write_data_def desc_valid_def guest_slice_length)

lemma check_request_ok:
  assumes "check_request cap chain body header saddr d = Some r"
  shows "request_ok cap r"
proof -
  from assms obtain kind offset body_len bufs e where
    k: "request_kind (from_le (take 4 header)) = Some kind"
    and b: "body_scan d kind body 0 [] = Some (body_len, bufs)"
    and e: "range_end kind offset body_len = Some e" "\<not> cap < e"
    and z: "kind \<noteq> FlushReq \<longrightarrow> body_len \<noteq> 0" "kind = FlushReq \<longrightarrow> body_len = 0"
    and r: "r = \<lparr>req_id = dm_next_id d, req_kind = kind, req_offset = offset,
       req_data = (if kind = WriteReq then write_data d body else []),
       req_length = body_len, read_buffers = bufs, status_addr = saddr,
       queue_index = 0, req_head = 0, used_index_addr = 0, used_entry = 0, used_idx = 0\<rparr>"
    by (auto simp: check_request_def split: option.splits if_splits prod.splits)
  note t = body_scan_total [OF b]
  have "kind \<noteq> FlushReq \<Longrightarrow> unat offset + unat body_len \<le> unat cap"
    using e by (cases kind) (auto simp: range_end_def not_less word_le_nat_alt dest!: checked_add_unat)
  moreover have "kind = WriteReq \<Longrightarrow> length (write_data d body) = unat body_len"
    using t write_data_length [of d body] by simp
  moreover have "kind = ReadReq \<Longrightarrow> sum_list (map (\<lambda>(_, len). unat len) bufs) = unat body_len"
    using t by (simp add: comp_def case_prod_unfold)
  ultimately show ?thesis
    using z t by (simp add: request_ok_def r MAX_DISK_OPERATION_def split: block_request_kind.split)
qed

lemma block_data_length: "length (br_disk (block_data t x r)) = length (br_disk r)"
  by (cases x) (auto simp: block_data_def Let_def disk_range_def guest_slice_length
      split: option.splits prod.splits if_splits)

lemma block_fold_length: "length (br_disk (fold (block_data t) xs r)) = length (br_disk r)"
  by (induction xs arbitrary: r) (simp_all add: block_data_length)

lemma service_block_length: "service_block disk chain d = (w, disk', d') \<Longrightarrow> length disk' = length disk"
  by (auto simp: service_block_def Let_def block_fold_length split: list.splits option.splits prod.splits)

lemma service_external_result:
  "service_external cap p qi chain d = (w, p', d') \<Longrightarrow>
     p' = p \<or> (\<exists>body header saddr. p' = check_request cap chain body header saddr d)"
  by (auto simp: service_external_def Let_def split: list.splits option.splits prod.splits if_splits)

lemma service_external_ok:
  assumes "service_external cap p qi chain d = (w, p', d')" and "pred_option (request_ok cap) p"
  shows "pred_option (request_ok cap) p'"
  using service_external_result [OF assms(1)] assms(2) check_request_ok
  by (cases p') (auto dest: sym)

lemma service_net_ok:
  "service_net mac inbox outbox qi chain d = (w, b, d') \<Longrightarrow> small_frames inbox \<Longrightarrow> small_frames outbox \<Longrightarrow>
     backend_ok b \<and> same_device (Net mac inbox outbox) b"
  by (auto simp: service_net_def Let_def backend_ok_def same_device_def small_frames_def
      split: list.splits option.splits prod.splits if_splits)

lemma service_ok:
  assumes "service qi chain (v, d) = (w, v', d')" and "backend_ok (vd_backend v)"
  shows "backend_ok (vd_backend v') \<and> same_device (vd_backend v) (vd_backend v')
    \<and> queues v' = queues v \<and> queue_sel v' = queue_sel v"
proof (cases "vd_backend v")
  case (Block disk)
  then show ?thesis
    using assms service_block_length [of disk chain d]
    by (auto simp: service_def Let_def backend_ok_def same_device_def split: prod.splits)
next
  case (ExternalBlock cap p)
  then show ?thesis
    using assms service_external_ok [of cap p qi chain d]
    by (auto simp: service_def Let_def backend_ok_def same_device_def split: prod.splits)
next
  case (Net mac inbox outbox)
  then show ?thesis
    using assms service_net_ok [of mac inbox outbox qi chain d]
    by (auto simp: service_def Let_def backend_ok_def split: prod.splits)
qed

lemma same_device_num_max:
  "same_device (vd_backend v) (vd_backend v') \<Longrightarrow> queue_num_max v' = queue_num_max v"
  by (auto simp: same_device_def queue_num_max_def split: backend.splits)

lemma park_ok:
  "backend_ok (vd_backend v) \<Longrightarrow> backend_ok (vd_backend (park h ia e i v))
     \<and> same_device (vd_backend v) (vd_backend (park h ia e i v))
     \<and> queues (park h ia e i v) = queues v \<and> queue_sel (park h ia e i v) = queue_sel v"
proof -
  have "request_ok cap (p\<lparr>req_head := h, used_index_addr := ia, used_entry := e, used_idx := i\<rparr>)"
    if "request_ok cap p" for cap p
    using that by (cases "req_kind p") (simp_all add: request_ok_def)
  then show "backend_ok (vd_backend v) \<Longrightarrow> backend_ok (vd_backend (park h ia e i v))
     \<and> same_device (vd_backend v) (vd_backend (park h ia e i v))
     \<and> queues (park h ia e i v) = queues v \<and> queue_sel (park h ia e i v) = queue_sel v"
    by (auto simp: park_def backend_ok_def same_device_def split: backend.splits option.splits)
qed

lemma list_all_update: "list_all P xs \<Longrightarrow> P x \<Longrightarrow> list_all P (xs[i := x])"
  by (auto simp: list_all_iff dest!: set_update_subset_insert [THEN subsetD])

lemma upd_queue_ok:
  assumes "virtio_ok v" and "\<And>q. q_num q \<le> queue_num_max v \<Longrightarrow> q_num (f q) \<le> queue_num_max v"
  shows "virtio_ok (upd_queue i f v)"
proof (cases "i < MAX_QUEUES")
  case True
  then have "q_num (queues v ! i) \<le> queue_num_max v"
    using assms(1) by (simp add: virtio_ok_def list_all_length)
  then show ?thesis
    using assms by (auto simp: virtio_ok_def upd_queue_def queue_num_max_def intro!: list_all_update)
next
  case False
  then have "length (queues v) \<le> i" using assms(1) by (simp add: virtio_ok_def)
  then show ?thesis using assms(1) by (simp add: upd_queue_def list_update_beyond)
qed

lemma upd_queue_simps [simp]:
  "vd_backend (upd_queue i f v) = vd_backend v" "queue_sel (upd_queue i f v) = queue_sel v"
  "queue_num_max (upd_queue i f v) = queue_num_max v" "int_status (upd_queue i f v) = int_status v"
  by (simp_all add: upd_queue_def queue_num_max_def)

lemma virtio_ok_carry:
  assumes "virtio_ok v" and "backend_ok (vd_backend v')" and "same_device (vd_backend v) (vd_backend v')"
    and "queues v' = queues v" and "queue_sel v' = queue_sel v"
  shows "virtio_ok v'"
  using assms same_device_num_max [of v v'] by (simp add: virtio_ok_def)

lemma process_round_ok:
  assumes "virtio_ok v" and "process_round qi (v, d) = (again, v', d')"
  shows "virtio_ok v' \<and> same_device (vd_backend v) (vd_backend v')"
proof -
  have b: "backend_ok (vd_backend v)" using assms(1) by (simp add: virtio_ok_def)
  show ?thesis
  proof (cases qi v d rule: process_round_cases)
    case idle
    then show ?thesis using assms by simp
  next
    case (parked chain head ia idx entry v1 d1)
    note s = service_ok [OF parked(1) b]
    note k = park_ok [of v1 head ia entry idx]
    have v: "v' = park head ia entry idx v1" using parked(3) assms(2) by simp
    have d: "same_device (vd_backend v) (vd_backend v')"
      using s k same_device_trans unfolding v by blast
    with virtio_ok_carry [OF assms(1)] s k show ?thesis unfolding v by simp
  next
    case (served chain head ia idx entry w v1 d1 avail_idx)
    note s = service_ok [OF served(1) b]
    have "virtio_ok v1" using virtio_ok_carry [OF assms(1)] s by simp
    then have "virtio_ok (v1\<lparr>int_status := int_status v1 OR 1\<rparr>)"
      by (simp add: virtio_ok_def queue_num_max_def)
    then have "virtio_ok v'" using served(5) assms(2) by (auto intro: upd_queue_ok)
    then show ?thesis using s served(5) assms(2) by auto
  qed
qed

lemma process_loop_ok:
  "virtio_ok v \<Longrightarrow> process_loop n qi (v, d) = Some (v', d') \<Longrightarrow>
     virtio_ok v' \<and> same_device (vd_backend v) (vd_backend v')"
proof (induction n arbitrary: v d)
  case (Suc n)
  obtain again v1 d1 where r: "process_round qi (v, d) = (again, v1, d1)" by (metis prod_cases3)
  note o1 = process_round_ok [OF Suc.prems(1) r]
  show ?case
    using Suc.prems(2) Suc.IH [of v1 d1] o1 same_device_trans by (cases again) (auto simp: r)
qed simp

lemma process_ok:
  "virtio_ok v \<Longrightarrow> process n qi (v, d) = Some (v', d') \<Longrightarrow>
     virtio_ok v' \<and> same_device (vd_backend v) (vd_backend v')"
  using process_loop_ok by (auto simp: process_def split: if_splits)

lemma reset_ok: "virtio_ok v \<Longrightarrow> virtio_ok (virtio_reset v) \<and> same_device (vd_backend v) (vd_backend (virtio_reset v))"
  by (auto simp: virtio_ok_def virtio_reset_def queue_num_max_def queue_default_def backend_ok_def same_device_def
      list_all_iff split: backend.splits)

lemma virtio_write_ok:
  assumes "virtio_ok v" and "virtio_write off val v = (n, v')"
  shows "virtio_ok v' \<and> same_device (vd_backend v) (vd_backend v')"
proof -
  have f: "virtio_ok (v\<lparr>device_features_sel := a\<rparr>)" "virtio_ok (v\<lparr>driver_features_sel := a\<rparr>)"
    "virtio_ok (v\<lparr>int_status := a\<rparr>)" "virtio_ok (v\<lparr>vd_status := a\<rparr>)" for a
    using assms(1) by (simp_all add: virtio_ok_def queue_num_max_def)
  have q: "virtio_ok (v\<lparr>queue_sel := min val (of_nat MAX_QUEUES - 1)\<rparr>)"
    using assms(1) by (simp add: virtio_ok_def queue_num_max_def MAX_QUEUES_def min_def unat_arith_simps)
  have u: "virtio_ok (upd_sel g v)" if "\<And>q. q_num q \<le> queue_num_max v \<Longrightarrow> q_num (g q) \<le> queue_num_max v" for g
    unfolding upd_sel_def by (rule upd_queue_ok [OF assms(1) that])
  have r: "virtio_ok (virtio_reset (v\<lparr>vd_status := 0\<rparr>))"
    "same_device (vd_backend v) (vd_backend (virtio_reset (v\<lparr>vd_status := 0\<rparr>)))"
    using reset_ok [OF f(4), of 0] by simp_all
  have s: "vd_backend (upd_sel g v) = vd_backend v" for g by (simp add: upd_sel_def)
  show ?thesis
    using assms f q r unfolding virtio_write_def Let_def
    by (auto simp: s intro!: u split: if_splits)
qed


lemma complete_ok:
  assumes "virtio_ok v" and "complete_block_request i data ok (v, d) = (res, v', d')"
  shows "virtio_ok v' \<and> same_device (vd_backend v) (vd_backend v')"
proof (cases "\<exists>cap r. vd_backend v = ExternalBlock cap (Some r) \<and> req_id r = i \<and> targets_valid r d")
  case False
  then have "v' = v"
    using assms(2) by (auto simp: complete_block_request_def split: backend.splits option.splits if_splits)
  then show ?thesis using assms(1) by simp
next
  case True
  then obtain cap r where r: "vd_backend v = ExternalBlock cap (Some r)" "req_id r = i" "targets_valid r d" by blast
  let ?w = "v\<lparr>vd_backend := ExternalBlock cap None, int_status := int_status v OR 1\<rparr>"
  have v': "v' = upd_queue (queue_index r) (\<lambda>q. q\<lparr>last_avail_idx := last_avail_idx q + 1\<rparr>) ?w"
    using assms(2) by (auto simp: complete_block_request_def r Let_def split: prod.splits)
  have "virtio_ok ?w"
    using assms(1) by (simp add: virtio_ok_def queue_num_max_def r backend_ok_def)
  then show ?thesis unfolding v' by (auto intro: upd_queue_ok simp: r same_device_def)
qed

lemma mailbox_ok:
  assumes "virtio_ok v"
  shows "virtio_ok (net_input f v)" "same_device (vd_backend v) (vd_backend (net_input f v))"
    "virtio_ok (snd (net_take_output v))" "same_device (vd_backend v) (vd_backend (snd (net_take_output v)))"
  using assms
  by (auto simp: virtio_ok_def net_input_def net_take_output_def queue_num_max_def backend_ok_def
      same_device_def small_frames_def split: backend.splits)

text \<open>
  A device in its environment: register writes and notifications by the guest, mailbox and disk
  operations by the host, and any change of guest memory between them.
\<close>

inductive virtio_step :: "virtio_dev \<times> dma \<Rightarrow> virtio_dev \<times> dma \<Rightarrow> bool" where
  reg: "virtio_write off val v = (n, v') \<Longrightarrow> virtio_step (v, d) (v', d)"
| notify: "process fuel qi (v, d) = Some (v', d') \<Longrightarrow> virtio_step (v, d) (v', d')"
| feed: "virtio_step (v, d) (net_input frame v, d)"
| collect: "virtio_step (v, d) (snd (net_take_output v), d)"
| complete: "complete_block_request i data ok (v, d) = (res, v', d') \<Longrightarrow> virtio_step (v, d) (v', d')"
| guest: "virtio_step (v, d) (v, d')"

inductive_cases virtio_stepE: "virtio_step (v, d) (v', d')"

lemma virtio_step_ok:
  "virtio_step (v, d) (v', d') \<Longrightarrow> virtio_ok v \<Longrightarrow>
     virtio_ok v' \<and> same_device (vd_backend v) (vd_backend v')"
  by (elim virtio_stepE) (auto dest: virtio_write_ok process_ok complete_ok simp: mailbox_ok)

lemma virtio_run_ok:
  "virtio_step\<^sup>*\<^sup>* s t \<Longrightarrow> virtio_ok (fst s) \<Longrightarrow>
     virtio_ok (fst t) \<and> same_device (vd_backend (fst s)) (vd_backend (fst t))"
proof (induction rule: rtranclp_induct)
  case (step t u)
  then show ?case
    using virtio_step_ok [of "fst t" "snd t" "fst u" "snd u"] same_device_trans by auto
qed simp

lemma virtio_new_ok: "backend_ok b \<Longrightarrow> virtio_ok (virtio_new b)"
  by (simp add: virtio_ok_def virtio_new_def MAX_QUEUES_def queue_default_def replicate_two)

text \<open>
  Property C16. Whatever the guest writes into the registers, rings and descriptors and whatever the
  host feeds or completes, a device created empty keeps its bounds: the queue selector and the
  ring sizes stay legal, the two mailboxes hold at most \<open>NET_QUEUE_LIMIT\<close> frames of at most
  \<open>NET_MAX_FRAME\<close> bytes, the disk keeps its size, and a parked request lies inside the disk with
  data and buffers of exactly its length.
\<close>

theorem virtio_bounded:
  assumes "virtio_step\<^sup>*\<^sup>* (virtio_new b, d) (v, d')"
    and "case b of Block _ \<Rightarrow> True | ExternalBlock _ p \<Rightarrow> p = None | Net _ inbox outbox \<Rightarrow> inbox = [] \<and> outbox = []"
  shows "virtio_ok v \<and> same_device b (vd_backend v)"
proof -
  have "backend_ok b" using assms(2) by (auto simp: backend_ok_def small_frames_def split: backend.splits)
  from virtio_run_ok [OF assms(1)] virtio_new_ok [OF this] show ?thesis
    by (simp add: virtio_new_def)
qed

theorem virtio_bounded_witness:
  "virtio_ok (net_input [1, 2] (virtio_new (Net [] [] [])))"
proof -
  have "virtio_step\<^sup>*\<^sup>* (virtio_new (Net [] [] []), undefined) (net_input [1, 2] (virtio_new (Net [] [] [])), undefined)"
    by (rule r_into_rtranclp) (rule virtio_step.feed)
  from virtio_bounded [OF this] show ?thesis by simp
qed

text \<open>
  DMA is never hidden from the code cache: after a queue is processed or an external request
  is completed, by any backend and for any rings and descriptors, every byte of guest RAM that
  changed and lies in a page marked as compiled code lies in a page reported as dirty; no
  report is lost and no mark changed.
\<close>

theorem dma_writes_reported:
  assumes "dma_ok d"
    and "process fuel qi (v, d) = Some (v', d') \<or> complete_block_request i data ok (v, d) = (res, v', d')"
  shows "noted d d'"
  using assms noted_process noted_complete by blast

section \<open>A completion is one commit\<close>

lemma guest_write_length: "length (dm_ram (snd (guest_write a bs d))) = length (dm_ram d)"
  by (auto simp: guest_write_def checked_ram_range_Some split: option.splits prod.splits)

lemma in_ram_length: "length (dm_ram d') = length (dm_ram d) \<Longrightarrow> in_ram d' = in_ram d"
  by (simp add: in_ram_def fun_eq_iff)

lemma write_length [simp]:
  "length (dm_ram (ram_write32 a w d)) = length (dm_ram d)" "length (dm_ram (ram_write16 a h d)) = length (dm_ram d)"
  by (simp_all add: ram_write32_def ram_write16_def guest_write_length)

lemma scatter_length: "length (dm_ram (snd (scatter bufs data n ok d))) = length (dm_ram d)"
proof (induction bufs data n ok d rule: scatter.induct)
  case (2 addr len bs data copied ok d)
  obtain w d' where g: "guest_write addr (slice_at copied (unat len) data) d = (w, d')" by fastforce
  then show ?case
    using 2 [OF refl g [symmetric] refl] guest_write_length [of addr "slice_at copied (unat len) data" d]
    by (simp add: Let_def)
qed simp

lemma completion_parts:
  assumes "vd_backend v = ExternalBlock cap (Some r)"
    and "complete_block_request i data ok (v, d) = (res, v', d')"
  shows "res \<longleftrightarrow> req_id r = i \<and> targets_valid r d" and "\<not> res \<longrightarrow> v' = v \<and> d' = d"
  using assms by (auto simp: complete_block_request_def Let_def split: prod.splits if_splits)

definition put_bytes :: "u8 list \<Rightarrow> nat \<times> u8 list \<Rightarrow> u8 list" where
  "put_bytes ram w = (case w of (a, bs) \<Rightarrow> take a ram @ bs @ drop (a + length bs) ram)"

lemma nth_put_bytes:
  assumes "a + length bs \<le> length ram" and "i < length ram"
  shows "put_bytes ram (a, bs) ! i = (if a \<le> i \<and> i < a + length bs then bs ! (i - a) else ram ! i)"
  using nth_splice_at [OF assms] by (simp add: put_bytes_def splice_at_def)

lemma length_put_bytes: "a + length bs \<le> length ram \<Longrightarrow> length (put_bytes ram (a, bs)) = length ram"
  by (simp add: put_bytes_def)

lemma put_bytes_fold: "(\<lambda>ram (a, bs). take a ram @ bs @ drop (a + length bs) ram) = put_bytes"
  by (simp add: put_bytes_def fun_eq_iff)

definition ram_off :: "u64 \<Rightarrow> nat" where
  "ram_off a = unat a - 0x80000000"

lemma in_ram_bounds:
  assumes "length (dm_ram d) < 2 ^ 63"
  shows "in_ram d a n \<longleftrightarrow> 0x80000000 \<le> unat a \<and> unat a + n \<le> 0x80000000 + length (dm_ram d)"
proof -
  have "unat RAM_BASE = 0x80000000" by (simp add: RAM_BASE_def)
  then show ?thesis using assms by (auto simp: in_ram_def checked_ram_range_Some)
qed

lemma guest_write_in_ram:
  assumes "in_ram d a (length bs)"
  shows "fst (guest_write a bs d)" and "dm_ram (snd (guest_write a bs d)) = put_bytes (dm_ram d) (ram_off a, bs)"
    and "dm_next_id (snd (guest_write a bs d)) = dm_next_id d"
proof -
  obtain x e where r: "checked_ram_range (length (dm_ram d)) RAM_BASE a (length bs) = Some (x, e)"
    using assms by (auto simp: in_ram_def)
  then have "x = ram_off a" by (auto simp: checked_ram_range_Some ram_off_def RAM_BASE_def)
  then show "fst (guest_write a bs d)" "dm_ram (snd (guest_write a bs d)) = put_bytes (dm_ram d) (ram_off a, bs)"
    "dm_next_id (snd (guest_write a bs d)) = dm_next_id d"
    using r by (simp_all add: guest_write_def put_bytes_def splice_at_def)
qed

lemma scatter_writes:
  assumes "list_all (\<lambda>(a, n). in_ram d a (unat n)) bufs"
    and "copied + sum_list (map (\<lambda>(_, n). unat n) bufs) = length data"
  shows "\<exists>reads. concat (map snd reads) = drop copied data
    \<and> map (\<lambda>(a, bs). (a, length bs)) reads = map (\<lambda>(a, n). (ram_off a, unat n)) bufs
    \<and> fst (scatter bufs data copied ok d) = ok
    \<and> dm_ram (snd (scatter bufs data copied ok d)) = foldl put_bytes (dm_ram d) reads
    \<and> dm_next_id (snd (scatter bufs data copied ok d)) = dm_next_id d"
  using assms
proof (induction bufs arbitrary: copied d)
  case Nil
  then show ?case by (intro exI [of _ "[]"]) simp
next
  case (Cons b bufs)
  obtain a n where b: "b = (a, n)" by (cases b)
  let ?bs = "slice_at copied (unat n) data"
  have l: "length ?bs = unat n" using Cons.prems(2) by (simp add: b length_slice_at)
  then have i: "in_ram d a (length ?bs)" using Cons.prems(1) by (simp add: b)
  define d1 where "d1 = snd (guest_write a ?bs d)"
  note g = guest_write_in_ram [OF i, folded d1_def]
  have "in_ram d1 = in_ram d" unfolding d1_def by (rule in_ram_length) (rule guest_write_length)
  then obtain reads where r: "concat (map snd reads) = drop (copied + unat n) data"
      "map (\<lambda>(a, bs). (a, length bs)) reads = map (\<lambda>(a, n). (ram_off a, unat n)) bufs"
      "fst (scatter bufs data (copied + unat n) ok d1) = ok"
      "dm_ram (snd (scatter bufs data (copied + unat n) ok d1)) = foldl put_bytes (dm_ram d1) reads"
      "dm_next_id (snd (scatter bufs data (copied + unat n) ok d1)) = dm_next_id d1"
    using Cons.IH [of d1 "copied + unat n"] Cons.prems by (auto simp: b add.assoc)
  have s: "scatter (b # bufs) data copied ok d = scatter bufs data (copied + unat n) ok d1"
    using g(1) by (simp add: b Let_def d1_def case_prod_beta)
  have "?bs @ drop (copied + unat n) data = drop copied data"
    by (metis add.commute append_take_drop_id drop_drop slice_at_def)
  then show ?case unfolding s
    by (intro exI [of _ "(ram_off a, ?bs) # reads"]) (simp add: r g b l)
qed

lemma publish_ram:
  assumes "in_ram d e 8" and "in_ram d i 2" and "length (dm_ram d) < 2 ^ 63"
  shows "dm_ram (publish e i idx h w d) = foldl put_bytes (dm_ram d)
      [(ram_off e, to_le 4 (ucast h :: u32)), (ram_off e + 4, to_le 4 w), (ram_off i, to_le 2 (idx + 1))]
    \<and> dm_next_id (publish e i idx h w d) = dm_next_id d"
proof -
  note b = in_ram_bounds [OF assms(3)]
  have e: "unat e + 8 < 2 ^ 64" using assms(1,3) by (simp add: b)
  have e4: "unat (e + 4) = unat e + 4" using e by (simp add: unat_word_ariths)
  have i1: "in_ram d e (length (to_le 4 (ucast h :: u32)))" using assms(1) by (simp add: b)
  define d1 where "d1 = ram_write32 e (ucast h) d"
  have l1: "in_ram d1 = in_ram d" unfolding d1_def by (rule in_ram_length) simp
  have i2: "in_ram d1 (e + 4) (length (to_le 4 w))" using assms(1) unfolding l1 by (simp add: b e4)
  define d2 where "d2 = ram_write32 (e + 4) w d1"
  have l2: "in_ram d2 = in_ram d" unfolding d2_def l1 [symmetric] by (rule in_ram_length) simp
  have i3: "in_ram d2 i (length (to_le 2 (idx + 1)))" using assms(2) by (simp add: l2)
  have p: "publish e i idx h w d = ram_write16 i (idx + 1) d2" by (simp add: publish_def d2_def d1_def)
  have o: "ram_off (e + 4) = ram_off e + 4" using assms(1) by (simp add: ram_off_def e4 b)
  show ?thesis
    unfolding p ram_write16_def using guest_write_in_ram [OF i1] guest_write_in_ram [OF i2] guest_write_in_ram [OF i3]
    by (simp add: d2_def d1_def ram_write32_def o)
qed

lemma le_head:
  "(ucast (drop_bit k (ucast h :: u32)) :: u8) = (if k < 16 then ucast (drop_bit k (h :: u16)) else 0)"
  by (rule bit_word_eqI) (auto simp: bit_simps dest: bit_imp_le_length)

text \<open>
  Property C17. Completing the parked request of a well-formed external disk is one commit. It is accepted exactly
  when the id is the parked one and every destination lies in RAM: for a read each buffer of the scatter
  list, and always the status byte, the used entry and the used index; otherwise nothing changes and
  the request stays parked. Accepted, the memory changes by these writes in this order and by no other: for a
  successful read the data, cut into consecutive pieces of the buffers' lengths, each at its buffer; the
  status byte, 0 or 1; the used entry (the head of the chain, and the bytes written: the data and
  the status of a successful read, else the status alone), and the used index, one more than when the
  request was parked. The device changes by dropping the request, raising its interrupt and consuming
  the available entry. Success means that the host reported it and sent as many bytes as were asked for
  (none for a write or a flush).
\<close>

theorem completion_commit:
  assumes "virtio_ok v" and "vd_backend v = ExternalBlock cap (Some r)"
    and "complete_block_request i data ok (v, d) = (res, v', d')"
    and "length (dm_ram d) < 2 ^ 63" and "length data < 2 ^ 63"
    and "fits = (\<lambda>a n. 0x80000000 \<le> unat (a :: u64) \<and> unat a + n \<le> 0x80000000 + length (dm_ram d))"
    and "off = (\<lambda>a :: u64. unat a - 0x80000000)"
    and "good \<longleftrightarrow> ok \<and> (if req_kind r = ReadReq then length data = unat (req_length r) else data = [])"
    and "written = (if good \<and> req_kind r = ReadReq then ucast (req_length r) + 1 else (1 :: u32))"
  shows "(res \<longleftrightarrow> req_id r = i \<and> (req_kind r = ReadReq \<longrightarrow> (\<forall>(a, n) \<in> set (read_buffers r). fits a (unat n)))
        \<and> fits (status_addr r) 1 \<and> fits (used_entry r) 8 \<and> fits (used_index_addr r) 2)
    \<and> (if \<not> res then v' = v \<and> d' = d
       else v' = v\<lparr>vd_backend := ExternalBlock cap None, int_status := int_status v OR 1,
                queues := (queues v)[0 := (queues v ! 0)\<lparr>last_avail_idx := last_avail_idx (queues v ! 0) + 1\<rparr>]\<rparr>
         \<and> dm_next_id d' = dm_next_id d
         \<and> (\<exists>reads.
              (if good \<and> req_kind r = ReadReq
               then concat (map snd reads) = data
                 \<and> map (\<lambda>(a, bs). (a, length bs)) reads = map (\<lambda>(a, n). (off a, unat n)) (read_buffers r)
               else reads = [])
              \<and> dm_ram d' = foldl (\<lambda>ram (a, bs). take a ram @ bs @ drop (a + length bs) ram) (dm_ram d)
                  (reads @ [(off (status_addr r), [if good then 0 else 1]),
                            (off (used_entry r), map (\<lambda>k. ucast (drop_bit (8 * k) (req_head r))) [0, 1] @ [0, 0]),
                            (off (used_entry r) + 4, map (\<lambda>k. ucast (drop_bit (8 * k) written)) [0, 1, 2, 3]),
                            (off (used_index_addr r), map (\<lambda>k. ucast (drop_bit (8 * k) (used_idx r + 1))) [0, 1])])))"
proof -
  note b = in_ram_bounds [OF assms(4)]
  have off: "off = ram_off" by (simp add: assms(7) ram_off_def fun_eq_iff)
  have bytes: "to_le 4 (ucast (req_head r) :: u32) = map (\<lambda>k. ucast (drop_bit (8 * k) (req_head r))) [0, 1] @ [0, 0]"
    "to_le 4 written = map (\<lambda>k. ucast (drop_bit (8 * k) written)) [0, 1, 2, 3]"
    "to_le 2 (used_idx r + 1) = map (\<lambda>k. ucast (drop_bit (8 * k) (used_idx r + 1))) [0, 1]"
    by (simp_all add: to_le_def upt_rec le_head)
  have tv: "targets_valid r d \<longleftrightarrow> (req_kind r = ReadReq \<longrightarrow> (\<forall>(a, n) \<in> set (read_buffers r). fits a (unat n)))
        \<and> fits (status_addr r) 1 \<and> fits (used_entry r) 8 \<and> fits (used_index_addr r) 2"
    by (auto simp: targets_valid_def b assms(6) list_all_iff)
  have ro: "request_ok cap r" using assms(1,2) by (simp add: virtio_ok_def backend_ok_def)
  then have q: "queue_index r = 0" by (simp add: request_ok_def)
  have "unat (of_nat (length data) :: u64) = length data" using assms(5) by (simp add: unat_of_nat)
  then have "(of_nat (length data) = req_length r) = (length data = unat (req_length r))" by auto
  then have dv: "good \<longleftrightarrow> ok \<and> data_valid r data"
    unfolding assms(8) by (cases "req_kind r") (simp_all add: data_valid_def)
  note parts = completion_parts [OF assms(2,3)]
  show ?thesis
  proof (cases res)
    case False
    then show ?thesis using parts(1,2) tv by simp
  next
    case True
    with parts(1) have t: "req_id r = i" "targets_valid r d" by simp_all
    have st: "in_ram d (status_addr r) 1" "in_ram d (used_entry r) 8" "in_ram d (used_index_addr r) 2"
      using t(2) by (simp_all add: targets_valid_def)
    define P where "P \<longleftrightarrow> good \<and> req_kind r = ReadReq"
    obtain s1 d1 where s1: "(if P then scatter (read_buffers r) data 0 good d else (good, d)) = (s1, d1)"
      by fastforce
    have "\<exists>reads. (if P then concat (map snd reads) = data
             \<and> map (\<lambda>(a, bs). (a, length bs)) reads = map (\<lambda>(a, n). (ram_off a, unat n)) (read_buffers r)
           else reads = []) \<and> s1 = good \<and> dm_ram d1 = foldl put_bytes (dm_ram d) reads \<and> dm_next_id d1 = dm_next_id d
           \<and> length (dm_ram d1) = length (dm_ram d)"
    proof (cases P)
      case True
      then have k: "req_kind r = ReadReq" "length data = unat (req_length r)" by (simp_all add: P_def assms(8))
      have "list_all (\<lambda>(a, n). in_ram d a (unat n)) (read_buffers r)" using t(2) k by (simp add: targets_valid_def)
      moreover have "0 + sum_list (map (\<lambda>(_, n). unat n) (read_buffers r)) = length data"
        using ro k by (simp add: request_ok_def)
      ultimately show ?thesis
        using scatter_writes [of d "read_buffers r" 0 data good] s1 True scatter_length [of "read_buffers r" data 0 good d]
        by auto
    next
      case False
      then show ?thesis using s1 by auto
    qed
    then obtain reads where rd: "if P then concat (map snd reads) = data
             \<and> map (\<lambda>(a, bs). (a, length bs)) reads = map (\<lambda>(a, n). (ram_off a, unat n)) (read_buffers r)
           else reads = []" "s1 = good" "dm_ram d1 = foldl put_bytes (dm_ram d) reads" "dm_next_id d1 = dm_next_id d"
           "length (dm_ram d1) = length (dm_ram d)" by blast
    have i1: "in_ram d1 = in_ram d" by (rule in_ram_length [OF rd(5)])
    define d2 where "d2 = snd (guest_write (status_addr r) [status_byte good] d1)"
    have i: "in_ram d1 (status_addr r) (length [status_byte good])" using st(1) by (simp add: i1)
    note w = guest_write_in_ram [OF i, folded d2_def]
    have w1: "guest_write (status_addr r) [status_byte good] d1 = (True, d2)"
      using w(1) d2_def by (metis prod.collapse)
    have l2: "length (dm_ram d2) = length (dm_ram d)" unfolding d2_def by (simp add: guest_write_length rd(5))
    have i2: "in_ram d2 = in_ram d" by (rule in_ram_length [OF l2])
    have "(res, v', d') = (True,
        upd_queue (queue_index r) (\<lambda>q. q\<lparr>last_avail_idx := last_avail_idx q + 1\<rparr>)
          (v\<lparr>vd_backend := ExternalBlock cap None, int_status := int_status v OR 1\<rparr>),
        publish (used_entry r) (used_index_addr r) (used_idx r) (req_head r) written d2)"
      using assms(2,3) t s1 w1 rd(2) unfolding dv P_def
      by (auto simp: complete_block_request_def Let_def assms(9) dv split: prod.splits)
    then have v': "v' = upd_queue (queue_index r) (\<lambda>q. q\<lparr>last_avail_idx := last_avail_idx q + 1\<rparr>)
          (v\<lparr>vd_backend := ExternalBlock cap None, int_status := int_status v OR 1\<rparr>)"
      and d': "d' = publish (used_entry r) (used_index_addr r) (used_idx r) (req_head r) written d2"
      by simp_all
    note p = publish_ram [of d2 "used_entry r" "used_index_addr r" "used_idx r" "req_head r" written,
        unfolded i2 l2, OF st(2,3) assms(4), folded d']
    have "dm_ram d' = foldl put_bytes (dm_ram d) (reads @ [(ram_off (status_addr r), [status_byte good]),
        (ram_off (used_entry r), to_le 4 (ucast (req_head r) :: u32)), (ram_off (used_entry r) + 4, to_le 4 written),
        (ram_off (used_index_addr r), to_le 2 (used_idx r + 1))])"
      using p by (simp add: w(2) rd(3))
    moreover have "dm_next_id d' = dm_next_id d" using p w(3) rd(4) by simp
    moreover have "v' = v\<lparr>vd_backend := ExternalBlock cap None, int_status := int_status v OR 1,
                queues := (queues v)[0 := (queues v ! 0)\<lparr>last_avail_idx := last_avail_idx (queues v ! 0) + 1\<rparr>]\<rparr>"
      by (simp add: v' q upd_queue_def)
    ultimately show ?thesis
      using rd(1) t True tv unfolding put_bytes_fold off P_def bytes status_byte_def by auto
  qed
qed

definition demo_request :: pending_block_request where
  "demo_request = \<lparr>
     req_id = 7, req_kind = ReadReq, req_offset = 512, req_data = [], req_length = 2,
     read_buffers = [(0x80000020, 1), (0x80000028, 1)], status_addr = 0x80000022, queue_index = 0, req_head = 0,
     used_index_addr = 0x80000012, used_entry = 0x80000014, used_idx = 0\<rparr>"

definition demo_dma :: dma where
  "demo_dma = \<lparr>dm_ram = replicate 64 0, dm_jit = jit_new 64, dm_next_id = 8\<rparr>"

theorem completion_commit_witness:
  "let v = (virtio_new (ExternalBlock 4096 None))\<lparr>vd_backend := ExternalBlock 4096 (Some demo_request)\<rparr>
   in (\<exists>v' d'. complete_block_request 7 [1, 2] True (v, demo_dma) = (True, v', d')
        \<and> dm_ram d' ! 0x20 = 1 \<and> dm_ram d' ! 0x28 = 2 \<and> dm_ram d' ! 0x12 = 1 \<and> dm_ram d' ! 0x18 = 3)
      \<and> complete_block_request 8 [1, 2] True (v, demo_dma) = (False, v, demo_dma)"
proof -
  let ?v = "(virtio_new (ExternalBlock 4096 None))\<lparr>vd_backend := ExternalBlock 4096 (Some demo_request)\<rparr>"
  have v: "virtio_ok ?v" "vd_backend ?v = ExternalBlock 4096 (Some demo_request)"
    by (simp_all add: virtio_ok_def virtio_new_def MAX_QUEUES_def queue_default_def replicate_two backend_ok_def
        request_ok_def demo_request_def MAX_DISK_OPERATION_def)
  have l: "length (dm_ram demo_dma) < 2 ^ 63" "length [1 :: u8, 2] < 2 ^ 63" by (simp_all add: demo_dma_def)
  have c: "\<exists>r v' d'. complete_block_request i [1, 2] True (?v, demo_dma) = (r, v', d')" for i
    by (metis prod_cases3)
  from c [of 7] obtain r v' d' where r: "complete_block_request 7 [1, 2] True (?v, demo_dma) = (r, v', d')" by blast
  note f = completion_commit [OF v r l refl refl refl refl]
  have r1: "r" using conjunct1 [OF f] by (simp add: demo_request_def demo_dma_def)
  have k: "req_kind demo_request = ReadReq" "req_length demo_request = 2" "status_addr demo_request = 0x80000022"
    "used_entry demo_request = 0x80000014" "used_index_addr demo_request = 0x80000012" "used_idx demo_request = 0"
    "req_head demo_request = 0" "read_buffers demo_request = [(0x80000020, 1), (0x80000028, 1)]"
    by (simp_all add: demo_request_def)
  from conjunct2 [OF f, unfolded put_bytes_fold k] r1 obtain x y where "x @ y = [1, 2]" "length x = 1" "length y = 1"
    and w: "dm_ram d' = foldl put_bytes (replicate 64 0)
      [(0x20, x), (0x28, y), (0x22, [0]), (0x14, [0, 0, 0, 0]), (0x18, [3, 0, 0, 0]), (0x12, [1, 0])]"
    by (auto simp: demo_dma_def drop_bit_Suc)
  then have "x = [1]" "y = [2]" by (auto simp: length_Suc_conv)
  with w have "dm_ram d' ! 0x20 = 1 \<and> dm_ram d' ! 0x28 = 2 \<and> dm_ram d' ! 0x12 = 1 \<and> dm_ram d' ! 0x18 = 3"
    by (simp add: nth_put_bytes length_put_bytes)
  with r r1 have yes: "\<exists>v' d'. complete_block_request 7 [1, 2] True (?v, demo_dma) = (True, v', d')
      \<and> dm_ram d' ! 0x20 = 1 \<and> dm_ram d' ! 0x28 = 2 \<and> dm_ram d' ! 0x12 = 1 \<and> dm_ram d' ! 0x18 = 3" by (intro exI [of _ v'] exI [of _ d']) simp
  from c [of 8] obtain r v' d' where r: "complete_block_request 8 [1, 2] True (?v, demo_dma) = (r, v', d')" by blast
  note g = completion_commit [OF v r l refl refl refl refl]
  have "\<not> r" using conjunct1 [OF g] by (simp add: demo_request_def)
  with g r have "complete_block_request 8 [1, 2] True (?v, demo_dma) = (False, ?v, demo_dma)" by simp
  with yes show ?thesis unfolding Let_def by blast
qed

section \<open>When the service loop returns\<close>

lemma process_loop_mono:
  "process_loop n qi s = Some t \<Longrightarrow> n \<le> m \<Longrightarrow> process_loop m qi s = Some t"
proof (induction n arbitrary: s m)
  case (Suc n)
  then obtain k where m: "m = Suc k" by (cases m) auto
  show ?case
    using Suc.prems Suc.IH [of "snd (process_round qi s)" k]
    by (auto simp: m split: prod.splits if_splits)
qed simp

text \<open>
  Each served round consumes one available entry, so while the device leaves the guest's index
  \<open>a\<close> alone the distance to it falls.
\<close>

lemma process_loop_returns:
  assumes step: "\<And>v d v' d'. J (v, d) \<Longrightarrow> process_round qi (v, d) = (True, v', d') \<Longrightarrow>
      J (v', d') \<and> last_avail_idx (queues v' ! qi) = last_avail_idx (queues v ! qi) + 1"
    and avail: "\<And>v d. J (v, d) \<Longrightarrow> read_avail_idx (queues v ! qi) d = Some a"
    and "J (v, d)" and "unat (a - last_avail_idx (queues v ! qi)) < fuel"
  shows "process_loop fuel qi (v, d) \<noteq> None"
  using assms(3,4)
proof (induction fuel arbitrary: v d)
  case (Suc fuel)
  show ?case
  proof (cases qi v d rule: process_round_cases)
    case (served chain head ia idx entry w v1 d1 avail_idx)
    then obtain v' d' where r: "process_round qi (v, d) = (True, v', d')" by blast
    have ne: "a - last_avail_idx (queues v ! qi) \<noteq> 0"
      using served(3,4) avail [OF Suc.prems(1)] by simp
    have e: "a - last_avail_idx (queues v' ! qi) = a - last_avail_idx (queues v ! qi) - 1"
      using step [OF Suc.prems(1) r] by simp
    have "unat (a - last_avail_idx (queues v' ! qi)) = unat (a - last_avail_idx (queues v ! qi)) - 1"
      by (simp only: e unat_minus_one [OF ne])
    moreover have "0 < unat (a - last_avail_idx (queues v ! qi))" using ne by (simp add: unat_gt_0)
    ultimately have "unat (a - last_avail_idx (queues v' ! qi)) < fuel" using Suc.prems(2) by linarith
    then show ?thesis using Suc.IH [of v' d'] step [OF Suc.prems(1) r] by (simp add: r)
  qed simp_all
qed simp

lemma read16_write_apart:
  assumes "unat a + 2 \<le> unat addr \<or> unat addr + length bytes \<le> unat a"
  shows "ram_read16 (snd (guest_write addr bytes d)) a = ram_read16 d a"
proof (cases "checked_ram_range (length (dm_ram d)) RAM_BASE addr (length bytes)")
  case None
  then show ?thesis by (simp add: guest_write_def)
next
  case (Some r)
  obtain x e where r: "r = (x, e)" by (cases r)
  note w = Some [unfolded r checked_ram_range_Some]
  let ?d = "snd (guest_write addr bytes d)"
  have d: "dm_ram ?d = splice_at x bytes (dm_ram d)" by (simp add: guest_write_def Some r)
  have l: "length (dm_ram ?d) = length (dm_ram d)" by (rule guest_write_length)
  show ?thesis
  proof (cases "checked_ram_range (length (dm_ram d)) RAM_BASE a 2")
    case None
    then show ?thesis by (simp add: ram_read16_def guest_slice_def l)
  next
    case (Some t)
    obtain y f where t: "t = (y, f)" by (cases t)
    note b = Some [unfolded t checked_ram_range_Some]
    have "unat addr = x + unat RAM_BASE" "unat a = y + unat RAM_BASE"
      "x + length bytes \<le> length (dm_ram d)" "y + 2 \<le> length (dm_ram d)"
      using w b by auto
    then have "slice_at y 2 (splice_at x bytes (dm_ram d)) = slice_at y 2 (dm_ram d)"
      using assms by (intro slice_splice_disjoint) auto
    then show ?thesis using Some t b by (simp add: ram_read16_def guest_slice_def l) (simp add: d)
  qed
qed

text \<open>The used ring of a queue does not reach the index of its available ring.\<close>

definition rings_apart :: "queue \<Rightarrow> bool" where
  "rings_apart q \<longleftrightarrow>
     unat (q_avail q) + 2 \<le> unat (q_used q)
     \<or> unat (q_used q) + 4 + 8 * unat (q_num q) \<le> unat (q_avail q) + 2"

lemma used_slot_place:
  assumes "used_slot q d = Some (ia, idx, entry)" and "q_num q \<noteq> 0" and "dma_ok d"
  shows "unat ia = unat (q_used q) + 2" and "in_ram d entry 8"
    and "unat (q_used q) + 4 \<le> unat entry" and "unat entry + 8 \<le> unat (q_used q) + 4 + 8 * unat (q_num q)"
    and "unat (entry + 4) = unat entry + 4"
proof -
  let ?u = "(ucast idx :: u64) mod ucast (q_num q)"
  from assms(1) have ia: "checked_add (q_used q) 2 = Some ia"
    and e: "checked_add (q_used q) (4 + ?u * 8) = Some entry" and r: "in_ram d entry 8"
    by (auto simp: used_slot_def Let_def split: option.splits if_splits)
  show "unat ia = unat (q_used q) + 2" using checked_add_unat [OF ia] by simp
  show "in_ram d entry 8" by (rule r)
  have n: "unat (ucast (q_num q) :: u64) = unat (q_num q)" by (rule unat_ucast_wide)
  have lt: "unat ?u < unat (q_num q)"
    using assms(2) by (simp add: unat_mod n unat_gt_0)
  have "unat (q_num q) < 2 ^ 32" by (rule order_less_le_trans [OF unsigned_less]) simp
  then have "unat (4 + ?u * 8) = 4 + unat ?u * 8"
    using lt by (simp add: unat_word_ariths)
  then have u: "unat entry = unat (q_used q) + (4 + unat ?u * 8)" using checked_add_unat [OF e] by simp
  show "unat (q_used q) + 4 \<le> unat entry" using u by simp
  show "unat entry + 8 \<le> unat (q_used q) + 4 + 8 * unat (q_num q)" using u lt by simp
  from r have "unat RAM_BASE \<le> unat entry" "unat entry - unat RAM_BASE + 8 \<le> length (dm_ram d)"
    by (auto simp: in_ram_def checked_ram_range_Some)
  moreover have "unat RAM_BASE + length (dm_ram d) \<le> 2 ^ 64" using assms(3) by (simp add: dma_ok_def)
  ultimately have "unat entry + 4 < 2 ^ 64" by linarith
  then show "unat (entry + 4) = unat entry + 4" by (simp add: unat_word_ariths)
qed


lemma publish_avail_idx:
  assumes "used_slot q d = Some (ia, idx, entry)" and "q_num q \<noteq> 0" and "dma_ok d" and "rings_apart q"
    and "checked_add (q_avail q) 2 = Some a"
  shows "ram_read16 (publish entry ia idx head w d) a = ram_read16 d a"
proof -
  note p = used_slot_place [OF assms(1,2,3)]
  have "unat a = unat (q_avail q) + 2" using checked_add_unat [OF assms(5)] by simp
  then have "unat a + 2 \<le> unat ia \<or> unat ia + length (to_le 2 (idx + 1)) \<le> unat a"
    and "unat a + 2 \<le> unat entry \<or> unat entry + length (to_le 4 (ucast head :: u32)) \<le> unat a"
    and "unat a + 2 \<le> unat (entry + 4) \<or> unat (entry + 4) + length (to_le 4 w) \<le> unat a"
    using p(1,3,4,5) assms(4) by (auto simp: rings_apart_def)
  then show ?thesis
    unfolding publish_def ram_write16_def ram_write32_def by (simp only: read16_write_apart)
qed

definition is_net :: "backend \<Rightarrow> bool" where
  "is_net b = (case b of Net _ _ _ \<Rightarrow> True | _ \<Rightarrow> False)"

lemma service_net_tx:
  "service_net mac inbox outbox 1 chain d = (w, b, d') \<Longrightarrow> d' = d \<and> is_net b"
  by (auto simp: service_net_def is_net_def split: option.splits if_splits)

lemma service_tx:
  assumes "service 1 chain (v, d) = (w, v', d')" and "is_net (vd_backend v)"
  shows "d' = d" and "queues v' = queues v" and "is_net (vd_backend v')"
proof -
  obtain mac inbox outbox where b: "vd_backend v = Net mac inbox outbox"
    using assms(2) by (auto simp: is_net_def split: backend.splits)
  obtain b' where s: "service_net mac inbox outbox 1 chain d = (w, b', d')" "v' = v\<lparr>vd_backend := b'\<rparr>"
    using assms(1) by (auto simp: service_def b Let_def split: prod.splits)
  with service_net_tx [OF s(1)] show "d' = d" "queues v' = queues v" "is_net (vd_backend v')" by simp_all
qed

text \<open>
  The state of a transmit queue whose rings do not overlap, with the guest's available index \<open>a\<close>
  and the addresses \<open>q0\<close> that the guest has set.
\<close>

definition tx_inv :: "queue \<Rightarrow> u16 \<Rightarrow> virtio_dev \<times> dma \<Rightarrow> bool" where
  "tx_inv q0 a s \<longleftrightarrow>
     (let (v, d) = s
      in is_net (vd_backend v) \<and> length (queues v) = 2 \<and> dma_ok d
         \<and> (\<exists>i. queues v ! 1 = q0\<lparr>last_avail_idx := i\<rparr>) \<and> read_avail_idx q0 d = Some a)"

lemma tx_round:
  assumes "tx_inv q0 a (v, d)" and "rings_apart q0" and "process_round 1 (v, d) = (True, v', d')"
  shows "tx_inv q0 a (v', d') \<and> last_avail_idx (queues v' ! 1) = last_avail_idx (queues v ! 1) + 1"
proof -
  from assms(1) obtain i where i: "queues v ! 1 = q0\<lparr>last_avail_idx := i\<rparr>" and n: "is_net (vd_backend v)"
    and l: "length (queues v) = 2" and d: "dma_ok d" and a: "read_avail_idx q0 d = Some a"
    by (auto simp: tx_inv_def)
  have nz: "q_num q0 \<noteq> 0" using assms(3) i by (auto simp: process_round_def Let_def split: if_splits)
  show ?thesis
  proof (cases "1 :: nat" v d rule: process_round_cases)
    case (served chain head ia idx entry w v1 d1 avail_idx)
    note t = service_tx [OF served(1) n]
    have v': "v' = upd_queue 1 (\<lambda>q. q\<lparr>last_avail_idx := last_avail_idx q + 1\<rparr>) (v1\<lparr>int_status := int_status v1 OR 1\<rparr>)"
      and d': "d' = publish entry ia idx head w d"
      using assms(3) served(5) t(1) by simp_all
    have "used_slot (q0\<lparr>last_avail_idx := i\<rparr>) d = used_slot q0 d"
      by (simp add: used_slot_def cong: option.case_cong)
    then have u: "used_slot q0 d = Some (ia, idx, entry)" using served(2) i by simp
    obtain ad where ad: "checked_add (q_avail q0) 2 = Some ad"
      using a by (auto simp: read_avail_idx_def bind_eq_Some_conv)
    then have "read_avail_idx q0 d' = Some a"
      using a publish_avail_idx [OF u nz d assms(2) ad] by (simp add: read_avail_idx_def d')
    moreover have "dma_ok d'" unfolding d' by (rule noted_ok [OF noted_publish [OF d]])
    ultimately show ?thesis using t l i
      by (auto simp: tx_inv_def v' upd_queue_def intro: exI [of _ "i + 1"])
  qed (use assms(3) in auto)
qed

text \<open>
  Property C18. Processing the transmit queue of a network device returns: when the guest has not laid the
  used ring over the index of its available ring, whatever the descriptors say, the loop ends
  within 65536 rounds, and more fuel gives the same result.
\<close>

theorem transmit_queue_returns:
  assumes "is_net (vd_backend v)" and "length (queues v) = 2" and "dma_ok d" and "rings_apart (queues v ! 1)"
  shows "\<exists>t. \<forall>fuel \<ge> 65536. process fuel 1 (v, d) = Some t"
proof (cases "q_ready (queues v ! 1) = 0 \<or> has_pending v \<or> q_num (queues v ! 1) = 0
    \<or> read_avail_idx (queues v ! 1) d = None")
  case True
  have r: "process_round 1 (v, d) = (False, v, d)"
    if "q_num (queues v ! 1) = 0 \<or> read_avail_idx (queues v ! 1) d = None"
    using that by (auto simp: process_round_def Let_def)
  have "process fuel 1 (v, d) = Some (v, d)" if "65536 \<le> fuel" for fuel
    using True r that by (cases fuel) (auto simp: process_def)
  then show ?thesis by blast
next
  case False
  then obtain a where a: "read_avail_idx (queues v ! 1) d = Some a" by auto
  let ?q = "queues v ! 1"
  have J: "tx_inv ?q a (v, d)"
    using assms a by (auto simp: tx_inv_def intro: exI [of _ "last_avail_idx ?q"])
  have "process_loop 65536 1 (v, d) \<noteq> None"
  proof (rule process_loop_returns [where J = "tx_inv ?q a"])
    show "tx_inv ?q a (w, e) \<Longrightarrow> process_round 1 (w, e) = (True, w', e') \<Longrightarrow>
        tx_inv ?q a (w', e') \<and> last_avail_idx (queues w' ! 1) = last_avail_idx (queues w ! 1) + 1" for w e w' e'
      using tx_round assms(4) by blast
    show "tx_inv ?q a (w, e) \<Longrightarrow> read_avail_idx (queues w ! 1) e = Some a" for w e
      by (auto simp: tx_inv_def read_avail_idx_def)
    show "tx_inv ?q a (v, d)" by (rule J)
    show "unat (a - last_avail_idx ?q) < 65536"
      by (rule order_less_le_trans [OF unsigned_less]) simp
  qed
  then obtain t where "process_loop 65536 1 (v, d) = Some t" by blast
  then have "process_loop fuel 1 (v, d) = Some t" if "65536 \<le> fuel" for fuel
    using process_loop_mono that by blast
  then show ?thesis using False by (auto simp: process_def MAX_QUEUES_def)
qed


text \<open>The witness: a ring of one descriptor, filled once.\<close>

definition tx_dev :: virtio_dev where
  "tx_dev = (virtio_new (Net [] [] []))\<lparr>queues :=
     [queue_default, \<lparr>q_ready = 1, q_num = 1, q_desc = 0x80000020, q_avail = 0x80000000,
        q_used = 0x80000010, last_avail_idx = 0\<rparr>]\<rparr>"

theorem transmit_queue_returns_witness:
  "\<exists>t. \<forall>fuel \<ge> 65536. process fuel 1 (tx_dev, demo_dma) = Some t"
proof (rule transmit_queue_returns)
  show "is_net (vd_backend tx_dev)" "length (queues tx_dev) = 2"
    by (simp_all add: tx_dev_def virtio_new_def is_net_def)
  show "dma_ok demo_dma"
    using jit_new_ok(1) [of 64]
    by (simp add: dma_ok_def demo_dma_def RAM_BASE_def) (simp add: jit_new_def Let_def JIT_PAGE_SIZE_def JIT_PAGE_SHIFT_def)
  show "rings_apart (queues tx_dev ! 1)" by (simp add: rings_apart_def tx_dev_def)
qed

text \<open>
  A guest that places both rings at the same address makes the device advance the available index by
  the write that publishes each buffer: the call never returns, with any fuel.
\<close>

definition hang_dev :: "u16 \<Rightarrow> u32 \<Rightarrow> virtio_dev" where
  "hang_dev k st = \<lparr>
     vd_backend = Net [] [] [], vd_status = 15, device_features_sel = 0, driver_features_sel = 0, queue_sel = 1,
     queues = [queue_default, \<lparr>q_ready = 1, q_num = 1, q_desc = 0x80000010, q_avail = 0x80000000,
       q_used = 0x80000000, last_avail_idx = k\<rparr>],
     int_status = st\<rparr>"

definition hang_dma :: "u16 \<Rightarrow> dma" where
  "hang_dma k = \<lparr>dm_ram = [0, 0, ucast (k + 1), ucast (drop_bit 8 (k + 1)),
     0, 0, 0, 0, 0, 0, 0, 0, 0, 0, 0, 0, 0, 0, 0, 0, 0, 0, 0, 0, 0, 0, 0, 0, 0, 0, 0, 0],
     dm_jit = jit_new 0, dm_next_id = 1\<rparr>"

lemma to_le_2: "to_le 2 w = [ucast w, ucast (drop_bit 8 w)]"
  by (simp add: to_le_def upt_rec)

lemma from_le_2: "from_le [ucast w, ucast (drop_bit 8 w)] = (w :: u16)"
  using from_le_to_le [of 2 w] by (simp add: to_le_2)

lemma note_write_none: "note_write a n (jit_new 0) = jit_new 0"
  by (simp add: note_write_def page_for_address_of page_of_def jit_new_def Let_def JIT_PAGE_SIZE_def
      JIT_PAGE_SHIFT_def split: option.splits)

lemmas hang_eval = hang_dev_def hang_dma_def guest_slice_def guest_write_def checked_ram_range_def
  checked_sub_def checked_add_def checked_mul_def RAM_BASE_def slice_at_def splice_at_def note_write_none

lemma hang_reads:
  "read_avail_idx (queues (hang_dev k st) ! 1) (hang_dma k) = Some (k + 1)"
  "read_head (queues (hang_dev k st) ! 1) (hang_dma k) = Some 0"
  "walk_chain (hang_dma k) 0x80000010 1 0 = Some [(0, 0, False)]"
  "used_slot (queues (hang_dev k st) ! 1) (hang_dma k) = Some (0x80000002, k + 1, 0x80000004)"
proof -
  show "read_avail_idx (queues (hang_dev k st) ! 1) (hang_dma k) = Some (k + 1)"
    by (simp add: read_avail_idx_def ram_read16_def hang_eval from_le_2 [simplified])
  show "read_head (queues (hang_dev k st) ! 1) (hang_dma k) = Some 0"
    by (simp add: read_head_def ram_read16_def hang_eval)
  show "walk_chain (hang_dma k) 0x80000010 1 0 = Some [(0, 0, False)]"
    by (simp add: ram_read16_def ram_read32_def ram_read64_def hang_eval)
  show "used_slot (queues (hang_dev k st) ! 1) (hang_dma k) = Some (0x80000002, k + 1, 0x80000004)"
    by (simp add: used_slot_def in_ram_def ram_read16_def hang_eval from_le_2 [simplified])
qed

lemma hang_serve: "service 1 [(0, 0, False)] (hang_dev k st, hang_dma k) = (Some 0, hang_dev k st, hang_dma k)"
  by (simp add: service_def service_net_def hang_eval)

lemma hang_publish: "publish 0x80000004 0x80000002 (k + 1) 0 0 (hang_dma k) = hang_dma (k + 1)"
  by (simp add: publish_def ram_write16_def ram_write32_def to_le_2 to_le_def upt_rec hang_eval)

lemma hang_round: "process_round 1 (hang_dev k st, hang_dma k) = (True, hang_dev (k + 1) (st OR 1), hang_dma (k + 1))"
proof -
  have "k \<noteq> k + 1" by simp
  moreover have "q_desc (queues (hang_dev k st) ! 1) = 0x80000010" "q_num (queues (hang_dev k st) ! 1) = 1"
    "last_avail_idx (queues (hang_dev k st) ! 1) = k"
    "upd_queue 1 (\<lambda>q. q\<lparr>last_avail_idx := last_avail_idx q + 1\<rparr>) ((hang_dev k st)\<lparr>int_status := st OR 1\<rparr>)
      = hang_dev (k + 1) (st OR 1)" "int_status (hang_dev k st) = st"
    by (simp_all add: hang_dev_def upd_queue_def)
  ultimately show ?thesis
    unfolding process_round_def Let_def
    by (simp add: hang_reads [simplified] hang_serve [simplified] hang_publish [simplified])
qed

lemma overlapping_rings_hang: "process fuel 1 (hang_dev 0 0, hang_dma 0) = None"
proof -
  have "process_loop fuel 1 (hang_dev k st, hang_dma k) = None" for k st
    by (induction fuel arbitrary: k st) (simp_all only: process_loop.simps hang_round Let_def prod.case if_True)
  then show ?thesis by (simp add: process_def MAX_QUEUES_def has_pending_def) (simp add: hang_dev_def)
qed

end
