(* ===== verification/VirtBusSpec.thy ===== *)
theory VirtBusSpec
  imports VirtBus VirtioSpec
begin

unbundle bit_operations_syntax

text \<open>
  What the machine's bus promises: every write of the hart or of a device to a page of compiled
  code is reported, and the interrupt lines are those of the timer, the software interrupt and the
  best deliverable source of each PLIC context.
\<close>

section \<open>Writes are reported\<close>

lemma noted_note_store: "dma_ok d \<Longrightarrow> noted d (d\<lparr>dm_jit := note_store a (dm_jit d)\<rparr>)"
  using note_store_view [of "dm_jit d" a]
  by (auto simp: dma_ok_def noted_def marked_pages_def reported_pages_def touch_def split: option.splits)

lemma process_dev_noted:
  assumes "dma_ok (vb_mem b)"
  shows "noted (vb_mem b) (vb_mem (process_dev i qi b))"
proof (cases "process_call qi (vb_virtio b ! i, vb_mem b)")
  case (Some r)
  then obtain n where "process n qi (vb_virtio b ! i, vb_mem b) = Some (fst r, snd r)"
    using process_call_Some by (metis prod.collapse)
  from noted_process [OF assms this] Some show ?thesis by (cases r) (simp add: process_dev_def)
qed (simp add: process_dev_def noted_refl assms)

lemma mmio_write_noted:
  assumes "dma_ok (vb_mem b)" and "mmio_write addr val b = (ok, b')"
  shows "noted (vb_mem b) (vb_mem b')"
proof -
  have "noted (vb_mem b) (vb_mem (process_dev i q (b\<lparr>vb_virtio := vs\<rparr>)))" for i q vs
    using process_dev_noted [of "b\<lparr>vb_virtio := vs\<rparr>" i q] assms(1) by simp
  then show ?thesis
    using assms noted_refl [OF assms(1)]
    by (auto simp: mmio_write_def Let_def split: if_splits prod.splits option.splits)
qed

lemma fold_noted:
  assumes "\<And>i b. dma_ok (vb_mem b) \<Longrightarrow> noted (vb_mem b) (vb_mem (f i b))" and "dma_ok (vb_mem b)"
  shows "noted (vb_mem b) (vb_mem (fold f xs b))"
  using assms(2)
proof (induction xs arbitrary: b)
  case (Cons x xs)
  note n = assms(1) [OF Cons.prems, of x]
  show ?case using Cons.IH [OF noted_ok [OF n]] noted_trans [OF n] by simp
qed (simp add: noted_refl)

lemma poll_virtio_noted: "dma_ok (vb_mem b) \<Longrightarrow> noted (vb_mem b) (vb_mem (poll_virtio b))"
  unfolding poll_virtio_def by (intro fold_noted process_dev_noted)

lemma same_page_div:
  fixes x i n :: nat
  assumes "x \<le> i" and "i < x + n" and "x mod 4096 + n \<le> 4096"
  shows "i div 4096 = x div 4096"
proof -
  have "x mod 4096 + (i - x) + 4096 * (x div 4096) = i"
    using assms(1) mod_mult_div_eq [of x 4096] by linarith
  moreover have "(x mod 4096 + (i - x) + 4096 * (x div 4096)) div 4096 = x div 4096"
    using assms(2,3) by (subst div_mult_self2) auto
  ultimately show ?thesis by simp
qed

text \<open>A store of the hart stays in one page, which the check has reported before the bytes change.\<close>

lemma ram_store_noted:
  assumes "dma_ok (vb_mem b)" and "ram_store addr bytes (jit_check_store addr b) = Some b'"
    and "unat addr mod 4096 + length bytes \<le> 4096"
  shows "noted (vb_mem b) (vb_mem b')"
proof -
  let ?c = "jit_check_store addr b"
  have c: "dm_ram (vb_mem ?c) = dm_ram (vb_mem b)" by (simp add: jit_check_store_def)
  have n: "noted (vb_mem b) (vb_mem ?c)"
    unfolding jit_check_store_def using noted_note_store [OF assms(1)] by simp
  obtain x e where r: "checked_ram_range (length (dm_ram (vb_mem b))) RAM_BASE addr (length bytes) = Some (x, e)"
    and b': "b' = ?c\<lparr>vb_mem := (vb_mem ?c)\<lparr>dm_ram := splice_at x bytes (dm_ram (vb_mem b))\<rparr>\<rparr>"
    using assms(2) by (auto simp: ram_store_def c split: option.splits)
  have x: "unat addr = x + 4096 * 524288" "e = x + length bytes" "e \<le> length (dm_ram (vb_mem b))"
    using r by (auto simp: checked_ram_range_Some RAM_BASE_def)
  have page: "i div 4096 = x div 4096" if "x \<le> i" "i < e" for i
  proof -
    have "x mod 4096 + length bytes \<le> 4096" using assms(3) unfolding x(1) mod_mult_self2 .
    then show ?thesis using that x(2) by (intro same_page_div) simp_all
  qed
  have rep: "x div 4096 \<in> reported_pages (vb_mem ?c)"
    if "x div 4096 \<in> marked_pages (vb_mem b)" "x < e"
  proof -
    have "length (dm_ram (vb_mem b)) \<le> 4096 * page_count (dm_jit (vb_mem b))"
      using assms(1) by (simp add: dma_ok_def)
    with x(3) that(2) have "x < 4096 * page_count (dm_jit (vb_mem b))" by linarith
    then have "page_of (page_count (dm_jit (vb_mem b))) addr = Some (x div 4096)"
      using x(1) by (simp add: page_of_def RAM_BASE_def word_le_nat_alt less_mult_imp_div_less mult.commute)
    then show ?thesis
      using note_store_view(3) [of "dm_jit (vb_mem b)" addr] assms(1) that(1)
      by (simp add: dma_ok_def reported_pages_def marked_pages_def jit_check_store_def touch_def)
  qed
  have l: "length (dm_ram (vb_mem b')) = length (dm_ram (vb_mem b))" using x by (simp add: b')
  have "dma_ok (vb_mem b')" using noted_ok [OF n] l c by (simp add: dma_ok_def b')
  moreover have "i div 4096 \<in> reported_pages (vb_mem b')"
    if "i < length (dm_ram (vb_mem b))" "dm_ram (vb_mem b') ! i \<noteq> dm_ram (vb_mem b) ! i"
      "i div 4096 \<in> marked_pages (vb_mem b)" for i
  proof -
    have "x \<le> i" "i < e" using that(1,2) x by (auto simp: b' nth_splice_at split: if_splits)
    then show ?thesis using page [of i] rep that(3) by (simp add: b' reported_pages_def)
  qed
  ultimately show ?thesis
    using n l by (auto simp: noted_def) (auto simp: b' marked_pages_def reported_pages_def)
qed

lemma virt_write_noted:
  assumes "dma_ok (vb_mem b)" and "virt_write n addr val b = (r, b')"
    and "unat addr mod 4096 + n \<le> 4096"
  shows "noted (vb_mem b) (vb_mem b')"
proof (cases "ram_store addr (to_le n val) (jit_check_store addr b)")
  case None
  have n: "noted (vb_mem b) (vb_mem (jit_check_store addr b))"
    unfolding jit_check_store_def using noted_note_store [OF assms(1)] by simp
  obtain ok where "mmio_write addr (ucast val) (jit_check_store addr b) = (ok, b')"
    using assms(2) None by (auto simp: virt_write_def Let_def split: prod.splits)
  from noted_trans [OF n mmio_write_noted [OF noted_ok [OF n] this]] show ?thesis .
next
  case (Some c)
  then have "b' = c" using assms(2) by (simp add: virt_write_def)
  then show ?thesis using ram_store_noted [OF assms(1) Some] assms(3) by simp
qed

lemma virt_read_mem: "vb_mem (snd (virt_read n addr b)) = vb_mem b"
  by (simp add: virt_read_def mmio_read_def Let_def split: option.split prod.split)

text \<open>
  Property C5. No write to compiled code goes unseen on the machine's bus: a store of any size within a page,
  to RAM or to a device register that starts DMA, and a poll of every device leave each marked
  page whose bytes changed in the list of dirty pages; reads and the interrupt poll change no memory.
\<close>

theorem code_writes_reported:
  fixes val :: "'a::len word"
  assumes "dma_ok (vb_mem b)" and "unat addr mod 4096 + n \<le> 4096"
  shows "noted (vb_mem b) (vb_mem (snd (virt_write n addr val b)))
    \<and> noted (vb_mem b) (vb_mem (poll_virtio b))
    \<and> vb_mem (snd (virt_read n addr b :: (exception + 'a word) \<times> virt_bus)) = vb_mem b
    \<and> vb_mem (snd (virt_irq_lines b)) = vb_mem b"
  using virt_write_noted [OF assms(1) _ assms(2), of val "fst (virt_write n addr val b)" "snd (virt_write n addr val b)"]
    poll_virtio_noted [OF assms(1)] virt_read_mem
  by (simp add: virt_irq_lines_def Let_def refresh_plic_def)

section \<open>Interrupt lines\<close>

text \<open>The level of input \<open>i\<close> of the PLIC.\<close>

definition device_line :: "virt_bus \<Rightarrow> nat \<Rightarrow> bool" where
  "device_line b i \<longleftrightarrow>
     i = UART_IRQ \<and> uart_irq (vb_uart b) \<or> i = GOLDFISH_RTC_IRQ \<and> rtc_irq (vb_rtc b)
     \<or> (\<exists>k < length (vb_virtio b). i = VIRTIO_IRQ_BASE + k \<and> virtio_irq_pending (vb_virtio b ! k))"

lemma fold_lines:
  "bit (fold (\<lambda>(i, v) p. if virtio_irq_pending v then p OR push_bit (VIRTIO_IRQ_BASE + i) 1 else p) xs (p :: u32)) n
   \<longleftrightarrow> bit p n \<or> n < 32 \<and> (\<exists>(k, v) \<in> set xs. virtio_irq_pending v \<and> n = VIRTIO_IRQ_BASE + k)"
proof (induction xs arbitrary: p)
  case (Cons x xs)
  obtain k v where x: "x = (k, v)" by (cases x)
  show ?case using Cons.IH by (auto simp: x bit_or_iff bit_exp_iff)
qed simp

lemma refresh_pending:
  "bit (plic_pending (vb_plic (refresh_plic b))) n \<longleftrightarrow> n < 32 \<and> device_line b n"
proof -
  have "(\<exists>(k, v) \<in> set (enumerate 0 (vb_virtio b)). virtio_irq_pending v \<and> n = VIRTIO_IRQ_BASE + k)
    \<longleftrightarrow> (\<exists>k < length (vb_virtio b). n = VIRTIO_IRQ_BASE + k \<and> virtio_irq_pending (vb_virtio b ! k))"
    by (auto simp: in_set_enumerate_eq)
  moreover have "UART_IRQ < 32" "GOLDFISH_RTC_IRQ < 32" by (simp_all add: UART_IRQ_def GOLDFISH_RTC_IRQ_def)
  ultimately show ?thesis
    unfolding refresh_plic_def Let_def
    by (simp add: fold_lines) (auto simp: device_line_def bit_or_iff bit_exp_iff)
qed

definition deliverable :: "virt_bus \<Rightarrow> nat \<Rightarrow> nat \<Rightarrow> bool" where
  "deliverable b ctx i \<longleftrightarrow>
     i < 32 \<and> device_line b i \<and> bit (enable (vb_plic b) ! ctx) i \<and> \<not> bit (claimed (vb_plic b)) i
     \<and> threshold (vb_plic b) ! ctx < priority (vb_plic b) ! i"

lemma refresh_pending_ctx:
  assumes "plic_ok (vb_plic b)" and "ctx < PLIC_CONTEXTS"
  shows "pending_ctx (vb_plic (refresh_plic b)) ctx \<longleftrightarrow> (\<exists>i. deliverable b ctx i)"
proof -
  let ?p = "vb_plic (refresh_plic b)"
  have same: "enable ?p = enable (vb_plic b)" "claimed ?p = claimed (vb_plic b)"
    "threshold ?p = threshold (vb_plic b)" "priority ?p = priority (vb_plic b)"
    by (simp_all add: refresh_plic_def Let_def)
  then have ok: "plic_ok ?p" using assms(1) by (simp add: plic_ok_def)
  have "eligible ?p ctx i \<longleftrightarrow> deliverable b ctx i" for i
    by (simp add: eligible_def deliverable_def refresh_pending same)
  then show ?thesis
    using plic_best_spec [OF ok assms(2)] by (auto simp: pending_ctx_def split: if_splits)
qed

text \<open>
  Property C22. The interrupt lines the hart polls are levels: the machine timer line (unless the machine
  services SBI calls itself) is up while the time has reached the comparator, the software line
  follows \<^verbatim>\<open>msip\<close>, and each external line is up exactly when some device asserts a source that its
  context has enabled above its threshold and that is not in service. No other line is ever up.
\<close>

theorem irq_lines_spec:
  assumes "plic_ok (vb_plic b)"
  shows "bit (fst (virt_irq_lines b)) n \<longleftrightarrow>
      (n = 7 \<and> \<not> vb_direct_sbi b \<and> vb_mtimecmp b \<le> vb_mtime b)
      \<or> (n = 3 \<and> vb_msip b)
      \<or> (n = 11 \<and> (\<exists>i. deliverable b 0 i))
      \<or> (n = 9 \<and> (\<exists>i. deliverable b 1 i))"
proof -
  have c: "pending_ctx (vb_plic (refresh_plic b)) 0 \<longleftrightarrow> (\<exists>i. deliverable b 0 i)"
    "pending_ctx (vb_plic (refresh_plic b)) 1 \<longleftrightarrow> (\<exists>i. deliverable b 1 i)"
    using refresh_pending_ctx [OF assms] by (simp_all add: PLIC_CONTEXTS_def)
  have s: "vb_direct_sbi (refresh_plic b) = vb_direct_sbi b" "vb_mtimecmp (refresh_plic b) = vb_mtimecmp b"
    "vb_mtime (refresh_plic b) = vb_mtime b" "vb_msip (refresh_plic b) = vb_msip b"
    by (simp_all add: refresh_plic_def Let_def)
  have l: "bit IRQ_MTIP n \<longleftrightarrow> n = 7" "bit IRQ_MSIP n \<longleftrightarrow> n = 3" "bit IRQ_MEIP n \<longleftrightarrow> n = 11" "bit IRQ_SEIP n \<longleftrightarrow> n = 9" for n
    unfolding irq_defs bit_push_bit_iff bit_1_iff by auto
  show ?thesis
    unfolding virt_irq_lines_def Let_def s c fst_conv
    by (auto simp: l bit_or_iff)
qed


text \<open>A small machine for the witnesses: one page of RAM, which holds compiled code.\<close>

definition demo_vbus :: virt_bus where
  "demo_vbus = \<lparr>
     vb_mem = \<lparr>dm_ram = replicate 0x1000 0, dm_jit = snd (mark_address RAM_BASE (jit_new 0x1000)), dm_next_id = 1\<rparr>,
     vb_mtime = 0, vb_mtimecmp = - 1, vb_msip = True, vb_rtc = rtc_new, vb_plic = plic_new, vb_uart = uart_new,
     vb_virtio = [], vb_power_off = False, vb_direct_sbi = True, vb_hang = None\<rparr>"

lemma demo_vbus_ok: "dma_ok (vb_mem demo_vbus)" "plic_ok (vb_plic demo_vbus)"
proof -
  have "page_count (jit_new 0x1000) = 1"
    by (simp add: jit_new_def Let_def JIT_PAGE_SIZE_def JIT_PAGE_SHIFT_def)
  then show "dma_ok (vb_mem demo_vbus)"
    using mark_address_view [OF jit_new_ok(1) [of "0x1000"], of RAM_BASE]
    by (simp add: dma_ok_def demo_vbus_def RAM_BASE_def)
  show "plic_ok (vb_plic demo_vbus)" by (simp add: demo_vbus_def plic_new_ok)
qed

theorem code_writes_reported_witness:
  "noted (vb_mem demo_vbus) (vb_mem (snd (virt_write 8 0x80000008 (5 :: u64) demo_vbus)))"
  using code_writes_reported [OF demo_vbus_ok(1), of "0x80000008" 8 "5 :: u64"] by simp

theorem irq_lines_spec_witness:
  "bit (fst (virt_irq_lines demo_vbus)) 3 \<and> \<not> bit (fst (virt_irq_lines demo_vbus)) 7"
  using irq_lines_spec [OF demo_vbus_ok(2), of 3] irq_lines_spec [OF demo_vbus_ok(2), of 7]
  by (simp add: demo_vbus_def)

end
