(* ===== verification/Alu.thy ===== *)
theory Alu
  imports Decode
begin

unbundle bit_operations_syntax

text \<open>
  The arithmetic of the integer instructions, from the match arms of \<open>execute_decoded\<close> in
  \<^verbatim>\<open>crates/rv64-core/src/cpu.rs\<close>: OP-IMM, OP-IMM-32, OP and OP-32 with the M extension, the branch
  conditions, and the read-modify-write functions of the A extension. An unknown function code is None.
  The lemmas relate the wide multiplications and the divisions to the integers.
\<close>

section \<open>Register-immediate\<close>

definition alu_imm :: "u32 \<Rightarrow> u64 \<Rightarrow> u64 \<Rightarrow> u64" where
  "alu_imm insn a imm =
     (let shamt = unat (imm AND 0x3f); f3 = funct3 insn
      in if f3 = 0 then a + imm
         else if f3 = 1 then push_bit shamt a
         else if f3 = 2 then b2w (slt a imm)
         else if f3 = 3 then b2w (a < imm)
         else if f3 = 4 then a XOR imm
         else if f3 = 5 then
           (if drop_bit 26 insn = 0x10 then signed_drop_bit shamt a else drop_bit shamt a)
         else if f3 = 6 then a OR imm
         else a AND imm)"

definition alu_imm32 :: "u32 \<Rightarrow> u32 \<Rightarrow> i64 \<Rightarrow> u32 option" where
  "alu_imm32 insn a imm =
     (let shamt = unat (imm AND 0x1f); f3 = funct3 insn
      in if f3 = 0 then Some (a + ucast imm)
         else if f3 = 1 then Some (push_bit shamt a)
         else if f3 = 5 then
           Some (if funct7 insn = 0x20 then signed_drop_bit shamt a else drop_bit shamt a)
         else None)"

section \<open>Register-register\<close>

text \<open>The high halves are computed on 128-bit integers, which hold every product exactly.\<close>

definition mulh :: "u64 \<Rightarrow> u64 \<Rightarrow> u64" where
  "mulh a b = word_of_int ((sint a * sint b) div 2 ^ 64)"

definition mulhsu :: "u64 \<Rightarrow> u64 \<Rightarrow> u64" where
  "mulhsu a b = word_of_int ((sint a * uint b) div 2 ^ 64)"

definition mulhu :: "u64 \<Rightarrow> u64 \<Rightarrow> u64" where
  "mulhu a b = word_of_int ((uint a * uint b) div 2 ^ 64)"

definition div_s :: "'a::len word \<Rightarrow> 'a word \<Rightarrow> 'a word" where
  "div_s a b = (if b = 0 then - 1 else wrapping_div_i a b)"

definition div_u :: "'a::len word \<Rightarrow> 'a word \<Rightarrow> 'a word" where
  "div_u a b = (case checked_div a b of Some q \<Rightarrow> q | None \<Rightarrow> - 1)"

definition rem_s :: "'a::len word \<Rightarrow> 'a word \<Rightarrow> 'a word" where
  "rem_s a b = (if b = 0 then a else wrapping_rem_i a b)"

definition rem_u :: "'a::len word \<Rightarrow> 'a word \<Rightarrow> 'a word" where
  "rem_u a b = (if b = 0 then a else a mod b)"

definition alu_op :: "u32 \<Rightarrow> u32 \<Rightarrow> u64 \<Rightarrow> u64 \<Rightarrow> u64 option" where
  "alu_op f7 f3 a b =
     (let shamt = unat (b AND 0x3f)
      in if f7 = 0x00 \<and> f3 = 0 then Some (a + b)
         else if f7 = 0x20 \<and> f3 = 0 then Some (a - b)
         else if f7 = 0x00 \<and> f3 = 1 then Some (push_bit shamt a)
         else if f7 = 0x00 \<and> f3 = 2 then Some (b2w (slt a b))
         else if f7 = 0x00 \<and> f3 = 3 then Some (b2w (a < b))
         else if f7 = 0x00 \<and> f3 = 4 then Some (a XOR b)
         else if f7 = 0x00 \<and> f3 = 5 then Some (drop_bit shamt a)
         else if f7 = 0x20 \<and> f3 = 5 then Some (signed_drop_bit shamt a)
         else if f7 = 0x00 \<and> f3 = 6 then Some (a OR b)
         else if f7 = 0x00 \<and> f3 = 7 then Some (a AND b)
         else if f7 = 0x01 \<and> f3 = 0 then Some (a * b)
         else if f7 = 0x01 \<and> f3 = 1 then Some (mulh a b)
         else if f7 = 0x01 \<and> f3 = 2 then Some (mulhsu a b)
         else if f7 = 0x01 \<and> f3 = 3 then Some (mulhu a b)
         else if f7 = 0x01 \<and> f3 = 4 then Some (div_s a b)
         else if f7 = 0x01 \<and> f3 = 5 then Some (div_u a b)
         else if f7 = 0x01 \<and> f3 = 6 then Some (rem_s a b)
         else if f7 = 0x01 \<and> f3 = 7 then Some (rem_u a b)
         else None)"

definition alu_op32 :: "u32 \<Rightarrow> u32 \<Rightarrow> u32 \<Rightarrow> u32 \<Rightarrow> u32 option" where
  "alu_op32 f7 f3 a b =
     (let shamt = unat (b AND 0x1f)
      in if f7 = 0x00 \<and> f3 = 0 then Some (a + b)
         else if f7 = 0x20 \<and> f3 = 0 then Some (a - b)
         else if f7 = 0x00 \<and> f3 = 1 then Some (push_bit shamt a)
         else if f7 = 0x00 \<and> f3 = 5 then Some (drop_bit shamt a)
         else if f7 = 0x20 \<and> f3 = 5 then Some (signed_drop_bit shamt a)
         else if f7 = 0x01 \<and> f3 = 0 then Some (a * b)
         else if f7 = 0x01 \<and> f3 = 4 then Some (div_s a b)
         else if f7 = 0x01 \<and> f3 = 5 then Some (div_u a b)
         else if f7 = 0x01 \<and> f3 = 6 then Some (rem_s a b)
         else if f7 = 0x01 \<and> f3 = 7 then Some (rem_u a b)
         else None)"

section \<open>Branches and atomics\<close>

definition branch_taken :: "u32 \<Rightarrow> u64 \<Rightarrow> u64 \<Rightarrow> bool option" where
  "branch_taken f3 a b =
     (if f3 = 0 then Some (a = b)
      else if f3 = 1 then Some (a \<noteq> b)
      else if f3 = 4 then Some (slt a b)
      else if f3 = 5 then Some (\<not> slt a b)
      else if f3 = 6 then Some (a < b)
      else if f3 = 7 then Some (a \<ge> b)
      else None)"

definition amo_new :: "u32 \<Rightarrow> bool \<Rightarrow> u64 \<Rightarrow> u64 \<Rightarrow> u64 option" where
  "amo_new f5 is64 old src =
     (let co = (if is64 then old else ucast (ucast old :: u32));
          cs = (if is64 then src else ucast (ucast src :: u32));
          signed_lt = (if is64 then slt co cs else slt (ucast co :: u32) (ucast cs))
      in if f5 = 0x01 then Some src
         else if f5 = 0x00 then Some (old + src)
         else if f5 = 0x04 then Some (old XOR src)
         else if f5 = 0x0c then Some (old AND src)
         else if f5 = 0x08 then Some (old OR src)
         else if f5 = 0x10 then Some (if signed_lt then old else src)
         else if f5 = 0x14 then Some (if \<not> signed_lt \<and> co \<noteq> cs then old else src)
         else if f5 = 0x18 then Some (if co < cs then old else src)
         else if f5 = 0x1c then Some (if co > cs then old else src)
         else None)"

section \<open>Multiplication and division as integers\<close>

lemma div_fits:
  assumes "- (2 ^ 127) \<le> p" "p < 2 ^ 127"
  shows "- (2 ^ 63) \<le> (p :: int) div 2 ^ 64" "p div 2 ^ 64 < 2 ^ 63"
proof -
  have "- (2 ^ 127) div 2 ^ 64 \<le> p div 2 ^ 64" using assms by (intro zdiv_mono1) auto
  then show "- (2 ^ 63) \<le> p div 2 ^ 64" by simp
  show "p div 2 ^ 64 < 2 ^ 63" using assms by (simp add: div_less_iff_less_mult)
qed

lemma sint_bounds64: "- (2 ^ 63) \<le> sint (a :: u64)" "sint a < 2 ^ 63"
  using sint_ge[of a] sint_less[of a] by simp_all

lemma uint_bounds64: "0 \<le> uint (a :: u64)" "uint a < 2 ^ 64"
  using uint_lt2p[of a] by simp_all

text \<open>\<open>mul\<close> and the high half are the two words of the product of the readings.\<close>

lemma sint_product_bounds: "- (2 ^ 126) \<le> sint (a :: u64) * sint (b :: u64) \<and> sint a * sint b \<le> 2 ^ 126"
proof -
  have "\<bar>sint a\<bar> \<le> 2 ^ 63" "\<bar>sint b\<bar> \<le> 2 ^ 63" using sint_bounds64[of a] sint_bounds64[of b] by auto
  then have "\<bar>sint a\<bar> * \<bar>sint b\<bar> \<le> 2 ^ 63 * 2 ^ 63" by (intro mult_mono) auto
  then have "\<bar>sint a * sint b\<bar> \<le> 2 ^ 126" by (simp add: abs_mult)
  then show ?thesis by auto
qed

lemma low_half: "uint (a * b :: u64) = (uint a * uint b) mod 2 ^ 64"
  by (simp add: uint_word_ariths)

lemma low_half_signed: "uint (a * b :: u64) = (sint a * sint b) mod 2 ^ 64"
  "uint (a * b :: u64) = (sint a * uint b) mod 2 ^ 64"
proof -
  have s: "sint (w :: u64) mod 2 ^ 64 = uint w" for w
    by (simp add: uint_sint take_bit_eq_mod)
  show "uint (a * b :: u64) = (sint a * sint b) mod 2 ^ 64"
    unfolding low_half by (metis mod_mult_eq s)
  show "uint (a * b :: u64) = (sint a * uint b) mod 2 ^ 64"
    unfolding low_half by (metis mod_mult_left_eq s)
qed

lemma mulhsu_bounds: "- (2 ^ 127) \<le> sint (a :: u64) * uint (b :: u64) \<and> sint a * uint b < 2 ^ 127"
proof -
  have "\<bar>sint a\<bar> \<le> 2 ^ 63" "\<bar>uint b\<bar> \<le> 2 ^ 64 - 1" using sint_bounds64[of a] uint_bounds64[of b] by auto
  then have "\<bar>sint a\<bar> * \<bar>uint b\<bar> \<le> 2 ^ 63 * (2 ^ 64 - 1)" by (intro mult_mono) auto
  then have "\<bar>sint a * uint b\<bar> < 2 ^ 127" by (simp add: abs_mult)
  then show ?thesis by auto
qed

lemma sint_of_int64: "- (2 ^ 63) \<le> n \<Longrightarrow> n < 2 ^ 63 \<Longrightarrow> sint (word_of_int n :: u64) = n"
  by (simp add: sint_sbintrunc' signed_take_bit_int_eq_self)

lemma high_half:
  "sint (mulh a b) * 2 ^ 64 + uint (a * b) = sint a * sint b"
  "sint (mulhsu a b) * 2 ^ 64 + uint (a * b) = sint a * uint b"
  "uint (mulhu a b) * 2 ^ 64 + uint (a * b) = uint a * uint b"
proof -
  have "- (2 ^ 127) \<le> sint a * sint b" "sint a * sint b < 2 ^ 127"
    using sint_product_bounds[of a b] by auto
  note div_fits[OF this]
  then show "sint (mulh a b) * 2 ^ 64 + uint (a * b) = sint a * sint b"
    unfolding mulh_def by (subst sint_of_int64) (simp_all add: low_half_signed(1))
  have "- (2 ^ 127) \<le> sint a * uint b" "sint a * uint b < 2 ^ 127"
    using mulhsu_bounds[of a b] by auto
  note div_fits[OF this]
  then show "sint (mulhsu a b) * 2 ^ 64 + uint (a * b) = sint a * uint b"
    unfolding mulhsu_def by (subst sint_of_int64) (simp_all add: low_half_signed(2))
  have "uint a * uint b < 2 ^ 64 * 2 ^ 64"
    using uint_bounds64[of a] uint_bounds64[of b] by (intro mult_strict_mono) auto
  then have "(uint a * uint b) div 2 ^ 64 < 2 ^ 64" "0 \<le> (uint a * uint b) div 2 ^ 64"
    by (auto simp: div_less_iff_less_mult pos_imp_zdiv_nonneg_iff)
  then have "uint (mulhu a b) = (uint a * uint b) div 2 ^ 64"
    unfolding mulhu_def by (simp add: take_bit_int_eq_self uint_word_of_int)
  then show "uint (mulhu a b) * 2 ^ 64 + uint (a * b) = uint a * uint b"
    by (simp add: low_half)
qed

text \<open>The truncating division of the readings, and when it fits the word.\<close>

lemma trunc_div_rem:
  assumes "b \<noteq> 0"
  shows "a = b * trunc_div a b + trunc_rem a b" "\<bar>trunc_rem a b\<bar> < \<bar>b\<bar>"
    "trunc_rem a b = 0 \<or> sgn (trunc_rem a b) = sgn a" "\<bar>trunc_div a b\<bar> \<le> \<bar>a\<bar>"
proof -
  show "a = b * trunc_div a b + trunc_rem a b" by (simp add: trunc_rem_def)
  have "b * trunc_div a b = sgn a * (\<bar>b\<bar> * (\<bar>a\<bar> div \<bar>b\<bar>))"
    by (simp add: trunc_div_def abs_sgn algebra_simps) 
  then have r: "trunc_rem a b = sgn a * (\<bar>a\<bar> mod \<bar>b\<bar>)"
    unfolding trunc_rem_def
    by (metis (no_types, opaque_lifting) abs_mult_sgn minus_mult_div_eq_mod mult.commute right_diff_distrib)
  show "\<bar>trunc_rem a b\<bar> < \<bar>b\<bar>"
    unfolding r using assms by (cases "a = 0") (auto simp: abs_mult)
  show "trunc_rem a b = 0 \<or> sgn (trunc_rem a b) = sgn a"
  proof (cases "\<bar>a\<bar> mod \<bar>b\<bar> = 0")
    case False
    then have "0 < \<bar>a\<bar> mod \<bar>b\<bar>" using assms by (simp add: order_le_neq_trans)
    then show ?thesis by (simp add: r sgn_mult)
  qed (simp add: r)
  have "\<bar>a\<bar> div \<bar>b\<bar> \<le> \<bar>a\<bar>" using assms by (metis abs_ge_zero div_by_1 int_one_le_iff_zero_less zdiv_mono2 zero_less_abs_iff zero_less_one)
  moreover have "\<bar>trunc_div a b\<bar> \<le> \<bar>a\<bar> div \<bar>b\<bar>"
    using assms by (auto simp: trunc_div_def abs_mult sgn_if pos_imp_zdiv_nonneg_iff)
  ultimately show "\<bar>trunc_div a b\<bar> \<le> \<bar>a\<bar>" by linarith
qed

lemma trunc_div_min: 
  assumes "- m \<le> a" "a < m" "b \<noteq> 0" "\<not> (a = - m \<and> b = - 1)" "0 < m"
  shows "- m \<le> trunc_div a b \<and> trunc_div a b < (m :: int)"
proof (cases "\<bar>trunc_div a b\<bar> < m")
  case True then show ?thesis by auto
next
  case False
  then have e: "a = - m" "\<bar>trunc_div a b\<bar> = m" using trunc_div_rem(4)[of b a] assms by auto
  have "\<bar>b\<bar> = 1"
  proof (rule ccontr)
    assume "\<bar>b\<bar> \<noteq> 1"
    then have "2 \<le> \<bar>b\<bar>" using assms(3) by linarith
    then have "m div \<bar>b\<bar> \<le> m div 2" using assms(5) by (intro zdiv_mono2) auto
    then have "m div \<bar>b\<bar> < m" using assms(5) by linarith
    moreover have "\<bar>trunc_div a b\<bar> = m div \<bar>b\<bar>"
      using e(1) assms by (simp add: trunc_div_def abs_mult sgn_if pos_imp_zdiv_nonneg_iff)
    ultimately show False using e by simp
  qed
  then have "b = 1" using assms(4) e by linarith
  then show ?thesis using e assms by (simp add: trunc_div_def)
qed

lemma sint_bounds: "- (2 ^ (LENGTH('a) - 1)) \<le> sint (a :: 'a::len word)" "sint a < 2 ^ (LENGTH('a) - 1)"
  using sint_ge[of a] sint_less[of a] by simp_all

lemma sint_of_int: "- (2 ^ (LENGTH('a) - 1)) \<le> n \<Longrightarrow> n < 2 ^ (LENGTH('a) - 1) \<Longrightarrow>
    sint (word_of_int n :: 'a::len word) = n"
  by (simp add: sint_sbintrunc' signed_take_bit_int_eq_self)

lemma sint_0_iff: "sint (b :: 'a::len word) = 0 \<longleftrightarrow> b = 0"
  by (metis signed_0 signed_word_eqI)

lemma signed_division:
  fixes a b :: "'a::len word"
  assumes "b \<noteq> 0" "\<not> (sint a = - (2 ^ (LENGTH('a) - 1)) \<and> b = - 1)"
  shows "sint a = sint b * sint (div_s a b) + sint (rem_s a b)"
    "\<bar>sint (rem_s a b)\<bar> < \<bar>sint b\<bar>" "sint (rem_s a b) = 0 \<or> sgn (sint (rem_s a b)) = sgn (sint a)"
proof -
  have b: "sint b \<noteq> 0" using assms(1) by (simp add: sint_0_iff)
  note t = trunc_div_rem[OF b, of "sint a"]
  have m: "sint b = - 1 \<longleftrightarrow> b = - 1"
    by (metis signed_minus_1 signed_word_eqI) 
  have q: "sint (div_s a b) = trunc_div (sint a) (sint b)"
    using assms sint_of_int[where 'a='a, of "trunc_div (sint a) (sint b)"]
      trunc_div_min[OF sint_bounds(1)[of a] sint_bounds(2)[of a] b] m
    by (simp add: div_s_def wrapping_div_i_def)
  have "\<bar>trunc_rem (sint a) (sint b)\<bar> < 2 ^ (LENGTH('a) - 1)"
    using t(2) sint_bounds[of b] by linarith
  then have r: "sint (rem_s a b) = trunc_rem (sint a) (sint b)"
    using assms(1) sint_of_int[where 'a='a, of "trunc_rem (sint a) (sint b)"]
    by (simp add: rem_s_def wrapping_rem_i_def)
  show "sint a = sint b * sint (div_s a b) + sint (rem_s a b)"
    "\<bar>sint (rem_s a b)\<bar> < \<bar>sint b\<bar>" "sint (rem_s a b) = 0 \<or> sgn (sint (rem_s a b)) = sgn (sint a)"
    unfolding q r using t by auto
qed

lemma division_special:
  "div_s (a :: 'a::len word) 0 = - 1" "rem_s a 0 = a" "div_u a 0 = - 1" "rem_u a 0 = a"
  by (simp_all add: div_s_def rem_s_def div_u_def rem_u_def checked_div_def)

lemma division_overflow:
  assumes "sint (a :: 'a::len word) = - (2 ^ (LENGTH('a) - 1))" "1 < LENGTH('a)"
  shows "div_s a (- 1) = a" "rem_s a (- 1) = 0"
proof -
  have s: "sint (- 1 :: 'a word) = - 1" by simp
  have p: "trunc_div (sint a) (- 1) = - sint a" using assms by (simp add: trunc_div_def)
  have "(word_of_int (- sint a) :: 'a word) = - a" by simp
  moreover have "- a = a"
  proof -
    have "a = word_of_int (- (2 ^ (LENGTH('a) - 1)))" unfolding assms(1)[symmetric] by simp
    then have a: "a = - (2 ^ (LENGTH('a) - 1))" by simp
    have "(2 :: 'a word) ^ (LENGTH('a) - 1) + 2 ^ (LENGTH('a) - 1) = 2 ^ Suc (LENGTH('a) - 1)"
      by (simp only: power_Suc mult_2)
    also have "\<dots> = 2 ^ LENGTH('a)" by simp
    also have "\<dots> = 0" by simp
    finally show ?thesis unfolding a by (simp only: add_eq_0_iff minus_minus)
  qed
  ultimately show "div_s a (- 1) = a" by (simp add: div_s_def wrapping_div_i_def p s)
  show "rem_s a (- 1) = 0" by (simp add: rem_s_def wrapping_rem_i_def trunc_rem_def p s)
qed

lemma unsigned_division:
  fixes a b :: "'a::len word"
  assumes "b \<noteq> 0"
  shows "unat a = unat b * unat (div_u a b) + unat (rem_u a b)" "unat (rem_u a b) < unat b"
  using assms by (simp_all add: div_u_def rem_u_def checked_div_def unat_div_distrib unat_mod_distrib
      unat_gt_0 mod_less_divisor)

end
