(* ===== verification/CpuState.thy ===== *)
theory CpuState
  imports Csr Bus
begin

unbundle bit_operations_syntax

text \<open>
  The hart of \<^verbatim>\<open>crates/rv64-core/src/cpu.rs\<close>: the record \<^verbatim>\<open>Cpu\<close>, its reset, the translation
  contexts and tags, the maintenance operations of the translation caches, and the guards of the
  floating-point unit.

  The register files and the TLB rows are total functions on the index; every index the
  interpreter uses is below the array length (\<open>reg_bounds\<close>, \<open>tlb_index_bound\<close>). \<^verbatim>\<open>unwrap\<close> of
  \<open>sys\<close> is \<open>sys_of\<close>, used only behind the tests of the source that \<open>sys\<close> is present.
\<close>

section \<open>Constants and types\<close>

datatype access = Fetch | Load | Store

fun access_ix :: "access \<Rightarrow> nat" where
  "access_ix Fetch = 0"
| "access_ix Load = 1"
| "access_ix Store = 2"

lemma access_ix_inj [simp]: "access_ix a = access_ix b \<longleftrightarrow> a = b"
  by (cases a; cases b) simp_all

lemma access_ix_bound: "access_ix a < 3"
  by (cases a) simp_all

definition TLB_BITS :: nat where "TLB_BITS = 12"
definition TLB_SIZE :: nat where "TLB_SIZE = 2 ^ TLB_BITS"
definition TLB_INVALID :: u64 where "TLB_INVALID = - 1"
definition TLB_VPN_BITS :: nat where "TLB_VPN_BITS = 52"
definition TLB_VPN_MASK :: u64 where "TLB_VPN_MASK = push_bit TLB_VPN_BITS 1 - 1"
definition TLB_CONTEXT_SHIFT :: nat where "TLB_CONTEXT_SHIFT = TLB_VPN_BITS"
definition MAP_GENERATION_MASK :: u64 where "MAP_GENERATION_MASK = 0xffffffff"
definition IRQ_POLL_INTERVAL :: u32 where "IRQ_POLL_INTERVAL = 32"

lemmas tlb_const_defs = TLB_BITS_def TLB_SIZE_def TLB_INVALID_def TLB_VPN_BITS_def TLB_VPN_MASK_def
  TLB_CONTEXT_SHIFT_def MAP_GENERATION_MASK_def

lemma TLB_VPN_MASK_mask: "TLB_VPN_MASK = mask 52"
  by (simp add: TLB_VPN_MASK_def TLB_VPN_BITS_def mask_numeral)

lemma MAP_GENERATION_MASK_mask: "MAP_GENERATION_MASK = mask 32"
  by (simp add: MAP_GENERATION_MASK_def mask_numeral)

text \<open>\<open>TlbRows\<close>: a row per access class, each of \<open>TLB_SIZE\<close> entries.\<close>

type_synonym tlb_rows = "nat \<Rightarrow> nat \<Rightarrow> u64"

definition rows_new :: "u64 \<Rightarrow> tlb_rows" where
  "rows_new v = (\<lambda>_ _. v)"

definition rows_fill :: "tlb_rows \<Rightarrow> u64 \<Rightarrow> tlb_rows" where
  "rows_fill t v = (\<lambda>_ _. v)"

definition rows_set :: "tlb_rows \<Rightarrow> nat \<Rightarrow> nat \<Rightarrow> u64 \<Rightarrow> tlb_rows" where
  "rows_set t a i v = t(a := (t a)(i := v))"

lemma rows_set_apply: "rows_set t a i v b j = (if b = a \<and> j = i then v else t b j)"
  by (simp add: rows_set_def)

record cpu =
  xreg :: "nat \<Rightarrow> u64"
  pc :: u64
  insn_count :: u64
  reservation :: "u64 option"
  syscall_log :: "nat \<Rightarrow> u64 \<times> u64"
  syscall_log_pos :: nat
  freg :: "nat \<Rightarrow> u64"
  fcsr :: u32
  sys :: "sys_csrs option"
  host_sbi :: bool
  exc_counts :: "nat \<Rightarrow> u64"
  irq_counts :: "nat \<Rightarrow> u64"
  jit_flush_gen :: u64
  icache_gen :: u64
  irq_poll_cd :: u32
  map_gen :: u64
  tlb_tag :: tlb_rows
  tlb_diff :: tlb_rows
  jtlb_tag :: tlb_rows
  jtlb_off :: tlb_rows

definition cpu_new :: cpu where
  "cpu_new = \<lparr>
     xreg = \<lambda>_. 0,
     pc = 0,
     insn_count = 0,
     reservation = None,
     syscall_log = \<lambda>_. (- 1, 0),
     syscall_log_pos = 0,
     freg = \<lambda>_. 0,
     fcsr = 0,
     sys = None,
     host_sbi = False,
     exc_counts = \<lambda>_. 0,
     irq_counts = \<lambda>_. 0,
     jit_flush_gen = 0,
     icache_gen = 0,
     irq_poll_cd = 0,
     map_gen = 0,
     tlb_tag = rows_new TLB_INVALID,
     tlb_diff = rows_new 0,
     jtlb_tag = rows_new TLB_INVALID,
     jtlb_off = rows_new 0\<rparr>"

definition sys_of :: "cpu \<Rightarrow> sys_csrs" where
  "sys_of c = (case sys c of Some y \<Rightarrow> y | None \<Rightarrow> sys_new)"

definition upd_sys :: "(sys_csrs \<Rightarrow> sys_csrs) \<Rightarrow> cpu \<Rightarrow> cpu" where
  "upd_sys g c = c\<lparr>sys := map_option g (sys c)\<rparr>"

lemma sys_of_Some [simp]: "sys c = Some y \<Longrightarrow> sys_of c = y"
  by (simp add: sys_of_def)

section \<open>Translation contexts and tags\<close>

definition data_mode :: "sys_csrs \<Rightarrow> mode" where
  "data_mode y =
     (if mstatus y AND MSTATUS_MPRV \<noteq> 0
      then mode_from_bits (drop_bit 11 (mstatus y AND MSTATUS_MPP)) else sys_mode y)"

definition eff_mode :: "cpu \<Rightarrow> access \<Rightarrow> mode" where
  "eff_mode c a =
     (let y = sys_of c in
      if a \<noteq> Fetch \<and> mstatus y AND MSTATUS_MPRV \<noteq> 0
      then mode_from_bits (drop_bit 11 (mstatus y AND MSTATUS_MPP)) else sys_mode y)"

definition translation_context :: "cpu \<Rightarrow> u64" where
  "translation_context c =
     (case sys c of None \<Rightarrow> 0
      | Some y \<Rightarrow>
          (let execution_mode = mode_bits (sys_mode y);
               dmode = mode_bits (data_mode y);
               sum = (if mstatus y AND MSTATUS_SUM \<noteq> 0 then 1 else 0);
               mxr = (if mstatus y AND MSTATUS_MXR \<noteq> 0 then 1 else 0)
           in execution_mode OR push_bit 2 dmode OR push_bit 4 sum OR push_bit 5 mxr))"

definition translation_tag :: "cpu \<Rightarrow> u64 \<Rightarrow> u64" where
  "translation_tag c va =
     (drop_bit 12 va AND TLB_VPN_MASK) OR push_bit TLB_CONTEXT_SHIFT (translation_context c)"

definition tlb_index :: "u64 \<Rightarrow> nat" where
  "tlb_index va = unat (drop_bit 12 va AND 0xfff)"

lemma tlb_index_bound: "tlb_index va < TLB_SIZE"
  using unat_take_bit_less [of 12 "drop_bit 12 va"] by (simp add: tlb_index_def mask_simps tlb_const_defs)

definition refresh_jit_tlb_context :: "cpu \<Rightarrow> cpu" where
  "refresh_jit_tlb_context c =
     (let context = push_bit TLB_CONTEXT_SHIFT (translation_context c)
      in c\<lparr>map_gen := (map_gen c AND MAP_GENERATION_MASK) OR context\<rparr>)"

definition jit_tlb_context_tag :: "cpu \<Rightarrow> u64" where
  "jit_tlb_context_tag c = map_gen c AND NOT TLB_VPN_MASK"

definition map_generation :: "cpu \<Rightarrow> u32" where
  "map_generation c = ucast (map_gen c)"

definition bump_map_generation :: "cpu \<Rightarrow> cpu" where
  "bump_map_generation c =
     (let nxt = map_generation c + 1
      in c\<lparr>map_gen := (map_gen c AND NOT MAP_GENERATION_MASK) OR ucast nxt\<rparr>)"

definition enable_system :: "u64 \<Rightarrow> cpu \<Rightarrow> cpu" where
  "enable_system hartid c =
     refresh_jit_tlb_context (c\<lparr>sys := Some (sys_new\<lparr>mhartid := hartid\<rparr>)\<rparr>)"

definition enable_host_sbi :: "cpu \<Rightarrow> cpu" where
  "enable_host_sbi c = c\<lparr>host_sbi := True\<rparr>"

section \<open>Maintenance of the translation caches\<close>

definition flush_tlb :: "cpu \<Rightarrow> cpu" where
  "flush_tlb c =
     c\<lparr>tlb_tag := rows_fill (tlb_tag c) TLB_INVALID,
       jtlb_tag := rows_fill (jtlb_tag c) TLB_INVALID\<rparr>"

definition flush_page_rows :: "nat \<Rightarrow> u64 \<Rightarrow> nat \<Rightarrow> tlb_rows \<Rightarrow> tlb_rows" where
  "flush_page_rows n vpn index t =
     fold (\<lambda>a t. if t a index \<noteq> TLB_INVALID \<and> t a index AND TLB_VPN_MASK = vpn
                 then rows_set t a index TLB_INVALID else t) [0..<n] t"

definition flush_tlb_page :: "u64 \<Rightarrow> cpu \<Rightarrow> cpu" where
  "flush_tlb_page va c =
     (let vpn = drop_bit 12 va AND TLB_VPN_MASK;
          index = unat (vpn AND 0xfff)
      in c\<lparr>tlb_tag := flush_page_rows 3 vpn index (tlb_tag c),
           jtlb_tag := flush_page_rows 2 vpn index (jtlb_tag c)\<rparr>)"

text \<open>One iteration of the loop of \<^verbatim>\<open>invalidate_store_jtlb_page\<close>, and the loop.\<close>

definition inval_store_step :: "cpu \<Rightarrow> u64 \<Rightarrow> nat \<Rightarrow> tlb_rows \<times> nat \<Rightarrow> tlb_rows \<times> nat" where
  "inval_store_step c physical_page index st =
     (let (j, invalidated) = st;
          tag = j 1 index;
          store = access_ix Store
      in if tag = TLB_INVALID then (j, invalidated)
         else if tlb_tag c store index \<noteq> tag then (rows_set j 1 index TLB_INVALID, invalidated)
         else
           (let virtual_page = push_bit 12 (tag AND TLB_VPN_MASK);
                mapped_page = (virtual_page + tlb_diff c store index) AND NOT 0xfff
            in if mapped_page = physical_page
               then (rows_set j 1 index TLB_INVALID, invalidated + 1)
               else (j, invalidated)))"

definition invalidate_store_jtlb_page :: "u64 \<Rightarrow> cpu \<Rightarrow> nat \<times> cpu" where
  "invalidate_store_jtlb_page pa c =
     (let (j, invalidated) =
            fold (inval_store_step c (pa AND NOT 0xfff)) [0..<TLB_SIZE] (jtlb_tag c, 0)
      in (invalidated, c\<lparr>jtlb_tag := j\<rparr>))"

section \<open>Registers and the floating-point guards\<close>

definition wr :: "nat \<Rightarrow> u64 \<Rightarrow> cpu \<Rightarrow> cpu" where
  "wr d v c = (if d \<noteq> 0 then c\<lparr>xreg := (xreg c)(d := v)\<rparr> else c)"

definition box32 :: "u32 \<Rightarrow> u64" where
  "box32 v = 0xffffffff00000000 OR ucast v"

definition fp_check :: "u32 \<Rightarrow> cpu \<Rightarrow> exception option" where
  "fp_check insn c =
     (case sys c of
        Some y \<Rightarrow> if mstatus y AND MSTATUS_FS = 0 then Some (IllegalInstruction insn) else None
      | None \<Rightarrow> None)"

definition fp_dirty :: "cpu \<Rightarrow> cpu" where
  "fp_dirty c = upd_sys (\<lambda>y. y\<lparr>mstatus := mstatus y OR MSTATUS_FS\<rparr>) c"

section \<open>The shape of a tag\<close>

lemma mode_from_bits_range: "mode_bits (mode_from_bits b) \<in> {0, 1, 3}"
  by (rule mode_bits_cases)

text \<open>A context occupies the six low bits, so no tag is the invalid marker.\<close>

lemma context_bits: "bit (translation_context c) n \<Longrightarrow> n < 6"
proof -
  have m: "\<not> bit (mode_bits m) n" if "2 \<le> n" for m n
    using that by (cases m) (auto simp: bit_1_iff bit_numeral_rec gr0_conv_Suc numeral_2_eq_2
        numeral_eq_Suc bit_simps le_Suc_eq dest!: le_Suc_ex)
  assume b: "bit (translation_context c) n"
  show "n < 6"
  proof (rule ccontr)
    assume "\<not> n < 6"
    with b show False
      by (auto simp: translation_context_def Let_def bit_simps m split: option.splits if_splits)
  qed
qed

lemma tag_not_invalid: "translation_tag c va \<noteq> TLB_INVALID"
proof
  assume "translation_tag c va = TLB_INVALID"
  then have "bit (translation_tag c va) 63" by (simp add: TLB_INVALID_def)
  then have "bit (translation_context c) 11"
    by (simp add: translation_tag_def TLB_VPN_MASK_mask tlb_const_defs bit_simps)
  then show False using context_bits by fastforce
qed

lemma tag_vpn: "translation_tag c va AND TLB_VPN_MASK = drop_bit 12 va"
proof (rule bit_word_eqI)
  fix n assume "n < LENGTH(64)"
  moreover have "bit va (12 + n) \<Longrightarrow> n < 52" by (drule bit_imp_le_length) simp
  ultimately show "bit (translation_tag c va AND TLB_VPN_MASK) n = bit (drop_bit 12 va) n"
    by (auto simp: translation_tag_def TLB_VPN_MASK_mask tlb_const_defs bit_simps)
qed

lemma tag_context: "drop_bit 52 (translation_tag c va) = translation_context c"
proof (rule bit_word_eqI)
  fix n assume "n < LENGTH(64)"
  moreover have "bit (translation_context c) n \<Longrightarrow> n < 6" by (rule context_bits)
  ultimately show "bit (drop_bit 52 (translation_tag c va)) n = bit (translation_context c) n"
    by (auto simp: translation_tag_def TLB_VPN_MASK_mask tlb_const_defs bit_simps)
qed

section \<open>Context isolation\<close>

lemma context_eq:
  assumes "translation_context c = translation_context d" and "sys c = Some y" and "sys d = Some z"
  shows "sys_mode y = sys_mode z" and "data_mode y = data_mode z"
    and "mstatus y AND MSTATUS_SUM \<noteq> 0 \<longleftrightarrow> mstatus z AND MSTATUS_SUM \<noteq> 0"
    and "mstatus y AND MSTATUS_MXR \<noteq> 0 \<longleftrightarrow> mstatus z AND MSTATUS_MXR \<noteq> 0"
proof -
  let ?f = "\<lambda>m k (a :: u64) (b :: u64). mode_bits m OR push_bit 2 (mode_bits k) OR push_bit 4 a OR push_bit 5 b"
  have inj: "?f m k (if p then 1 else 0) (if q then 1 else 0) = ?f m' k' (if p' then 1 else 0) (if q' then 1 else 0)
      \<Longrightarrow> m = m' \<and> k = k' \<and> p = p' \<and> q = q'" for m k p q m' k' p' q'
    by (cases m; cases k; cases m'; cases k'; cases p; cases q; cases p'; cases q') simp_all
  from assms have "?f (sys_mode y) (data_mode y) (if mstatus y AND MSTATUS_SUM \<noteq> 0 then 1 else 0)
       (if mstatus y AND MSTATUS_MXR \<noteq> 0 then 1 else 0)
     = ?f (sys_mode z) (data_mode z) (if mstatus z AND MSTATUS_SUM \<noteq> 0 then 1 else 0)
       (if mstatus z AND MSTATUS_MXR \<noteq> 0 then 1 else 0)"
    by (simp only: translation_context_def Let_def option.case)
  then show "sys_mode y = sys_mode z" and "data_mode y = data_mode z"
    and "mstatus y AND MSTATUS_SUM \<noteq> 0 \<longleftrightarrow> mstatus z AND MSTATUS_SUM \<noteq> 0"
    and "mstatus y AND MSTATUS_MXR \<noteq> 0 \<longleftrightarrow> mstatus z AND MSTATUS_MXR \<noteq> 0"
    by (auto dest!: inj simp only:)
qed

lemma eff_mode_data: "eff_mode c a = (if a = Fetch then sys_mode (sys_of c) else data_mode (sys_of c))"
  by (simp add: eff_mode_def data_mode_def Let_def)

text \<open>
  Two translations share a TLB tag only if they are of the same virtual page, and are made
  with the same effective privilege for every access class and the same SUM and MXR bits: an entry
  filled in one permission context is never hit in another.
\<close>

theorem tag_isolates_contexts:
  assumes "translation_tag c va = translation_tag d wa" and "sys c = Some y" and "sys d = Some z"
  shows "drop_bit 12 va = drop_bit 12 wa \<and> (\<forall>a. eff_mode c a = eff_mode d a)
    \<and> (mstatus y AND MSTATUS_SUM = 0 \<longleftrightarrow> mstatus z AND MSTATUS_SUM = 0)
    \<and> (mstatus y AND MSTATUS_MXR = 0 \<longleftrightarrow> mstatus z AND MSTATUS_MXR = 0)"
proof -
  have "translation_context c = translation_context d" using assms(1) tag_context by metis
  note ctx = context_eq [OF this assms(2,3)]
  have "drop_bit 12 va = drop_bit 12 wa" using assms(1) tag_vpn by metis
  moreover have "eff_mode c a = eff_mode d a" for a
    using ctx(1,2) assms(2,3) by (simp add: eff_mode_data)
  ultimately show ?thesis using ctx(3,4) by blast
qed

theorem tag_isolates_witness:
  "let c = enable_system 0 cpu_new in drop_bit 12 (0x1008 :: u64) = drop_bit 12 0x1ff0
    \<and> (\<forall>a. eff_mode c a = eff_mode (c\<lparr>pc := 4\<rparr>) a)"
proof -
  let ?c = "enable_system 0 cpu_new"
  have "translation_tag ?c 0x1008 = translation_tag (?c\<lparr>pc := 4\<rparr>) 0x1ff0"
    by (simp add: translation_tag_def translation_context_def)
  moreover have "sys ?c = Some (sys_new\<lparr>mhartid := 0\<rparr>)"
    and "sys (?c\<lparr>pc := 4\<rparr>) = Some (sys_new\<lparr>mhartid := 0\<rparr>)"
    by (simp_all add: enable_system_def refresh_jit_tlb_context_def Let_def)
  ultimately show ?thesis
    using tag_isolates_contexts [of ?c "0x1008" "?c\<lparr>pc := 4\<rparr>" "0x1ff0"] by (auto simp: Let_def)
qed

section \<open>Flushing\<close>

lemma flush_page_rows_apply:
  "flush_page_rows n vpn index t a i =
     (if a < n \<and> i = index \<and> t a i \<noteq> TLB_INVALID \<and> t a i AND TLB_VPN_MASK = vpn
      then TLB_INVALID else t a i)"
  unfolding flush_page_rows_def
  by (induction n arbitrary: a) (auto simp: rows_set_apply less_Suc_eq)

lemma tlb_index_vpn: "unat ((drop_bit 12 va AND TLB_VPN_MASK) AND 0xfff) = tlb_index va"
proof -
  have "(drop_bit 12 va AND TLB_VPN_MASK) AND 0xfff = drop_bit 12 va AND 0xfff"
    by (rule bit_word_eqI) (auto simp: TLB_VPN_MASK_mask mask_simps bit_simps)
  then show ?thesis by (simp add: tlb_index_def)
qed

text \<open>
  After \<^verbatim>\<open>flush_tlb_page(va)\<close> no access to the page of \<open>va\<close> hits, in any access
  class and in any permission context, in the interpreter's TLB and in the fused rows alike.
\<close>

theorem flush_page_no_hit:
  "tlb_tag (flush_tlb_page va c) (access_ix a) (tlb_index va) \<noteq> translation_tag d va
   \<and> (\<forall>k \<in> {0, 1}. jtlb_tag (flush_tlb_page va c) k (tlb_index va) \<noteq> translation_tag d va)"
proof -
  have m: "drop_bit 12 va AND TLB_VPN_MASK = drop_bit 12 va"
    using tag_vpn [of c va] by (metis and.assoc and.idem)
  show ?thesis
    using tag_not_invalid [of d va] tag_vpn [of d va] access_ix_bound [of a] m
    by (auto simp: flush_tlb_page_def Let_def flush_page_rows_apply tlb_index_def)
qed

theorem flush_page_witness:
  "jtlb_tag (flush_tlb_page 0x1000 (cpu_new\<lparr>jtlb_tag := \<lambda>_ _. 1\<rparr>)) 1 1 \<noteq> translation_tag cpu_new 0x1000"
  using flush_page_no_hit [of "0x1000" "cpu_new\<lparr>jtlb_tag := \<lambda>_ _. 1\<rparr>" Load cpu_new]
  by (simp add: tlb_index_def)

lemma flush_page_other:
  assumes "tlb_tag c a i AND TLB_VPN_MASK \<noteq> drop_bit 12 va"
  shows "tlb_tag (flush_tlb_page va c) a i = tlb_tag c a i"
proof -
  have m: "drop_bit 12 va AND TLB_VPN_MASK = drop_bit 12 va"
    using tag_vpn [of c va] by (metis and.assoc and.idem)
  show ?thesis using assms by (simp add: flush_tlb_page_def Let_def flush_page_rows_apply m)
qed

text \<open>What the loop leaves in one cell.\<close>

definition inval_cell :: "cpu \<Rightarrow> u64 \<Rightarrow> nat \<Rightarrow> u64 \<Rightarrow> u64" where
  "inval_cell c p i tag =
     (if tag \<noteq> TLB_INVALID \<and> tlb_tag c (access_ix Store) i = tag
         \<and> (push_bit 12 (tag AND TLB_VPN_MASK) + tlb_diff c (access_ix Store) i) AND NOT 0xfff \<noteq> p
      then tag else TLB_INVALID)"

lemma inval_store_step_row:
  "fst (inval_store_step c p i st) a k =
    (if a = 1 \<and> k = i then inval_cell c p i (fst st 1 i) else fst st a k)"
  by (cases st) (auto simp: inval_store_step_def inval_cell_def Let_def rows_set_apply)

lemma inval_store_fold:
  "fst (fold (inval_store_step c p) [0..<n] st) a k =
    (if a = 1 \<and> k < n then inval_cell c p k (fst st 1 k) else fst st a k)"
  by (induction n) (auto simp: inval_store_step_row less_Suc_eq)

lemma jtlb_tag_invalidate:
  "jtlb_tag (snd (invalidate_store_jtlb_page pa c))
    = fst (fold (inval_store_step c (pa AND NOT 0xfff)) [0..<TLB_SIZE] (jtlb_tag c, 0))"
  by (simp add: invalidate_store_jtlb_page_def case_prod_beta)

text \<open>
  After a code page is invalidated, every store entry left in the fused rows has a matching
  interpreter store entry, and that entry maps another physical page: a compiled block cannot
  write the page through a stale inline translation.
\<close>

theorem invalidate_store_page_complete:
  assumes "i < TLB_SIZE"
    and "jtlb_tag (snd (invalidate_store_jtlb_page pa c)) 1 i \<noteq> TLB_INVALID"
  shows "tlb_tag c (access_ix Store) i = jtlb_tag (snd (invalidate_store_jtlb_page pa c)) 1 i
    \<and> (push_bit 12 (tlb_tag c (access_ix Store) i AND TLB_VPN_MASK) + tlb_diff c (access_ix Store) i)
        AND NOT 0xfff \<noteq> pa AND NOT 0xfff"
  using assms unfolding jtlb_tag_invalidate inval_store_fold
  by (auto simp: inval_cell_def split: if_splits)

theorem invalidate_store_page_witness:
  "let c = cpu_new\<lparr>tlb_tag := \<lambda>_ _. 0, jtlb_tag := \<lambda>_ _. 0\<rparr> in
   jtlb_tag (snd (invalidate_store_jtlb_page 0x1000 c)) 1 0 = tlb_tag c (access_ix Store) 0"
proof -
  let ?c = "cpu_new\<lparr>tlb_tag := \<lambda>_ _. 0, jtlb_tag := \<lambda>_ _. 0\<rparr>"
  have "jtlb_tag (snd (invalidate_store_jtlb_page 0x1000 ?c)) 1 0 \<noteq> TLB_INVALID"
    unfolding jtlb_tag_invalidate inval_store_fold
    by (simp add: inval_cell_def tlb_const_defs cpu_new_def rows_new_def)
  then show ?thesis
    using invalidate_store_page_complete [of 0 "0x1000" ?c] by (simp add: TLB_SIZE_def)
qed

section \<open>The packed translation state\<close>

lemma context_shift: "bit (push_bit TLB_CONTEXT_SHIFT (translation_context c)) n \<Longrightarrow> 52 \<le> n \<and> n < 58"
  using context_bits [of c "n - 52"] by (auto simp: bit_simps tlb_const_defs)

text \<open>
  The cell compiled code reads packs two values that do not disturb each other:
  refreshing the context keeps the generation and installs the current context in the tag bits, and
  bumping the generation keeps the context and increments the 32-bit generation modulo \<open>2 ^ 32\<close>.
\<close>

theorem packed_map_gen:
  "map_generation (refresh_jit_tlb_context c) = map_generation c
   \<and> jit_tlb_context_tag (refresh_jit_tlb_context c) = translation_tag c 0
   \<and> jit_tlb_context_tag (bump_map_generation c) = jit_tlb_context_tag c
   \<and> map_generation (bump_map_generation c) = map_generation c + 1"
proof (intro conjI)
  note defs = refresh_jit_tlb_context_def bump_map_generation_def map_generation_def Let_def
    jit_tlb_context_tag_def MAP_GENERATION_MASK_mask TLB_VPN_MASK_mask
  have g: "bit ((w :: u32) + 1) n \<Longrightarrow> n < 32" for w n by (drule bit_imp_le_length) simp
  show "map_generation (refresh_jit_tlb_context c) = map_generation c"
    by (rule bit_word_eqI) (auto simp: defs bit_simps tlb_const_defs)
  show "jit_tlb_context_tag (refresh_jit_tlb_context c) = translation_tag c 0"
    by (rule bit_word_eqI) (auto simp: defs bit_simps translation_tag_def TLB_CONTEXT_SHIFT_def TLB_VPN_BITS_def)
  show "jit_tlb_context_tag (bump_map_generation c) = jit_tlb_context_tag c"
    by (rule bit_word_eqI) (auto simp: defs bit_simps dest: g)
  show "map_generation (bump_map_generation c) = map_generation c + 1"
    by (rule bit_word_eqI) (auto simp: defs bit_simps)
qed

end
