(* ===== verification/HostFp.thy ===== *)
theory HostFp
  imports SoftFpSpec
begin

unbundle bit_operations_syntax

text \<open>
  The rounding of IEEE 754, stated on exact numbers, and the arithmetic of the host's \<^verbatim>\<open>f32\<close> and \<^verbatim>\<open>f64\<close>
  that the fast paths of \<^verbatim>\<open>crates/rv64-core/src/cpu.rs\<close> use (operators of the language on finite operands,
  round to nearest even).

  A positive number is a fraction \<open>a / b\<close> in units of the smallest subnormal (\<open>mag\<close> of a pattern is such
  a number). \<open>ieee_mag\<close> rounds it to the format's precision without a bound on the exponent, \<open>mag_bits\<close>
  gives the pattern of a rounded number, and a number beyond the largest finite one overflows.
\<close>

section \<open>Rounding exact numbers\<close>

text \<open>The integer a fraction is rounded to, in a rounding mode and for a sign.\<close>

definition round_up :: "u32 \<Rightarrow> bool \<Rightarrow> nat \<Rightarrow> nat \<Rightarrow> nat \<Rightarrow> bool" where
  "round_up rm neg q r b \<longleftrightarrow>
     (if rm = RM_RNE then 2 * r > b \<or> (2 * r = b \<and> odd q)
      else if rm = RM_RTZ then False
      else if rm = RM_RDN then neg \<and> r \<noteq> 0
      else if rm = RM_RUP then \<not> neg \<and> r \<noteq> 0
      else 2 * r \<ge> b)"

definition round_frac :: "u32 \<Rightarrow> bool \<Rightarrow> nat \<Rightarrow> nat \<Rightarrow> nat" where
  "round_frac rm neg a b =
     (let q = a div b; r = a mod b in if round_up rm neg q r b then Suc q else q)"

text \<open>The exponent of the last place of a number, and the rounded number.\<close>

definition ulp_exp :: "fpfmt \<Rightarrow> nat \<Rightarrow> nat \<Rightarrow> nat" where
  "ulp_exp f a b = bit_len (a div b) - (MANT_SIZE f + 1)"

definition ieee_mag :: "fpfmt \<Rightarrow> u32 \<Rightarrow> bool \<Rightarrow> nat \<Rightarrow> nat \<Rightarrow> nat" where
  "ieee_mag f rm neg a b = (let g = ulp_exp f a b in round_frac rm neg a (b * 2 ^ g) * 2 ^ g)"

definition ieee_inexact :: "fpfmt \<Rightarrow> nat \<Rightarrow> nat \<Rightarrow> bool" where
  "ieee_inexact f a b \<longleftrightarrow> a mod (b * 2 ^ ulp_exp f a b) \<noteq> 0"

text \<open>The pattern of a representable number, and the pattern and flags of a rounded one.\<close>

definition mag_bits :: "fpfmt \<Rightarrow> nat \<Rightarrow> nat" where
  "mag_bits f n =
     (if n < 2 ^ MANT_SIZE f then n
      else (let g = bit_len n - (MANT_SIZE f + 1) in g * 2 ^ MANT_SIZE f + n div 2 ^ g))"

definition inf_bits :: "fpfmt \<Rightarrow> nat" where
  "inf_bits f = nat (EXP_MASK f) * 2 ^ MANT_SIZE f"

definition with_sign :: "fpfmt \<Rightarrow> bool \<Rightarrow> nat \<Rightarrow> 'a::len word" where
  "with_sign f neg n = of_nat ((if neg then 2 ^ (F_SIZE f - 1) else 0) + n)"

definition host_round :: "fpfmt \<Rightarrow> bool \<Rightarrow> nat \<Rightarrow> nat \<Rightarrow> 'a::len word" where
  "host_round f neg a b = with_sign f neg (min (mag_bits f (ieee_mag f RM_RNE neg a b)) (inf_bits f))"

section \<open>The host's operators on finite operands\<close>

text \<open>The reciprocal of the unit, a power of two.\<close>

definition unit_inv :: "fpfmt \<Rightarrow> nat" where
  "unit_inv f = 2 ^ (2 ^ (EXP_SIZE f - 1) + MANT_SIZE f - 2)"

definition amag :: "fpfmt \<Rightarrow> 'a::len word \<Rightarrow> nat" where
  "amag f a = mag f (abs_bits f a)"

definition host_add :: "fpfmt \<Rightarrow> 'a::len word \<Rightarrow> 'a word \<Rightarrow> 'a word" where
  "host_add f a b =
     (let v = fvalue f a + fvalue f b
      in if v = 0 then with_sign f (is_neg f a \<and> is_neg f b) 0
         else host_round f (v < 0) (nat \<bar>v\<bar>) 1)"

definition host_mul :: "fpfmt \<Rightarrow> 'a::len word \<Rightarrow> 'a word \<Rightarrow> 'a word" where
  "host_mul f a b = host_round f (is_neg f a \<noteq> is_neg f b) (amag f a * amag f b) (unit_inv f)"

definition host_div :: "fpfmt \<Rightarrow> 'a::len word \<Rightarrow> 'a word \<Rightarrow> 'a word" where
  "host_div f a b = host_round f (is_neg f a \<noteq> is_neg f b) (amag f a * unit_inv f) (amag f b)"

definition host_op :: "fpfmt \<Rightarrow> u32 \<Rightarrow> 'a::len word \<Rightarrow> 'a word \<Rightarrow> 'a word" where
  "host_op f opc a b =
     (if opc = 0 then host_add f a b
      else if opc = 1 then host_add f a (b XOR SIGN_MASK f)
      else if opc = 2 then host_mul f a b
      else host_div f a b)"

section \<open>The fast paths\<close>

text \<open>\<open>fp_fast64\<close> and \<open>fp_fast32\<close>, one body over the format.\<close>

definition fp_fast :: "fpfmt \<Rightarrow> u32 \<Rightarrow> 'a::len word \<Rightarrow> 'a word \<Rightarrow> 'a word option" where
  "fp_fast f opc a b =
     (if exp_of f a = EXP_MASK f \<or> exp_of f b = EXP_MASK f then None
      else if opc = 3 \<and> push_bit 1 b = 0 then None
      else
        (let rb = host_op f opc a b;
             er = exp_of f rb;
             normal = 1 \<le> er \<and> er \<le> EXP_MASK f - 1;
             ok = (if opc = 0 \<or> opc = 1 then er \<noteq> EXP_MASK f
                   else if opc = 2 then
                     normal \<or> (push_bit 1 rb = 0 \<and> (push_bit 1 a = 0 \<or> push_bit 1 b = 0))
                   else normal \<or> (push_bit 1 rb = 0 \<and> push_bit 1 a = 0))
         in if ok then Some rb else None))"

definition fp_fast64 :: "u32 \<Rightarrow> u64 \<Rightarrow> u64 \<Rightarrow> u64 option" where
  "fp_fast64 = fp_fast sf64"

definition fp_fast32 :: "u32 \<Rightarrow> u32 \<Rightarrow> u32 \<Rightarrow> u32 option" where
  "fp_fast32 = fp_fast sf32"

end
