(* ===== verification/FpExec.thy ===== *)
theory FpExec
  imports CpuState Decode HostFp
begin

unbundle bit_operations_syntax

text \<open>
  The floating-point instructions of \<^verbatim>\<open>crates/rv64-core/src/cpu.rs\<close>: rounding-mode selection, NaN boxing,
  the dispatch of OP-FP (\<open>op_fp\<close>, one definition per group of match arms) and the fused multiply-add
  forms. An arm yields the state after its register write and the flags it raises; the flags are
  accumulated in \<^verbatim>\<open>fcsr\<close> at the end, as in the source. None is the illegal-instruction exit.
\<close>

section \<open>Operands, rounding modes, results\<close>

definition get_rm :: "cpu \<Rightarrow> u32 \<Rightarrow> u32 option" where
  "get_rm c rm_field =
     (let rm = (if rm_field = 7 then drop_bit 5 (fcsr c) AND 7 else rm_field)
      in if rm \<le> 4 then Some rm else None)"

definition ub32 :: "u64 \<Rightarrow> u32" where
  "ub32 r = (if drop_bit 32 r = 0xffffffff then ucast r else 0x7fc00000)"

definition bx32 :: "u32 \<Rightarrow> u64" where
  "bx32 v = 0xffffffff00000000 OR ucast v"

definition set_f :: "nat \<Rightarrow> u64 \<Rightarrow> cpu \<Rightarrow> cpu" where
  "set_f d v c = c\<lparr>freg := (freg c)(d := v)\<rparr>"

definition set_flags :: "u32 \<Rightarrow> cpu \<Rightarrow> cpu" where
  "set_flags fl c = c\<lparr>fcsr := fcsr c OR (fl AND 0x1f)\<rparr>"

text \<open>An integer result of 32 bits is sign-extended.\<close>

definition sx32 :: "u32 \<Rightarrow> u64" where
  "sx32 w = scast w"

section \<open>The groups of OP-FP\<close>

definition sf_arith :: "fpfmt \<Rightarrow> u32 \<Rightarrow> 'a::len word \<Rightarrow> 'a word \<Rightarrow> u32 \<Rightarrow> 'a word \<times> u32" where
  "sf_arith f opc a b rm =
     (if opc = 0 then fadd f a b rm 0
      else if opc = 1 then fsub f a b rm 0
      else if opc = 2 then fmul f a b rm 0
      else fdiv f a b rm 0)"

text \<open>Addition, subtraction, multiplication and division, with the fast path in front.\<close>

definition fp_arith :: "fpfmt \<Rightarrow> u32 \<Rightarrow> 'a::len word \<Rightarrow> 'a word \<Rightarrow> u32 \<Rightarrow> cpu \<Rightarrow> 'a word \<times> u32" where
  "fp_arith f opc a b rm c =
     (if rm = RM_RNE \<and> fcsr c AND FFLAG_INEXACT \<noteq> 0 then
        (case fp_fast f opc a b of Some r \<Rightarrow> (r, 0) | None \<Rightarrow> sf_arith f opc a b rm)
      else sf_arith f opc a b rm)"

definition op_arith :: "u32 \<Rightarrow> u32 \<Rightarrow> u32 \<Rightarrow> nat \<Rightarrow> nat \<Rightarrow> nat \<Rightarrow> cpu \<Rightarrow> (cpu \<times> u32) option" where
  "op_arith opc fmt f3 d s1 s2 c =
     (case get_rm c f3 of None \<Rightarrow> None
      | Some rm \<Rightarrow>
          if fmt = 0 then
            (let (r, fl) = fp_arith sf32 opc (ub32 (freg c s1)) (ub32 (freg c s2)) rm c
             in Some (set_f d (bx32 r) c, fl))
          else
            (let (r, fl) = fp_arith sf64 opc (freg c s1) (freg c s2) rm c
             in Some (set_f d r c, fl)))"

definition op_sqrt :: "u32 \<Rightarrow> u32 \<Rightarrow> nat \<Rightarrow> nat \<Rightarrow> cpu \<Rightarrow> (cpu \<times> u32) option" where
  "op_sqrt fmt f3 d s1 c =
     (case get_rm c f3 of None \<Rightarrow> None
      | Some rm \<Rightarrow>
          if fmt = 0 then
            (let (r, fl) = fsqrt sf32 (ub32 (freg c s1)) rm 0 in Some (set_f d (bx32 r) c, fl))
          else (let (r, fl) = fsqrt sf64 (freg c s1) rm 0 in Some (set_f d r c, fl)))"

definition sgnj :: "u32 \<Rightarrow> 'a::len word \<Rightarrow> 'a word \<Rightarrow> 'a word \<Rightarrow> 'a word option" where
  "sgnj f3 s a b =
     (if f3 = 0 then Some ((a AND NOT s) OR (b AND s))
      else if f3 = 1 then Some ((a AND NOT s) OR (NOT b AND s))
      else if f3 = 2 then Some (a XOR (b AND s))
      else None)"

definition op_sgnj :: "u32 \<Rightarrow> u32 \<Rightarrow> nat \<Rightarrow> nat \<Rightarrow> nat \<Rightarrow> cpu \<Rightarrow> (cpu \<times> u32) option" where
  "op_sgnj fmt f3 d s1 s2 c =
     (if fmt = 0 then
        map_option (\<lambda>r. (set_f d (bx32 r) c, 0)) (sgnj f3 0x80000000 (ub32 (freg c s1)) (ub32 (freg c s2)))
      else map_option (\<lambda>r. (set_f d r c, 0)) (sgnj f3 (push_bit 63 1) (freg c s1) (freg c s2)))"

definition op_minmax :: "u32 \<Rightarrow> u32 \<Rightarrow> nat \<Rightarrow> nat \<Rightarrow> nat \<Rightarrow> cpu \<Rightarrow> (cpu \<times> u32) option" where
  "op_minmax fmt f3 d s1 s2 c =
     (if f3 \<noteq> 0 \<and> f3 \<noteq> 1 then None
      else if fmt = 0 then
        (let a = ub32 (freg c s1); b = ub32 (freg c s2);
             (r, fl) = (if f3 = 0 then fmin sf32 a b 0 else fmax sf32 a b 0)
         in Some (set_f d (bx32 r) c, fl))
      else
        (let a = freg c s1; b = freg c s2;
             (r, fl) = (if f3 = 0 then fmin sf64 a b 0 else fmax sf64 a b 0)
         in Some (set_f d r c, fl)))"

definition op_cvt_ff :: "u32 \<Rightarrow> u32 \<Rightarrow> nat \<Rightarrow> nat \<Rightarrow> nat \<Rightarrow> cpu \<Rightarrow> (cpu \<times> u32) option" where
  "op_cvt_ff fmt f3 d s1 s2 c =
     (if fmt = 0 \<and> s2 = 1 then
        (case get_rm c f3 of None \<Rightarrow> None
         | Some rm \<Rightarrow>
             (let (r, fl) = cvt_sf64_sf32 (freg c s1) rm 0 in Some (set_f d (bx32 r) c, fl)))
      else if fmt = 1 \<and> s2 = 0 then
        (let (r, fl) = cvt_sf32_sf64 (ub32 (freg c s1)) 0 in Some (set_f d r c, fl))
      else None)"

definition fcompare :: "fpfmt \<Rightarrow> u32 \<Rightarrow> 'a::len word \<Rightarrow> 'a word \<Rightarrow> (bool \<times> u32) option" where
  "fcompare f f3 a b =
     (if f3 = 2 then Some (eq_quiet f a b 0)
      else if f3 = 1 then Some (flt f a b 0)
      else if f3 = 0 then Some (fle f a b 0)
      else None)"

definition op_compare :: "u32 \<Rightarrow> u32 \<Rightarrow> nat \<Rightarrow> nat \<Rightarrow> nat \<Rightarrow> cpu \<Rightarrow> (cpu \<times> u32) option" where
  "op_compare fmt f3 d s1 s2 c =
     map_option (\<lambda>(r, fl). (wr d (b2w r) c, fl))
       (if fmt = 0 then fcompare sf32 f3 (ub32 (freg c s1)) (ub32 (freg c s2))
        else fcompare sf64 f3 (freg c s1) (freg c s2))"

definition float_to_int :: "fpfmt \<Rightarrow> nat \<Rightarrow> u32 \<Rightarrow> 'a::len word \<Rightarrow> (u64 \<times> u32) option" where
  "float_to_int f s2 rm a =
     (if s2 = 0 then (let (r, fl) = cvt_to_i f a rm 0 False in Some (sx32 r, fl))
      else if s2 = 1 then (let (r, fl) = cvt_to_i f a rm 0 True in Some (sx32 r, fl))
      else if s2 = 2 then Some (cvt_to_i f a rm 0 False)
      else if s2 = 3 then Some (cvt_to_i f a rm 0 True)
      else None)"

definition op_f2i :: "u32 \<Rightarrow> u32 \<Rightarrow> nat \<Rightarrow> nat \<Rightarrow> nat \<Rightarrow> cpu \<Rightarrow> (cpu \<times> u32) option" where
  "op_f2i fmt f3 d s1 s2 c =
     (case get_rm c f3 of None \<Rightarrow> None
      | Some rm \<Rightarrow>
          map_option (\<lambda>(r, fl). (wr d r c, fl))
            (if fmt = 0 then float_to_int sf32 s2 rm (ub32 (freg c s1))
             else float_to_int sf64 s2 rm (freg c s1)))"

definition int_to_float :: "fpfmt \<Rightarrow> nat \<Rightarrow> u32 \<Rightarrow> u64 \<Rightarrow> ('a::len word \<times> u32) option" where
  "int_to_float f s2 rm v =
     (if s2 = 0 then Some (cvt_from_i f (ucast v :: u32) rm 0 False)
      else if s2 = 1 then Some (cvt_from_i f (ucast v :: u32) rm 0 True)
      else if s2 = 2 then Some (cvt_from_i f v rm 0 False)
      else if s2 = 3 then Some (cvt_from_i f v rm 0 True)
      else None)"

definition op_i2f :: "u32 \<Rightarrow> u32 \<Rightarrow> nat \<Rightarrow> nat \<Rightarrow> nat \<Rightarrow> cpu \<Rightarrow> (cpu \<times> u32) option" where
  "op_i2f fmt f3 d s1 s2 c =
     (case get_rm c f3 of None \<Rightarrow> None
      | Some rm \<Rightarrow>
          if fmt = 0 then
            map_option (\<lambda>(r, fl). (set_f d (bx32 r) c, fl)) (int_to_float sf32 s2 rm (xreg c s1))
          else map_option (\<lambda>(r, fl). (set_f d r c, fl)) (int_to_float sf64 s2 rm (xreg c s1)))"

definition op_move :: "u32 \<Rightarrow> u32 \<Rightarrow> u32 \<Rightarrow> nat \<Rightarrow> nat \<Rightarrow> cpu \<Rightarrow> (cpu \<times> u32) option" where
  "op_move opc fmt f3 d s1 c =
     (if opc = 0x1c \<and> fmt = 0 \<and> f3 = 0 then Some (wr d (sx32 (ucast (freg c s1))) c, 0)
      else if opc = 0x1c \<and> fmt = 0 \<and> f3 = 1 then Some (wr d (ucast (fclass sf32 (ub32 (freg c s1)))) c, 0)
      else if opc = 0x1c \<and> fmt = 1 \<and> f3 = 0 then Some (wr d (freg c s1) c, 0)
      else if opc = 0x1c \<and> fmt = 1 \<and> f3 = 1 then Some (wr d (ucast (fclass sf64 (freg c s1))) c, 0)
      else if opc = 0x1e \<and> fmt = 0 \<and> f3 = 0 then Some (set_f d (bx32 (ucast (xreg c s1))) c, 0)
      else if opc = 0x1e \<and> fmt = 1 \<and> f3 = 0 then Some (set_f d (xreg c s1) c, 0)
      else None)"

section \<open>OP-FP\<close>

definition op_fp_arm :: "u32 \<Rightarrow> cpu \<Rightarrow> (cpu \<times> u32) option" where
  "op_fp_arm insn c =
     (let f7 = funct7 insn;
          fmt = f7 AND 3;
          opc = drop_bit 2 f7;
          f3 = funct3 insn;
          d = rd insn; s1 = rs1 insn; s2 = rs2 insn
      in if fmt \<noteq> 0 \<and> fmt \<noteq> 1 then None
         else if opc \<le> 3 then op_arith opc fmt f3 d s1 s2 c
         else if opc = 0x0b \<and> s2 = 0 then op_sqrt fmt f3 d s1 c
         else if opc = 0x04 then op_sgnj fmt f3 d s1 s2 c
         else if opc = 0x05 then op_minmax fmt f3 d s1 s2 c
         else if opc = 0x08 then op_cvt_ff fmt f3 d s1 s2 c
         else if opc = 0x14 then op_compare fmt f3 d s1 s2 c
         else if opc = 0x18 then op_f2i fmt f3 d s1 s2 c
         else if opc = 0x1a then op_i2f fmt f3 d s1 s2 c
         else op_move opc fmt f3 d s1 c)"

definition op_fp :: "u32 \<Rightarrow> (exception, cpu, unit) mon" where
  "op_fp insn c =
     (case op_fp_arm insn c of
        None \<Rightarrow> (Inl (IllegalInstruction insn), c)
      | Some (d, fl) \<Rightarrow> (Inr (), set_flags fl d))"

section \<open>Fused multiply-add\<close>

definition fma_operands :: "bool \<Rightarrow> bool \<Rightarrow> 'a::len word \<Rightarrow> 'a word \<Rightarrow> 'a word \<Rightarrow> 'a word \<times> 'a word" where
  "fma_operands neg_prod neg_c s a c3 =
     (if neg_prod then a XOR s else a, if neg_c then c3 XOR s else c3)"

definition op_fma :: "u32 \<Rightarrow> (exception, cpu, unit) mon" where
  "op_fma insn c =
     (let rs3 = unat (drop_bit 27 insn);
          neg_prod = opcode insn = 0x4b \<or> opcode insn = 0x4f;
          neg_c = opcode insn = 0x47 \<or> opcode insn = 0x4f;
          fmt = drop_bit 25 insn AND 3
      in case get_rm c (funct3 insn) of
           None \<Rightarrow> (Inl (IllegalInstruction insn), c)
         | Some rm \<Rightarrow>
             if fmt = 0 then
               (let (a, c3) = fma_operands neg_prod neg_c 0x80000000 (ub32 (freg c (rs1 insn))) (ub32 (freg c rs3));
                    (r, fl) = fma sf32 a (ub32 (freg c (rs2 insn))) c3 rm 0
                in (Inr (), set_flags fl (set_f (rd insn) (bx32 r) c)))
             else if fmt = 1 then
               (let (a, c3) = fma_operands neg_prod neg_c (push_bit 63 1) (freg c (rs1 insn)) (freg c rs3);
                    (r, fl) = fma sf64 a (freg c (rs2 insn)) c3 rm 0
                in (Inr (), set_flags fl (set_f (rd insn) r c)))
             else (Inl (IllegalInstruction insn), c))"

end
