(* ===== verification/Insn.thy ===== *)
theory Insn
  imports Compressed
begin

unbundle bit_operations_syntax

text \<open>
  The decoded instruction of \<^verbatim>\<open>crates/rv64-core/src/cpu.rs\<close> (\<^verbatim>\<open>DecodedInsn\<close>): what one fetch yields
  after variable-length decoding, and what the page-cache dispatcher asks of it. The length is a
  \<^verbatim>\<open>u8\<close> in the source and is widened when it is read (\<open>byte_len\<close>).
\<close>

record decoded_insn =
  di_bits :: u32
  di_len :: u8
  di_valid :: bool

definition di_INVALID :: decoded_insn where
  "di_INVALID = \<lparr>di_bits = 0, di_len = 0, di_valid = False\<rparr>"

definition from_word :: "u32 \<Rightarrow> decoded_insn" where
  "from_word word =
     (let lo = word AND 0xffff in
      if lo AND 3 = 3 then \<lparr>di_bits = word, di_len = 4, di_valid = True\<rparr>
      else (case expand (ucast lo) of
              Some bits \<Rightarrow> \<lparr>di_bits = bits, di_len = 2, di_valid = True\<rparr>
            | None \<Rightarrow> \<lparr>di_bits = lo, di_len = 2, di_valid = False\<rparr>))"

definition byte_len :: "decoded_insn \<Rightarrow> u64" where
  "byte_len d = ucast (di_len d)"

definition ends_basic_block :: "decoded_insn \<Rightarrow> bool" where
  "ends_basic_block d \<longleftrightarrow>
     \<not> di_valid d \<or> opcode (di_bits d) \<in> {0x0f, 0x63, 0x67, 0x6f, 0x73}"

section \<open>Lengths and quadrants\<close>

lemma from_word_len: "byte_len (from_word w) = (if w AND 3 = 3 then 4 else 2)"
proof -
  have "(w AND 0xffff) AND 3 = w AND 3" by (simp add: and.assoc)
  then show ?thesis by (auto simp: from_word_def Let_def byte_len_def split: option.splits)
qed

lemma from_word_len_cases: "byte_len (from_word w) = 2 \<or> byte_len (from_word w) = 4"
  by (simp add: from_word_len)

text \<open>Only the low halfword of a compressed instruction is consumed.\<close>

lemma from_word_low:
  assumes "w AND 3 \<noteq> 3"
  shows "from_word w = from_word (w AND 0xffff)"
proof -
  have "(w AND 0xffff) AND 3 = w AND 3" "(w AND 0xffff) AND 0xffff = w AND 0xffff"
    by (simp_all add: and.assoc)
  with assms show ?thesis by (simp add: from_word_def)
qed

lemma from_word_full: "w AND 3 = 3 \<Longrightarrow> from_word w = \<lparr>di_bits = w, di_len = 4, di_valid = True\<rparr>"
proof -
  assume "w AND 3 = 3"
  moreover have "(w AND 0xffff) AND 3 = w AND 3" by (simp add: and.assoc)
  ultimately show ?thesis by (simp add: from_word_def)
qed

text \<open>Whatever the expander emits is a full-size instruction for the decoder.\<close>

lemma enc_low:
  "(op AND 3 = 3) \<Longrightarrow> enc_i op d f3 s1 imm AND 3 = 3"
  "(op AND 3 = 3) \<Longrightarrow> enc_s op f3 s1 s2 imm AND 3 = 3"
  "(op AND 3 = 3) \<Longrightarrow> enc_r op d f3 s1 s2 f7 AND 3 = 3"
  "(op AND 3 = 3) \<Longrightarrow> enc_b op f3 s1 s2 imm AND 3 = 3"
  "(op AND 3 = 3) \<Longrightarrow> enc_u op d imm AND 3 = 3"
  "(op AND 3 = 3) \<Longrightarrow> enc_j op d imm AND 3 = 3"
proof -
  have sh: "push_bit n x AND 3 = 0" if "2 \<le> n" for n and x :: u32
    using that by (intro bit_word_eqI) (auto simp: bit_simps mask_simps)
  have ff: "(imm AND 0xff000) AND 3 = (0 :: u32)" by (simp add: and.assoc)
  show "(op AND 3 = 3) \<Longrightarrow> enc_i op d f3 s1 imm AND 3 = 3"
    and "(op AND 3 = 3) \<Longrightarrow> enc_s op f3 s1 s2 imm AND 3 = 3"
    and "(op AND 3 = 3) \<Longrightarrow> enc_r op d f3 s1 s2 f7 AND 3 = 3"
    and "(op AND 3 = 3) \<Longrightarrow> enc_b op f3 s1 s2 imm AND 3 = 3"
    and "(op AND 3 = 3) \<Longrightarrow> enc_u op d imm AND 3 = 3"
    and "(op AND 3 = 3) \<Longrightarrow> enc_j op d imm AND 3 = 3"
    unfolding enc_i_def enc_s_def enc_r_def enc_b_def enc_u_def enc_j_def bit.conj_disj_distrib2
    by (simp_all only: sh ff) simp_all
qed

lemma opcode_low:
  "OP AND 3 = 3" "OP32 AND 3 = 3" "OPIMM AND 3 = 3" "OPIMM32 AND 3 = 3" "LOAD AND 3 = 3"
  "STORE AND 3 = 3" "LOADFP AND 3 = 3" "STOREFP AND 3 = 3" "LUI AND 3 = 3" "JAL AND 3 = 3"
  "JALR AND 3 = 3" "BRANCH AND 3 = 3"
  by (simp_all add: opcode_defs)

lemma expand_low: "expand h = Some i \<Longrightarrow> i AND 3 = 3"
  by (auto simp: expand_def expand_q0_def expand_q1_def expand_q1_alu_def expand_q2_def Let_def
      opcode_low enc_low split: if_splits)

text \<open>
  Expansion is idempotent on the decoder: the 32-bit form of a compressed instruction
  decodes to itself, with the same instruction bits, as a four-byte instruction. Compressed and
  full-size forms share one execute path.
\<close>

theorem from_word_expand:
  "expand h = Some i \<Longrightarrow> from_word i = \<lparr>di_bits = i, di_len = 4, di_valid = True\<rparr>"
  by (simp add: from_word_full expand_low)

theorem from_word_expand_witness:
  "from_word 0xfe010113 = \<lparr>di_bits = 0xfe010113, di_len = 4, di_valid = True\<rparr>"
  by (rule from_word_expand [of "0x1101"])
    (simp add: expand_def expand_q1_def Let_def sext_def enc_i_def opcode_defs)

end
