(* ===== verification/Mmu.thy ===== *)
theory Mmu
  imports CpuState
begin

unbundle bit_operations_syntax

text \<open>
  Address translation and the memory accessors of the hart, \<^verbatim>\<open>crates/rv64-core/src/cpu.rs\<close>: the TLB
  probe \<open>translate\<close>, the page walk \<open>translate_slow\<close> with its permission checks, A/D update and
  TLB fill, the fused rows of compiled code, and the loads and stores that split at a page boundary.

  An operation works on the pair of hart and bus; \<open>busM\<close> runs a bus operation there.
\<close>

type_synonym ('b, 'a) hart = "(exception, cpu \<times> 'b, 'a) mon"

definition busM :: "('b, 'a) exec \<Rightarrow> ('b, 'a) hart" where
  "busM m st = (let (r, b) = m (snd st) in (r, (fst st, b)))"

definition cpuM :: "(cpu \<Rightarrow> cpu) \<Rightarrow> ('b, unit) hart" where
  "cpuM g = modM (\<lambda>(c, b). (g c, b))"

definition readM :: "(cpu \<Rightarrow> 'a) \<Rightarrow> ('b, 'a) hart" where
  "readM g = getM (\<lambda>(c, b). g c)"

lemma run_busM: "m (snd s) = (r, b) \<Longrightarrow> busM m s = (r, fst s, b)"
  by (simp add: busM_def)

lemma run_cpuM [run_simps]: "cpuM g s = (Inr (), g (fst s), snd s)"
  by (cases s) (simp add: cpuM_def modM_def)

lemma run_readM [run_simps]: "readM g s = (Inr (g (fst s)), s)"
  by (cases s) (simp add: readM_def getM_def)

section \<open>The page walk\<close>

fun fault :: "access \<Rightarrow> u64 \<Rightarrow> exception" where
  "fault Fetch addr = InstructionPageFault addr"
| "fault Load addr = LoadPageFault addr"
| "fault Store addr = StorePageFault addr"

definition fill_tlb :: "access \<Rightarrow> u64 \<Rightarrow> u64 \<Rightarrow> cpu \<Rightarrow> cpu" where
  "fill_tlb a va pa c =
     (let idx = tlb_index va;
          tag = translation_tag c va;
          c1 = (if a = Store \<and> jtlb_tag c 1 idx \<noteq> tag
                then c\<lparr>jtlb_tag := rows_set (jtlb_tag c) 1 idx TLB_INVALID\<rparr> else c)
      in c1\<lparr>tlb_tag := rows_set (tlb_tag c1) (access_ix a) idx tag,
            tlb_diff := rows_set (tlb_diff c1) (access_ix a) idx (pa - va)\<rparr>)"

text \<open>A leaf entry: superpage alignment, permissions, A/D update, physical address and TLB fill.\<close>

definition walk_leaf :: "'b bus_ops \<Rightarrow> u64 \<Rightarrow> access \<Rightarrow> mode \<Rightarrow> bool \<Rightarrow> bool \<Rightarrow> nat \<Rightarrow> u64 \<Rightarrow> u64
    \<Rightarrow> ('b, u64) hart" where
  "walk_leaf ops va a m su mx level pte_addr pte =
     (let r = drop_bit 1 pte AND 1;
          w = drop_bit 2 pte AND 1;
          xx = drop_bit 3 pte AND 1;
          ppn = drop_bit 10 pte;
          u = drop_bit 4 pte AND 1 \<noteq> 0;
          denied = (case m of User \<Rightarrow> \<not> u
                    | Supervisor \<Rightarrow> u \<and> \<not> (su \<and> a \<noteq> Fetch)
                    | Machine \<Rightarrow> False);
          ok = (case a of Fetch \<Rightarrow> xx = 1
                | Load \<Rightarrow> r = 1 \<or> (mx \<and> xx = 1)
                | Store \<Rightarrow> w = 1);
          new_pte = (pte OR push_bit 6 1) OR (if a = Store then push_bit 7 1 else 0);
          mask = push_bit (12 + 9 * level) 1 - 1;
          pa = (push_bit 12 ppn AND NOT mask) OR (va AND mask)
      in if level > 0 \<and> ppn AND (push_bit (9 * level) 1 - 1) \<noteq> 0 then failM (fault a va)
         else if denied then failM (fault a va)
         else if \<not> ok then failM (fault a va)
         else seqM (whenM (new_pte \<noteq> pte)
                     (mapErrM (\<lambda>_. fault a va) (busM (write64 ops pte_addr new_pte))))
              (seqM (cpuM (fill_tlb a va pa)) (retM pa)))"

fun walk_loop :: "'b bus_ops \<Rightarrow> u64 \<Rightarrow> access \<Rightarrow> mode \<Rightarrow> bool \<Rightarrow> bool \<Rightarrow> nat \<Rightarrow> u64 \<Rightarrow> ('b, u64) hart"
where
  "walk_loop ops va a m su mx level table =
     (let vpn = drop_bit (12 + 9 * level) va AND 0x1ff;
          pte_addr = table + vpn * 8
      in bindM (mapErrM (\<lambda>_. fault a va) (busM (read64 ops pte_addr))) (\<lambda>pte.
           let v = pte AND 1;
               r = drop_bit 1 pte AND 1;
               w = drop_bit 2 pte AND 1;
               xx = drop_bit 3 pte AND 1
           in if v = 0 \<or> (r = 0 \<and> w = 1) then failM (fault a va)
              else if r = 0 \<and> xx = 0 then
                (case level of
                   0 \<Rightarrow> failM (fault a va)
                 | Suc l \<Rightarrow> walk_loop ops va a m su mx l (push_bit 12 (drop_bit 10 pte)))
              else walk_leaf ops va a m su mx level pte_addr pte))"

declare walk_loop.simps [simp del]

definition sv_levels :: "u64 \<Rightarrow> nat option" where
  "sv_levels vm = (if vm = 8 then Some 3 else if vm = 9 then Some 4 else None)"

definition canonical :: "nat \<Rightarrow> u64 \<Rightarrow> bool" where
  "canonical levels va \<longleftrightarrow>
     (let va_bits = 9 * levels + 12; ext = signed_drop_bit (va_bits - 1) va
      in ext = 0 \<or> ext = - 1)"

definition translate_slow :: "'b bus_ops \<Rightarrow> u64 \<Rightarrow> access \<Rightarrow> ('b, u64) hart" where
  "translate_slow ops va a st =
     (let c = fst st;
          y = sys_of c;
          m = eff_mode c a;
          vm = drop_bit 60 (satp y)
      in if vm = 0 \<or> m = Machine then retM va st
         else (case sv_levels vm of
             None \<Rightarrow> failM (fault a va) st
           | Some levels \<Rightarrow>
               if \<not> canonical levels va then failM (fault a va) st
               else
                 (let su = mstatus y AND MSTATUS_SUM \<noteq> 0;
                      mx = mstatus y AND MSTATUS_MXR \<noteq> 0;
                      table = push_bit 12 (satp y AND 0xfffffffffff)
                  in walk_loop ops va a m su mx (levels - 1) table st)))"

definition translate :: "'b bus_ops \<Rightarrow> u64 \<Rightarrow> access \<Rightarrow> ('b, u64) hart" where
  "translate ops va a st =
     (let c = fst st in
      case sys c of None \<Rightarrow> retM va st
      | Some _ \<Rightarrow>
          (let idx = tlb_index va; tag = translation_tag c va; k = access_ix a
           in if tlb_tag c k idx = tag then retM (va + tlb_diff c k idx) st
              else translate_slow ops va a st))"

section \<open>The fused rows of compiled code\<close>

definition set_jtlb :: "u64 \<Rightarrow> bool \<Rightarrow> i64 \<Rightarrow> cpu \<Rightarrow> cpu" where
  "set_jtlb va store off c =
     (let idx = tlb_index va; k = (if store then 1 else 0)
      in c\<lparr>jtlb_tag := rows_set (jtlb_tag c) k idx (translation_tag c va),
           jtlb_off := rows_set (jtlb_off c) k idx off\<rparr>)"

definition fill_jtlb :: "'b bus_ops \<Rightarrow> u64 \<Rightarrow> u64 \<Rightarrow> bool \<Rightarrow> ('b, unit) hart" where
  "fill_jtlb ops va pa store st =
     (case jit_fast_off ops va pa store (snd st) of
        None \<Rightarrow> (Inr (), st)
      | Some off \<Rightarrow> (Inr (), (set_jtlb va store off (fst st), snd st)))"

definition jit_fill_tlb :: "'b bus_ops \<Rightarrow> u64 \<Rightarrow> bool \<Rightarrow> cpu \<times> 'b \<Rightarrow> i64 option \<times> cpu \<times> 'b" where
  "jit_fill_tlb ops va store st =
     (case translate ops va (if store then Store else Load) st of
        (Inl _, st') \<Rightarrow> (None, st')
      | (Inr pa, st') \<Rightarrow>
          (case jit_fast_off ops va pa store (snd st') of
             None \<Rightarrow> (None, st')
           | Some off \<Rightarrow> (Some off, (set_jtlb va store off (fst st'), snd st'))))"

definition jit_probe_fetch :: "'b bus_ops \<Rightarrow> u64 \<Rightarrow> cpu \<times> 'b \<Rightarrow> u64 option \<times> cpu \<times> 'b" where
  "jit_probe_fetch ops va st =
     (case translate ops va Fetch st of (Inl _, st') \<Rightarrow> (None, st') | (Inr pa, st') \<Rightarrow> (Some pa, st'))"

section \<open>Loads and stores\<close>

fun ld_bytes :: "'b bus_ops \<Rightarrow> u64 \<Rightarrow> nat list \<Rightarrow> u64 \<Rightarrow> ('b, u64) hart" where
  "ld_bytes ops va [] v = retM v"
| "ld_bytes ops va (i # is) v =
     bindM (translate ops (va + of_nat i) Load) (\<lambda>pa.
     bindM (busM (read8 ops pa)) (\<lambda>b.
     ld_bytes ops va is (v OR push_bit (8 * i) (ucast b))))"

definition crosses_page :: "nat \<Rightarrow> u64 \<Rightarrow> cpu \<Rightarrow> bool" where
  "crosses_page n va c \<longleftrightarrow> sys c \<noteq> None \<and> (va AND 0xfff) + of_nat n > 0x1000"

definition ld_mem :: "'b bus_ops \<Rightarrow> nat \<Rightarrow> u64 \<Rightarrow> ('b, u64) hart" where
  "ld_mem ops n va = bindM (readM (crosses_page n va)) (\<lambda>split.
     if split then ld_bytes ops va [0..<n] 0
     else bindM (translate ops va Load) (\<lambda>pa.
       seqM (fill_jtlb ops va pa False)
         (if n = 1 then bindM (busM (read8 ops pa)) (\<lambda>v. retM (ucast v))
          else if n = 2 then bindM (busM (read16 ops pa)) (\<lambda>v. retM (ucast v))
          else if n = 4 then bindM (busM (read32 ops pa)) (\<lambda>v. retM (ucast v))
          else busM (read64 ops pa))))"

fun st_bytes :: "'b bus_ops \<Rightarrow> u64 \<Rightarrow> u64 \<Rightarrow> nat list \<Rightarrow> ('b, unit) hart" where
  "st_bytes ops va val [] = retM ()"
| "st_bytes ops va val (i # is) =
     bindM (translate ops (va + of_nat i) Store) (\<lambda>pa.
     seqM (busM (write8 ops pa (ucast (drop_bit (8 * i) val))))
       (st_bytes ops va val is))"

definition st_mem :: "'b bus_ops \<Rightarrow> nat \<Rightarrow> u64 \<Rightarrow> u64 \<Rightarrow> ('b, unit) hart" where
  "st_mem ops n va val = bindM (readM (crosses_page n va)) (\<lambda>split.
     if split then st_bytes ops va val [0..<n]
     else bindM (translate ops va Store) (\<lambda>pa.
       seqM (fill_jtlb ops va pa True)
         (if n = 1 then busM (write8 ops pa (ucast val))
          else if n = 2 then busM (write16 ops pa (ucast val))
          else if n = 4 then busM (write32 ops pa (ucast val))
          else busM (write64 ops pa val))))"

end
