(* ===== verification/MmuSpec.thy ===== *)
theory MmuSpec
  imports Mmu
begin

unbundle bit_operations_syntax

text \<open>
  What the page walk promises. \<open>pt_find\<close> is the architectural table walk over a memory of 8-byte words;
  \<open>leaf_permits\<close> is the access check and \<open>leaf_pa\<close> the physical address of a leaf. The walker
  of the hart refines them on every branch (\<open>walk_loop_spec\<close>), and the TLB is transparent:
  entries that were filled by walks stay what a walk would find (\<open>tlb_ok\<close>), through A/D updates
  and across permission contexts.
\<close>

section \<open>The architectural walk\<close>

datatype pt_result = Hole | Bad | Leaf nat u64 u64

definition pte_valid :: "u64 \<Rightarrow> bool" where
  "pte_valid e \<longleftrightarrow> bit e 0 \<and> (bit e 2 \<longrightarrow> bit e 1)"

definition pte_leaf :: "u64 \<Rightarrow> bool" where
  "pte_leaf e \<longleftrightarrow> bit e 1 \<or> bit e 3"

definition pte_at :: "nat \<Rightarrow> u64 \<Rightarrow> u64 \<Rightarrow> u64" where
  "pte_at level table va = table + take_bit 9 (drop_bit (12 + 9 * level) va) * 8"

fun pt_find :: "(u64 \<Rightarrow> u64 option) \<Rightarrow> nat \<Rightarrow> u64 \<Rightarrow> u64 \<Rightarrow> pt_result" where
  "pt_find mem level table va =
     (case mem (pte_at level table va) of
        None \<Rightarrow> Hole
      | Some e \<Rightarrow>
          if \<not> pte_valid e then Bad
          else if pte_leaf e then Leaf level (pte_at level table va) e
          else (case level of 0 \<Rightarrow> Bad | Suc l \<Rightarrow> pt_find mem l (push_bit 12 (drop_bit 10 e)) va))"

declare pt_find.simps [simp del]

definition leaf_aligned :: "nat \<Rightarrow> u64 \<Rightarrow> bool" where
  "leaf_aligned level e \<longleftrightarrow> take_bit (9 * level) (drop_bit 10 e) = 0"

definition leaf_permits :: "access \<Rightarrow> mode \<Rightarrow> bool \<Rightarrow> bool \<Rightarrow> u64 \<Rightarrow> bool" where
  "leaf_permits a m su mx e \<longleftrightarrow>
     (m = User \<longrightarrow> bit e 4) \<and> (m = Supervisor \<longrightarrow> bit e 4 \<longrightarrow> su \<and> a \<noteq> Fetch)
     \<and> (case a of Fetch \<Rightarrow> bit e 3 | Load \<Rightarrow> bit e 1 \<or> mx \<and> bit e 3 | Store \<Rightarrow> bit e 2)"

definition leaf_pa :: "nat \<Rightarrow> u64 \<Rightarrow> u64 \<Rightarrow> u64" where
  "leaf_pa level e va =
     push_bit (12 + 9 * level) (drop_bit (10 + 9 * level) e) OR take_bit (12 + 9 * level) va"

definition leaf_update :: "access \<Rightarrow> u64 \<Rightarrow> u64" where
  "leaf_update a e = (if a = Store then set_bit 7 (set_bit 6 e) else set_bit 6 e)"

section \<open>Bits of an entry\<close>

lemma and_1_bit: "drop_bit n (e :: u64) AND 1 = (if bit e n then 1 else 0)"
  by (simp add: and_one_eq mod_2_eq_odd even_drop_bit_iff_not_bit)

lemma and_1_bit0: "(e :: u64) AND 1 = (if bit e 0 then 1 else 0)"
  using and_1_bit [of 0 e] by simp

lemma leaf_update_alt:
  "(e OR push_bit 6 1) OR (if a = Store then push_bit 7 1 else 0) = leaf_update a (e :: u64)"
proof -
  have "bit (64 :: u64) n = (n = 6)" "bit (128 :: u64) n = (n = 7)" for n
    using bit_push_bit_iff [of 6 "1 :: u64" n] bit_push_bit_iff [of 7 "1 :: u64" n]
    by (auto simp: bit_1_iff)
  then show ?thesis by (intro bit_word_eqI) (auto simp: leaf_update_def bit_simps)
qed

lemma bit_leaf_update:
  "bit (leaf_update a e) n \<longleftrightarrow> bit e n \<or> n = 6 \<or> (a = Store \<and> n = 7)"
  by (auto simp: leaf_update_def bit_simps)

lemma leaf_update_idem: "bit e 6 \<Longrightarrow> (a = Store \<Longrightarrow> bit e 7) \<Longrightarrow> leaf_update a e = e"
  by (rule bit_word_eqI) (auto simp: bit_leaf_update)

lemma leaf_update_flags:
  "pte_valid (leaf_update a e) = pte_valid e" "pte_leaf (leaf_update a e) = pte_leaf e"
  "leaf_permits k m su mx (leaf_update a e) = leaf_permits k m su mx e"
  "drop_bit 10 (leaf_update a e) = drop_bit 10 e"
  "leaf_aligned l (leaf_update a e) = leaf_aligned l e" "leaf_pa l (leaf_update a e) va = leaf_pa l e va"
proof -
  show d: "drop_bit 10 (leaf_update a e) = drop_bit 10 e"
    by (rule bit_word_eqI) (auto simp: bit_leaf_update bit_simps)
  show "leaf_aligned l (leaf_update a e) = leaf_aligned l e" by (simp add: leaf_aligned_def d)
  have "drop_bit (10 + 9 * l) x = drop_bit (9 * l) (drop_bit 10 x)" for x :: u64
    by (simp add: drop_bit_drop_bit add.commute)
  then show "leaf_pa l (leaf_update a e) va = leaf_pa l e va"
    unfolding leaf_pa_def by (simp only: d)
qed (auto simp: pte_valid_def pte_leaf_def leaf_permits_def bit_leaf_update split: access.splits)

lemma align_12:
  assumes "take_bit 12 (t :: u64) = 0"
  shows "pte_at l t va AND 7 = 0"
proof -
  have "\<not> bit t n" if "n < 12" for n
    using that arg_cong [OF assms, of "\<lambda>w. bit w n"] by (simp add: bit_simps)
  then have low: "bit t n \<Longrightarrow> 12 \<le> n" for n by (meson not_le)
  have "t = push_bit 12 (drop_bit 12 t)"
    by (rule bit_word_eqI) (use low in \<open>auto simp: bit_simps le_add_diff_inverse\<close>)
  then have "t = drop_bit 12 t * 4096" by (simp add: push_bit_eq_mult)
  then have "pte_at l t va = push_bit 3 (drop_bit 12 t * 512 + take_bit 9 (drop_bit (12 + 9 * l) va))"
    by (simp add: pte_at_def push_bit_eq_mult distrib_right mult.assoc)
  then show ?thesis by (simp only: mask_simps) (rule bit_word_eqI, simp add: bit_simps)
qed

lemma table_aligned: "take_bit 12 (push_bit 12 (p :: u64)) = 0"
  by (rule bit_word_eqI) (simp add: bit_simps)

lemma low_mask: "n < 64 \<Longrightarrow> push_bit n 1 - 1 = (mask n :: u64)"
  by (simp add: mask_eq_decr_exp push_bit_eq_mult)

lemma leaf_pa_alt:
  assumes "level \<le> 4"
  shows "(push_bit 12 (drop_bit 10 e) AND NOT (push_bit (12 + 9 * level) 1 - 1))
    OR (va AND (push_bit (12 + 9 * level) 1 - 1)) = leaf_pa level e va"
proof -
  have m: "push_bit (12 + 9 * level) 1 - 1 = (mask (12 + 9 * level) :: u64)"
    using assms by (intro low_mask) simp
  have idx: "n - 12 + 10 = n - 2" if "12 \<le> n" for n :: nat using that by simp
  show ?thesis
    unfolding m leaf_pa_def by (rule bit_word_eqI) (auto simp: bit_simps dest: bit_imp_le_length)
qed

section \<open>The leaf step\<close>

lemma walk_leaf_spec:
  assumes "level \<le> 4" and "pte_valid e" and "pte_leaf e"
  shows "walk_leaf ops va a m su mx level ad e s =
    (if leaf_aligned level e \<and> leaf_permits a m su mx e
     then seqM (whenM (leaf_update a e \<noteq> e)
                 (mapErrM (\<lambda>_. fault a va) (busM (write64 ops ad (leaf_update a e)))))
            (seqM (cpuM (fill_tlb a va (leaf_pa level e va))) (retM (leaf_pa level e va))) s
     else (Inl (fault a va), s))"
proof -
  have al: "(level > 0 \<and> drop_bit 10 e AND (push_bit (9 * level) 1 - 1) \<noteq> 0) \<longleftrightarrow> \<not> leaf_aligned level e"
    using low_mask [of "9 * level"] assms(1)
    by (cases "level = 0") (auto simp: leaf_aligned_def take_bit_eq_mask)
  show ?thesis
    unfolding walk_leaf_def Let_def and_1_bit leaf_update_alt leaf_pa_alt [OF assms(1)] al
    by (cases m; cases a) (auto simp: leaf_permits_def run_simps)
qed

section \<open>The walk of the hart\<close>

text \<open>The state after a successful walk: the leaf's A/D bits, then the TLB row.\<close>

context word_bus
begin

definition after_walk :: "access \<Rightarrow> u64 \<Rightarrow> nat \<Rightarrow> u64 \<Rightarrow> u64 \<Rightarrow> cpu \<times> 'b \<Rightarrow> cpu \<times> 'b" where
  "after_walk a va l ad e s =
     (fill_tlb a va (leaf_pa l e va) (fst s),
      if leaf_update a e = e then snd s else snd (write64 ops ad (leaf_update a e) (snd s)))"

lemma walk_leaf_run:
  assumes "level \<le> 4" "pte_valid e" "pte_leaf e" "ad AND 7 = 0" "wd (snd s) ad = Some e"
  shows "walk_leaf ops va a m su mx level ad e s =
    (if leaf_aligned level e \<and> leaf_permits a m su mx e
     then (Inr (leaf_pa level e va), after_walk a va level ad e s) else (Inl (fault a va), s))"
proof -
  let ?W = "mapErrM (\<lambda>_. fault a va) (busM (write64 ops ad (leaf_update a e)))"
  let ?s = "(fst s, if leaf_update a e = e then snd s else snd (write64 ops ad (leaf_update a e) (snd s)))"
  have "?W s = (Inr (), fst s, snd (write64 ops ad (leaf_update a e) (snd s)))"
    by (rule run_mapErr run_busM write_pair [OF assms(4,5)])+
  then have "whenM (leaf_update a e \<noteq> e) ?W s = (Inr (), ?s)"
    by (simp add: whenM_def run_simps)
  then show ?thesis
    unfolding walk_leaf_spec [OF assms(1-3)]
    by (simp add: run_seq_Inr [of _ _ "()"] seqM_def bindM_def run_simps after_walk_def)
qed

text \<open>One round of the loop: what it reads, and how it goes on.\<close>

lemma walk_loop_round:
  assumes "take_bit 12 table = 0" and "wd (snd s) (pte_at level table va) = Some e"
  shows "walk_loop ops va a m su mx level table s =
    (if \<not> pte_valid e then (Inl (fault a va), s)
     else if pte_leaf e then walk_leaf ops va a m su mx level (pte_at level table va) e s
     else (case level of 0 \<Rightarrow> (Inl (fault a va), s)
           | Suc l \<Rightarrow> walk_loop ops va a m su mx l (push_bit 12 (drop_bit 10 e)) s))"
proof -
  have "(drop_bit (12 + 9 * level) va AND 0x1ff) = take_bit 9 (drop_bit (12 + 9 * level) va)"
    by (simp add: mask_simps)
  then have ad: "table + (drop_bit (12 + 9 * level) va AND 0x1ff) * 8 = pte_at level table va"
    by (simp add: pte_at_def)
  have "read64 ops (pte_at level table va) (snd s) = (Inr e, snd s)"
    by (rule read_word [OF align_12 [OF assms(1)] assms(2)])
  then have "mapErrM (\<lambda>_. fault a va) (busM (read64 ops (pte_at level table va))) s
    = (Inr e, fst s, snd s)"
    by (intro run_mapErr run_busM)
  then have rd: "mapErrM (\<lambda>_. fault a va) (busM (read64 ops (pte_at level table va))) s = (Inr e, s)"
    by simp
  show ?thesis
    unfolding walk_loop.simps [of ops va a m su mx level table] Let_def ad
    by (subst run_bind_Inr, rule rd, cases level) (simp_all add: and_1_bit and_1_bit0 [of e] pte_valid_def pte_leaf_def run_simps)
qed

theorem walk_loop_spec:
  assumes "level \<le> 4" and "take_bit 12 table = 0" and "pt_find (wd (snd s)) level table va \<noteq> Hole"
  shows "walk_loop ops va a m su mx level table s =
    (case pt_find (wd (snd s)) level table va of
       Leaf l ad e \<Rightarrow>
         if leaf_aligned l e \<and> leaf_permits a m su mx e
         then (Inr (leaf_pa l e va), after_walk a va l ad e s) else (Inl (fault a va), s)
     | _ \<Rightarrow> (Inl (fault a va), s))"
  using assms
proof (induction level arbitrary: table)
  case (0 table)
  then obtain e where e: "wd (snd s) (pte_at 0 table va) = Some e"
    by (auto simp: pt_find.simps split: option.splits)
  show ?case
    using walk_loop_round [OF 0(2) e] walk_leaf_run [OF 0(1) _ _ align_12 [OF 0(2)] e] e
    by (auto simp: pt_find.simps [of _ 0])
next
  case (Suc level table)
  then obtain e where e: "wd (snd s) (pte_at (Suc level) table va) = Some e"
    by (auto simp: pt_find.simps split: option.splits)
  note find = pt_find.simps [of "wd (snd s)" "Suc level" table va]
  show ?case
  proof (cases "pte_valid e \<and> \<not> pte_leaf e")
    case True
    then show ?thesis
      using walk_loop_round [OF Suc(3) e] Suc.IH [OF _ table_aligned] Suc.prems find e by simp
  next
    case False
    then show ?thesis
      using walk_loop_round [OF Suc(3) e] walk_leaf_run [OF Suc(2) _ _ align_12 [OF Suc(3)] e] find e
      by auto
  qed
qed

end

section \<open>Architectural translation\<close>

definition bare :: "cpu \<Rightarrow> access \<Rightarrow> bool" where
  "bare c a \<longleftrightarrow> drop_bit 60 (satp (sys_of c)) = 0 \<or> eff_mode c a = Machine"

definition arch_walk :: "(u64 \<Rightarrow> u64 option) \<Rightarrow> cpu \<Rightarrow> u64 \<Rightarrow> pt_result" where
  "arch_walk mem c va =
     (case sv_levels (drop_bit 60 (satp (sys_of c))) of None \<Rightarrow> Bad
      | Some n \<Rightarrow>
          if canonical n va then pt_find mem (n - 1) (push_bit 12 (satp (sys_of c) AND 0xfffffffffff)) va
          else Bad)"

definition permits :: "cpu \<Rightarrow> access \<Rightarrow> nat \<Rightarrow> u64 \<Rightarrow> bool" where
  "permits c a l e \<longleftrightarrow> leaf_aligned l e \<and>
     leaf_permits a (eff_mode c a) (mstatus (sys_of c) AND MSTATUS_SUM \<noteq> 0)
       (mstatus (sys_of c) AND MSTATUS_MXR \<noteq> 0) e"

definition arch_translate :: "(u64 \<Rightarrow> u64 option) \<Rightarrow> cpu \<Rightarrow> u64 \<Rightarrow> access \<Rightarrow> exception + u64" where
  "arch_translate mem c va a =
     (if bare c a then Inr va
      else (case arch_walk mem c va of
              Leaf l ad e \<Rightarrow> if permits c a l e then Inr (leaf_pa l e va) else Inl (fault a va)
            | _ \<Rightarrow> Inl (fault a va)))"

lemma sv_levels_Some: "sv_levels vm = Some n \<Longrightarrow> n = 3 \<or> n = 4"
  by (auto simp: sv_levels_def split: if_splits)

context word_bus
begin

lemma translate_slow_run:
  assumes "\<not> bare c a \<Longrightarrow> arch_walk (wd b) c va \<noteq> Hole"
  shows "translate_slow ops va a (c, b) =
    (arch_translate (wd b) c va a,
     if bare c a then (c, b)
     else (case arch_walk (wd b) c va of
             Leaf l ad e \<Rightarrow> if permits c a l e then after_walk a va l ad e (c, b) else (c, b)
           | _ \<Rightarrow> (c, b)))"
proof (cases "bare c a")
  case True
  then show ?thesis
    by (simp add: translate_slow_def bare_def arch_translate_def run_simps)
next
  case nb: False
  show ?thesis
  proof (cases "sv_levels (drop_bit 60 (satp (sys_of c)))")
    case None
    with nb show ?thesis
      by (simp add: translate_slow_def bare_def arch_translate_def arch_walk_def run_simps)
  next
    case (Some n)
    then have n: "n - 1 \<le> 4" using sv_levels_Some by fastforce
    show ?thesis
    proof (cases "canonical n va")
      case False
      with nb Some show ?thesis
        by (simp add: translate_slow_def bare_def arch_translate_def arch_walk_def run_simps)
    next
      case True
      let ?t = "push_bit 12 (satp (sys_of c) AND 0xfffffffffff)"
      have w: "arch_walk (wd b) c va = pt_find (wd b) (n - 1) ?t va"
        using Some True by (simp add: arch_walk_def)
      with assms nb have nh: "pt_find (wd (snd (c, b))) (n - 1) ?t va \<noteq> Hole" by simp
      have "translate_slow ops va a (c, b) = walk_loop ops va a (eff_mode c a)
          (mstatus (sys_of c) AND MSTATUS_SUM \<noteq> 0) (mstatus (sys_of c) AND MSTATUS_MXR \<noteq> 0)
          (n - 1) ?t (c, b)"
        using nb Some True by (simp add: translate_slow_def bare_def Let_def)
      also note walk_loop_spec [OF n table_aligned nh]
      finally show ?thesis
        using nb w by (auto simp: arch_translate_def permits_def split: pt_result.splits)
    qed
  qed
qed

end

section \<open>Translation is by the page\<close>

lemma same_page_bit:
  assumes "drop_bit 12 va = drop_bit 12 wa" and "12 \<le> n"
  shows "bit (va :: u64) n = bit wa n"
proof -
  have "bit (drop_bit 12 va) (n - 12) = bit (drop_bit 12 wa) (n - 12)" by (simp only: assms(1))
  then show ?thesis using assms(2) by (simp add: bit_drop_bit_eq)
qed

lemma same_page_canonical:
  assumes "drop_bit 12 va = drop_bit 12 (wa :: u64)" and "0 < n"
  shows "canonical n va = canonical n wa"
proof -
  have "signed_drop_bit (9 * n + 12 - 1) va = signed_drop_bit (9 * n + 12 - 1) wa"
    by (rule bit_word_eqI)
      (use assms(2) same_page_bit [OF assms(1)] in \<open>auto simp: bit_simps\<close>)
  then show ?thesis by (simp add: canonical_def Let_def)
qed

lemma same_page_find:
  assumes "drop_bit 12 va = drop_bit 12 wa"
  shows "pt_find mem l t va = pt_find mem l t wa"
proof -
  have "drop_bit (12 + 9 * k) va = drop_bit (12 + 9 * k) wa" for k
    by (rule bit_word_eqI) (use same_page_bit [OF assms] in \<open>auto simp: bit_simps\<close>)
  then have at: "pte_at k t va = pte_at k t wa" for k t
    by (simp add: pte_at_def)
  show ?thesis
  proof (induction l arbitrary: t)
    case 0
    then show ?case by (simp add: pt_find.simps [of _ 0] at split: option.splits)
  next
    case (Suc l)
    then show ?case by (simp add: pt_find.simps [of _ "Suc l"] at split: option.splits)
  qed
qed

lemma same_page_pa:
  assumes "drop_bit 12 va = drop_bit 12 wa"
  shows "leaf_pa l e va - va = leaf_pa l e wa - wa"
proof -
  let ?h = "\<lambda>d. push_bit (12 + 9 * l) (drop_bit (10 + 9 * l) e) OR push_bit 12 (take_bit (9 * l) d)"
  have pa: "leaf_pa l e v = ?h (drop_bit 12 v) OR take_bit 12 v" for v
    unfolding leaf_pa_def by (rule bit_word_eqI) (auto simp: bit_simps le_add_diff_inverse)
  have "leaf_pa l e v = ?h (drop_bit 12 v) + take_bit 12 v" for v
    unfolding pa by (rule disjunctive_add [symmetric]) (auto simp: bit_simps)
  moreover have "v = push_bit 12 (drop_bit 12 v) + take_bit 12 v" for v :: u64
    by (simp add: bits_ident)
  ultimately have "leaf_pa l e v - v = ?h (drop_bit 12 v) - push_bit 12 (drop_bit 12 v)" for v
    by (metis add_diff_cancel_right)
  then show ?thesis by (simp only: assms)
qed

section \<open>TLB coherence\<close>

text \<open>
  \<open>good_hit mem d a va\<close> is the address difference a walk for an access in the context of hart \<open>d\<close> finds,
  where the walk succeeds and has no A or D bit left to set. \<open>tlb_ok\<close>: every valid entry is
  one, for some context of the same address space, at its index and under its tag.
\<close>

definition good_hit :: "(u64 \<Rightarrow> u64 option) \<Rightarrow> cpu \<Rightarrow> access \<Rightarrow> u64 \<Rightarrow> u64 \<Rightarrow> bool" where
  "good_hit mem d a va diff \<longleftrightarrow> \<not> bare d a \<and>
     (\<exists>l ad e. arch_walk mem d va = Leaf l ad e \<and> permits d a l e \<and> leaf_update a e = e
        \<and> diff = leaf_pa l e va - va)"

definition tlb_ok :: "(u64 \<Rightarrow> u64 option) \<Rightarrow> cpu \<Rightarrow> bool" where
  "tlb_ok mem c \<longleftrightarrow> (\<forall>a i. tlb_tag c (access_ix a) i \<noteq> TLB_INVALID \<longrightarrow>
     (\<exists>d va. sys d \<noteq> None \<and> satp (sys_of d) = satp (sys_of c) \<and> tlb_tag c (access_ix a) i = translation_tag d va
        \<and> good_hit mem d a va (tlb_diff c (access_ix a) i)))"

text \<open>A hit is good in any context that shares the tag.\<close>

lemma good_hit_transfer:
  assumes "good_hit mem d a va diff" and "translation_tag d va = translation_tag c wa"
    and "sys d \<noteq> None" and "sys c \<noteq> None" and "satp (sys_of d) = satp (sys_of c)"
  shows "good_hit mem c a wa diff"
proof -
  from assms(3,4) obtain y z where y: "sys d = Some y" and z: "sys c = Some z" by blast
  have page: "drop_bit 12 va = drop_bit 12 wa" using assms(2) tag_vpn by metis
  have ctx: "translation_context d = translation_context c" using assms(2) tag_context by metis
  note same = context_eq [OF ctx y z]
  have m: "eff_mode d k = eff_mode c k" for k using same(1,2) y z by (simp add: eff_mode_data)
  have "bare d a = bare c a" using assms(5) m by (simp add: bare_def)
  moreover have "permits d a l e = permits c a l e" for l e
    using m same(3,4) y z by (simp add: permits_def)
  moreover have "arch_walk mem d va = arch_walk mem c wa"
    using assms(5) same_page_find [OF page] same_page_canonical [OF page]
    by (auto simp: arch_walk_def split: option.splits dest: sv_levels_Some)
  ultimately show ?thesis
    using assms(1) same_page_pa [OF page] unfolding good_hit_def by metis
qed

lemma good_hit_translate: "good_hit mem c a va diff \<Longrightarrow> arch_translate mem c va a = Inr (va + diff)"
  by (auto simp: good_hit_def arch_translate_def)

lemma tlb_ok_hit:
  assumes "tlb_ok mem c" and "sys c \<noteq> None" and "tlb_tag c (access_ix a) i = translation_tag c va"
  shows "good_hit mem c a va (tlb_diff c (access_ix a) i)"
proof -
  have "tlb_tag c (access_ix a) i \<noteq> TLB_INVALID" using assms(3) tag_not_invalid by simp
  with assms(1) obtain d wa where "sys d \<noteq> None" "satp (sys_of d) = satp (sys_of c)"
    "tlb_tag c (access_ix a) i = translation_tag d wa" "good_hit mem d a wa (tlb_diff c (access_ix a) i)"
    unfolding tlb_ok_def by blast
  then show ?thesis using good_hit_transfer assms(2,3) by metis
qed

text \<open>An A/D update changes no translation.\<close>

lemma pt_find_update:
  assumes "\<forall>k. k AND 7 = 0 \<longrightarrow> mem' k = (if k = ad then Some (leaf_update a e) else mem k)"
    and "mem ad = Some e" "pte_leaf e" "take_bit 12 t = 0"
    and "pt_find mem l t va = Leaf l' ad' e'"
  shows "pt_find mem' l t va = Leaf l' ad' (if ad' = ad then leaf_update a e else e')"
  using assms(4,5)
proof (induction l arbitrary: t)
  case 0
  have al: "pte_at 0 t va AND 7 = 0" by (rule align_12 [OF 0(1)])
  from 0 show ?case
    using assms(2,3) by (auto simp: pt_find.simps [of _ 0] assms(1) [rule_format, OF al] leaf_update_flags
        split: option.splits if_splits)
next
  case (Suc l)
  have al: "pte_at (Suc l) t va AND 7 = 0" by (rule align_12 [OF Suc(2)])
  from Suc(2,3) show ?case
    using assms(2,3) Suc.IH [OF table_aligned]
    by (auto simp: pt_find.simps [of _ "Suc l"] assms(1) [rule_format, OF al] leaf_update_flags
        split: option.splits if_splits)
qed

lemma pt_find_Leaf:
  "pt_find mem l t va = Leaf l' ad e \<Longrightarrow> take_bit 12 t = 0 \<Longrightarrow>
     mem ad = Some e \<and> pte_valid e \<and> pte_leaf e \<and> ad AND 7 = 0 \<and> l' \<le> l"
proof (induction l arbitrary: t)
  case 0
  then show ?case using align_12 [of t 0 va]
    by (auto simp: pt_find.simps [of _ 0] split: option.splits if_splits)
next
  case (Suc l)
  then show ?case using align_12 [of t "Suc l" va] Suc.IH [OF _ table_aligned]
    by (fastforce simp: pt_find.simps [of _ "Suc l"] split: option.splits if_splits)
qed

lemma arch_walk_find:
  assumes "arch_walk mem c va = Leaf l ad e"
  shows "\<exists>n t. n \<le> 3 \<and> take_bit 12 t = 0 \<and> (\<forall>m. arch_walk m c va = pt_find m n t va)"
proof -
  let ?t = "push_bit 12 (satp (sys_of c) AND 0xfffffffffff)"
  from assms obtain n where n: "sv_levels (drop_bit 60 (satp (sys_of c))) = Some n" "canonical n va"
    by (auto simp: arch_walk_def split: option.splits if_splits)
  then have "\<forall>m. arch_walk m c va = pt_find m (n - 1) ?t va" by (simp add: arch_walk_def)
  moreover have "n - 1 \<le> 3" using sv_levels_Some [OF n(1)] by auto
  ultimately show ?thesis using table_aligned by blast
qed

lemma arch_walk_Leaf:
  assumes "arch_walk mem c va = Leaf l ad e"
  shows "mem ad = Some e \<and> pte_valid e \<and> pte_leaf e \<and> ad AND 7 = 0 \<and> l \<le> 3"
proof -
  obtain n t where n: "n \<le> 3" "take_bit 12 t = 0" "\<forall>m. arch_walk m c va = pt_find m n t va"
    using arch_walk_find [OF assms] by blast
  with assms have "pt_find mem n t va = Leaf l ad e" by simp
  from pt_find_Leaf [OF this n(2)] n(1) show ?thesis by simp
qed

lemma arch_walk_update:
  assumes "\<forall>k. k AND 7 = 0 \<longrightarrow> mem' k = (if k = ad then Some (leaf_update a e) else mem k)"
    and "mem ad = Some e" "pte_leaf e" "arch_walk mem c va = Leaf l ad' e'"
  shows "arch_walk mem' c va = Leaf l ad' (if ad' = ad then leaf_update a e else e')"
proof -
  obtain n t where n: "take_bit 12 t = 0" "\<forall>m. arch_walk m c va = pt_find m n t va"
    using arch_walk_find [OF assms(4)] by blast
  with assms(4) have "pt_find mem n t va = Leaf l ad' e'" by simp
  then have "pt_find mem' n t va = Leaf l ad' (if ad' = ad then leaf_update a e else e')"
    by (rule pt_find_update [OF assms(1-3) n(1)])
  then show ?thesis using n(2) by simp
qed

lemma leaf_update_more: "leaf_update b e = e \<Longrightarrow> leaf_update b (leaf_update a e) = leaf_update a e"
proof (rule bit_word_eqI)
  fix n assume "leaf_update b e = e"
  then have "bit (leaf_update b e) n = bit e n" by simp
  then show "bit (leaf_update b (leaf_update a e)) n = bit (leaf_update a e) n"
    by (auto simp: bit_leaf_update)
qed

lemma good_hit_update:
  assumes "\<forall>k. k AND 7 = 0 \<longrightarrow> mem' k = (if k = ad then Some (leaf_update a e) else mem k)"
    and "mem ad = Some e" "pte_leaf e" "good_hit mem d b va diff"
  shows "good_hit mem' d b va diff"
proof -
  from assms(4) obtain l ad' e' where h: "\<not> bare d b" "arch_walk mem d va = Leaf l ad' e'"
    "permits d b l e'" "leaf_update b e' = e'" "diff = leaf_pa l e' va - va"
    unfolding good_hit_def by blast
  have w: "arch_walk mem' d va = Leaf l ad' (if ad' = ad then leaf_update a e else e')"
    by (rule arch_walk_update [OF assms(1-3) h(2)])
  show ?thesis
  proof (cases "ad' = ad")
    case True
    then have "e' = e" using arch_walk_Leaf [OF h(2)] assms(2) by simp
    then show ?thesis
      using True h w unfolding good_hit_def permits_def
      by (auto simp: leaf_update_flags leaf_update_more)
  next
    case False
    then show ?thesis using h w unfolding good_hit_def by auto
  qed
qed

lemma fill_tlb_simps:
  "sys (fill_tlb a va pa c) = sys c"
  "tlb_tag (fill_tlb a va pa c) = rows_set (tlb_tag c) (access_ix a) (tlb_index va) (translation_tag c va)"
  "tlb_diff (fill_tlb a va pa c) = rows_set (tlb_diff c) (access_ix a) (tlb_index va) (pa - va)"
  by (simp_all add: fill_tlb_def Let_def)

lemma tag_sys: "sys d = sys c \<Longrightarrow> translation_tag d va = translation_tag c va"
  by (simp add: translation_tag_def translation_context_def)

lemma context_sys:
  assumes "sys d = sys c"
  shows "bare d a = bare c a" and "arch_walk mem d va = arch_walk mem c va"
    and "permits d a l e = permits c a l e"
proof -
  have s: "sys_of d = sys_of c" using assms by (simp add: sys_of_def)
  then show "bare d a = bare c a" and "arch_walk mem d va = arch_walk mem c va"
    and "permits d a l e = permits c a l e"
    by (simp_all only: bare_def arch_walk_def permits_def eff_mode_def)
qed

lemma tlb_ok_fill:
  assumes "tlb_ok mem c" and "sys c \<noteq> None" and "good_hit mem c a va (pa - va)"
  shows "tlb_ok mem (fill_tlb a va pa c)"
  unfolding tlb_ok_def
proof (intro allI impI)
  fix k i
  let ?c = "fill_tlb a va pa c"
  assume valid: "tlb_tag ?c (access_ix k) i \<noteq> TLB_INVALID"
  have s: "sys_of ?c = sys_of c" by (simp add: sys_of_def fill_tlb_simps)
  show "\<exists>d v. sys d \<noteq> None \<and> satp (sys_of d) = satp (sys_of ?c) \<and> tlb_tag ?c (access_ix k) i = translation_tag d v
      \<and> good_hit mem d k v (tlb_diff ?c (access_ix k) i)"
  proof (cases "k = a \<and> i = tlb_index va")
    case True
    then have "tlb_tag ?c (access_ix k) i = translation_tag c va"
      "tlb_diff ?c (access_ix k) i = pa - va"
      by (simp_all add: fill_tlb_simps rows_set_apply)
    then show ?thesis using assms(2,3) True s by metis
  next
    case False
    then have "tlb_tag ?c (access_ix k) i = tlb_tag c (access_ix k) i"
      "tlb_diff ?c (access_ix k) i = tlb_diff c (access_ix k) i"
      by (auto simp: fill_tlb_simps rows_set_apply)
    then show ?thesis using assms(1) valid s unfolding tlb_ok_def by simp
  qed
qed

lemma tlb_ok_flush: "tlb_ok mem (flush_tlb c)"
  by (simp add: tlb_ok_def flush_tlb_def rows_fill_def)

lemma tlb_ok_flush_page: "tlb_ok mem c \<Longrightarrow> tlb_ok mem (flush_tlb_page va c)"
  unfolding tlb_ok_def
  by (simp add: flush_tlb_page_def Let_def flush_page_rows_apply sys_of_def)

lemma tlb_ok_context:
  "tlb_ok mem c \<Longrightarrow> satp (sys_of d) = satp (sys_of c) \<Longrightarrow> tlb_tag d = tlb_tag c \<Longrightarrow>
    tlb_diff d = tlb_diff c \<Longrightarrow> tlb_ok mem d"
  by (simp add: tlb_ok_def)

text \<open>
  The accesses of a hart, interleaved with what may happen between them: the privileged state may change
  in every way that keeps the address space (traps, returns, CSR writes), a page may be flushed, and
  with a full flush the address space and the memory may become any other.
\<close>

inductive mmu_reach :: "'b bus_ops \<Rightarrow> ('b \<Rightarrow> u64 \<Rightarrow> u64 option) \<Rightarrow> cpu \<times> 'b \<Rightarrow> cpu \<times> 'b \<Rightarrow> bool"
  for ops wd s0 where
  start: "mmu_reach ops wd s0 s0"
| step_access: "mmu_reach ops wd s0 (c, b) \<Longrightarrow> \<not> bare c a \<longrightarrow> arch_walk (wd b) c va \<noteq> Hole \<Longrightarrow>
    mmu_reach ops wd s0 (snd (translate ops va a (c, b)))"
| step_context: "mmu_reach ops wd s0 (c, b) \<Longrightarrow> sys d \<noteq> None \<Longrightarrow> satp (sys_of d) = satp (sys_of c) \<Longrightarrow>
    tlb_tag d = tlb_tag c \<Longrightarrow> tlb_diff d = tlb_diff c \<Longrightarrow> mmu_reach ops wd s0 (d, b)"
| step_flush_page: "mmu_reach ops wd s0 (c, b) \<Longrightarrow> mmu_reach ops wd s0 (flush_tlb_page va c, b)"
| step_flush: "mmu_reach ops wd s0 s \<Longrightarrow> sys d \<noteq> None \<Longrightarrow> mmu_reach ops wd s0 (flush_tlb d, b)"

context word_bus
begin

lemma after_walk_ok:
  assumes "tlb_ok (wd b) c" and "sys c \<noteq> None" and "\<not> bare c a"
    and "arch_walk (wd b) c va = Leaf l ad e" and "permits c a l e"
  shows "case after_walk a va l ad e (c, b) of (c', b') \<Rightarrow> tlb_ok (wd b') c' \<and> sys c' = sys c"
proof -
  note lf = arch_walk_Leaf [OF assms(4)]
  let ?b = "if leaf_update a e = e then b else snd (write64 ops ad (leaf_update a e) b)"
  have upd: "\<forall>k. k AND 7 = 0 \<longrightarrow> wd ?b k = (if k = ad then Some (leaf_update a e) else wd b k)"
    using lf write_word [of ad b e] by auto
  have good: "good_hit (wd ?b) d k v diff" if "good_hit (wd b) d k v diff" for d k v diff
    by (rule good_hit_update [OF upd _ _ that]) (use lf in auto)
  have "arch_walk (wd ?b) c va = Leaf l ad (leaf_update a e)"
    using arch_walk_update [OF upd _ _ assms(4)] lf by simp
  then have new: "good_hit (wd ?b) c a va (leaf_pa l e va - va)"
    using assms(3,5) unfolding good_hit_def permits_def
    by (auto simp: leaf_update_flags bit_leaf_update intro!: leaf_update_idem)
  have "tlb_ok (wd ?b) c" using assms(1) good unfolding tlb_ok_def by blast
  from tlb_ok_fill [OF this assms(2) new] show ?thesis
    by (simp only: after_walk_def fill_tlb_simps prod.case fst_conv snd_conv)
qed

lemma translate_coherent:
  assumes "tlb_ok (wd b) c" and "sys c \<noteq> None" and "\<not> bare c a \<Longrightarrow> arch_walk (wd b) c va \<noteq> Hole"
  shows "fst (translate ops va a (c, b)) = arch_translate (wd b) c va a"
    and "case snd (translate ops va a (c, b)) of (c', b') \<Rightarrow> tlb_ok (wd b') c' \<and> sys c' = sys c"
proof -
  from assms(2) obtain y where y: "sys c = Some y" by blast
  have "fst (translate ops va a (c, b)) = arch_translate (wd b) c va a
    \<and> (case snd (translate ops va a (c, b)) of (c', b') \<Rightarrow> tlb_ok (wd b') c' \<and> sys c' = sys c)"
  proof (cases "tlb_tag c (access_ix a) (tlb_index va) = translation_tag c va")
    case True
    then have "translate ops va a (c, b) = (Inr (va + tlb_diff c (access_ix a) (tlb_index va)), c, b)"
      using y by (simp add: translate_def Let_def run_simps)
    moreover note good_hit_translate [OF tlb_ok_hit [OF assms(1,2) True]]
    ultimately show ?thesis using assms(1) by simp
  next
    case False
    then have "translate ops va a (c, b) = translate_slow ops va a (c, b)"
      using y by (simp add: translate_def Let_def)
    moreover have "translate_slow ops va a (c, b) =
      (arch_translate (wd b) c va a,
       if bare c a then (c, b)
       else (case arch_walk (wd b) c va of
               Leaf l ad e \<Rightarrow> if permits c a l e then after_walk a va l ad e (c, b) else (c, b)
             | _ \<Rightarrow> (c, b)))"
      by (rule translate_slow_run [OF assms(3)])
    ultimately show ?thesis
      using after_walk_ok [OF assms(1,2)] assms(1) by (auto split: pt_result.splits)
  qed
  then show "fst (translate ops va a (c, b)) = arch_translate (wd b) c va a"
    and "case snd (translate ops va a (c, b)) of (c', b') \<Rightarrow> tlb_ok (wd b') c' \<and> sys c' = sys c"
    by auto
qed

lemma reach_ok:
  assumes "mmu_reach ops wd (flush_tlb c0, b0) s" and "sys c0 \<noteq> None"
  shows "tlb_ok (wd (snd s)) (fst s) \<and> sys (fst s) \<noteq> None"
  using assms
proof (induction rule: mmu_reach.induct)
  case start
  then show ?case by (simp add: tlb_ok_flush) (simp add: flush_tlb_def)
next
  case (step_access c b a va)
  then show ?case using translate_coherent(2) [of b c a va] by (auto split: prod.splits)
next
  case (step_context c b d)
  then show ?case using tlb_ok_context by auto
next
  case (step_flush_page c b va)
  then show ?case using tlb_ok_flush_page by (auto simp: flush_tlb_page_def Let_def)
next
  case (step_flush s d b)
  then show ?case by (simp add: tlb_ok_flush) (simp add: flush_tlb_def)
qed

end

section \<open>The properties of translation\<close>

text \<open>
  Property C10. The page walk of the hart is the architectural one: whenever the table entries it visits are
  memory, it returns exactly the architectural translation, and the fault of the access class otherwise;
  a successful walk sets the A bit of the leaf (the D bit too for a store) and fills the TLB row, and a
  failed one changes nothing.
\<close>

theorem translate_slow_refines:
  assumes "word_bus ops wd" and "\<not> bare c a \<Longrightarrow> arch_walk (wd b) c va \<noteq> Hole"
  shows "translate_slow ops va a (c, b) =
    (arch_translate (wd b) c va a,
     if bare c a then (c, b)
     else (case arch_walk (wd b) c va of
             Leaf l ad e \<Rightarrow>
               if permits c a l e
               then (fill_tlb a va (leaf_pa l e va) c,
                     if leaf_update a e = e then b else snd (write64 ops ad (leaf_update a e) b))
               else (c, b)
           | _ \<Rightarrow> (c, b)))"
  using word_bus.translate_slow_run [OF assms]
  by (simp add: word_bus.after_walk_def [OF assms(1)] split: pt_result.splits)

text \<open>A table of one gigapage, accessed, mapped for user code: readable, writable, not executable.\<close>

definition demo_bus :: flat_memory where
  "demo_bus = \<lparr>fm_base = 0x1000, fm_mem = to_le 8 (0x57 :: u64)\<rparr>"

definition demo_cpu :: cpu where
  "demo_cpu = cpu_new\<lparr>sys := Some (sys_new\<lparr>sys_mode := User, satp := push_bit 60 8 OR 1\<rparr>)\<rparr>"

lemma demo_word: "flat_words demo_bus 0x1000 = Some 0x57"
proof -
  have "flat_offset demo_bus 0x1000 8 = Some 0"
    by (simp add: flat_offset_def demo_bus_def checked_sub_def checked_add_def)
  moreover have "from_le (slice_at 0 8 (fm_mem demo_bus)) = (0x57 :: u64)"
    unfolding demo_bus_def slice_at_def by (simp add: from_le_to_le)
  ultimately show ?thesis by (simp add: flat_words_def)
qed

lemma demo_context: "eff_mode demo_cpu a = User" "\<not> bare demo_cpu a" "sys demo_cpu \<noteq> None"
  by (simp_all add: demo_cpu_def bare_def eff_mode_def Let_def sys_new_mstatus mstatus_defs)

lemma demo_walk: "arch_walk (flat_words demo_bus) demo_cpu 0x2345 = Leaf 2 0x1000 0x57"
proof -
  have "pte_at 2 (push_bit 12 1) 0x2345 = 0x1000" by (simp add: pte_at_def)
  moreover have "pte_valid 0x57" "pte_leaf 0x57" by (simp_all add: pte_valid_def pte_leaf_def)
  ultimately have "pt_find (flat_words demo_bus) 2 (push_bit 12 1) 0x2345 = Leaf 2 0x1000 0x57"
    using demo_word by (simp add: pt_find.simps [of _ 2] del: push_bit_of_1)
  then show ?thesis
    by (simp add: arch_walk_def demo_cpu_def sv_levels_def canonical_def Let_def)
qed

lemma demo_walk_more: "arch_walk (flat_words demo_bus) demo_cpu 0x2ff8 = Leaf 2 0x1000 0x57"
proof -
  have "pt_find (flat_words demo_bus) n t 0x2ff8 = pt_find (flat_words demo_bus) n t 0x2345" for n t
    by (rule same_page_find) simp
  then show ?thesis
    using demo_walk by (simp add: arch_walk_def demo_cpu_def sv_levels_def canonical_def Let_def)
qed

lemma demo_permits: "permits demo_cpu Load 2 0x57"
  using demo_context
  by (simp add: permits_def leaf_aligned_def leaf_permits_def demo_cpu_def)

lemma demo_translate: "arch_translate (flat_words demo_bus) demo_cpu 0x2345 Load = Inr 0x2345"
  using demo_walk demo_context demo_permits by (simp add: arch_translate_def leaf_pa_def)

theorem translate_slow_witness:
  "fst (translate_slow flat_bus 0x2345 Load (demo_cpu, demo_bus)) = Inr 0x2345"
  using translate_slow_refines [OF flat.word_bus_axioms, of demo_cpu Load demo_bus "0x2345"]
    demo_walk demo_translate by simp

text \<open>
  Property C1. The TLB is transparent. From a flushed TLB, after any accesses, traps and other changes of
  the permission context within the address space, page flushes, and address-space switches with a
  full flush, a translation returns what an architectural walk of the current tables in the current
  context returns: hits never outlive the context, and A/D updates never stale an entry.
\<close>

theorem tlb_transparent:
  assumes "word_bus ops wd" and "sys c0 \<noteq> None"
    and "mmu_reach ops wd (flush_tlb c0, b0) (c, b)"
    and "\<not> bare c a \<longrightarrow> arch_walk (wd b) c va \<noteq> Hole"
  shows "fst (translate ops va a (c, b)) = arch_translate (wd b) c va a"
  using word_bus.translate_coherent(1) [OF assms(1)] word_bus.reach_ok [OF assms(1,3,2)] assms(4) by simp

theorem tlb_transparent_witness:
  "let s = snd (translate flat_bus 0x2345 Load (flush_tlb demo_cpu, demo_bus)) in
   fst (translate flat_bus 0x2ff8 Load s) = arch_translate (flat_words (snd s)) (fst s) 0x2ff8 Load"
proof -
  let ?c = "flush_tlb demo_cpu"
  let ?s = "snd (translate flat_bus 0x2345 Load (?c, demo_bus))"
  have sy: "sys ?c = sys demo_cpu" by (simp add: flush_tlb_def)
  have w: "arch_walk (flat_words demo_bus) ?c 0x2345 = Leaf 2 0x1000 0x57"
    using demo_walk context_sys(2) [OF sy] by simp
  have miss: "tlb_tag ?c 1 (tlb_index 0x2345) \<noteq> translation_tag ?c 0x2345"
    using tag_not_invalid [of ?c "0x2345"] by (auto simp: flush_tlb_def rows_fill_def)
  have "translate flat_bus 0x2345 Load (?c, demo_bus) = translate_slow flat_bus 0x2345 Load (?c, demo_bus)"
    using demo_context(3) sy miss by (auto simp: translate_def Let_def)
  moreover have "leaf_update Load 0x57 = 0x57" by (simp add: leaf_update_def set_bit_eq)
  ultimately have s: "?s = (fill_tlb Load 0x2345 (leaf_pa 2 0x57 0x2345) ?c, demo_bus)"
    using flat.translate_slow_run [of ?c Load demo_bus "0x2345"] w demo_context(2) demo_permits
      context_sys(1,3) [OF sy]
    by (simp only: flat.after_walk_def) simp
  have sy2: "sys (fst ?s) = sys demo_cpu" unfolding s by (simp only: fst_conv fill_tlb_simps sy)
  have "arch_walk (flat_words (snd ?s)) (fst ?s) 0x2ff8 = arch_walk (flat_words demo_bus) demo_cpu 0x2ff8"
    unfolding context_sys(2) [OF sy2] by (simp only: s snd_conv)
  then have nh: "\<not> bare (fst ?s) Load \<longrightarrow> arch_walk (flat_words (snd ?s)) (fst ?s) 0x2ff8 \<noteq> Hole"
    by (simp only: demo_walk_more) simp
  have "mmu_reach flat_bus flat_words (?c, demo_bus) ?s"
    by (rule step_access [OF start]) (simp only: w, simp)
  then have "mmu_reach flat_bus flat_words (?c, demo_bus) (fst ?s, snd ?s)" by (simp only: prod.collapse)
  from tlb_transparent [OF flat.word_bus_axioms demo_context(3) this nh]
  show ?thesis by (simp only: Let_def prod.collapse)
qed

text \<open>
  Property C11. A translation that succeeds is permitted: outside bare addressing, user code reaches only user
  pages, supervisor code reaches a user page only for data and with SUM set, a store needs W and a
  fetch needs X, and the offset in the page is kept.
\<close>

theorem translate_permission_safe:
  assumes "word_bus ops wd" and "sys c0 \<noteq> None"
    and "mmu_reach ops wd (flush_tlb c0, b0) (c, b)"
    and "\<not> bare c a" and "arch_walk (wd b) c va \<noteq> Hole"
    and "fst (translate ops va a (c, b)) = Inr pa"
  shows "\<exists>l ad e. arch_walk (wd b) c va = Leaf l ad e
    \<and> (eff_mode c a = User \<longrightarrow> bit e 4)
    \<and> (eff_mode c a = Supervisor \<and> bit e 4 \<longrightarrow> mstatus (sys_of c) AND MSTATUS_SUM \<noteq> 0 \<and> a \<noteq> Fetch)
    \<and> (a = Store \<longrightarrow> bit e 2) \<and> (a = Fetch \<longrightarrow> bit e 3)
    \<and> take_bit 12 pa = take_bit 12 va"
proof -
  have "arch_translate (wd b) c va a = Inr pa"
    using word_bus.translate_coherent(1) [OF assms(1)] word_bus.reach_ok [OF assms(1,3,2)] assms(5,6)
    by simp
  then obtain l ad e where e: "arch_walk (wd b) c va = Leaf l ad e" "permits c a l e" "pa = leaf_pa l e va"
    using assms(4) by (auto simp: arch_translate_def split: pt_result.splits if_splits)
  have "take_bit 12 pa = take_bit 12 va"
    unfolding e(3) leaf_pa_def by (rule bit_word_eqI) (auto simp: bit_simps)
  with e(1,2) show ?thesis
    unfolding permits_def leaf_permits_def by (cases a) auto
qed

theorem translate_permission_witness:
  "let c = flush_tlb demo_cpu in
   \<exists>l ad e. arch_walk (flat_words demo_bus) c 0x2345 = Leaf l ad e \<and> (eff_mode c Load = User \<longrightarrow> bit e 4)"
proof -
  let ?c = "flush_tlb demo_cpu"
  have sy: "sys ?c = sys demo_cpu" by (simp add: flush_tlb_def)
  have w: "arch_walk (flat_words demo_bus) ?c 0x2345 = Leaf 2 0x1000 0x57"
    using demo_walk context_sys(2) [OF sy] by simp
  then have nh: "arch_walk (flat_words demo_bus) ?c 0x2345 \<noteq> Hole" by simp
  have nb: "\<not> bare ?c Load" using demo_context(2) context_sys(1) [OF sy] by simp
  have "sys ?c \<noteq> None" using sy demo_context(3) by simp
  then have t: "fst (translate flat_bus 0x2345 Load (?c, demo_bus)) = Inr (leaf_pa 2 0x57 0x2345)"
    using flat.translate_coherent(1) [OF tlb_ok_flush _ nh] w nb demo_permits context_sys(3) [OF sy]
    by (simp add: arch_translate_def)
  show ?thesis
    using translate_permission_safe [OF flat.word_bus_axioms demo_context(3) start nb nh t] by (auto simp: Let_def)
qed

section \<open>Loads and stores\<close>

lemma flat_bus_simps:
  "read8 flat_bus = flat_read 1" "read16 flat_bus = flat_read 2" "read32 flat_bus = flat_read 4"
  "read64 flat_bus = flat_read 8" "write8 flat_bus = flat_write 1" "write16 flat_bus = flat_write 2"
  "write32 flat_bus = flat_write 4" "write64 flat_bus = flat_write 8"
  "jit_fast_off flat_bus va pa k b = None"
  by (simp_all add: flat_bus_def default_jit_fast_off_def)

section \<open>Accesses that cross a page\<close>

lemma translate_bare:
  assumes "tlb_ok mem c" and "sys c \<noteq> None" and "bare c a"
  shows "translate ops va a (c, b) = (Inr va, c, b)"
proof -
  from assms(2) obtain y where y: "sys c = Some y" by blast
  have "tlb_tag c (access_ix a) (tlb_index va) \<noteq> translation_tag c va"
    using tlb_ok_hit [OF assms(1,2)] assms(3) unfolding good_hit_def by blast
  then show ?thesis
    using y assms(3) by (simp add: translate_def Let_def translate_slow_def bare_def run_simps)
qed

lemma flat_read_byte:
  assumes "flat_offset b va (of_nat n) = Some k" and "unat va + n \<le> 2 ^ 64" and "i < n" and "n < 16"
  shows "flat_read 1 (va + of_nat i) b = (Inr (fm_mem b ! (k + i)), b)"
proof -
  have n: "unat (of_nat n :: u64) = n" "unat (of_nat i :: u64) = i"
    using assms(3,4) by (simp_all add: unat_of_nat)
  have "unat (va + of_nat i) = unat va + i"
    using assms(2,3) n by (simp add: unat_word_ariths)
  then have "flat_offset b (va + of_nat i) 1 = Some (k + i)"
    using assms(1,3) n unfolding flat_offset_Some by (simp del: One_nat_def) linarith
  moreover have "k + i < length (fm_mem b)"
    using flat_offset_bound [OF assms(1)] assms(3) n by simp
  moreover have "slice_at (k + i) 1 (fm_mem b) = [fm_mem b ! (k + i)]" if "k + i < length (fm_mem b)"
    using that by (simp add: slice_at_def take_Suc_conv_app_nth)
  ultimately show ?thesis by (simp add: flat_read_def)
qed

lemma byte_position: "8 * n \<le> j \<and> bit (w :: u8) (j - 8 * n) \<longleftrightarrow> j div 8 = n \<and> bit w (j mod 8)"
proof
  assume a: "8 * n \<le> j \<and> bit w (j - 8 * n)"
  then have d: "j - 8 * n < 8" using bit_imp_le_length [of w] by fastforce
  from a have "j = 8 * n + (j - 8 * n)" by simp
  then obtain d where "j = 8 * n + d" "d < 8" using d by blast
  with a show "j div 8 = n \<and> bit w (j mod 8)" by simp
next
  assume a: "j div 8 = n \<and> bit w (j mod 8)"
  then have "j = 8 * n + j mod 8" by (metis mult_div_mod_eq)
  then have "8 * n \<le> j" "j - 8 * n = j mod 8" by linarith+
  with a show "8 * n \<le> j \<and> bit w (j - 8 * n)" by simp
qed

lemma bit_fold_bytes:
  "bit (fold (\<lambda>i v. v OR push_bit (8 * i) (ucast (g i :: u8))) [0..<n] (0 :: u64)) j \<longleftrightarrow>
      j < 64 \<and> j div 8 < n \<and> bit (g (j div 8)) (j mod 8)"
proof (induction n)
  case (Suc n)
  have "bit (push_bit (8 * n) (ucast (g n)) :: u64) j \<longleftrightarrow> j < 64 \<and> 8 * n \<le> j \<and> bit (g n) (j - 8 * n)"
    by (auto simp: bit_simps)
  also have "\<dots> \<longleftrightarrow> j < 64 \<and> j div 8 = n \<and> bit (g n) (j mod 8)"
    using byte_position [of n j "g n"] by blast
  finally show ?case using Suc by (auto simp: bit_or_iff less_Suc_eq)
qed simp

lemma fold_bytes:
  assumes "n \<le> 8" and "k + n \<le> length mem"
  shows "fold (\<lambda>i v. v OR push_bit (8 * i) (ucast (mem ! (k + i)))) [0..<n] 0 = (from_le (slice_at k n mem) :: u64)"
  by (rule bit_word_eqI)
    (use assms in \<open>auto simp: bit_fold_bytes bit_from_le nth_slice_at length_slice_at\<close>)

lemma ld_bytes_flat:
  assumes "tlb_ok (flat_words b) c" and "sys c \<noteq> None" and "bare c Load"
    and "flat_offset b va (of_nat n) = Some k" and "unat va + n \<le> 2 ^ 64" and "n < 16"
    and "set is \<subseteq> {..<n}"
  shows "ld_bytes flat_bus va is v (c, b) =
    (Inr (fold (\<lambda>i v. v OR push_bit (8 * i) (ucast (fm_mem b ! (k + i)))) is v), c, b)"
  using assms(7)
proof (induction "is" arbitrary: v)
  case (Cons i "is")
  then have "i < n" by simp
  then have "flat_read 1 (va + of_nat i) b = (Inr (fm_mem b ! (k + i)), b)"
    by (rule flat_read_byte [OF assms(4,5) _ assms(6)])
  then have r: "busM (read8 flat_bus (va + of_nat i)) (c, b) = (Inr (fm_mem b ! (k + i)), c, b)"
    by (simp add: busM_def flat_bus_simps)
  show ?case
    unfolding ld_bytes.simps
    apply (subst run_bind_Inr, rule translate_bare [OF assms(1-3)])
    apply (subst run_bind_Inr, rule r)
    using Cons by simp
qed (simp add: run_simps)

text \<open>
  Property C32. An access that crosses a page is split into bytes, each translated by itself; with an identity
  mapping the bytes put together are the value one wide read would give.
\<close>

theorem ld_split_is_wide:
  assumes "tlb_ok (flat_words b) c" and "sys c \<noteq> None" and "bare c Load"
    and "flat_offset b va (of_nat n) = Some k" and "unat va + n \<le> 2 ^ 64" and "n \<in> {2, 4, 8}"
    and "crosses_page n va c"
  shows "ld_mem flat_bus n va (c, b) = (Inr (from_le (slice_at k n (fm_mem b))), c, b)"
proof -
  have n: "n < 16" "n \<le> 8" using assms(6) by auto
  have "k + n \<le> length (fm_mem b)"
    using flat_offset_bound [OF assms(4)] n by (simp add: unat_of_nat)
  moreover have "ld_mem flat_bus n va (c, b) = ld_bytes flat_bus va [0..<n] 0 (c, b)"
    using assms(7) by (simp add: ld_mem_def bindM_def run_simps)
  ultimately show ?thesis
    using ld_bytes_flat [OF assms(1-5) n(1), of "[0..<n]" 0] fold_bytes [OF n(2)]
    by (simp add: atLeast0LessThan)
qed

lemma enable_system_simps:
  "tlb_tag (enable_system h c) = tlb_tag c" "sys (enable_system h c) = Some (sys_new\<lparr>mhartid := h\<rparr>)"
  by (simp_all add: enable_system_def refresh_jit_tlb_context_def Let_def)

lemma tlb_ok_boot: "tlb_ok mem (enable_system h cpu_new)"
  by (simp add: tlb_ok_def enable_system_simps) (simp add: cpu_new_def rows_new_def)

theorem ld_split_witness:
  "fst (ld_mem flat_bus 2 0x1fff (enable_system 0 cpu_new, \<lparr>fm_base = 0x1ffe, fm_mem = [1, 2, 3, 4]\<rparr>)) = Inr 0x302"
proof -
  let ?c = "enable_system 0 cpu_new" and ?b = "\<lparr>fm_base = 0x1ffe, fm_mem = [1, 2, 3, 4]\<rparr>"
  have "sys ?c \<noteq> None" "crosses_page 2 0x1fff ?c" "bare ?c Load"
    by (simp_all add: enable_system_simps crosses_page_def bare_def sys_of_def sys_new_def)
  moreover have "flat_offset ?b 0x1fff (of_nat 2) = Some 1"
    by (simp add: flat_offset_def checked_sub_def checked_add_def)
  moreover have "from_le (slice_at 1 2 (fm_mem ?b)) = (0x302 :: u64)"
    by (simp add: slice_at_def)
  ultimately show ?thesis
    using ld_split_is_wide [OF tlb_ok_boot, of 0 ?b "0x1fff" 2 1] by simp
qed

end
