(* ===== verification/Trap.thy ===== *)
theory Trap
  imports MmuSpec
begin

unbundle bit_operations_syntax

text \<open>
  Traps of the hart, \<^verbatim>\<open>crates/rv64-core/src/cpu.rs\<close>: trap entry with delegation (\<open>take_trap\<close>), the
  mapping from exceptions (\<open>exception_to_trap\<close>), interrupt selection (\<open>check_interrupts\<close>) and the
  returns \<open>exec_mret\<close> and \<open>exec_sret\<close>. The lemmas describe every bit of \<^verbatim>\<open>mstatus\<close> across an entry and
  a return, show that a return undoes an entry, and that the interrupt taken is the first
  deliverable one of the priority list.
\<close>

section \<open>Trap entry\<close>

definition cause_word :: "u64 \<Rightarrow> bool \<Rightarrow> u64" where
  "cause_word cau is_interrupt = (if is_interrupt then push_bit 63 1 OR cau else cau)"

definition vector_pc :: "u64 \<Rightarrow> u64 \<Rightarrow> bool \<Rightarrow> u64" where
  "vector_pc tvec cau is_interrupt =
     (let base = tvec AND NOT 3
      in if tvec AND 3 = 1 \<and> is_interrupt then base + 4 * cau else base)"

definition trap_to_s :: "u64 \<Rightarrow> u64 \<Rightarrow> u64 \<Rightarrow> sys_csrs \<Rightarrow> sys_csrs" where
  "trap_to_s cause_val tval epc y =
     (let sie = drop_bit 1 (mstatus y) AND 1
      in y\<lparr>scause := cause_val, stval := tval, sepc := epc,
           mstatus := (mstatus y AND NOT (MSTATUS_SPIE OR MSTATUS_SPP OR MSTATUS_SIE))
             OR push_bit 5 sie
             OR (if sys_mode y = Supervisor then MSTATUS_SPP else 0),
           sys_mode := Supervisor\<rparr>)"

definition trap_to_m :: "u64 \<Rightarrow> u64 \<Rightarrow> u64 \<Rightarrow> sys_csrs \<Rightarrow> sys_csrs" where
  "trap_to_m cause_val tval epc y =
     (let mieb = drop_bit 3 (mstatus y) AND 1
      in y\<lparr>mcause := cause_val, mtval := tval, mepc := epc,
           mstatus := (mstatus y AND NOT (MSTATUS_MPIE OR MSTATUS_MPP OR MSTATUS_MIE))
             OR push_bit 7 mieb
             OR push_bit 11 (mode_bits (sys_mode y)),
           sys_mode := Machine\<rparr>)"

definition trap_delegated :: "u64 \<Rightarrow> bool \<Rightarrow> sys_csrs \<Rightarrow> bool" where
  "trap_delegated cau is_interrupt y \<longleftrightarrow>
     (let deleg = (if is_interrupt then mideleg y else medeleg y);
          bt = push_bit (unat (cau AND 63)) 1
      in sys_mode y \<noteq> Machine \<and> deleg AND bt \<noteq> 0)"

text \<open>The bookkeeping before the privileged state is touched.\<close>

definition trap_prologue :: "u64 \<Rightarrow> bool \<Rightarrow> cpu \<Rightarrow> cpu" where
  "trap_prologue cau is_interrupt c =
     (let c1 = c\<lparr>irq_poll_cd := 0, reservation := None\<rparr>;
          c2 = (if \<not> is_interrupt \<and> cau = 8 then
                  (let root = (case sys c1 of None \<Rightarrow> 0 | Some y \<Rightarrow> satp y)
                   in c1\<lparr>syscall_log := (syscall_log c1)(syscall_log_pos c1 := (xreg c1 17, root)),
                         syscall_log_pos := (syscall_log_pos c1 + 1) mod 64\<rparr>)
                else c1);
          k = unat (cau AND 15)
      in if is_interrupt then c2\<lparr>irq_counts := (irq_counts c2)(k := irq_counts c2 k + 1)\<rparr>
         else c2\<lparr>exc_counts := (exc_counts c2)(k := exc_counts c2 k + 1)\<rparr>)"

definition take_trap :: "u64 \<Rightarrow> u64 \<Rightarrow> bool \<Rightarrow> cpu \<Rightarrow> cpu" where
  "take_trap cau tval is_interrupt c =
     (let c1 = trap_prologue cau is_interrupt c;
          y = sys_of c1;
          cause_val = cause_word cau is_interrupt
      in refresh_jit_tlb_context
           (if trap_delegated cau is_interrupt y
            then c1\<lparr>sys := Some (trap_to_s cause_val tval (pc c1) y),
                    pc := vector_pc (stvec y) cau is_interrupt\<rparr>
            else c1\<lparr>sys := Some (trap_to_m cause_val tval (pc c1) y),
                    pc := vector_pc (mtvec y) cau is_interrupt\<rparr>))"

fun trap_value :: "exception \<Rightarrow> cpu \<Rightarrow> u64" where
  "trap_value (InstructionAddressMisaligned addr) c = addr"
| "trap_value (InstructionAccessFault addr) c = addr"
| "trap_value (IllegalInstruction insn) c = ucast insn"
| "trap_value Breakpoint c = pc c"
| "trap_value (LoadAddressMisaligned addr) c = addr"
| "trap_value (LoadAccessFault addr) c = addr"
| "trap_value (StoreAddressMisaligned addr) c = addr"
| "trap_value (StoreAccessFault addr) c = addr"
| "trap_value EnvironmentCallFromUMode c = 0"
| "trap_value EnvironmentCallFromSMode c = 0"
| "trap_value EnvironmentCallFromMMode c = 0"
| "trap_value (InstructionPageFault addr) c = addr"
| "trap_value (LoadPageFault addr) c = addr"
| "trap_value (StorePageFault addr) c = addr"

text \<open>\<open>exception_to_trap\<close> repeats the cause codes of \<^verbatim>\<open>Exception::cause\<close>.\<close>

definition exception_to_trap :: "exception \<Rightarrow> cpu \<Rightarrow> cpu" where
  "exception_to_trap e c = take_trap (cause e) (trap_value e c) False c"

section \<open>Interrupts\<close>

definition HW :: u64 where "HW = IRQ_MTIP OR IRQ_MSIP OR IRQ_MEIP OR IRQ_SEIP"

definition irq_deliverable :: "sys_csrs \<Rightarrow> u64 \<Rightarrow> bool" where
  "irq_deliverable y irq =
     (let bt = push_bit (unat irq) 1;
          m_enabled = sys_mode y \<noteq> Machine \<or> mstatus y AND MSTATUS_MIE \<noteq> 0;
          s_enabled = sys_mode y = User \<or> (sys_mode y = Supervisor \<and> mstatus y AND MSTATUS_SIE \<noteq> 0);
          target_s = mideleg y AND bt \<noteq> 0
      in if target_s then sys_mode y = User \<or> (sys_mode y = Supervisor \<and> s_enabled)
         else sys_mode y \<noteq> Machine \<or> m_enabled)"

fun first_irq :: "sys_csrs \<Rightarrow> u64 \<Rightarrow> u64 list \<Rightarrow> u64 option" where
  "first_irq y pending [] = None"
| "first_irq y pending (irq # rest) =
     (if pending AND push_bit (unat irq) 1 = 0 then first_irq y pending rest
      else if irq_deliverable y irq then Some irq else first_irq y pending rest)"

definition irq_priority :: "u64 list" where
  "irq_priority = [11, 3, 7, 9, 1, 5]"

definition check_interrupts :: "'b bus_ops \<Rightarrow> cpu \<times> 'b \<Rightarrow> bool \<times> cpu \<times> 'b" where
  "check_interrupts ops s =
     (let (c, b) = s in
      case sys c of None \<Rightarrow> (False, c, b)
      | Some y0 \<Rightarrow>
          (let (lines, b') = irq_lines ops b;
               y = y0\<lparr>mip := (mip y0 AND NOT HW) OR (lines AND HW)\<rparr>;
               c' = c\<lparr>sys := Some y\<rparr>;
               pending = mip y AND mie y
           in if pending = 0 then (False, c', b')
              else (case first_irq y pending irq_priority of
                      None \<Rightarrow> (False, c', b')
                    | Some irq \<Rightarrow> (True, take_trap irq 0 True c', b'))))"

section \<open>Returns\<close>

definition mret_sys :: "sys_csrs \<Rightarrow> sys_csrs" where
  "mret_sys y =
     (let mpp = mode_from_bits (drop_bit 11 (mstatus y AND MSTATUS_MPP));
          mpie = drop_bit 7 (mstatus y) AND 1;
          ms = ((mstatus y AND NOT (MSTATUS_MIE OR MSTATUS_MPIE OR MSTATUS_MPP)) OR push_bit 3 mpie)
               OR MSTATUS_MPIE;
          ms' = (if mpp \<noteq> Machine then ms AND NOT MSTATUS_MPRV else ms)
      in y\<lparr>mstatus := ms', sys_mode := mpp\<rparr>)"

definition exec_mret :: "u32 \<Rightarrow> (exception, cpu, u64) mon" where
  "exec_mret insn c0 =
     (let c = c0\<lparr>irq_poll_cd := 0\<rparr> in
      case sys c of None \<Rightarrow> (Inl (IllegalInstruction insn), c)
      | Some y \<Rightarrow>
          if sys_mode y \<noteq> Machine then (Inl (IllegalInstruction insn), c)
          else (Inr (mepc y), refresh_jit_tlb_context (c\<lparr>sys := Some (mret_sys y)\<rparr>)))"

definition sret_sys :: "sys_csrs \<Rightarrow> sys_csrs" where
  "sret_sys y =
     (let spp = (if mstatus y AND MSTATUS_SPP \<noteq> 0 then Supervisor else User);
          spie = drop_bit 5 (mstatus y) AND 1;
          ms = ((mstatus y AND NOT (MSTATUS_SIE OR MSTATUS_SPIE OR MSTATUS_SPP)) OR push_bit 1 spie)
               OR MSTATUS_SPIE;
          ms' = (if spp \<noteq> Machine then ms AND NOT MSTATUS_MPRV else ms)
      in y\<lparr>mstatus := ms', sys_mode := spp\<rparr>)"

definition exec_sret :: "u32 \<Rightarrow> (exception, cpu, u64) mon" where
  "exec_sret insn c0 =
     (let c = c0\<lparr>irq_poll_cd := 0\<rparr> in
      case sys c of None \<Rightarrow> (Inl (IllegalInstruction insn), c)
      | Some y \<Rightarrow>
          if sys_mode y = User \<or> (sys_mode y = Supervisor \<and> mstatus y AND MSTATUS_TSR \<noteq> 0)
          then (Inl (IllegalInstruction insn), c)
          else (Inr (sepc y), refresh_jit_tlb_context (c\<lparr>sys := Some (sret_sys y)\<rparr>)))"

section \<open>Bits of \<^verbatim>\<open>mstatus\<close>\<close>

lemma bit_single: "bit (push_bit k (1 :: u64)) n \<longleftrightarrow> n = k \<and> k < 64"
  by (auto simp: bit_simps bit_1_iff)

lemma bit_pair: "bit (push_bit k (3 :: u64)) n \<longleftrightarrow> (n = k \<and> k < 64) \<or> (n = k + 1 \<and> k + 1 < 64)"
proof -
  have "(3 :: u64) = push_bit 0 1 OR push_bit 1 1" by simp
  then have "push_bit k (3 :: u64) = push_bit k 1 OR push_bit (k + 1) 1"
    by (simp only: push_bit_or push_bit_push_bit add_0_right)
  then show ?thesis by (simp only: bit_or_iff bit_single)
qed

lemma mstatus_bit:
  "bit MSTATUS_SIE n \<longleftrightarrow> n = 1" "bit MSTATUS_MIE n \<longleftrightarrow> n = 3" "bit MSTATUS_SPIE n \<longleftrightarrow> n = 5"
  "bit MSTATUS_MPIE n \<longleftrightarrow> n = 7" "bit MSTATUS_SPP n \<longleftrightarrow> n = 8" "bit MSTATUS_MPP n \<longleftrightarrow> n = 11 \<or> n = 12"
  "bit MSTATUS_MPRV n \<longleftrightarrow> n = 17"
  unfolding MSTATUS_SIE_def MSTATUS_MIE_def MSTATUS_SPIE_def MSTATUS_MPIE_def MSTATUS_SPP_def
    MSTATUS_MPRV_def MSTATUS_MPP_def bit_single bit_pair by auto

lemma bit_shifted_flag: "bit (push_bit k (drop_bit j (w :: u64) AND 1)) n \<longleftrightarrow> n = k \<and> k < 64 \<and> bit w j"
  unfolding and_1_bit using bit_single [of k n] by (cases "bit w j") simp_all

lemma bit_mode: "bit (push_bit 11 (mode_bits m)) n \<longleftrightarrow>
    (n = 11 \<and> m \<noteq> User) \<or> (n = 12 \<and> m = Machine)"
  using bit_single [of 11 n] bit_pair [of 11 n] by (cases m) (simp_all only: mode_bits.simps, auto)

lemmas mstatus_bits = bit_or_iff bit_and_iff bit_not_iff mstatus_bit bit_shifted_flag bit_mode

text \<open>Every bit of \<^verbatim>\<open>mstatus\<close> after an entry and after a return.\<close>

lemma trap_to_m_mstatus:
  "mstatus (trap_to_m cv tv p y) = (mstatus y AND NOT (MSTATUS_MPIE OR MSTATUS_MPP OR MSTATUS_MIE))
     OR push_bit 7 (drop_bit 3 (mstatus y) AND 1) OR push_bit 11 (mode_bits (sys_mode y))"
  by (simp add: trap_to_m_def Let_def)

lemma trap_to_m_bits:
  "n < 64 \<Longrightarrow> bit (mstatus (trap_to_m cv tv p y)) n \<longleftrightarrow>
    (if n = 3 then False else if n = 7 then bit (mstatus y) 3
     else if n = 11 then sys_mode y \<noteq> User else if n = 12 then sys_mode y = Machine
     else bit (mstatus y) n)"
  unfolding trap_to_m_mstatus mstatus_bits by auto

lemma trap_to_s_mstatus:
  "mstatus (trap_to_s cv tv p y) = (mstatus y AND NOT (MSTATUS_SPIE OR MSTATUS_SPP OR MSTATUS_SIE))
     OR push_bit 5 (drop_bit 1 (mstatus y) AND 1) OR (if sys_mode y = Supervisor then MSTATUS_SPP else 0)"
  by (simp only: trap_to_s_def Let_def) simp

lemma trap_to_s_bits:
  "n < 64 \<Longrightarrow> bit (mstatus (trap_to_s cv tv p y)) n \<longleftrightarrow>
    (if n = 1 then False else if n = 5 then bit (mstatus y) 1
     else if n = 8 then sys_mode y = Supervisor else bit (mstatus y) n)"
  unfolding trap_to_s_mstatus mstatus_bits by (auto simp: mstatus_bit)

lemma mpp_mode:
  "mode_from_bits (drop_bit 11 (w AND MSTATUS_MPP)) =
    (if bit w 12 then Machine else if bit w 11 then Supervisor else User)"
proof -
  have "drop_bit 11 (w AND MSTATUS_MPP) =
      (if bit w 11 then push_bit 0 1 else 0) OR (if bit w 12 then push_bit 1 1 else 0 :: u64)"
    by (rule bit_word_eqI, auto simp only: bit_drop_bit_eq bit_and_iff bit_or_iff mstatus_bit bit_single
        bit_0_eq bot_apply comp_apply bot_bool_def split: if_splits) simp_all
  then show ?thesis by (auto simp: mode_from_bits_def Let_def)
qed

lemma mret_mstatus:
  "mstatus (mret_sys y) = (if \<not> bit (mstatus y) 12 then
     ((mstatus y AND NOT (MSTATUS_MIE OR MSTATUS_MPIE OR MSTATUS_MPP))
       OR push_bit 3 (drop_bit 7 (mstatus y) AND 1) OR MSTATUS_MPIE) AND NOT MSTATUS_MPRV
     else (mstatus y AND NOT (MSTATUS_MIE OR MSTATUS_MPIE OR MSTATUS_MPP))
       OR push_bit 3 (drop_bit 7 (mstatus y) AND 1) OR MSTATUS_MPIE)"
  unfolding mret_sys_def Let_def mpp_mode or.assoc by simp

lemma mret_sys_mode:
  "sys_mode (mret_sys y) = (if bit (mstatus y) 12 then Machine
     else if bit (mstatus y) 11 then Supervisor else User)"
  unfolding mret_sys_def Let_def mpp_mode by simp

lemma mret_bits:
  "n < 64 \<Longrightarrow> bit (mstatus (mret_sys y)) n \<longleftrightarrow>
    (if n = 3 then bit (mstatus y) 7 else if n = 7 then True else if n = 11 \<or> n = 12 then False
     else if n = 17 then bit (mstatus y) 17 \<and> bit (mstatus y) 12 else bit (mstatus y) n)"
  unfolding mret_mstatus by (cases "bit (mstatus y) 12") (simp_all only: simp_thms if_True if_False mstatus_bits, auto)

lemma sret_mstatus:
  "mstatus (sret_sys y) = ((mstatus y AND NOT (MSTATUS_SIE OR MSTATUS_SPIE OR MSTATUS_SPP))
       OR push_bit 1 (drop_bit 5 (mstatus y) AND 1) OR MSTATUS_SPIE) AND NOT MSTATUS_MPRV"
  unfolding sret_sys_def Let_def or.assoc by simp

lemma sret_bits:
  "n < 64 \<Longrightarrow> bit (mstatus (sret_sys y)) n \<longleftrightarrow>
    (if n = 1 then bit (mstatus y) 5 else if n = 5 then True else if n = 8 \<or> n = 17 then False
     else bit (mstatus y) n)"
  unfolding sret_mstatus mstatus_bits by auto

section \<open>The properties of traps\<close>

lemma prologue_simps:
  "sys (trap_prologue cau k c) = sys c" "pc (trap_prologue cau k c) = pc c"
  "sys_of (trap_prologue cau k c) = sys_of c" "reservation (trap_prologue cau k c) = None"
  "irq_poll_cd (trap_prologue cau k c) = 0" "xreg (trap_prologue cau k c) = xreg c"
  "tlb_tag (trap_prologue cau k c) = tlb_tag c" "tlb_diff (trap_prologue cau k c) = tlb_diff c"
  by (auto simp: trap_prologue_def Let_def sys_of_def)

lemma refresh_simps:
  "sys (refresh_jit_tlb_context c) = sys c" "pc (refresh_jit_tlb_context c) = pc c"
  "reservation (refresh_jit_tlb_context c) = reservation c"
  "xreg (refresh_jit_tlb_context c) = xreg c"
  "tlb_tag (refresh_jit_tlb_context c) = tlb_tag c" "tlb_diff (refresh_jit_tlb_context c) = tlb_diff c"
  by (simp_all add: refresh_jit_tlb_context_def Let_def)

lemma take_trap_sys:
  "sys c = Some y \<Longrightarrow> sys (take_trap cau tval k c) =
     Some (if trap_delegated cau k y then trap_to_s (cause_word cau k) tval (pc c) y
           else trap_to_m (cause_word cau k) tval (pc c) y)"
  by (simp add: take_trap_def Let_def refresh_simps prologue_simps)

lemma take_trap_pc:
  "sys c = Some y \<Longrightarrow> pc (take_trap cau tval k c) =
     vector_pc (if trap_delegated cau k y then stvec y else mtvec y) cau k"
  by (simp add: take_trap_def Let_def refresh_simps prologue_simps)

lemma take_trap_simps:
  "reservation (take_trap cau tval k c) = None" "xreg (take_trap cau tval k c) = xreg c"
  "tlb_tag (take_trap cau tval k c) = tlb_tag c" "tlb_diff (take_trap cau tval k c) = tlb_diff c"
  by (simp_all add: take_trap_def Let_def refresh_simps prologue_simps)

lemma trap_to_simps:
  "sys_mode (trap_to_s cv tv p y) = Supervisor" "sepc (trap_to_s cv tv p y) = p"
  "scause (trap_to_s cv tv p y) = cv" "stval (trap_to_s cv tv p y) = tv"
  "sys_mode (trap_to_m cv tv p y) = Machine" "mepc (trap_to_m cv tv p y) = p"
  "mcause (trap_to_m cv tv p y) = cv" "mtval (trap_to_m cv tv p y) = tv"
  "satp (trap_to_s cv tv p y) = satp y" "satp (trap_to_m cv tv p y) = satp y"
  "stvec (trap_to_s cv tv p y) = stvec y" "mtvec (trap_to_m cv tv p y) = mtvec y"
  "mepc (trap_to_s cv tv p y) = mepc y" "sepc (trap_to_m cv tv p y) = sepc y"
  "mtvec (trap_to_s cv tv p y) = mtvec y" "stvec (trap_to_m cv tv p y) = stvec y"
  by (simp_all add: trap_to_s_def trap_to_m_def Let_def)

lemma unat_low6: "unat (w AND 63 :: u64) = unat w mod 64"
proof -
  have "w AND 63 = take_bit 6 w" by (simp add: take_bit_eq_mask mask_eq_exp_minus_1)
  moreover have "unat (take_bit 6 w) = unat w mod 64" unfolding unsigned_take_bit_eq by (simp add: take_bit_eq_mod)
  ultimately show ?thesis by (rule ssubst)
qed

lemma trap_delegated_bit:
  "trap_delegated cau k y \<longleftrightarrow> sys_mode y \<noteq> Machine \<and> bit (if k then mideleg y else medeleg y) (unat cau mod 64)"
  unfolding trap_delegated_def Let_def by (simp add: unat_low6 bit_iff_and_push_bit_not_eq_0)

lemma trap_to_record:
  "trap_to_s cv tv p y = y\<lparr>sepc := p, scause := cv, stval := tv, mstatus := mstatus (trap_to_s cv tv p y), sys_mode := Supervisor\<rparr>"
  "trap_to_m cv tv p y = y\<lparr>mepc := p, mcause := cv, mtval := tv, mstatus := mstatus (trap_to_m cv tv p y), sys_mode := Machine\<rparr>"
  by (simp_all add: trap_to_s_def trap_to_m_def Let_def)

lemma trap_files:
  "xreg (take_trap cau tval k c) = xreg c" "freg (take_trap cau tval k c) = freg c" "fcsr (take_trap cau tval k c) = fcsr c"
  "insn_count (take_trap cau tval k c) = insn_count c" "icache_gen (take_trap cau tval k c) = icache_gen c"
  "reservation (take_trap cau tval k c) = None" "irq_poll_cd (take_trap cau tval k c) = 0"
  "tlb_tag (take_trap cau tval k c) = tlb_tag c" "tlb_diff (take_trap cau tval k c) = tlb_diff c"
  by (simp_all add: take_trap_def trap_prologue_def refresh_jit_tlb_context_def Let_def)

text \<open>
  Property C19. Trap entry, every field of the hart a trap writes. A trap goes to supervisor mode exactly when it was not raised in
  machine mode and the bit of its cause is set in \<^verbatim>\<open>mideleg\<close> or \<^verbatim>\<open>medeleg\<close>, and to machine mode otherwise.
  The PC becomes the base of the target's vector register, plus four times the cause for an interrupt in
  vectored mode; the old PC, the cause (with the top bit for an interrupt) and the value go to the
  target's registers, the target's interrupt enable moves to its previous-enable bit and is cleared, the
  previous mode is recorded, and every other bit of mstatus and every other CSR is as it was. The
  register files, the retired count and the translation rows are kept and the reservation is dropped.
\<close>

theorem trap_entry:
  assumes "sys c = Some y" and "take_trap cau tval k c = d"
  shows "\<exists>z. sys d = Some z
    \<and> xreg d = xreg c \<and> freg d = freg c \<and> fcsr d = fcsr c \<and> insn_count d = insn_count c \<and> reservation d = None
    \<and> icache_gen d = icache_gen c \<and> tlb_tag d = tlb_tag c \<and> tlb_diff d = tlb_diff c
    \<and> (if sys_mode y \<noteq> Machine \<and> bit (if k then mideleg y else medeleg y) (unat cau mod 64)
       then pc d = (stvec y AND NOT 3) + (if k \<and> stvec y AND 3 = 1 then 4 * cau else 0)
         \<and> z = y\<lparr>sepc := pc c, scause := (if k then 0x8000000000000000 OR cau else cau), stval := tval,
                 mstatus := mstatus z, sys_mode := Supervisor\<rparr>
         \<and> (\<forall>n<64. bit (mstatus z) n \<longleftrightarrow> (if n = 1 then False else if n = 5 then bit (mstatus y) 1
              else if n = 8 then sys_mode y = Supervisor else bit (mstatus y) n))
       else pc d = (mtvec y AND NOT 3) + (if k \<and> mtvec y AND 3 = 1 then 4 * cau else 0)
         \<and> z = y\<lparr>mepc := pc c, mcause := (if k then 0x8000000000000000 OR cau else cau), mtval := tval,
                 mstatus := mstatus z, sys_mode := Machine\<rparr>
         \<and> (\<forall>n<64. bit (mstatus z) n \<longleftrightarrow> (if n = 3 then False else if n = 7 then bit (mstatus y) 3
              else if n = 11 then sys_mode y \<noteq> User else if n = 12 then sys_mode y = Machine
              else bit (mstatus y) n)))"
proof -
  have cw: "cause_word cau k = (if k then 0x8000000000000000 OR cau else cau)" by (simp add: cause_word_def)
  have v: "vector_pc tv cau k = (tv AND NOT 3) + (if k \<and> tv AND 3 = 1 then 4 * cau else 0)" for tv
    by (simp add: vector_pc_def Let_def)
  note t = take_trap_sys [OF assms(1), of cau tval k] take_trap_pc [OF assms(1), of cau tval k]
  show ?thesis
  proof (cases "trap_delegated cau k y")
    case True
    note z = trap_to_record(1) [of "cause_word cau k" tval "pc c" y]
    show ?thesis unfolding assms(2) [symmetric] trap_delegated_bit [symmetric] if_P [OF True] cw [symmetric] trap_files
      by (rule exI [of _ "trap_to_s (cause_word cau k) tval (pc c) y"])
        (use t True trap_to_s_bits z in \<open>simp add: v\<close>)
  next
    case False
    note z = trap_to_record(2) [of "cause_word cau k" tval "pc c" y]
    show ?thesis unfolding assms(2) [symmetric] trap_delegated_bit [symmetric] if_not_P [OF False] cw [symmetric] trap_files
      by (rule exI [of _ "trap_to_m (cause_word cau k) tval (pc c) y"])
        (use t False trap_to_m_bits z in \<open>simp add: v\<close>)
  qed
qed

theorem trap_entry_witness:
  "let y = sys_new\<lparr>sys_mode := User, mideleg := 0x20, stvec := 0x80000001\<rparr>;
       d = take_trap 5 7 True (demo_cpu\<lparr>pc := 0x40, reservation := Some 4, sys := Some y\<rparr>)
   in pc d = 0x80000014 \<and> reservation d = None
      \<and> (\<exists>z. sys d = Some z \<and> sepc z = 0x40 \<and> scause z = 0x8000000000000005 \<and> stval z = 7 \<and> mepc z = mepc y)"
proof -
  let ?y = "sys_new\<lparr>sys_mode := User, mideleg := 0x20, stvec := 0x80000001\<rparr>"
  let ?c = "demo_cpu\<lparr>pc := 0x40, reservation := Some 4, sys := Some ?y\<rparr>"
  have "sys ?c = Some ?y" by simp
  moreover have "bit (0x20 :: u64) 5" by (simp add: bit_iff_odd)
  ultimately obtain z where z: "sys (take_trap 5 7 True ?c) = Some z"
      "pc (take_trap 5 7 True ?c) = 0x80000014" "reservation (take_trap 5 7 True ?c) = None"
      "z = ?y\<lparr>sepc := 0x40, scause := 0x8000000000000005, stval := 7, mstatus := mstatus z, sys_mode := Supervisor\<rparr>"
    using trap_entry [of ?c ?y 5 7 True "take_trap 5 7 True ?c"] by auto
  have "sepc z = 0x40 \<and> scause z = 0x8000000000000005 \<and> stval z = 7 \<and> mepc z = mepc ?y"
    by (subst (1 2 3 4) z(4)) simp
  with z(1,2,3) show ?thesis unfolding Let_def by blast
qed

text \<open>
  Property C27. \<^verbatim>\<open>mret\<close> undoes a trap to machine mode: it returns to the interrupted PC and mode, with the
  interrupt enable restored, MPIE set, MPP cleared to user mode, MPRV cleared unless the trap came from
  machine mode, and every other bit of mstatus as it was.
\<close>

theorem mret_undoes_trap:
  assumes "sys c = Some y" and "\<not> trap_delegated cau k y"
  shows "case exec_mret insn (take_trap cau tval k c) of (r, d) \<Rightarrow>
    r = Inr (pc c) \<and> (\<exists>z. sys d = Some z \<and> sys_mode z = sys_mode y
      \<and> (\<forall>n<64. bit (mstatus z) n \<longleftrightarrow> (if n = 7 then True else if n = 11 \<or> n = 12 then False
           else if n = 17 then bit (mstatus y) 17 \<and> sys_mode y = Machine else bit (mstatus y) n)))"
proof -
  let ?m = "trap_to_m (cause_word cau k) tval (pc c) y"
  have s: "sys (take_trap cau tval k c) = Some ?m" using assms by (simp add: take_trap_sys)
  have "sys_mode (mret_sys ?m) = sys_mode y"
    using trap_to_m_bits [of 11 "cause_word cau k" tval "pc c" y] trap_to_m_bits [of 12 "cause_word cau k" tval "pc c" y]
    by (cases "sys_mode y") (simp_all add: mret_sys_mode)
  moreover have "bit (mstatus (mret_sys ?m)) n \<longleftrightarrow> (if n = 7 then True else if n = 11 \<or> n = 12 then False
      else if n = 17 then bit (mstatus y) 17 \<and> sys_mode y = Machine else bit (mstatus y) n)" if "n < 64" for n
    using that by (simp add: mret_bits trap_to_m_bits)
  ultimately show ?thesis
    using s by (simp add: exec_mret_def Let_def trap_to_simps refresh_simps)
qed

theorem mret_undoes_witness:
  "fst (exec_mret 0x30200073 (take_trap 5 0 False (demo_cpu\<lparr>pc := 0x80\<rparr>))) = Inr 0x80"
proof -
  let ?c = "demo_cpu\<lparr>pc := 0x80\<rparr>"
  have "sys ?c = Some (sys_new\<lparr>sys_mode := User, satp := push_bit 60 8 OR 1\<rparr>)"
    by (simp add: demo_cpu_def)
  moreover have "\<not> trap_delegated 5 False (sys_new\<lparr>sys_mode := User, satp := push_bit 60 8 OR 1\<rparr>)"
    by (simp add: trap_delegated_def Let_def sys_new_def)
  ultimately show ?thesis
    using mret_undoes_trap [of ?c _ 5 False "0x30200073" 0] by (auto split: prod.splits)
qed

text \<open>
  Property C28. \<^verbatim>\<open>sret\<close> undoes a trap to supervisor mode, when it is not disabled by TSR: it returns to the
  interrupted PC and mode with the interrupt enable restored, SPIE set, SPP and MPRV cleared, and
  every other bit of mstatus as it was.
\<close>

theorem sret_undoes_trap:
  assumes "sys c = Some y" and "trap_delegated cau k y" and "\<not> bit (mstatus y) 22"
  shows "case exec_sret insn (take_trap cau tval k c) of (r, d) \<Rightarrow>
    r = Inr (pc c) \<and> (\<exists>z. sys d = Some z \<and> sys_mode z = sys_mode y
      \<and> (\<forall>n<64. bit (mstatus z) n \<longleftrightarrow> (if n = 5 then True else if n = 8 \<or> n = 17 then False
           else bit (mstatus y) n)))"
proof -
  let ?m = "trap_to_s (cause_word cau k) tval (pc c) y"
  have s: "sys (take_trap cau tval k c) = Some ?m" using assms by (simp add: take_trap_sys)
  have flag: "w AND push_bit i 1 \<noteq> 0 \<longleftrightarrow> bit w i" if "i < 64" for w :: u64 and i
    using that by (simp add: bit_iff_and_push_bit_not_eq_0)
  have "mstatus ?m AND MSTATUS_TSR = 0"
    using flag [of 22 "mstatus ?m"] trap_to_s_bits [of 22 "cause_word cau k" tval "pc c" y] assms(3)
    by (simp add: MSTATUS_TSR_def)
  moreover have "sys_mode y \<noteq> Machine" using assms(2) by (simp add: trap_delegated_def Let_def)
  then have "sys_mode (sret_sys ?m) = sys_mode y"
    using flag [of 8 "mstatus ?m"] trap_to_s_bits [of 8 "cause_word cau k" tval "pc c" y]
    by (cases "sys_mode y") (simp_all add: sret_sys_def Let_def MSTATUS_SPP_def)
  moreover have "bit (mstatus (sret_sys ?m)) n \<longleftrightarrow> (if n = 5 then True else if n = 8 \<or> n = 17 then False
      else bit (mstatus y) n)" if "n < 64" for n
    using that by (simp add: sret_bits trap_to_s_bits)
  ultimately show ?thesis
    using s by (simp add: exec_sret_def Let_def trap_to_simps refresh_simps)
qed

theorem sret_undoes_witness:
  "let c = demo_cpu\<lparr>pc := 0x80, sys := Some (sys_new\<lparr>sys_mode := User, medeleg := 0x100\<rparr>)\<rparr> in
   fst (exec_sret 0x10200073 (take_trap 8 0 False c)) = Inr 0x80"
proof -
  let ?y = "sys_new\<lparr>sys_mode := User, medeleg := 0x100\<rparr>"
  let ?c = "demo_cpu\<lparr>pc := 0x80, sys := Some ?y\<rparr>"
  have "sys ?c = Some ?y" by simp
  moreover have "trap_delegated 8 False ?y" by (simp add: trap_delegated_def Let_def)
  moreover have "\<not> bit (mstatus ?y) 22" by (simp add: sys_new_mstatus)
  ultimately show ?thesis
    using sret_undoes_trap [of ?c ?y 8 False "0x10200073" 0] by (auto simp: Let_def split: prod.splits)
qed

section \<open>Interrupt selection\<close>

lemma hw_bit: "bit HW n \<longleftrightarrow> n = 3 \<or> n = 7 \<or> n = 9 \<or> n = 11"
proof -
  have e: "HW = push_bit 7 1 OR push_bit 3 1 OR push_bit 11 1 OR push_bit 9 1"
    by (simp add: HW_def IRQ_MTIP_def IRQ_MSIP_def IRQ_MEIP_def IRQ_SEIP_def)
  show ?thesis unfolding e by (simp only: bit_or_iff bit_push_bit_iff bit_1_iff) auto
qed

lemma hw_lines: "n < 64 \<Longrightarrow> bit ((m AND NOT HW) OR (ls AND HW)) n = (if n = 3 \<or> n = 7 \<or> n = 9 \<or> n = 11 then bit ls n else bit m n)"
  by (auto simp: bit_or_iff bit_and_iff bit_not_iff hw_bit)

text \<open>
  Property C21. Interrupt selection. \<^verbatim>\<open>check_interrupts\<close> first makes the bits 3, 7, 9 and 11 of \<^verbatim>\<open>mip\<close> follow the
  lines and leaves its other bits. It takes a trap exactly when one of the interrupts 11, 3, 7, 9, 1 and 5
  is pending, enabled in \<^verbatim>\<open>mie\<close> and deliverable: a delegated one in user mode, or in supervisor mode with
  SIE set; another one below machine mode, or with MIE set. It then enters the handler of the first of
  them in the order MEI, MSI, MTI, SEI, SSI, STI; otherwise nothing but \<^verbatim>\<open>mip\<close> has changed.
\<close>

theorem check_interrupts_spec:
  assumes "sys c = Some y0" and "irq_lines ops b = (ls, b')"
    and "\<And>n. n < 64 \<Longrightarrow> bit m n \<longleftrightarrow> (if n \<in> {3, 7, 9, 11} then bit ls n else bit (mip y0) n)"
    and "can = (\<lambda>i. bit m i \<and> bit (mie y0) i
      \<and> (if bit (mideleg y0) i then sys_mode y0 = User \<or> sys_mode y0 = Supervisor \<and> bit (mstatus y0) 1
         else sys_mode y0 \<noteq> Machine \<or> bit (mstatus y0) 3))"
  shows "check_interrupts ops (c, b) =
    (case List.find can [11, 3, 7, 9, 1, 5] of
       None \<Rightarrow> (False, c\<lparr>sys := Some (y0\<lparr>mip := m\<rparr>)\<rparr>, b')
     | Some i \<Rightarrow> (True, take_trap (of_nat i) 0 True (c\<lparr>sys := Some (y0\<lparr>mip := m\<rparr>)\<rparr>), b'))"
proof -
  let ?y = "y0\<lparr>mip := m\<rparr>"
  have m: "m = (mip y0 AND NOT HW) OR (ls AND HW)"
    by (rule bit_word_eqI) (use assms(3) hw_lines in auto)
  have flag: "w AND push_bit i 1 \<noteq> 0 \<longleftrightarrow> bit w i" for w :: u64 and i
    by (simp add: and_exp_eq_0_iff_not_bit)
  have del: "irq_deliverable ?y (of_nat i) \<longleftrightarrow>
      (if bit (mideleg y0) i then sys_mode y0 = User \<or> sys_mode y0 = Supervisor \<and> bit (mstatus y0) 1
       else sys_mode y0 \<noteq> Machine \<or> bit (mstatus y0) 3)" if "i < 64" for i
    using that flag [of "mstatus y0" 1] flag [of "mstatus y0" 3] flag [of "mideleg y0" i]
    by (auto simp: irq_deliverable_def Let_def MSTATUS_SIE_def MSTATUS_MIE_def unat_of_nat)
  have can: "(m AND mie y0) AND push_bit i 1 \<noteq> 0 \<and> irq_deliverable ?y (of_nat i) \<longleftrightarrow> can i" if "i < 64" for i
    unfolding flag del [OF that] assms(4) bit_and_iff by simp
  have f: "first_irq ?y (m AND mie y0) (map of_nat is) = map_option of_nat (List.find can is)"
    if "\<forall>i \<in> set is. i < 64" for "is"
    using that
  proof (induction "is")
    case (Cons i "is")
    have u: "unat (of_nat i :: u64) = i" using Cons.prems by (simp add: unat_of_nat)
    have i: "i < 64" and IH: "first_irq ?y (m AND mie y0) (map of_nat is) = map_option of_nat (List.find can is)"
      using Cons by auto
    show ?case using can [OF i] by (cases "can i") (auto simp: u IH)
  qed simp
  have none: "List.find can [11, 3, 7, 9, 1, 5] = None" if "m AND mie y0 = 0"
  proof -
    have "\<not> bit (m AND mie y0) i" for i unfolding that by simp
    then have "\<not> can i" for i unfolding assms(4) bit_and_iff by blast
    then show ?thesis by simp
  qed
  have p: "irq_priority = map of_nat [11, 3, 7, 9, 1, 5]" by (simp add: irq_priority_def)
  have run: "check_interrupts ops (c, b) =
    (if m AND mie y0 = 0 then (False, c\<lparr>sys := Some ?y\<rparr>, b')
     else (case first_irq ?y (m AND mie y0) irq_priority of None \<Rightarrow> (False, c\<lparr>sys := Some ?y\<rparr>, b')
           | Some irq \<Rightarrow> (True, take_trap irq 0 True (c\<lparr>sys := Some ?y\<rparr>), b')))"
    unfolding m using assms(1,2) by (simp add: check_interrupts_def Let_def)
  have "first_irq ?y (m AND mie y0) irq_priority = map_option of_nat (List.find can [11, 3, 7, 9, 1, 5])"
    unfolding p by (rule f) simp
  then show ?thesis unfolding run using none by (cases "List.find can [11, 3, 7, 9, 1, 5]") (auto simp del: find.simps)
qed

theorem check_interrupts_witness:
  "let y = sys_new\<lparr>sys_mode := User, mip := 0x22, mie := 0x22, mideleg := 0x222\<rparr>;
       c = demo_cpu\<lparr>sys := Some y\<rparr>
   in check_interrupts flat_bus (c, demo_bus) = (True, take_trap 1 0 True c, demo_bus)"
proof -
  let ?y = "sys_new\<lparr>sys_mode := User, mip := 0x22, mie := 0x22, mideleg := 0x222\<rparr>"
  let ?c = "demo_cpu\<lparr>sys := Some ?y\<rparr>"
  have s: "sys ?c = Some ?y" by simp
  have l: "irq_lines flat_bus demo_bus = (0, demo_bus)" by (simp add: flat_bus_def default_irq_lines_def)
  have b: "bit (0x22 :: u64) n \<longleftrightarrow> n = 1 \<or> n = 5" for n
  proof -
    have e: "(0x22 :: u64) = push_bit 1 1 OR push_bit 5 1" by simp
    show ?thesis unfolding e by (simp only: bit_or_iff bit_push_bit_iff bit_1_iff) auto
  qed
  have m: "bit (0x22 :: u64) n \<longleftrightarrow> (if n \<in> {3, 7, 9, 11} then bit (0 :: u64) n else bit (mip ?y) n)" if "n < 64" for n
    by (simp add: b)
  have d: "bit (0x222 :: u64) 1" by (simp add: bit_iff_odd)
  have i: "?c\<lparr>sys := Some (?y\<lparr>mip := 0x22\<rparr>)\<rparr> = ?c" by simp
  show ?thesis
    using check_interrupts_spec [OF s l m refl] unfolding i Let_def by (simp add: b d)
qed

end
