(* ===== verification/CsrFile.thy ===== *)
theory CsrFile
  imports Trap
begin

unbundle bit_operations_syntax

text \<open>
  The CSR file of the hart, \<^verbatim>\<open>csr_read\<close> and \<^verbatim>\<open>csr_write\<close> of \<^verbatim>\<open>crates/rv64-core/src/cpu.rs\<close>: the privilege
  check on the address, the counters, the FP control registers, the supervisor views of \<^verbatim>\<open>mstatus\<close>,
  \<^verbatim>\<open>mie\<close> and \<^verbatim>\<open>mip\<close>, and the write masks.
\<close>

section \<open>Reading\<close>

definition csr_min_mode :: "u32 \<Rightarrow> u64" where
  "csr_min_mode csr = ucast (drop_bit 8 csr AND 3)"

definition csr_denied :: "u32 \<Rightarrow> cpu \<Rightarrow> bool" where
  "csr_denied csr c \<longleftrightarrow>
     (case sys c of None \<Rightarrow> False | Some y \<Rightarrow> csr_min_mode csr > mode_bits (sys_mode y))"

definition retired :: "cpu \<Rightarrow> u64" where
  "retired c = insn_count c + (case sys c of None \<Rightarrow> 0 | Some y \<Rightarrow> minstret_off y)"

definition time_value :: "cpu \<Rightarrow> u64" where
  "time_value c =
     (case sys c of None \<Rightarrow> insn_count c
      | Some y \<Rightarrow> (case checked_div (insn_count c) (time_scale y) of
                     Some t \<Rightarrow> t + time_offset y | None \<Rightarrow> mtime y))"

definition mstatus_view :: "sys_csrs \<Rightarrow> u64" where
  "mstatus_view y =
     (if mstatus y AND MSTATUS_FS = MSTATUS_FS then mstatus y OR MSTATUS_SD else mstatus y)"

definition csr_read_s :: "u32 \<Rightarrow> sys_csrs \<Rightarrow> u64 option" where
  "csr_read_s csr y =
     (if csr = SSTATUS then Some (mstatus_view y AND SSTATUS_MASK)
      else if csr = SIE then Some (mie y AND mideleg y)
      else if csr = STVEC then Some (stvec y)
      else if csr = SCOUNTEREN then Some (scounteren y)
      else if csr = SSCRATCH then Some (sscratch y)
      else if csr = SEPC then Some (sepc y)
      else if csr = SCAUSE then Some (scause y)
      else if csr = STVAL then Some (stval y)
      else if csr = SIP then Some (mip y AND mideleg y)
      else if csr = SATP then
        (if sys_mode y = Supervisor \<and> mstatus y AND MSTATUS_TVM \<noteq> 0 then None else Some (satp y))
      else None)"

definition csr_read_m :: "u32 \<Rightarrow> sys_csrs \<Rightarrow> u64 option" where
  "csr_read_m csr y =
     (if csr = 0x7a0 then Some 1
      else if (0x7a1 \<le> csr \<and> csr \<le> 0x7a3) \<or> csr = 0x7a5 then Some 0
      else if csr = MSTATUS then Some (mstatus_view y)
      else if csr = MISA then Some MISA_VALUE
      else if csr = MEDELEG then Some (medeleg y)
      else if csr = MIDELEG then Some (mideleg y)
      else if csr = MIE then Some (mie y)
      else if csr = MTVEC then Some (mtvec y)
      else if csr = MCOUNTEREN then Some (mcounteren y)
      else if csr = MSCRATCH then Some (mscratch y)
      else if csr = MEPC then Some (mepc y)
      else if csr = MCAUSE then Some (mcause y)
      else if csr = MTVAL then Some (mtval y)
      else if csr = MIP then Some (mip y)
      else if csr = MVENDORID \<or> csr = MARCHID \<or> csr = MIMPID then Some 0
      else if csr = MHARTID then Some (mhartid y)
      else None)"

definition csr_is_s :: "u32 \<Rightarrow> bool" where
  "csr_is_s csr \<longleftrightarrow> csr \<in> {SSTATUS, SIE, STVEC, SCOUNTEREN, SSCRATCH, SEPC, SCAUSE, STVAL, SIP, SATP}"

definition pmpcfg_csr :: "u32 \<Rightarrow> bool" where
  "pmpcfg_csr csr \<longleftrightarrow> 0x3a0 \<le> csr \<and> csr \<le> 0x3af \<and> csr AND 1 = 0"

definition pmpaddr_csr :: "u32 \<Rightarrow> bool" where
  "pmpaddr_csr csr \<longleftrightarrow> 0x3b0 \<le> csr \<and> csr \<le> 0x3ef"

definition csr_read :: "u32 \<Rightarrow> cpu \<Rightarrow> u64 option" where
  "csr_read csr c =
     (if csr_denied csr c then None
      else if csr = FFLAGS then Some (ucast (fcsr c AND 0x1f))
      else if csr = FRM then Some (ucast (drop_bit 5 (fcsr c) AND 7))
      else if csr = FCSR then Some (ucast (fcsr c))
      else if csr = CYCLE \<or> csr = INSTRET \<or> csr = MCYCLE \<or> csr = MINSTRET then Some (retired c)
      else if csr = TIME then Some (time_value c)
      else if pmpcfg_csr csr then
        map_option (\<lambda>y. pmpcfg y ! unat ((csr - 0x3a0) div 2)) (sys c)
      else if pmpaddr_csr csr then
        map_option (\<lambda>y. pmpaddr y ! unat (csr - 0x3b0)) (sys c)
      else (case sys c of None \<Rightarrow> None
            | Some y \<Rightarrow> if csr_is_s csr then csr_read_s csr y else csr_read_m csr y))"

section \<open>Writing\<close>

text \<open>
  A write returns whether the register exists and accepts the access, with the state it leaves.
  The two halves treat the supervisor and the machine registers of the source's \<^verbatim>\<open>match\<close>.
\<close>

definition W_SSTATUS :: u64 where
  "W_SSTATUS = MSTATUS_SIE OR MSTATUS_SPIE OR MSTATUS_SPP OR MSTATUS_FS OR MSTATUS_SUM OR MSTATUS_MXR"

definition W_MSTATUS :: u64 where
  "W_MSTATUS = MSTATUS_SIE OR MSTATUS_MIE OR MSTATUS_SPIE OR MSTATUS_MPIE OR MSTATUS_SPP
     OR MSTATUS_MPP OR MSTATUS_FS OR MSTATUS_MPRV OR MSTATUS_SUM OR MSTATUS_MXR OR MSTATUS_TVM
     OR MSTATUS_TW OR MSTATUS_TSR"

definition W_MIP :: u64 where
  "W_MIP = IRQ_SSIP OR IRQ_STIP OR IRQ_SEIP"

definition put :: "(sys_csrs \<Rightarrow> sys_csrs) \<Rightarrow> cpu \<Rightarrow> bool \<times> cpu" where
  "put g c = (case sys c of None \<Rightarrow> (False, c) | Some y \<Rightarrow> (True, c\<lparr>sys := Some (g y)\<rparr>))"

definition put_status :: "(sys_csrs \<Rightarrow> sys_csrs) \<Rightarrow> cpu \<Rightarrow> bool \<times> cpu" where
  "put_status g c =
     (case sys c of None \<Rightarrow> (False, c)
      | Some y \<Rightarrow> (True, refresh_jit_tlb_context (c\<lparr>sys := Some (g y)\<rparr>)))"

definition write_satp :: "u64 \<Rightarrow> cpu \<Rightarrow> bool \<times> cpu" where
  "write_satp v c =
     (case sys c of None \<Rightarrow> (False, c)
      | Some y \<Rightarrow>
          if sys_mode y = Supervisor \<and> mstatus y AND MSTATUS_TVM \<noteq> 0 then (False, c)
          else
            (let m = drop_bit 60 v in
             if m = 0 \<or> m = 8 \<or> m = 9 then
               (let changed = satp y \<noteq> v;
                    c1 = flush_tlb (c\<lparr>sys := Some (y\<lparr>satp := v\<rparr>)\<rparr>)
                in (True, if changed then bump_map_generation (c1\<lparr>jit_flush_gen := jit_flush_gen c1 + 1\<rparr>)
                          else c1))
             else (True, c)))"

definition csr_write_s :: "u32 \<Rightarrow> u64 \<Rightarrow> cpu \<Rightarrow> bool \<times> cpu" where
  "csr_write_s csr v c =
     (if csr = SSTATUS then
        put_status (\<lambda>y. y\<lparr>mstatus := (mstatus y AND NOT W_SSTATUS) OR (v AND W_SSTATUS)\<rparr>) c
      else if csr = SIE then
        put (\<lambda>y. y\<lparr>mie := (mie y AND NOT (mideleg y)) OR (v AND mideleg y)\<rparr>) c
      else if csr = STVEC then put (\<lambda>y. y\<lparr>stvec := v AND NOT 2\<rparr>) c
      else if csr = SCOUNTEREN then put (\<lambda>y. y\<lparr>scounteren := v AND 7\<rparr>) c
      else if csr = SSCRATCH then put (\<lambda>y. y\<lparr>sscratch := v\<rparr>) c
      else if csr = SEPC then put (\<lambda>y. y\<lparr>sepc := v AND NOT 1\<rparr>) c
      else if csr = SCAUSE then put (\<lambda>y. y\<lparr>scause := v\<rparr>) c
      else if csr = STVAL then put (\<lambda>y. y\<lparr>stval := v\<rparr>) c
      else if csr = SIP then
        put (\<lambda>y. let mask = IRQ_SSIP AND mideleg y
                 in y\<lparr>mip := (mip y AND NOT mask) OR (v AND mask)\<rparr>) c
      else if csr = SATP then write_satp v c
      else (False, c))"

definition csr_write_m :: "u32 \<Rightarrow> u64 \<Rightarrow> cpu \<Rightarrow> bool \<times> cpu" where
  "csr_write_m csr v c =
     (if (0x7a0 \<le> csr \<and> csr \<le> 0x7a3) \<or> csr = 0x7a5 then (True, c)
      else if csr = MSTATUS then
        put_status (\<lambda>y. y\<lparr>mstatus := (mstatus y AND NOT W_MSTATUS) OR (v AND W_MSTATUS)\<rparr>) c
      else if csr = MISA then (True, c)
      else if csr = MEDELEG then put (\<lambda>y. y\<lparr>medeleg := v\<rparr>) c
      else if csr = MIDELEG then
        put (\<lambda>y. y\<lparr>mideleg := v AND (IRQ_SSIP OR IRQ_STIP OR IRQ_SEIP)\<rparr>) c
      else if csr = MIE then put (\<lambda>y. y\<lparr>mie := v\<rparr>) c
      else if csr = MTVEC then put (\<lambda>y. y\<lparr>mtvec := v AND NOT 2\<rparr>) c
      else if csr = MCOUNTEREN then put (\<lambda>y. y\<lparr>mcounteren := v AND 7\<rparr>) c
      else if csr = MSCRATCH then put (\<lambda>y. y\<lparr>mscratch := v\<rparr>) c
      else if csr = MEPC then put (\<lambda>y. y\<lparr>mepc := v AND NOT 1\<rparr>) c
      else if csr = MCAUSE then put (\<lambda>y. y\<lparr>mcause := v\<rparr>) c
      else if csr = MTVAL then put (\<lambda>y. y\<lparr>mtval := v\<rparr>) c
      else if csr = MIP then
        put (\<lambda>y. y\<lparr>mip := (mip y AND NOT W_MIP) OR (v AND W_MIP)\<rparr>) c
      else (False, c))"

definition csr_write :: "u32 \<Rightarrow> u64 \<Rightarrow> cpu \<Rightarrow> bool \<times> cpu" where
  "csr_write csr v c0 =
     (let c = c0\<lparr>irq_poll_cd := 0\<rparr>; v32 = ucast v :: u32 in
      if drop_bit 10 csr = 3 then (False, c)
      else if csr_denied csr c then (False, c)
      else if csr = FFLAGS then (True, c\<lparr>fcsr := (fcsr c AND NOT 0x1f) OR (v32 AND 0x1f)\<rparr>)
      else if csr = FRM then (True, c\<lparr>fcsr := (fcsr c AND NOT 0xe0) OR push_bit 5 (v32 AND 7)\<rparr>)
      else if csr = FCSR then (True, c\<lparr>fcsr := v32 AND 0xff\<rparr>)
      else if csr = MCYCLE \<or> csr = MINSTRET then
        (let ic = insn_count c + 1 in (True, upd_sys (\<lambda>y. y\<lparr>minstret_off := v - ic\<rparr>) c))
      else if pmpcfg_csr csr then
        put (\<lambda>y. y\<lparr>pmpcfg := (pmpcfg y)[unat ((csr - 0x3a0) div 2) := v]\<rparr>) c
      else if pmpaddr_csr csr then
        put (\<lambda>y. y\<lparr>pmpaddr := (pmpaddr y)[unat (csr - 0x3b0) := v AND 0x003fffffffffffff]\<rparr>) c
      else if csr_is_s csr then csr_write_s csr v c
      else csr_write_m csr v c)"

section \<open>Access control\<close>

lemma csr_write_denied:
  "csr_denied csr c \<or> drop_bit 10 csr = 3 \<Longrightarrow> csr_write csr v c = (False, c\<lparr>irq_poll_cd := 0\<rparr>)"
  by (auto simp: csr_write_def Let_def csr_denied_def)



lemma csr_denied_poll [simp]: "csr_denied csr (c\<lparr>irq_poll_cd := k\<rparr>) = csr_denied csr c"
  by (simp add: csr_denied_def)

section \<open>Read back\<close>

lemmas put_defs = put_def put_status_def

lemma fcsr_refresh [simp]: "fcsr (refresh_jit_tlb_context c) = fcsr c"
  "insn_count (refresh_jit_tlb_context c) = insn_count c"
  by (simp_all add: refresh_jit_tlb_context_def Let_def)

text \<open>
  The retired-instruction counter is writable: a write is seen exactly by a read in the next
  instruction, whatever the counter was.
\<close>

theorem minstret_read_back:
  assumes "csr_write MINSTRET v c = (True, d)" and "sys c = Some y"
  shows "csr_read MINSTRET (d\<lparr>insn_count := insn_count d + 1\<rparr>) = Some v"
proof -
  have m: "drop_bit 10 MINSTRET \<noteq> 3" "MINSTRET \<noteq> FFLAGS" "MINSTRET \<noteq> FRM" "MINSTRET \<noteq> FCSR"
    by (simp_all add: csr_addr_defs)
  have nd: "\<not> csr_denied MINSTRET c"
  proof
    assume "csr_denied MINSTRET c"
    then show False using csr_write_denied [of MINSTRET c v] assms(1) by simp
  qed
  with m assms have d: "d = c\<lparr>irq_poll_cd := 0, sys := Some (y\<lparr>minstret_off := v - (insn_count c + 1)\<rparr>)\<rparr>"
    by (simp add: csr_write_def Let_def upd_sys_def csr_denied_def)
  from nd assms(2) have "\<not> csr_denied MINSTRET (d\<lparr>insn_count := insn_count d + 1\<rparr>)"
    by (simp add: d csr_denied_def)
  with m show ?thesis by (simp add: csr_read_def retired_def d)
qed

theorem minstret_read_back_witness:
  "let c = enable_system 0 cpu_new; d = snd (csr_write MINSTRET 5 c)
   in csr_read MINSTRET (d\<lparr>insn_count := insn_count d + 1\<rparr>) = Some 5"
proof -
  let ?c = "enable_system 0 cpu_new"
  have s: "sys ?c = Some (sys_new\<lparr>mhartid := 0\<rparr>)" by (rule enable_system_simps)
  then have "fst (csr_write MINSTRET 5 ?c)"
    by (simp add: csr_write_def Let_def csr_denied_def csr_min_mode_def csr_addr_defs)
  then have "csr_write MINSTRET 5 ?c = (True, snd (csr_write MINSTRET 5 ?c))"
    by (metis prod.collapse)
  from minstret_read_back [OF this s] show ?thesis by (simp add: Let_def)
qed

definition set_sstatus :: "u64 \<Rightarrow> sys_csrs \<Rightarrow> sys_csrs" where
  "set_sstatus v y = y\<lparr>mstatus := (mstatus y AND NOT W_SSTATUS) OR (v AND W_SSTATUS)\<rparr>"

lemma SSTATUS_addr:
  "drop_bit 10 SSTATUS \<noteq> 3" "SSTATUS \<noteq> FFLAGS" "SSTATUS \<noteq> FRM" "SSTATUS \<noteq> FCSR"
  "SSTATUS \<noteq> MCYCLE" "SSTATUS \<noteq> MINSTRET" "SSTATUS \<noteq> CYCLE" "SSTATUS \<noteq> INSTRET" "SSTATUS \<noteq> TIME"
  "\<not> pmpcfg_csr SSTATUS" "\<not> pmpaddr_csr SSTATUS" "csr_is_s SSTATUS"
  by (simp_all add: csr_addr_defs pmpcfg_csr_def pmpaddr_csr_def csr_is_s_def)

lemma csr_write_sstatus:
  "csr_write SSTATUS v c = (if csr_denied SSTATUS c then (False, c\<lparr>irq_poll_cd := 0\<rparr>)
     else put_status (set_sstatus v) (c\<lparr>irq_poll_cd := 0\<rparr>))"
  unfolding csr_write_def Let_def csr_write_s_def set_sstatus_def by (simp add: SSTATUS_addr)

lemma csr_read_sstatus:
  "csr_read SSTATUS c = (if csr_denied SSTATUS c then None
     else map_option (\<lambda>y. mstatus_view y AND SSTATUS_MASK) (sys c))"
  unfolding csr_read_def csr_read_s_def by (simp add: SSTATUS_addr split: option.splits)

lemma flag_bit: "n < 64 \<Longrightarrow> bit (push_bit k (1 :: u64)) n \<longleftrightarrow> n = k"
  unfolding bit_push_bit_iff bit_1_iff by auto

lemma W_SSTATUS_bit: assumes "n < 64" shows "bit W_SSTATUS n \<longleftrightarrow> n \<in> {1, 5, 8, 13, 14, 18, 19}"
proof -
  have e: "W_SSTATUS = push_bit 1 1 OR push_bit 5 1 OR push_bit 8 1 OR push_bit 13 1 OR push_bit 14 1
      OR push_bit 18 1 OR push_bit 19 1"
    by (simp add: W_SSTATUS_def MSTATUS_SIE_def MSTATUS_SPIE_def MSTATUS_SPP_def MSTATUS_FS_def
        MSTATUS_SUM_def MSTATUS_MXR_def)
  show ?thesis unfolding e bit_or_iff flag_bit [OF assms] by auto
qed

lemma SSTATUS_MASK_bit: assumes "n < 64" shows "bit SSTATUS_MASK n \<longleftrightarrow> n \<in> {1, 5, 8, 13, 14, 18, 19, 32, 33, 63}"
proof -
  have e: "SSTATUS_MASK = push_bit 1 1 OR push_bit 5 1 OR push_bit 8 1 OR push_bit 13 1 OR push_bit 14 1
      OR push_bit 18 1 OR push_bit 19 1 OR push_bit 32 1 OR push_bit 33 1 OR push_bit 63 1"
    by (simp add: SSTATUS_MASK_def MSTATUS_SIE_def MSTATUS_SPIE_def MSTATUS_SPP_def MSTATUS_FS_def
        MSTATUS_SUM_def MSTATUS_MXR_def MSTATUS_UXL_def MSTATUS_SD_def)
  show ?thesis unfolding e bit_or_iff flag_bit [OF assms] by auto
qed

lemma FS_bit: assumes "n < 64" shows "bit MSTATUS_FS n \<longleftrightarrow> n = 13 \<or> n = 14"
proof -
  have e: "MSTATUS_FS = push_bit 13 1 OR push_bit 14 1" by (simp add: MSTATUS_FS_def)
  show ?thesis unfolding e bit_or_iff flag_bit [OF assms] by auto
qed

lemma mstatus_view_bit: "n < 63 \<Longrightarrow> bit (mstatus_view y) n \<longleftrightarrow> bit (mstatus y) n"
  "bit (mstatus_view y) 63 \<longleftrightarrow> bit (mstatus y) 63 \<or> bit (mstatus y) 13 \<and> bit (mstatus y) 14"
proof -
  have f: "mstatus y AND MSTATUS_FS = MSTATUS_FS \<longleftrightarrow> bit (mstatus y) 13 \<and> bit (mstatus y) 14" (is "?l = ?r")
  proof
    assume ?l
    then have "bit (mstatus y AND MSTATUS_FS) n = bit MSTATUS_FS n" for n by simp
    from this [of 13] this [of 14] show ?r by (simp add: bit_and_iff FS_bit)
  next
    assume ?r
    show ?l
    proof (rule bit_word_eqI)
      fix n assume "n < LENGTH(64)"
      then have "bit MSTATUS_FS n \<longleftrightarrow> n = 13 \<or> n = 14" using FS_bit [of n] by simp
      with \<open>?r\<close> show "bit (mstatus y AND MSTATUS_FS) n = bit MSTATUS_FS n" by (auto simp: bit_and_iff)
    qed
  qed
  show "n < 63 \<Longrightarrow> bit (mstatus_view y) n \<longleftrightarrow> bit (mstatus y) n"
    using flag_bit [of n 63] by (simp add: mstatus_view_def bit_or_iff MSTATUS_SD_def del: push_bit_of_1)
  show "bit (mstatus_view y) 63 \<longleftrightarrow> bit (mstatus y) 63 \<or> bit (mstatus y) 13 \<and> bit (mstatus y) 14"
    using flag_bit [of 63 63] unfolding mstatus_view_def f MSTATUS_SD_def by (auto simp del: push_bit_of_1 simp: bit_or_iff)
qed

text \<open>
  Property C30. The supervisor's view of \<^verbatim>\<open>mstatus\<close>. A write of \<^verbatim>\<open>sstatus\<close> (CSR 0x100) that is allowed sets SIE (bit
  1), SPIE (5), SPP (8), FS (13 and 14), SUM (18) and MXR (19) to the written value and changes no other
  bit of \<^verbatim>\<open>mstatus\<close> and no other privileged register: MIE, MPIE, MPP, MPRV, TVM, TW, TSR and the fixed
  widths are out of reach. Reading back gives those fields, UXL (32 and 33) and SD (63), which is
  set whenever the written FS is dirty, and zero everywhere else.
\<close>

theorem sstatus_write:
  assumes "csr_write 0x100 v c = (True, d)" and "sys c = Some y"
  shows "\<exists>m w. sys d = Some (y\<lparr>mstatus := m\<rparr>)
    \<and> (\<forall>n<64. bit m n \<longleftrightarrow> (if n \<in> {1, 5, 8, 13, 14, 18, 19} then bit v n else bit (mstatus y) n))
    \<and> csr_read 0x100 d = Some w
    \<and> (\<forall>n<64. bit w n \<longleftrightarrow> (if n \<in> {1, 5, 8, 13, 14, 18, 19} then bit v n
         else if n = 32 \<or> n = 33 then bit (mstatus y) n
         else n = 63 \<and> (bit (mstatus y) 63 \<or> bit v 13 \<and> bit v 14)))"
proof -
  have a: "SSTATUS = 0x100" by (simp add: SSTATUS_def)
  note w = assms(1) [folded a]
  have nd: "\<not> csr_denied SSTATUS c" using w by (auto simp: csr_write_sstatus split: if_splits)
  let ?m = "(mstatus y AND NOT W_SSTATUS) OR (v AND W_SSTATUS)"
  have z: "set_sstatus v y = y\<lparr>mstatus := ?m\<rparr>" by (simp add: set_sstatus_def)
  from nd w assms(2) have d: "d = refresh_jit_tlb_context (c\<lparr>irq_poll_cd := 0, sys := Some (set_sstatus v y)\<rparr>)"
    by (simp add: csr_write_sstatus put_status_def)
  then have s: "sys d = Some (y\<lparr>mstatus := ?m\<rparr>)" by (simp add: refresh_simps z)
  have m: "bit ?m n \<longleftrightarrow> (if n \<in> {1, 5, 8, 13, 14, 18, 19} then bit v n else bit (mstatus y) n)" if "n < 64" for n
    using that unfolding bit_or_iff bit_and_iff bit_not_iff W_SSTATUS_bit [OF that] by auto
  have "\<not> csr_denied SSTATUS d" using nd assms(2) s by (simp add: csr_denied_def)
  with s have r: "csr_read SSTATUS d = Some (mstatus_view (y\<lparr>mstatus := ?m\<rparr>) AND SSTATUS_MASK)"
    by (simp add: csr_read_sstatus)
  have "bit (mstatus_view (y\<lparr>mstatus := ?m\<rparr>) AND SSTATUS_MASK) n \<longleftrightarrow>
      (if n \<in> {1, 5, 8, 13, 14, 18, 19} then bit v n
       else if n = 32 \<or> n = 33 then bit (mstatus y) n
       else n = 63 \<and> (bit (mstatus y) 63 \<or> bit v 13 \<and> bit v 14))" if "n < 64" for n
  proof (cases "n = 63")
    case True
    then show ?thesis using mstatus_view_bit(2) [of "y\<lparr>mstatus := ?m\<rparr>"] m [of 13] m [of 14] m [of 63]
      unfolding bit_and_iff SSTATUS_MASK_bit [OF that] by simp
  next
    case False
    then show ?thesis using that mstatus_view_bit(1) [of n "y\<lparr>mstatus := ?m\<rparr>"] m [of n]
      unfolding bit_and_iff SSTATUS_MASK_bit [OF that] by auto
  qed
  with s m r show ?thesis unfolding a by blast
qed

theorem sstatus_write_witness:
  "let c = enable_system 0 cpu_new; d = snd (csr_write 0x100 (- 1) c)
   in \<not> bit (mstatus (sys_of d)) 11 \<and> bit (mstatus (sys_of d)) 1 \<and> bit (the (csr_read 0x100 d)) 63"
proof -
  obtain y c where c: "c = enable_system 0 cpu_new" "sys c = Some y" "sys_mode y = Machine" "\<not> bit (mstatus y) 11"
    using enable_system_simps [of 0 cpu_new] by (simp add: sys_new_mstatus)
  then have "\<not> csr_denied SSTATUS c" by (simp add: csr_denied_def csr_min_mode_def SSTATUS_def)
  then obtain d where d: "csr_write 0x100 (- 1) c = (True, d)"
    using csr_write_sstatus [of "- 1" c] c(2) by (auto simp: put_status_def SSTATUS_def)
  from sstatus_write [OF d c(2)] c(4) have "\<not> bit (mstatus (sys_of d)) 11 \<and> bit (mstatus (sys_of d)) 1 \<and> bit (the (csr_read 0x100 d)) 63"
    by auto
  then show ?thesis unfolding c(1) [symmetric] Let_def d snd_conv .
qed
section \<open>Well-formed privileged state\<close>

text \<open>
  The invariant of the privileged registers: saved PCs are halfword aligned, the vectors have a legal
  mode, only supervisor interrupts are delegated, the address-translation mode is one the walker
  knows, the widths in \<^verbatim>\<open>mstatus\<close> are fixed at 64 bits, and the PMP arrays have their lengths.
\<close>

definition IRQ_S :: u64 where "IRQ_S = IRQ_SSIP OR IRQ_STIP OR IRQ_SEIP"

definition XL :: u64 where "XL = MSTATUS_UXL OR MSTATUS_SXL"

definition sys_ok :: "sys_csrs \<Rightarrow> bool" where
  "sys_ok y \<longleftrightarrow> \<not> bit (sepc y) 0 \<and> \<not> bit (mepc y) 0 \<and> \<not> bit (stvec y) 1 \<and> \<not> bit (mtvec y) 1
     \<and> mideleg y AND NOT IRQ_S = 0
     \<and> drop_bit 60 (satp y) \<in> {0, 8, 9}
     \<and> mstatus y AND XL = mstatus sys_new AND XL
     \<and> length (pmpcfg y) = 8 \<and> length (pmpaddr y) = 64"

definition hart_ok :: "cpu \<Rightarrow> bool" where
  "hart_ok c \<longleftrightarrow> \<not> bit (pc c) 0 \<and> xreg c 0 = 0 \<and> fcsr c AND 0xff = fcsr c
     \<and> (case sys c of None \<Rightarrow> True | Some y \<Rightarrow> sys_ok y)"

lemma XL_bit: "bit XL n \<longleftrightarrow> n \<in> {32, 33, 34, 35}"
  unfolding XL_def MSTATUS_UXL_def MSTATUS_SXL_def bit_or_iff bit_pair by auto

lemma W_XL: "(m AND NOT W_SSTATUS OR v AND W_SSTATUS) AND XL = m AND XL"
  "(m AND NOT W_MSTATUS OR v AND W_MSTATUS) AND XL = m AND XL"
proof -
  have b: "\<not> bit W_SSTATUS n \<and> \<not> bit W_MSTATUS n" if "bit XL n" for n
    using that unfolding XL_bit W_SSTATUS_def W_MSTATUS_def mstatus_defs
    by (auto simp only: bit_or_iff bit_single bit_pair insert_iff empty_iff)
  show "(m AND NOT W_SSTATUS OR v AND W_SSTATUS) AND XL = m AND XL"
    by (rule bit_word_eqI) (auto simp: bit_and_iff bit_or_iff bit_not_iff dest: b)
  show "(m AND NOT W_MSTATUS OR v AND W_MSTATUS) AND XL = m AND XL"
    by (rule bit_word_eqI) (auto simp: bit_and_iff bit_or_iff bit_not_iff dest: b)
qed

lemma hart_ok_new: "hart_ok cpu_new" "hart_ok (enable_system h cpu_new)"
proof -
  show "hart_ok cpu_new" by (simp add: hart_ok_def cpu_new_def)
  then show "hart_ok (enable_system h cpu_new)"
    by (simp add: hart_ok_def enable_system_simps)
      (simp add: enable_system_def refresh_simps sys_ok_def sys_new_def cpu_new_def)
qed

lemma hart_ok_refresh [simp]: "hart_ok (refresh_jit_tlb_context c) = hart_ok c"
  by (simp add: hart_ok_def refresh_simps)

lemma hart_ok_sys: "hart_ok c \<Longrightarrow> sys c = Some y \<Longrightarrow> sys_ok z \<Longrightarrow> hart_ok (c\<lparr>sys := Some z\<rparr>)"
  by (simp add: hart_ok_def)

lemma hart_ok_sysD: "hart_ok c \<Longrightarrow> sys c = Some y \<Longrightarrow> sys_ok y"
  by (simp add: hart_ok_def)

lemma put_ok:
  "hart_ok c \<Longrightarrow> (\<And>y. sys_ok y \<Longrightarrow> sys_ok (g y)) \<Longrightarrow> hart_ok (snd (put g c))"
  "hart_ok c \<Longrightarrow> (\<And>y. sys_ok y \<Longrightarrow> sys_ok (g y)) \<Longrightarrow> hart_ok (snd (put_status g c))"
  by (auto simp: put_defs hart_ok_sys hart_ok_sysD split: option.splits)

lemma hart_ok_poll [simp]: "hart_ok (c\<lparr>irq_poll_cd := k\<rparr>) = hart_ok c"
  by (simp add: hart_ok_def)

lemma write_satp_ok: "hart_ok c \<Longrightarrow> hart_ok (snd (write_satp v c))"
  by (auto simp: write_satp_def Let_def flush_tlb_def bump_map_generation_def hart_ok_def sys_ok_def
      split: option.splits)

lemma if_ok: "hart_ok (snd a) \<Longrightarrow> hart_ok (snd b) \<Longrightarrow> hart_ok (snd (if p then a else b))"
  by simp

lemma ret_ok: "hart_ok c \<Longrightarrow> hart_ok (snd (k, c))"
  by simp

lemma and_not_bits:
  "\<not> bit (v AND NOT (1 :: u64)) 0" "\<not> bit (v AND NOT (2 :: u64)) 1"
  "(v AND (IRQ_SSIP OR IRQ_STIP OR IRQ_SEIP)) AND NOT IRQ_S = 0"
proof -
  show "\<not> bit (v AND NOT (1 :: u64)) 0" by (simp add: bit_and_iff bit_not_iff)
  have "(2 :: u64) = push_bit 1 1" by simp
  then show "\<not> bit (v AND NOT (2 :: u64)) 1"
    by (simp only: bit_and_iff bit_not_iff bit_single) simp
  show "(v AND (IRQ_SSIP OR IRQ_STIP OR IRQ_SEIP)) AND NOT IRQ_S = 0"
    unfolding IRQ_S_def [symmetric] by (simp add: and.assoc)
qed

lemma sys_ok_free:
  "sys_ok y \<Longrightarrow> sys_ok (y\<lparr>mie := v\<rparr>)"
  "sys_ok y \<Longrightarrow> sys_ok (y\<lparr>scounteren := v\<rparr>)"
  "sys_ok y \<Longrightarrow> sys_ok (y\<lparr>sscratch := v\<rparr>)"
  "sys_ok y \<Longrightarrow> sys_ok (y\<lparr>scause := v\<rparr>)"
  "sys_ok y \<Longrightarrow> sys_ok (y\<lparr>stval := v\<rparr>)"
  "sys_ok y \<Longrightarrow> sys_ok (y\<lparr>mip := v\<rparr>)"
  "sys_ok y \<Longrightarrow> sys_ok (y\<lparr>medeleg := v\<rparr>)"
  "sys_ok y \<Longrightarrow> sys_ok (y\<lparr>mcounteren := v\<rparr>)"
  "sys_ok y \<Longrightarrow> sys_ok (y\<lparr>mscratch := v\<rparr>)"
  "sys_ok y \<Longrightarrow> sys_ok (y\<lparr>mcause := v\<rparr>)"
  "sys_ok y \<Longrightarrow> sys_ok (y\<lparr>mtval := v\<rparr>)"
  "sys_ok y \<Longrightarrow> sys_ok (y\<lparr>mtime := v\<rparr>)"
  "sys_ok y \<Longrightarrow> sys_ok (y\<lparr>minstret_off := v\<rparr>)"
  "sys_ok y \<Longrightarrow> sys_ok (y\<lparr>mhartid := v\<rparr>)"
  "sys_ok y \<Longrightarrow> sys_ok (y\<lparr>time_scale := v\<rparr>)"
  "sys_ok y \<Longrightarrow> sys_ok (y\<lparr>time_offset := v\<rparr>)"
  by (simp_all add: sys_ok_def)

lemma sys_ok_masked:
  "sys_ok y \<Longrightarrow> sys_ok (y\<lparr>stvec := v AND NOT 2\<rparr>)" "sys_ok y \<Longrightarrow> sys_ok (y\<lparr>mtvec := v AND NOT 2\<rparr>)"
  "sys_ok y \<Longrightarrow> sys_ok (y\<lparr>sepc := v AND NOT 1\<rparr>)" "sys_ok y \<Longrightarrow> sys_ok (y\<lparr>mepc := v AND NOT 1\<rparr>)"
  "sys_ok y \<Longrightarrow> sys_ok (y\<lparr>mideleg := v AND (IRQ_SSIP OR IRQ_STIP OR IRQ_SEIP)\<rparr>)"
  "sys_ok y \<Longrightarrow> sys_ok (y\<lparr>mstatus := (mstatus y AND NOT W_SSTATUS) OR (v AND W_SSTATUS)\<rparr>)"
  "sys_ok y \<Longrightarrow> sys_ok (y\<lparr>mstatus := (mstatus y AND NOT W_MSTATUS) OR (v AND W_MSTATUS)\<rparr>)"
  "sys_ok y \<Longrightarrow> sys_ok (y\<lparr>pmpcfg := (pmpcfg y)[k := v]\<rparr>)" "sys_ok y \<Longrightarrow> sys_ok (y\<lparr>pmpaddr := (pmpaddr y)[k := v]\<rparr>)"
  using and_not_bits(1,2) [of v] and_not_bits(3) [of v] W_XL [of "mstatus y" v]
  unfolding sys_ok_def by simp_all

lemma csr_write_s_ok: "hart_ok c \<Longrightarrow> hart_ok (snd (csr_write_s csr v c))"
  unfolding csr_write_s_def Let_def
  by (intro if_ok put_ok write_satp_ok ret_ok sys_ok_free sys_ok_masked)

lemma csr_write_m_ok: "hart_ok c \<Longrightarrow> hart_ok (snd (csr_write_m csr v c))"
  unfolding csr_write_m_def
  by (intro if_ok put_ok ret_ok sys_ok_free sys_ok_masked)

lemma fcsr_masks:
  "((f AND NOT 0x1f) OR (w AND 0x1f)) AND 0xff = (f AND NOT 0x1f) OR (w AND 0x1f :: u32)"
  "((f AND NOT 0xe0) OR push_bit 5 (w AND 7)) AND 0xff = (f AND NOT 0xe0) OR push_bit 5 (w AND 7 :: u32)"
  if "f AND 0xff = f"
proof -
  have f: "bit f n \<Longrightarrow> n < 8" for n
    using arg_cong [OF that, of "\<lambda>x. bit x n"] by (simp add: mask_simps bit_take_bit_iff)
  have k: "(0xff :: u32) = mask 8" "(0x1f :: u32) = mask 5" "(7 :: u32) = mask 3" "(0xe0 :: u32) = push_bit 5 (mask 3)"
    by (simp_all add: mask_numeral)
  show "((f AND NOT 0x1f) OR (w AND 0x1f)) AND 0xff = (f AND NOT 0x1f) OR (w AND 0x1f :: u32)"
    unfolding k by (rule bit_word_eqI) (auto simp add: bit_and_iff bit_or_iff bit_mask_iff dest: f)
  show "((f AND NOT 0xe0) OR push_bit 5 (w AND 7)) AND 0xff = (f AND NOT 0xe0) OR push_bit 5 (w AND 7 :: u32)"
    unfolding k by (rule bit_word_eqI) (auto simp add: bit_and_iff bit_or_iff bit_mask_iff bit_push_bit_iff dest: f)
qed

lemma hart_ok_fcsr: "hart_ok c \<Longrightarrow> v AND 0xff = v \<Longrightarrow> hart_ok (c\<lparr>fcsr := v\<rparr>)"
  by (simp add: hart_ok_def)

lemma hart_ok_upd_sys: "hart_ok c \<Longrightarrow> (\<And>y. sys_ok y \<Longrightarrow> sys_ok (g y)) \<Longrightarrow> hart_ok (upd_sys g c)"
  by (auto simp: hart_ok_def upd_sys_def split: option.splits)

text \<open>\<open>csr_write\<close> keeps the hart well formed on every address, value and outcome.\<close>

lemma csr_write_ok:
  assumes "hart_ok c"
  shows "hart_ok (snd (csr_write csr v c))"
proof -
  let ?c = "c\<lparr>irq_poll_cd := 0\<rparr>"
  have h: "hart_ok ?c" using assms by simp
  have f: "fcsr ?c AND 0xff = fcsr ?c" using assms by (simp add: hart_ok_def)
  have m: "((ucast v :: u32) AND 0xff) AND 0xff = ucast v AND 0xff" by (simp add: and.assoc)
  show ?thesis
    unfolding csr_write_def Let_def
    by (intro if_ok ret_ok put_ok csr_write_s_ok csr_write_m_ok hart_ok_fcsr hart_ok_upd_sys
        sys_ok_free sys_ok_masked fcsr_masks h f m)
qed

section \<open>Traps keep the hart well formed\<close>

lemma vector_even: "\<not> bit (vector_pc tv cau k) 0"
proof -
  have "even ((tv AND NOT 3) + 4 * cau)" for cau :: u64
    by (simp add: even_and_iff)
  moreover have "even (tv AND NOT 3)" by (simp add: even_and_iff)
  ultimately show ?thesis by (simp add: vector_pc_def Let_def bit_0)
qed

lemma XL_trap:
  "mstatus (trap_to_s cv tv p y) AND XL = mstatus y AND XL"
  "mstatus (trap_to_m cv tv p y) AND XL = mstatus y AND XL"
  "mstatus (mret_sys y) AND XL = mstatus y AND XL" "mstatus (sret_sys y) AND XL = mstatus y AND XL"
  by (rule bit_word_eqI, use XL_bit in \<open>auto simp: bit_and_iff trap_to_s_bits trap_to_m_bits
      mret_bits sret_bits\<close>)+

lemma trap_to_ok:
  assumes "sys_ok y" and "\<not> bit p 0"
  shows "sys_ok (trap_to_s cv tv p y)" and "sys_ok (trap_to_m cv tv p y)"
  using assms XL_trap(1) [of cv tv p y] XL_trap(2) [of cv tv p y] unfolding sys_ok_def
  by (simp_all add: trap_to_simps) (simp_all add: trap_to_s_def trap_to_m_def Let_def)

lemma ret_sys_ok: "sys_ok y \<Longrightarrow> sys_ok (mret_sys y)" "sys_ok y \<Longrightarrow> sys_ok (sret_sys y)"
  using XL_trap(3) [of y] XL_trap(4) [of y] unfolding sys_ok_def
  by (simp_all add: mret_sys_def sret_sys_def Let_def)

lemma prologue_ok: "hart_ok (trap_prologue cau k c) = hart_ok c"
  by (auto simp: hart_ok_def trap_prologue_def Let_def)

lemma take_trap_ok:
  assumes "hart_ok c" and "sys c \<noteq> None"
  shows "hart_ok (take_trap cau tval k c)"
proof -
  from assms obtain y where y: "sys c = Some y" "sys_ok y" "\<not> bit (pc c) 0"
    by (auto simp: hart_ok_def split: option.splits)
  have "hart_ok (trap_prologue cau k c)" using assms(1) by (simp add: prologue_ok)
  then show ?thesis
    using y trap_to_ok [OF y(2,3)] vector_even
    by (simp add: take_trap_def Let_def prologue_simps) (simp add: hart_ok_def)
qed

lemma exec_mret_ok:
  assumes "hart_ok c"
  shows "hart_ok (snd (exec_mret insn c)) \<and> (\<forall>p. fst (exec_mret insn c) = Inr p \<longrightarrow> \<not> bit p 0)"
  using assms ret_sys_ok
  by (auto simp: exec_mret_def Let_def hart_ok_def refresh_simps sys_ok_def split: option.splits)

lemma exec_sret_ok:
  assumes "hart_ok c"
  shows "hart_ok (snd (exec_sret insn c)) \<and> (\<forall>p. fst (exec_sret insn c) = Inr p \<longrightarrow> \<not> bit p 0)"
  using assms ret_sys_ok
  by (auto simp: exec_sret_def Let_def hart_ok_def refresh_simps sys_ok_def split: option.splits)

section \<open>The translation caches across CSR writes and traps\<close>

text \<open>
  \<open>coherent_step c d\<close>: from hart \<open>c\<close> to \<open>d\<close> is a change of context within the address space, or the state
  after a full flush. The translation caches stay what \<open>mmu_reach\<close> promises.
\<close>

definition coherent_step :: "cpu \<Rightarrow> cpu \<Rightarrow> bool" where
  "coherent_step c d \<longleftrightarrow> (sys c \<noteq> None \<longrightarrow> sys d \<noteq> None \<and>
     (satp (sys_of d) = satp (sys_of c) \<and> tlb_tag d = tlb_tag c \<and> tlb_diff d = tlb_diff c
      \<or> tlb_tag d = tlb_tag (flush_tlb d)))"

lemma coherent_reach:
  assumes "coherent_step c d" and "sys c \<noteq> None" and "mmu_reach ops wd s0 (c, b)"
  shows "mmu_reach ops wd s0 (d, b)"
proof (cases "satp (sys_of d) = satp (sys_of c) \<and> tlb_tag d = tlb_tag c \<and> tlb_diff d = tlb_diff c")
  case True
  with assms show ?thesis by (intro step_context [OF assms(3)]) (auto simp: coherent_step_def)
next
  case False
  with assms have d: "sys d \<noteq> None" "tlb_tag d = tlb_tag (flush_tlb d)"
    by (auto simp: coherent_step_def)
  have "mmu_reach ops wd s0 (flush_tlb d, b)" using step_flush [OF assms(3) d(1)] .
  then show ?thesis
    by (rule step_context) (use d in \<open>simp_all add: flush_tlb_def sys_of_def\<close>)
qed

lemma coherent_put:
  "(\<And>y. satp (g y) = satp y) \<Longrightarrow> coherent_step c (snd (put g c))"
  "(\<And>y. satp (g y) = satp y) \<Longrightarrow> coherent_step c (snd (put_status g c))"
  by (auto simp: coherent_step_def put_defs refresh_simps sys_of_def split: option.splits)

lemma coherent_if: "coherent_step c (snd p) \<Longrightarrow> coherent_step c (snd q) \<Longrightarrow> coherent_step c (snd (if t then p else q))"
  by simp

lemma coherent_refl: "coherent_step c (snd (k, c))" "coherent_step c (snd (k, c\<lparr>fcsr := f\<rparr>))"
  "(\<And>y. satp (g y) = satp y) \<Longrightarrow> coherent_step c (snd (k, upd_sys g c))"
  by (auto simp: coherent_step_def sys_of_def upd_sys_def)

lemma flush_tlb_twice: "tlb_tag (flush_tlb d) = (\<lambda>_ _. TLB_INVALID)"
  by (simp add: flush_tlb_def rows_fill_def)

lemma coherent_satp: "coherent_step c (snd (write_satp v c))"
proof (cases "sys c")
  case None
  then show ?thesis by (simp add: coherent_step_def)
next
  case (Some y)
  let ?d = "flush_tlb (c\<lparr>sys := Some (y\<lparr>satp := v\<rparr>)\<rparr>)"
  let ?e = "bump_map_generation (?d\<lparr>jit_flush_gen := jit_flush_gen ?d + 1\<rparr>)"
  have "snd (write_satp v c) \<in> {c, ?d, ?e}"
    using Some by (simp add: write_satp_def Let_def)
  moreover have fl: "coherent_step c d" if "sys d \<noteq> None" "tlb_tag d = tlb_tag (flush_tlb d)" for d
    using that unfolding coherent_step_def by blast
  moreover have "sys ?d \<noteq> None" "tlb_tag ?d = tlb_tag (flush_tlb ?d)"
    unfolding flush_tlb_twice by (simp add: flush_tlb_def, rule refl)
  moreover from this have "sys ?e \<noteq> None" "tlb_tag ?e = tlb_tag (flush_tlb ?e)"
    unfolding flush_tlb_twice by (simp_all add: bump_map_generation_def Let_def flush_tlb_twice)
  moreover have "coherent_step c c" unfolding coherent_step_def by blast
  ultimately show ?thesis by (elim insertE emptyE) simp_all
qed

lemma satp_free:
  "satp (y\<lparr>mstatus := v\<rparr>) = satp y"
  "satp (y\<lparr>mie := v\<rparr>) = satp y"
  "satp (y\<lparr>stvec := v\<rparr>) = satp y"
  "satp (y\<lparr>scounteren := v\<rparr>) = satp y"
  "satp (y\<lparr>sscratch := v\<rparr>) = satp y"
  "satp (y\<lparr>sepc := v\<rparr>) = satp y"
  "satp (y\<lparr>scause := v\<rparr>) = satp y"
  "satp (y\<lparr>stval := v\<rparr>) = satp y"
  "satp (y\<lparr>mip := v\<rparr>) = satp y"
  "satp (y\<lparr>medeleg := v\<rparr>) = satp y"
  "satp (y\<lparr>mideleg := v\<rparr>) = satp y"
  "satp (y\<lparr>mtvec := v\<rparr>) = satp y"
  "satp (y\<lparr>mcounteren := v\<rparr>) = satp y"
  "satp (y\<lparr>mscratch := v\<rparr>) = satp y"
  "satp (y\<lparr>mepc := v\<rparr>) = satp y"
  "satp (y\<lparr>mcause := v\<rparr>) = satp y"
  "satp (y\<lparr>mtval := v\<rparr>) = satp y"
  "satp (y\<lparr>minstret_off := v\<rparr>) = satp y"
  "satp (y\<lparr>pmpcfg := vs\<rparr>) = satp y"
  "satp (y\<lparr>pmpaddr := vs\<rparr>) = satp y"
  by simp_all

lemma coherent_csr_write_s: "coherent_step c (snd (csr_write_s csr v c))"
  unfolding csr_write_s_def Let_def
  by (intro coherent_if coherent_put coherent_satp coherent_refl(1) satp_free)

lemma coherent_csr_write_m: "coherent_step c (snd (csr_write_m csr v c))"
  unfolding csr_write_m_def
  by (intro coherent_if coherent_put coherent_refl(1) satp_free)

lemma coherent_csr_write:
  "coherent_step c (snd (csr_write csr v c))"
proof -
  have "coherent_step (c\<lparr>irq_poll_cd := 0\<rparr>) (snd (csr_write csr v c))"
    unfolding csr_write_def Let_def
    by (intro coherent_if coherent_put coherent_csr_write_s coherent_csr_write_m coherent_refl satp_free)
  then show ?thesis by (simp add: coherent_step_def sys_of_def)
qed

lemma coherent_trap: "coherent_step c (take_trap cau tval k c)"
  by (auto simp: coherent_step_def take_trap_sys take_trap_simps trap_to_simps sys_of_def)

lemma coherent_ret: "coherent_step c (snd (exec_mret insn c))" "coherent_step c (snd (exec_sret insn c))"
  by (auto simp: coherent_step_def exec_mret_def exec_sret_def Let_def refresh_simps sys_of_def mret_sys_def
      sret_sys_def split: option.splits)

text \<open>
  Property C20. Every operation that changes the privileged state keeps the translation caches coherent:
  after any CSR write (a write of \<^verbatim>\<open>satp\<close> flushes), any trap entry and any return, translation is still the
  architectural walk of the current tables.
\<close>

theorem privileged_ops_coherent:
  assumes "mmu_reach ops wd s0 (c, b)" and "sys c \<noteq> None"
  shows "mmu_reach ops wd s0 (snd (csr_write csr v c), b)
    \<and> mmu_reach ops wd s0 (take_trap cau tval k c, b)
    \<and> mmu_reach ops wd s0 (snd (exec_mret insn c), b)
    \<and> mmu_reach ops wd s0 (snd (exec_sret insn c), b)"
  using coherent_reach [OF _ assms(2,1)] coherent_csr_write coherent_trap coherent_ret by blast

theorem privileged_ops_witness:
  "mmu_reach flat_bus flat_words (demo_cpu, demo_bus) (take_trap 8 0 False demo_cpu, demo_bus)"
  by (rule privileged_ops_coherent [OF start demo_context(3), THEN conjunct2, THEN conjunct1])

end
