(* ===== verification/Exec.thy ===== *)
theory Exec
  imports Alu FpExec Insn CsrFile
begin

unbundle bit_operations_syntax

text \<open>
  Instruction execution of \<^verbatim>\<open>crates/rv64-core/src/cpu.rs\<close>: \<open>execute_decoded\<close> with one definition per
  opcode arm, the fetch of \<open>step\<close>, and the interpreter loops \<open>run\<close> and \<open>run_decoded\<close>. An arm returns
  the next PC; \<open>flow\<close> tells the ordinary end of an instruction, with the reason to stop if there is one,
  from the end of an ECALL whose trap has already set the PC.
\<close>

section \<open>Results\<close>

datatype stop_reason = Budget | Ecall | Break | TrapStop exception | Wfi

datatype run_outcome = Stop stop_reason | Trapped

datatype flow = Next u64 "stop_reason option" | Redirected

text \<open>An operation of the hart alone, beside the bus.\<close>

definition liftC :: "(exception, cpu, 'a) mon \<Rightarrow> ('b, 'a) hart" where
  "liftC m s = (let (r, c) = m (fst s) in (r, (c, snd s)))"

lemma run_liftC: "m (fst s) = (r, c) \<Longrightarrow> liftC m s = (r, (c, snd s))"
  by (simp add: liftC_def)

definition illegal :: "u32 \<Rightarrow> ('b, 'a) hart" where
  "illegal insn = failM (IllegalInstruction insn)"

definition fp_checkM :: "u32 \<Rightarrow> ('b, unit) hart" where
  "fp_checkM insn s = (case fp_check insn (fst s) of Some e \<Rightarrow> (Inl e, s) | None \<Rightarrow> (Inr (), s))"

section \<open>Integer arms\<close>

definition exec_lui :: "u32 \<Rightarrow> u64 \<Rightarrow> ('b, u64) hart" where
  "exec_lui insn npc = seqM (cpuM (wr (rd insn) (imm_u insn))) (retM npc)"

definition exec_auipc :: "u32 \<Rightarrow> u64 \<Rightarrow> ('b, u64) hart" where
  "exec_auipc insn npc = seqM (cpuM (\<lambda>c. wr (rd insn) (pc c + imm_u insn) c)) (retM npc)"

definition exec_jal :: "u32 \<Rightarrow> u64 \<Rightarrow> ('b, u64) hart" where
  "exec_jal insn npc =
     seqM (cpuM (wr (rd insn) npc)) (readM (\<lambda>c. pc c + imm_j insn))"

definition exec_jalr :: "u32 \<Rightarrow> u64 \<Rightarrow> ('b, u64) hart" where
  "exec_jalr insn npc =
     bindM (readM (\<lambda>c. (xreg c (rs1 insn) + imm_i insn) AND NOT 1)) (\<lambda>target.
     seqM (cpuM (wr (rd insn) npc)) (retM target))"

definition exec_branch :: "u32 \<Rightarrow> u64 \<Rightarrow> ('b, u64) hart" where
  "exec_branch insn npc =
     bindM (readM (\<lambda>c. (branch_taken (funct3 insn) (xreg c (rs1 insn)) (xreg c (rs2 insn)), pc c)))
       (\<lambda>(tk, p). case tk of None \<Rightarrow> illegal insn
                  | Some t \<Rightarrow> retM (if t then p + imm_b insn else npc))"

definition load_value :: "'b bus_ops \<Rightarrow> u32 \<Rightarrow> u64 \<Rightarrow> ('b, u64) hart" where
  "load_value ops insn addr =
     (let f3 = funct3 insn
      in if f3 = 0 then bindM (ld_mem ops 1 addr) (\<lambda>v. retM (scast (ucast v :: u8)))
         else if f3 = 1 then bindM (ld_mem ops 2 addr) (\<lambda>v. retM (scast (ucast v :: u16)))
         else if f3 = 2 then bindM (ld_mem ops 4 addr) (\<lambda>v. retM (scast (ucast v :: u32)))
         else if f3 = 3 then ld_mem ops 8 addr
         else if f3 = 4 then ld_mem ops 1 addr
         else if f3 = 5 then ld_mem ops 2 addr
         else if f3 = 6 then ld_mem ops 4 addr
         else illegal insn)"

definition exec_load :: "'b bus_ops \<Rightarrow> u32 \<Rightarrow> u64 \<Rightarrow> ('b, u64) hart" where
  "exec_load ops insn npc =
     bindM (readM (\<lambda>c. xreg c (rs1 insn) + imm_i insn)) (\<lambda>addr.
     bindM (load_value ops insn addr) (\<lambda>v.
     seqM (cpuM (wr (rd insn) v)) (retM npc)))"

definition store_value :: "'b bus_ops \<Rightarrow> u32 \<Rightarrow> u64 \<Rightarrow> u64 \<Rightarrow> ('b, unit) hart" where
  "store_value ops insn addr val =
     (let f3 = funct3 insn
      in if f3 = 0 then st_mem ops 1 addr val
         else if f3 = 1 then st_mem ops 2 addr val
         else if f3 = 2 then st_mem ops 4 addr val
         else if f3 = 3 then st_mem ops 8 addr val
         else illegal insn)"

definition exec_store :: "'b bus_ops \<Rightarrow> u32 \<Rightarrow> u64 \<Rightarrow> ('b, u64) hart" where
  "exec_store ops insn npc =
     bindM (readM (\<lambda>c. (xreg c (rs1 insn) + imm_s insn, xreg c (rs2 insn)))) (\<lambda>(addr, val).
     seqM (store_value ops insn addr val) (retM npc))"

definition exec_op_imm :: "u32 \<Rightarrow> u64 \<Rightarrow> ('b, u64) hart" where
  "exec_op_imm insn npc =
     seqM (cpuM (\<lambda>c. wr (rd insn) (alu_imm insn (xreg c (rs1 insn)) (imm_i insn)) c)) (retM npc)"

definition exec_op_imm32 :: "u32 \<Rightarrow> u64 \<Rightarrow> ('b, u64) hart" where
  "exec_op_imm32 insn npc =
     bindM (readM (\<lambda>c. alu_imm32 insn (ucast (xreg c (rs1 insn))) (imm_i insn))) (\<lambda>r.
     case r of None \<Rightarrow> illegal insn
     | Some v \<Rightarrow> seqM (cpuM (wr (rd insn) (sx32 v))) (retM npc))"

definition exec_op :: "u32 \<Rightarrow> u64 \<Rightarrow> ('b, u64) hart" where
  "exec_op insn npc =
     bindM (readM (\<lambda>c. alu_op (funct7 insn) (funct3 insn) (xreg c (rs1 insn)) (xreg c (rs2 insn)))) (\<lambda>r.
     case r of None \<Rightarrow> illegal insn
     | Some v \<Rightarrow> seqM (cpuM (wr (rd insn) v)) (retM npc))"

definition exec_op32 :: "u32 \<Rightarrow> u64 \<Rightarrow> ('b, u64) hart" where
  "exec_op32 insn npc =
     bindM (readM (\<lambda>c. alu_op32 (funct7 insn) (funct3 insn) (ucast (xreg c (rs1 insn)))
       (ucast (xreg c (rs2 insn))))) (\<lambda>r.
     case r of None \<Rightarrow> illegal insn
     | Some v \<Rightarrow> seqM (cpuM (wr (rd insn) (sx32 v))) (retM npc))"

section \<open>Atomics\<close>

definition amo_load :: "'b bus_ops \<Rightarrow> bool \<Rightarrow> u64 \<Rightarrow> ('b, u64) hart" where
  "amo_load ops is64 addr =
     (if is64 then ld_mem ops 8 addr else bindM (ld_mem ops 4 addr) (\<lambda>v. retM (sx32 (ucast v))))"

definition amo_store :: "'b bus_ops \<Rightarrow> bool \<Rightarrow> u64 \<Rightarrow> u64 \<Rightarrow> ('b, unit) hart" where
  "amo_store ops is64 addr v = (if is64 then st_mem ops 8 addr v else st_mem ops 4 addr v)"

definition exec_lr :: "'b bus_ops \<Rightarrow> u32 \<Rightarrow> bool \<Rightarrow> u64 \<Rightarrow> ('b, unit) hart" where
  "exec_lr ops insn is64 addr =
     bindM (amo_load ops is64 addr) (\<lambda>v. cpuM (\<lambda>c. wr (rd insn) v (c\<lparr>reservation := Some addr\<rparr>)))"

definition exec_sc :: "'b bus_ops \<Rightarrow> u32 \<Rightarrow> bool \<Rightarrow> u64 \<Rightarrow> u64 \<Rightarrow> ('b, unit) hart" where
  "exec_sc ops insn is64 addr src =
     bindM (readM (\<lambda>c. reservation c = Some addr)) (\<lambda>held.
     seqM (if held then seqM (amo_store ops is64 addr src) (cpuM (wr (rd insn) 0))
           else cpuM (wr (rd insn) 1))
       (cpuM (\<lambda>c. c\<lparr>reservation := None\<rparr>)))"

definition exec_rmw :: "'b bus_ops \<Rightarrow> u32 \<Rightarrow> u32 \<Rightarrow> bool \<Rightarrow> u64 \<Rightarrow> u64 \<Rightarrow> ('b, unit) hart" where
  "exec_rmw ops insn f5 is64 addr src =
     bindM (amo_load ops is64 addr) (\<lambda>old.
     case amo_new f5 is64 old src of None \<Rightarrow> illegal insn
     | Some v \<Rightarrow> seqM (amo_store ops is64 addr v) (cpuM (wr (rd insn) old)))"

definition exec_amo :: "'b bus_ops \<Rightarrow> u32 \<Rightarrow> u64 \<Rightarrow> ('b, u64) hart" where
  "exec_amo ops insn npc =
     bindM (readM (\<lambda>c. (xreg c (rs1 insn), xreg c (rs2 insn)))) (\<lambda>(addr, src).
       (let f5 = drop_bit 2 (funct7 insn); f3 = funct3 insn; is64 = (f3 = 3)
        in if f3 \<noteq> 2 \<and> f3 \<noteq> 3 then illegal insn
           else seqM (if f5 = 0x02 then exec_lr ops insn is64 addr
                      else if f5 = 0x03 then exec_sc ops insn is64 addr src
                      else exec_rmw ops insn f5 is64 addr src)
                  (retM npc)))"

section \<open>Floating point\<close>

definition exec_load_fp :: "'b bus_ops \<Rightarrow> u32 \<Rightarrow> u64 \<Rightarrow> ('b, u64) hart" where
  "exec_load_fp ops insn npc =
     seqM (fp_checkM insn) (seqM (cpuM fp_dirty)
       (bindM (readM (\<lambda>c. xreg c (rs1 insn) + imm_i insn)) (\<lambda>addr.
        bindM (if funct3 insn = 2 then bindM (ld_mem ops 4 addr) (\<lambda>v. retM (box32 (ucast v)))
               else if funct3 insn = 3 then ld_mem ops 8 addr
               else illegal insn) (\<lambda>v.
        seqM (cpuM (set_f (rd insn) v)) (retM npc)))))"

definition exec_store_fp :: "'b bus_ops \<Rightarrow> u32 \<Rightarrow> u64 \<Rightarrow> ('b, u64) hart" where
  "exec_store_fp ops insn npc =
     seqM (fp_checkM insn)
       (bindM (readM (\<lambda>c. (xreg c (rs1 insn) + imm_s insn, freg c (rs2 insn)))) (\<lambda>(addr, v).
        seqM (if funct3 insn = 2 then st_mem ops 4 addr v
              else if funct3 insn = 3 then st_mem ops 8 addr v
              else illegal insn) (retM npc)))"

definition exec_fma :: "u32 \<Rightarrow> u64 \<Rightarrow> ('b, u64) hart" where
  "exec_fma insn npc =
     seqM (fp_checkM insn) (seqM (cpuM fp_dirty) (seqM (liftC (op_fma insn)) (retM npc)))"

definition exec_op_fp :: "u32 \<Rightarrow> u64 \<Rightarrow> ('b, u64) hart" where
  "exec_op_fp insn npc =
     seqM (fp_checkM insn) (seqM (cpuM fp_dirty) (seqM (liftC (op_fp insn)) (retM npc)))"

definition exec_misc_mem :: "u32 \<Rightarrow> u64 \<Rightarrow> ('b, u64) hart" where
  "exec_misc_mem insn npc =
     seqM (cpuM (\<lambda>c. if funct3 insn = 1 then c\<lparr>icache_gen := icache_gen c + 1\<rparr> else c)) (retM npc)"

section \<open>SYSTEM\<close>

definition ecall_cause :: "mode \<Rightarrow> u64" where
  "ecall_cause m = (case m of User \<Rightarrow> 8 | Supervisor \<Rightarrow> 9 | Machine \<Rightarrow> 11)"

definition exec_ecall :: "u64 \<Rightarrow> ('b, flow) hart" where
  "exec_ecall npc s =
     (case sys (fst s) of
        None \<Rightarrow> (Inr (Next npc (Some Ecall)), s)
      | Some y \<Rightarrow>
          if host_sbi (fst s) \<and> sys_mode y = Supervisor then (Inr (Next npc (Some Ecall)), s)
          else
            (let c = take_trap (ecall_cause (sys_mode y)) 0 False (fst s)
             in (Inr Redirected, (c\<lparr>insn_count := insn_count c + 1\<rparr>, snd s))))"

definition exec_ebreak :: "u64 \<Rightarrow> ('b, flow) hart" where
  "exec_ebreak npc s =
     (if sys (fst s) \<noteq> None then (Inl Breakpoint, s) else (Inr (Next npc (Some Break)), s))"

definition exec_wfi :: "u32 \<Rightarrow> u64 \<Rightarrow> ('b, flow) hart" where
  "exec_wfi insn npc s =
     (case sys (fst s) of
        None \<Rightarrow> (Inr (Next npc None), s)
      | Some y \<Rightarrow>
          if sys_mode y = User \<or> (sys_mode y = Supervisor \<and> mstatus y AND MSTATUS_TW \<noteq> 0)
          then (Inl (IllegalInstruction insn), s)
          else (Inr (Next npc (if mip y AND mie y = 0 then Some Wfi else None)), s))"

definition exec_sfence :: "u32 \<Rightarrow> u64 \<Rightarrow> ('b, flow) hart" where
  "exec_sfence insn npc s =
     (if (case sys (fst s) of None \<Rightarrow> False
          | Some y \<Rightarrow> sys_mode y = User \<or> (sys_mode y = Supervisor \<and> mstatus y AND MSTATUS_TVM \<noteq> 0))
      then (Inl (IllegalInstruction insn), s)
      else
        (let c = fst s;
             d = (if rs1 insn = 0 then flush_tlb c else flush_tlb_page (xreg c (rs1 insn)) c)
         in (Inr (Next npc None), (bump_map_generation d, snd s))))"

text \<open>The value a CSR instruction writes, if it writes.\<close>

definition csr_new :: "u32 \<Rightarrow> bool \<Rightarrow> u64 \<Rightarrow> u64 \<Rightarrow> u64 option" where
  "csr_new f3 src_is_zero src old =
     (let k = f3 AND 3
      in if k = 1 then Some src
         else if k = 2 \<and> \<not> src_is_zero then Some (old OR src)
         else if k = 3 \<and> \<not> src_is_zero then Some (old AND NOT src)
         else None)"

definition csr_commit :: "u32 \<Rightarrow> u32 \<Rightarrow> u64 option \<Rightarrow> (exception, cpu, unit) mon" where
  "csr_commit insn csr new c =
     (case new of None \<Rightarrow> (Inr (), c)
      | Some v \<Rightarrow>
          (let (ok, d) = csr_write csr v c
           in if ok then (Inr (), d) else (Inl (IllegalInstruction insn), d)))"

definition exec_zicsr :: "u32 \<Rightarrow> u64 \<Rightarrow> ('b, flow) hart" where
  "exec_zicsr insn npc =
     (let csr = drop_bit 20 insn;
          f3 = funct3 insn
      in seqM (if csr \<le> 3 then seqM (fp_checkM insn) (cpuM fp_dirty) else retM ())
          (bindM (readM (\<lambda>c. if f3 \<ge> 5 then of_nat (rs1 insn) else xreg c (rs1 insn))) (\<lambda>src.
           bindM (readM (csr_read csr)) (\<lambda>r.
           case r of None \<Rightarrow> illegal insn
           | Some old \<Rightarrow>
               (let src_is_zero = (if f3 \<ge> 5 then src = 0 else rs1 insn = 0)
                in seqM (liftC (csr_commit insn csr (csr_new f3 src_is_zero src old)))
                     (seqM (cpuM (wr (rd insn) old)) (retM (Next npc None))))))))"

definition nextM :: "('b, u64) hart \<Rightarrow> ('b, flow) hart" where
  "nextM m = bindM m (\<lambda>n. retM (Next n None))"

definition exec_system :: "u32 \<Rightarrow> u64 \<Rightarrow> ('b, flow) hart" where
  "exec_system insn npc =
     (if insn = 0x00000073 then exec_ecall npc
      else if insn = 0x00100073 then exec_ebreak npc
      else if insn = 0x30200073 then nextM (liftC (exec_mret insn))
      else if insn = 0x10200073 then nextM (liftC (exec_sret insn))
      else if insn = 0x10500073 then exec_wfi insn npc
      else if funct7 insn = 0x09 \<and> funct3 insn = 0 then exec_sfence insn npc
      else if funct3 insn \<in> {1, 2, 3, 5, 6, 7} then exec_zicsr insn npc
      else illegal insn)"

section \<open>One instruction\<close>

definition exec_insn :: "'b bus_ops \<Rightarrow> u32 \<Rightarrow> u64 \<Rightarrow> ('b, flow) hart" where
  "exec_insn ops insn npc =
     (let opc = opcode insn
      in if opc = 0x37 then nextM (exec_lui insn npc)
         else if opc = 0x17 then nextM (exec_auipc insn npc)
         else if opc = 0x6f then nextM (exec_jal insn npc)
         else if opc = 0x67 then nextM (exec_jalr insn npc)
         else if opc = 0x63 then nextM (exec_branch insn npc)
         else if opc = 0x03 then nextM (exec_load ops insn npc)
         else if opc = 0x23 then nextM (exec_store ops insn npc)
         else if opc = 0x13 then nextM (exec_op_imm insn npc)
         else if opc = 0x1b then nextM (exec_op_imm32 insn npc)
         else if opc = 0x33 then nextM (exec_op insn npc)
         else if opc = 0x3b then nextM (exec_op32 insn npc)
         else if opc = 0x2f then nextM (exec_amo ops insn npc)
         else if opc = 0x07 then nextM (exec_load_fp ops insn npc)
         else if opc = 0x27 then nextM (exec_store_fp ops insn npc)
         else if opc = 0x43 \<or> opc = 0x47 \<or> opc = 0x4b \<or> opc = 0x4f then nextM (exec_fma insn npc)
         else if opc = 0x53 then nextM (exec_op_fp insn npc)
         else if opc = 0x0f then nextM (exec_misc_mem insn npc)
         else if opc = 0x73 then exec_system insn npc
         else illegal insn)"

fun retire :: "flow \<Rightarrow> ('b, stop_reason option) hart" where
  "retire (Next n stop) = seqM (cpuM (\<lambda>c. c\<lparr>pc := n, insn_count := insn_count c + 1\<rparr>)) (retM stop)"
| "retire Redirected = retM None"

definition execute_decoded :: "'b bus_ops \<Rightarrow> decoded_insn \<Rightarrow> ('b, stop_reason option) hart" where
  "execute_decoded ops d =
     (if \<not> di_valid d then failM (IllegalInstruction (di_bits d))
      else bindM (readM (\<lambda>c. pc c + byte_len d)) (\<lambda>npc. bindM (exec_insn ops (di_bits d) npc) retire))"

section \<open>Fetch and step\<close>

text \<open>The fetch: a full word where one read is safe, else the halfwords an instruction needs.\<close>

definition try_fetch32 :: "'b bus_ops \<Rightarrow> u64 \<Rightarrow> ('b, u32 option) hart" where
  "try_fetch32 ops pa s =
     (if pc (fst s) AND 0xfff \<noteq> 0xffe
      then (let (w, b) = fetch32_if_safe ops pa (snd s) in (Inr w, (fst s, b)))
      else (Inr None, s))"

definition fetch_high :: "'b bus_ops \<Rightarrow> u64 \<Rightarrow> ('b, u16) hart" where
  "fetch_high ops pa =
     bindM (readM (\<lambda>c. pc c + 2)) (\<lambda>pc2.
     bindM (if pc2 AND 0xfff = 0 then translate ops pc2 Fetch else retM (pa + 2)) (\<lambda>pa2.
     busM (fetch16 ops pa2)))"

definition fetch_word :: "'b bus_ops \<Rightarrow> ('b, u32) hart" where
  "fetch_word ops =
     bindM (readM pc) (\<lambda>p.
     bindM (translate ops p Fetch) (\<lambda>pa.
     bindM (try_fetch32 ops pa) (\<lambda>word.
     bindM (case word of Some insn \<Rightarrow> retM (insn AND 0xffff)
            | None \<Rightarrow> bindM (busM (fetch16 ops pa)) (\<lambda>h. retM (ucast h))) (\<lambda>lo.
     if lo AND 3 = 3 then
       (case word of Some insn \<Rightarrow> retM insn
        | None \<Rightarrow> bindM (fetch_high ops pa) (\<lambda>hi. retM (lo OR push_bit 16 (ucast hi))))
     else retM lo))))"

definition step :: "'b bus_ops \<Rightarrow> ('b, stop_reason option) hart" where
  "step ops =
     bindM (readM pc) (\<lambda>p.
     if p AND 1 \<noteq> 0 then failM (InstructionAddressMisaligned p)
     else bindM (fetch_word ops) (\<lambda>w. execute_decoded ops (from_word w)))"

section \<open>The interpreter loops\<close>

definition poll :: "'b bus_ops \<Rightarrow> cpu \<times> 'b \<Rightarrow> bool \<times> cpu \<times> 'b" where
  "poll ops s =
     (let (c, b) = s
      in if irq_poll_cd c = 0 then check_interrupts ops (c\<lparr>irq_poll_cd := IRQ_POLL_INTERVAL\<rparr>, b)
         else (False, c\<lparr>irq_poll_cd := irq_poll_cd c - 1\<rparr>, b))"

fun run_loop :: "'b bus_ops \<Rightarrow> bool \<Rightarrow> nat \<Rightarrow> cpu \<times> 'b \<Rightarrow> stop_reason \<times> cpu \<times> 'b" where
  "run_loop ops system 0 s = (Budget, s)"
| "run_loop ops system (Suc n) s =
     (let s1 = (if system then snd (poll ops s) else s)
      in case step ops s1 of
           (Inr None, s2) \<Rightarrow> run_loop ops system n s2
         | (Inr (Some stop), s2) \<Rightarrow> (stop, s2)
         | (Inl e, (c, b)) \<Rightarrow>
             if system then run_loop ops system n (exception_to_trap e c, b) else (TrapStop e, (c, b)))"

definition run :: "'b bus_ops \<Rightarrow> u64 \<Rightarrow> cpu \<times> 'b \<Rightarrow> stop_reason \<times> cpu \<times> 'b" where
  "run ops budget s = run_loop ops (sys (fst s) \<noteq> None) (unat budget) s"

fun run_decoded_loop :: "'b bus_ops \<Rightarrow> bool \<Rightarrow> decoded_insn list \<Rightarrow> cpu \<times> 'b \<Rightarrow> run_outcome \<times> cpu \<times> 'b" where
  "run_decoded_loop ops system [] s = (Stop Budget, s)"
| "run_decoded_loop ops system (d # ds) s =
     (let (taken, s1) = (if system then poll ops s else (False, s))
      in if taken then (Stop Budget, s1)
         else
           (let sequential_pc = pc (fst s1) + byte_len d
            in case execute_decoded ops d s1 of
                 (Inr None, s2) \<Rightarrow>
                   if pc (fst s2) \<noteq> sequential_pc then (Stop Budget, s2)
                   else run_decoded_loop ops system ds s2
               | (Inr (Some stop), s2) \<Rightarrow> (Stop stop, s2)
               | (Inl e, (c, b)) \<Rightarrow>
                   if system then (Trapped, (exception_to_trap e c, b))
                   else (Stop (TrapStop e), (c, b))))"

definition run_decoded :: "'b bus_ops \<Rightarrow> decoded_insn list \<Rightarrow> cpu \<times> 'b \<Rightarrow> run_outcome \<times> cpu \<times> 'b" where
  "run_decoded ops ds s = run_decoded_loop ops (sys (fst s) \<noteq> None) ds s"

end
