(* ===== verification/CodeCache.thy ===== *)
theory CodeCache
  imports Insn JitPages
begin

unbundle bit_operations_syntax

text \<open>
  The cache of decoded instructions of \<^verbatim>\<open>crates/rv64-system/src/virt.rs\<close> (\<^verbatim>\<open>CachedBlock\<close>,
  \<^verbatim>\<open>DecodedCodePage\<close>, \<^verbatim>\<open>CodePageCache\<close>): 256 pages, each an arena of instructions with a table that
  maps a halfword of the page to the block that starts there.
\<close>

section \<open>Blocks of a page\<close>

definition CODE_CACHE_PAGES :: nat where "CODE_CACHE_PAGES = 256"
definition CODE_PAGE_HALFWORDS :: nat where "CODE_PAGE_HALFWORDS = 0x1000 div 2"
definition DECODED_BLOCK_MAX :: nat where "DECODED_BLOCK_MAX = 64"
definition DECODED_PAGE_ARENA_MAX :: nat where "DECODED_PAGE_ARENA_MAX = CODE_PAGE_HALFWORDS * 4"

lemmas code_sizes = CODE_CACHE_PAGES_def CODE_PAGE_HALFWORDS_def DECODED_BLOCK_MAX_def
  DECODED_PAGE_ARENA_MAX_def

record cached_block =
  offset_plus_one :: u32
  cb_len :: u8

definition cb_default :: cached_block where
  "cb_default = \<lparr>offset_plus_one = 0, cb_len = 0\<rparr>"

definition cb_range :: "cached_block \<Rightarrow> (nat \<times> nat) option" where
  "cb_range c =
     (if offset_plus_one c = 0 then None
      else Some (unat (offset_plus_one c) - 1, unat (offset_plus_one c) - 1 + unat (cb_len c)))"

record code_page =
  physical_page :: u64
  cp_gen :: u64
  cp_blocks :: "cached_block list"
  instructions :: "decoded_insn list"

definition code_page_new :: "u64 \<Rightarrow> u64 \<Rightarrow> code_page" where
  "code_page_new pp gen = \<lparr>
     physical_page = pp, cp_gen = gen,
     cp_blocks = replicate CODE_PAGE_HALFWORDS cb_default, instructions = []\<rparr>"

definition code_page_reset :: "u64 \<Rightarrow> u64 \<Rightarrow> code_page \<Rightarrow> code_page" where
  "code_page_reset pp gen p =
     p\<lparr>physical_page := pp, cp_gen := gen,
       cp_blocks := replicate (length (cp_blocks p)) cb_default, instructions := []\<rparr>"

text \<open>\<^verbatim>\<open>slice::get\<close> of a range.\<close>

definition get_range :: "nat \<times> nat \<Rightarrow> 'a list \<Rightarrow> 'a list option" where
  "get_range r xs = (if fst r \<le> snd r \<and> snd r \<le> length xs then Some (slice_at (fst r) (snd r - fst r) xs) else None)"

text \<open>
  The decoding loop: the instructions from \<open>off\<close> on with their halfword slots, at most \<open>n\<close> of them.
  The boolean is false when a halfword lies outside the page and the source returns early.
\<close>

fun scan_block :: "u8 list \<Rightarrow> nat \<Rightarrow> nat \<Rightarrow> bool \<times> (nat \<times> decoded_insn) list" where
  "scan_block page 0 off = (True, [])"
| "scan_block page (Suc n) off =
     (if length page < off + 2 then (False, [])
      else
        (let lo = from_le (slice_at off 2 page) :: u16
         in if lo AND 3 = 3 \<and> length page < off + 4 then (True, [])
            else
              (let word = (if lo AND 3 = 3 then from_le (slice_at off 4 page) else ucast lo) :: u32;
                   decoded = from_word word;
                   nxt = off + unat (byte_len decoded)
               in if ends_basic_block decoded \<or> nxt = 0x1000 then (True, [(off div 2, decoded)])
                  else (let (ok, rest) = scan_block page n nxt in (ok, (off div 2, decoded) # rest)))))"

definition set_blocks :: "nat \<Rightarrow> nat list \<Rightarrow> cached_block list \<Rightarrow> cached_block list" where
  "set_blocks start slots bs =
     fold (\<lambda>(i, slot) bs. bs[slot := \<lparr>offset_plus_one = of_nat (start + 1) + of_nat i,
                                     cb_len = of_nat (length slots - i)\<rparr>])
       (enumerate 0 slots) bs"

definition make_room :: "code_page \<Rightarrow> code_page" where
  "make_room p =
     (if DECODED_PAGE_ARENA_MAX < length (instructions p) + DECODED_BLOCK_MAX
      then p\<lparr>cp_blocks := replicate (length (cp_blocks p)) cb_default, instructions := []\<rparr> else p)"

definition fill_block :: "u8 list \<Rightarrow> nat \<Rightarrow> code_page \<Rightarrow> decoded_insn list option \<times> code_page" where
  "fill_block page page_offset p =
     (let arena_start = length (instructions p);
          (ok, items) = scan_block page DECODED_BLOCK_MAX page_offset;
          p = p\<lparr>instructions := instructions p @ map snd items\<rparr>
      in if \<not> ok \<or> items = [] \<or> 2 ^ 32 \<le> arena_start + 1 then (None, p)
         else (Some (map snd items), p\<lparr>cp_blocks := set_blocks arena_start (map fst items) (cp_blocks p)\<rparr>))"

definition page_block :: "u8 list \<Rightarrow> nat \<Rightarrow> code_page \<Rightarrow> decoded_insn list option \<times> code_page" where
  "page_block ram page_offset p =
     (case cb_range (cp_blocks p ! (page_offset div 2)) of
        Some r \<Rightarrow> (get_range r (instructions p), p)
      | None \<Rightarrow>
          (let p = make_room p
           in case checked_ram_range (length ram) RAM_BASE (physical_page p) 0x1000 of None \<Rightarrow> (None, p)
              | Some (a, e) \<Rightarrow> fill_block (slice_at a (e - a) ram) page_offset p))"

section \<open>The cache\<close>

type_synonym code_cache = "code_page option list"

definition cache_new :: code_cache where
  "cache_new = replicate CODE_CACHE_PAGES None"

definition cache_slot :: "u64 \<Rightarrow> nat" where
  "cache_slot pp = (let page = drop_bit 12 pp in unat ((page XOR drop_bit 9 page) AND (of_nat CODE_CACHE_PAGES - 1)))"

definition install_page :: "u64 \<Rightarrow> u64 \<Rightarrow> code_page option \<Rightarrow> code_page" where
  "install_page pp gen p =
     (case p of None \<Rightarrow> code_page_new pp gen
      | Some p \<Rightarrow> if physical_page p \<noteq> pp \<or> cp_gen p \<noteq> gen then code_page_reset pp gen p else p)"

definition cache_block :: "u8 list \<Rightarrow> u64 \<Rightarrow> u64 \<Rightarrow> code_cache \<Rightarrow> decoded_insn list option \<times> code_cache" where
  "cache_block ram physical gen c =
     (let pp = physical AND NOT 0xfff; page_offset = unat (physical AND 0xfff)
      in if page_offset AND 1 \<noteq> 0 \<or> 0xffe < page_offset then (None, c)
         else
           (let slot = cache_slot pp;
                (r, p) = page_block ram page_offset (install_page pp gen (c ! slot))
            in (r, c[slot := Some p])))"

section \<open>What a block holds\<close>

text \<open>The instruction that the bytes of a page hold at an offset, if it lies in the page.\<close>

definition insn_at :: "u8 list \<Rightarrow> nat \<Rightarrow> decoded_insn option" where
  "insn_at page off =
     (if length page < off + 2 then None
      else
        (let lo = from_le (slice_at off 2 page) :: u16
         in if lo AND 3 \<noteq> 3 then Some (from_word (ucast lo))
            else if length page < off + 4 then None
            else Some (from_word (from_le (slice_at off 4 page)))))"

text \<open>The instructions one after another from \<open>off\<close>; only the last may end a basic block.\<close>

fun decodes :: "u8 list \<Rightarrow> nat \<Rightarrow> decoded_insn list \<Rightarrow> bool" where
  "decodes page off [] = True"
| "decodes page off (d # ds) \<longleftrightarrow>
     insn_at page off = Some d \<and> (ds \<noteq> [] \<longrightarrow> \<not> ends_basic_block d)
     \<and> decodes page (off + unat (byte_len d)) ds"

definition page_bytes :: "u8 list \<Rightarrow> u64 \<Rightarrow> u8 list" where
  "page_bytes ram pp = slice_at (unat pp - unat RAM_BASE) 0x1000 ram"

definition page_shape :: "code_page \<Rightarrow> bool" where
  "page_shape p \<longleftrightarrow>
     length (cp_blocks p) = CODE_PAGE_HALFWORDS \<and> length (instructions p) \<le> DECODED_PAGE_ARENA_MAX"

definition block_current :: "u8 list \<Rightarrow> decoded_insn list \<Rightarrow> nat \<Rightarrow> cached_block \<Rightarrow> bool" where
  "block_current page arena slot c \<longleftrightarrow>
     (\<forall>a e. cb_range c = Some (a, e) \<longrightarrow>
        a < e \<and> e \<le> a + DECODED_BLOCK_MAX \<and> e \<le> length arena
        \<and> decodes page (2 * slot) (slice_at a (e - a) arena))"

definition page_current :: "u8 list \<Rightarrow> code_page \<Rightarrow> bool" where
  "page_current ram p \<longleftrightarrow>
     (\<forall>slot < CODE_PAGE_HALFWORDS.
        block_current (page_bytes ram (physical_page p)) (instructions p) slot (cp_blocks p ! slot))"

text \<open>Where the \<open>i\<close>-th instruction of a block at \<open>off\<close> starts.\<close>

definition insn_pos :: "nat \<Rightarrow> decoded_insn list \<Rightarrow> nat \<Rightarrow> nat" where
  "insn_pos off ds i = off + sum_list (map (unat \<circ> byte_len) (take i ds))"

lemma insn_pos_simps [simp]:
  "insn_pos off ds 0 = off" "insn_pos off (d # ds) (Suc i) = insn_pos (off + unat (byte_len d)) ds i"
  by (simp_all add: insn_pos_def)

lemma decodes_drop:
  "decodes page off ds \<Longrightarrow> k < length ds \<Longrightarrow> decodes page (insn_pos off ds k) (drop k ds)"
proof (induction ds arbitrary: off k)
  case (Cons d ds)
  then show ?case by (cases k) auto
qed simp

lemma byte_len_even: "unat (byte_len (from_word w)) = 2 \<or> unat (byte_len (from_word w)) = 4"
  using from_word_len_cases [of w] by auto

lemma unat_numeral_3: "unat (3 :: u32) = unat (3 :: u16)"
  by simp

lemma ucast_low_3: "(ucast (x :: u16) :: u32) AND 3 = 3 \<longleftrightarrow> x AND 3 = 3"
proof -
  have "(ucast x :: u32) AND 3 = ucast (x AND 3)" by (rule bit_word_eqI) (auto simp: bit_simps bit_numeral_rec dest: bit_imp_le_length)
  moreover have "unat (x AND 3) < 2 ^ 32" by (rule order_less_le_trans [OF unsigned_less]) simp
  then have "unat (ucast (x AND 3) :: u32) = unat (x AND 3)"
    by (simp add: unsigned_ucast_eq take_bit_nat_eq_self)
  ultimately show ?thesis by (metis unat_numeral_3 word_unat_eq_iff)
qed

text \<open>The loop decodes: its slots are the halfwords at which its instructions start.\<close>

lemma scan_block_decodes:
  assumes "scan_block page n off = (ok, items)" and "length page = 0x1000" and "even off" and "off < 0x1000"
  shows "ok \<and> length items \<le> n \<and> decodes page off (map snd items)
    \<and> (\<forall>i < length items. fst (items ! i) = insn_pos off (map snd items) i div 2
        \<and> even (insn_pos off (map snd items) i))
    \<and> (n \<noteq> 0 \<longrightarrow> items = [] \<longrightarrow> insn_at page off = None)"
  using assms
proof (induction n arbitrary: off ok items)
  case 0
  then show ?case by simp
next
  case (Suc n)
  define lo where "lo = (from_le (slice_at off 2 page) :: u16)"
  have two: "\<not> length page < off + 2" using Suc.prems(2,3,4) by presburger
  show ?case
  proof (cases "lo AND 3 = 3 \<and> length page < off + 4")
    case True
    then show ?thesis using Suc.prems(1) two by (simp add: lo_def insn_at_def)
  next
    case f: False
    define word where "word = ((if lo AND 3 = 3 then from_le (slice_at off 4 page) else ucast lo) :: u32)"
    define d where "d = from_word word"
    have at: "insn_at page off = Some d" using two f by (auto simp: insn_at_def Let_def lo_def word_def d_def)
    have len: "unat (byte_len d) = 2 \<or> unat (byte_len d) = 4 \<and> lo AND 3 = 3"
      using byte_len_even [of word] from_word_len [of "ucast lo"]
      by (cases "lo AND 3 = 3") (auto simp: d_def word_def ucast_low_3)
    have e: "scan_block page (Suc n) off =
      (if ends_basic_block d \<or> off + unat (byte_len d) = 0x1000 then (True, [(off div 2, d)])
       else (let (ok, rest) = scan_block page n (off + unat (byte_len d)) in (ok, (off div 2, d) # rest)))"
      unfolding scan_block.simps lo_def [symmetric] Let_def word_def [symmetric] d_def [symmetric]
      by (simp only: two f if_False)
    show ?thesis
    proof (cases "ends_basic_block d \<or> off + unat (byte_len d) = 0x1000")
      case True
      then have "ok" "items = [(off div 2, d)]" using Suc.prems(1) unfolding e by auto
      then show ?thesis using at Suc.prems(3) by simp
    next
      case False
      obtain ok' rest where s: "scan_block page n (off + unat (byte_len d)) = (ok', rest)" by fastforce
      have i: "ok = ok'" "items = (off div 2, d) # rest" using Suc.prems(1) False s unfolding e by auto
      have ev: "even (off + unat (byte_len d))" and lt: "off + unat (byte_len d) < 0x1000"
        using Suc.prems(2,3,4) len f two False by auto
      note IH = Suc.IH [OF s Suc.prems(2) ev lt]
      have "fst (items ! k) = insn_pos off (map snd items) k div 2 \<and> even (insn_pos off (map snd items) k)"
        if "k < length items" for k
        using IH that Suc.prems(3) by (cases k) (simp_all add: i)
      then show ?thesis using IH at False by (simp add: i)
    qed
  qed
qed

lemma set_blocks_length [simp]: "length (set_blocks start slots bs) = length bs"
proof -
  have "length (fold (\<lambda>(i, slot) bs. bs[slot := g i]) xs bs) = length bs" for g :: "nat \<Rightarrow> 'b" and xs and bs
    by (induction xs arbitrary: bs) auto
  then show ?thesis by (simp add: set_blocks_def)
qed

lemma set_blocks_nth:
  "set_blocks start slots bs ! s = bs ! s
   \<or> (\<exists>i < length slots. slots ! i = s \<and> set_blocks start slots bs ! s
        = \<lparr>offset_plus_one = of_nat (start + 1) + of_nat i, cb_len = of_nat (length slots - i)\<rparr>)"
proof -
  have "fold (\<lambda>(i, slot) bs. bs[slot := g i]) xs bs ! s = bs ! s
    \<or> (\<exists>i. (i, s) \<in> set xs \<and> fold (\<lambda>(i, slot) bs. bs[slot := g i]) xs bs ! s = g i)"
    for g :: "nat \<Rightarrow> cached_block" and xs and bs
  proof (induction xs arbitrary: bs)
    case (Cons x xs)
    obtain k t where x: "x = (k, t)" by (cases x)
    have "bs[t := g k] ! s = bs ! s \<or> t = s \<and> bs[t := g k] ! s = g k"
      by (cases "t = s"; cases "t < length bs") (simp_all add: list_update_beyond)
    then show ?case using Cons.IH [of "bs[t := g k]"] by (auto simp: x)
  qed simp
  from this [of "\<lambda>i. \<lparr>offset_plus_one = of_nat (start + 1) + of_nat i, cb_len = of_nat (length slots - i)\<rparr>"
      "enumerate 0 slots" bs]
  show ?thesis by (auto simp: set_blocks_def in_set_enumerate_eq)
qed

text \<open>The entry written for the \<open>i\<close>-th instruction of a new block names the block from there on.\<close>

lemma new_entry_range:
  assumes "start + 64 \<le> 8192" and "i < n" and "n \<le> 64"
  shows "cb_range \<lparr>offset_plus_one = of_nat (start + 1) + of_nat i, cb_len = of_nat (n - i)\<rparr>
    = Some (start + i, start + n)"
proof -
  have "unat (of_nat (start + 1 + i) :: u32) = start + 1 + i"
    by (rule of_nat_inverse [OF refl]) (use assms in simp)
  then have u: "unat (of_nat (start + 1) + of_nat i :: u32) = start + 1 + i" by (simp only: of_nat_add)
  then have "of_nat (start + 1) + of_nat i \<noteq> (0 :: u32)" by (metis Suc_eq_plus1 add_Suc add_Suc_right nat.simps(3) unat_0)
  moreover have "unat (of_nat (n - i) :: u8) = n - i"
    by (rule of_nat_inverse [OF refl]) (use assms in simp)
  ultimately show ?thesis using u assms by (simp add: cb_range_def)
qed

lemma slice_append: "e \<le> length xs \<Longrightarrow> a \<le> e \<Longrightarrow> slice_at a (e - a) (xs @ ys) = slice_at a (e - a) xs"
  by (simp add: slice_at_def)

lemma fill_block_ok:
  assumes "fill_block (page_bytes ram (physical_page p)) off p = (r, p')"
    and "length (page_bytes ram (physical_page p)) = 0x1000" and "even off" and "off < 0x1000"
    and "page_shape p" and "page_current ram p"
    and room: "length (instructions p) + DECODED_BLOCK_MAX \<le> DECODED_PAGE_ARENA_MAX"
  shows "page_shape p' \<and> page_current ram p' \<and> physical_page p' = physical_page p \<and> cp_gen p' = cp_gen p
    \<and> (\<forall>ds. r = Some ds \<longrightarrow> ds \<noteq> [] \<and> length ds \<le> DECODED_BLOCK_MAX
          \<and> decodes (page_bytes ram (physical_page p)) off ds)
    \<and> (r = None \<longrightarrow> insn_at (page_bytes ram (physical_page p)) off = None)"
proof -
  let ?page = "page_bytes ram (physical_page p)" and ?st = "length (instructions p)"
  obtain ok items where s: "scan_block ?page DECODED_BLOCK_MAX off = (ok, items)" by fastforce
  note d = scan_block_decodes [OF s assms(2,3,4)]
  let ?q = "p\<lparr>instructions := instructions p @ map snd items\<rparr>"
  have n: "length items \<le> 64" "?st + 64 \<le> 8192" "ok" using d room by (simp_all add: code_sizes)
  have shape: "page_shape ?q" using assms(5) n by (simp add: page_shape_def code_sizes)
  have keep: "block_current pg (instructions p @ xs) slot c" if "block_current pg (instructions p) slot c" for pg xs slot c
    using that by (auto simp: block_current_def slice_append)
  have old: "page_current ram ?q" using assms(6) keep by (simp add: page_current_def)
  show ?thesis
  proof (cases "items = []")
    case True
    then have "r = None" "p' = ?q" using assms(1) by (simp_all add: fill_block_def s Let_def)
    then show ?thesis using shape old d True by (simp add: DECODED_BLOCK_MAX_def)
  next
    case False
    let ?w = "?q\<lparr>cp_blocks := set_blocks ?st (map fst items) (cp_blocks p)\<rparr>"
    have r: "r = Some (map snd items)" "p' = ?w"
      using assms(1) False n by (auto simp: fill_block_def s Let_def)
    have "block_current ?page (instructions p @ map snd items) slot (set_blocks ?st (map fst items) (cp_blocks p) ! slot)"
      if sl: "slot < CODE_PAGE_HALFWORDS" for slot
    proof -
      consider "set_blocks ?st (map fst items) (cp_blocks p) ! slot = cp_blocks p ! slot"
        | i where "i < length items" "fst (items ! i) = slot" "set_blocks ?st (map fst items) (cp_blocks p) ! slot
            = \<lparr>offset_plus_one = of_nat (?st + 1) + of_nat i, cb_len = of_nat (length items - i)\<rparr>"
        using set_blocks_nth [of ?st "map fst items" "cp_blocks p" slot] by auto
      then show ?thesis
      proof cases
        case 1
        then show ?thesis using old sl by (simp add: page_current_def)
      next
        case (2 i)
        let ?o = "insn_pos off (map snd items) i"
        have o: "2 * slot = ?o" using d 2(1,2) by auto
        have sl: "slice_at (?st + i) (?st + length items - (?st + i)) (instructions p @ map snd items) = drop i (map snd items)"
          using 2(1) by (simp add: slice_at_def)
        have "decodes ?page ?o (drop i (map snd items))"
          using decodes_drop [of ?page off "map snd items" i] d 2(1) by simp
        then show ?thesis
          unfolding block_current_def 2(3) new_entry_range [OF n(2) 2(1) n(1)] o
          using 2(1) n sl by (auto simp: DECODED_BLOCK_MAX_def)
      qed
    qed
    then have "page_current ram ?w" by (simp add: page_current_def)
    then show ?thesis using shape d False by (simp add: r page_shape_def)
  qed
qed

lemma page_reset_ok:
  "page_shape p \<Longrightarrow> page_shape (code_page_reset pp gen p) \<and> page_current ram (code_page_reset pp gen p)"
  "page_shape (code_page_new pp gen) \<and> page_current ram (code_page_new pp gen)"
  by (simp_all add: page_shape_def page_current_def block_current_def code_page_reset_def code_page_new_def
      cb_default_def cb_range_def)

lemma make_room_ok:
  assumes "page_shape p" and "page_current ram p"
  shows "page_shape (make_room p) \<and> page_current ram (make_room p)
    \<and> physical_page (make_room p) = physical_page p \<and> cp_gen (make_room p) = cp_gen p
    \<and> length (instructions (make_room p)) + DECODED_BLOCK_MAX \<le> DECODED_PAGE_ARENA_MAX"
  using assms
  by (auto simp: make_room_def page_shape_def page_current_def block_current_def cb_default_def cb_range_def code_sizes)

lemma page_block_ok:
  assumes "page_block ram off p = (r, p')" and "even off" and "off < 0x1000"
    and "page_shape p" and "page_current ram p"
  shows "page_shape p' \<and> page_current ram p' \<and> physical_page p' = physical_page p \<and> cp_gen p' = cp_gen p
    \<and> (\<forall>ds. r = Some ds \<longrightarrow> ds \<noteq> [] \<and> length ds \<le> DECODED_BLOCK_MAX
          \<and> decodes (page_bytes ram (physical_page p)) off ds)
    \<and> (r = None \<longrightarrow> checked_ram_range (length ram) RAM_BASE (physical_page p) 0x1000 = None
          \<or> insn_at (page_bytes ram (physical_page p)) off = None)"
proof (cases "cb_range (cp_blocks p ! (off div 2))")
  case (Some t)
  obtain a e where t: "t = (a, e)" by (cases t)
  have "off div 2 < CODE_PAGE_HALFWORDS" using assms(3) by (simp add: CODE_PAGE_HALFWORDS_def)
  then have "a < e \<and> e \<le> a + DECODED_BLOCK_MAX \<and> e \<le> length (instructions p)
      \<and> decodes (page_bytes ram (physical_page p)) (2 * (off div 2)) (slice_at a (e - a) (instructions p))"
    using assms(5) Some t unfolding page_current_def block_current_def by blast
  moreover have "2 * (off div 2) = off" using assms(2) by simp
  ultimately show ?thesis
    using assms(1,4,5) Some t
    by (auto simp: page_block_def get_range_def length_slice_at dest: arg_cong [where f = length])
next
  case None
  note m = make_room_ok [OF assms(4,5)]
  show ?thesis
  proof (cases "checked_ram_range (length ram) RAM_BASE (physical_page (make_room p)) 0x1000")
    case None
    then show ?thesis using assms(1) \<open>cb_range _ = None\<close> m by (auto simp: page_block_def Let_def)
  next
    case (Some t)
    obtain a e where t: "t = (a, e)" by (cases t)
    have pb: "slice_at a (e - a) ram = page_bytes ram (physical_page (make_room p))"
      "length (page_bytes ram (physical_page (make_room p))) = 0x1000"
      using Some t by (auto simp: checked_ram_range_Some page_bytes_def length_slice_at)
    have "fill_block (page_bytes ram (physical_page (make_room p))) off (make_room p) = (r, p')"
      using assms(1) \<open>cb_range _ = None\<close> Some t pb(1) by (simp add: page_block_def Let_def)
    from fill_block_ok [OF this pb(2) assms(2,3)] m show ?thesis by simp
  qed
qed


section \<open>The cache returns the code that is in memory\<close>

definition cache_shape :: "code_cache \<Rightarrow> bool" where
  "cache_shape c \<longleftrightarrow> length c = CODE_CACHE_PAGES \<and> (\<forall>p. Some p \<in> set c \<longrightarrow> page_shape p)"

text \<open>The pages of the current generation hold what memory holds.\<close>

definition coherent :: "u8 list \<Rightarrow> u64 \<Rightarrow> code_cache \<Rightarrow> bool" where
  "coherent ram gen c \<longleftrightarrow> (\<forall>p. Some p \<in> set c \<longrightarrow> cp_gen p = gen \<longrightarrow> page_current ram p)"

text \<open>
  What a lookup at \<open>a\<close> may return: a block that decodes the bytes at \<open>a\<close>, or nothing when \<open>a\<close> is odd,
  its page is not in RAM or its first instruction does not lie in the page.
\<close>

definition right_block :: "u8 list \<Rightarrow> u64 \<Rightarrow> decoded_insn list option \<Rightarrow> bool" where
  "right_block ram a r \<longleftrightarrow>
     (let pp = a AND NOT 0xfff; off = unat (a AND 0xfff)
      in case r of
           Some ds \<Rightarrow> ds \<noteq> [] \<and> length ds \<le> DECODED_BLOCK_MAX \<and> decodes (page_bytes ram pp) off ds
         | None \<Rightarrow> odd off \<or> checked_ram_range (length ram) RAM_BASE pp 0x1000 = None
             \<or> insn_at (page_bytes ram pp) off = None)"

lemma cache_slot_bound: "cache_slot pp < CODE_CACHE_PAGES"
proof -
  have "x AND 255 \<le> 255" for x :: u64 by (rule word_and_le1)
  then have "unat (x AND 255 :: u64) < 256" for x :: u64
    by (rule order_le_less_trans [OF iffD1 [OF word_le_nat_alt]]) simp
  then show ?thesis by (simp add: cache_slot_def CODE_CACHE_PAGES_def Let_def)
qed

lemma page_offset_bound: "unat (a AND 0xfff :: u64) < 0x1000"
proof -
  have "a AND 0xfff \<le> 0xfff" by (rule word_and_le1)
  then show ?thesis by (simp add: word_le_nat_alt order_le_less_trans)
qed

lemma cache_block_ok:
  assumes "cache_shape c" and "coherent ram gen c" and "cache_block ram a gen c = (r, c')"
  shows "cache_shape c' \<and> coherent ram gen c' \<and> right_block ram a r"
proof (cases "unat (a AND 0xfff) AND 1 \<noteq> 0 \<or> 0xffe < unat (a AND 0xfff)")
  case True
  have "odd (unat (a AND 0xfff))"
  proof (cases "unat (a AND 0xfff) AND 1 \<noteq> 0")
    case True
    then show ?thesis by (simp add: and_one_eq mod2_eq_if split: if_splits)
  next
    case False
    with True page_offset_bound [of a] have "unat (a AND 0xfff) = 0xfff" by linarith
    then show ?thesis by simp
  qed
  moreover have "r = None" "c' = c" using assms(3) True by (simp_all add: cache_block_def Let_def)
  ultimately show ?thesis using assms(1,2) by (simp add: right_block_def Let_def)
next
  case False
  let ?pp = "a AND NOT 0xfff" and ?off = "unat (a AND 0xfff)"
  let ?slot = "cache_slot ?pp"
  let ?p = "install_page ?pp gen (c ! ?slot)"
  obtain p' where b: "page_block ram ?off ?p = (r, p')" and c': "c' = c[?slot := Some p']"
    using assms(3) False by (auto simp: cache_block_def Let_def split: prod.splits)
  have ev: "even ?off" using False by (simp add: and_one_eq even_iff_mod_2_eq_zero)
  have slot: "?slot < length c" using cache_slot_bound assms(1) by (simp add: cache_shape_def)
  have p: "page_shape ?p" "page_current ram ?p" "physical_page ?p = ?pp" "cp_gen ?p = gen"
  proof -
    have "page_shape ?p \<and> page_current ram ?p \<and> physical_page ?p = ?pp \<and> cp_gen ?p = gen"
    proof (cases "c ! ?slot")
      case None
      then show ?thesis using page_reset_ok(2) by (simp add: install_page_def code_page_new_def [of ?pp gen])
          (simp add: code_page_new_def)
    next
      case (Some q)
      then have "Some q \<in> set c" using slot by (metis nth_mem)
      then have "page_shape q" "cp_gen q = gen \<Longrightarrow> page_current ram q"
        using assms(1,2) by (auto simp: cache_shape_def coherent_def)
      then show ?thesis using Some page_reset_ok(1) [of q ?pp gen ram]
        by (auto simp: install_page_def) (simp_all add: code_page_reset_def)
    qed
    then show "page_shape ?p" "page_current ram ?p" "physical_page ?p = ?pp" "cp_gen ?p = gen" by blast+
  qed
  note k = page_block_ok [OF b ev page_offset_bound p(1,2)]
  have "set c' \<subseteq> insert (Some p') (set c)" unfolding c' by (rule set_update_subset_insert)
  moreover have "length c' = length c" by (simp add: c')
  ultimately have "cache_shape c' \<and> coherent ram gen c'"
    using assms(1,2) k by (auto simp: cache_shape_def coherent_def)
  moreover have "right_block ram a r"
    using k p(3) by (auto simp: right_block_def Let_def split: option.splits)
  ultimately show ?thesis by blast
qed

fun lookups :: "u8 list \<Rightarrow> u64 \<Rightarrow> u64 list \<Rightarrow> code_cache \<Rightarrow> decoded_insn list option list \<times> code_cache" where
  "lookups ram gen [] c = ([], c)"
| "lookups ram gen (a # xs) c =
     (let (r, c1) = cache_block ram a gen c; (rs, c2) = lookups ram gen xs c1 in (r # rs, c2))"

lemma lookups_ok:
  "cache_shape c \<Longrightarrow> coherent ram gen c \<Longrightarrow> list_all2 (right_block ram) xs (fst (lookups ram gen xs c))"
proof (induction xs arbitrary: c)
  case (Cons a xs)
  obtain r c1 where b: "cache_block ram a gen c = (r, c1)" by fastforce
  note k = cache_block_ok [OF Cons.prems b]
  obtain rs c2 where l: "lookups ram gen xs c1 = (rs, c2)" by fastforce
  from Cons.IH [of c1] k show ?case by (simp add: b l)
qed simp

text \<open>
  Property C6. After \<^verbatim>\<open>FENCE.I\<close> the interpreter runs the code that is in memory: in a cache none of whose pages
  has the current generation (a new cache, or one of before the fence, whatever RAM held then), every
  block that any sequence of lookups returns is a run of one to 64 instructions decoded from
  the bytes of RAM at the address looked up, of which only the last ends a basic block; and a
  lookup misses only where no whole instruction lies in the page.
\<close>

theorem fenced_code_current:
  assumes "cache_shape c" and "\<forall>p. Some p \<in> set c \<longrightarrow> cp_gen p \<noteq> gen"
  shows "list_all2 (right_block ram) xs (fst (lookups ram gen xs c))"
  using assms lookups_ok by (simp add: coherent_def)

lemma cache_new_shape: "cache_shape cache_new" "Some p \<notin> set cache_new"
  by (auto simp: cache_shape_def cache_new_def)

theorem fenced_code_current_witness:
  "list_all2 (right_block (replicate 0x1000 0x13)) [0x80000000, 0x80000004]
     (fst (lookups (replicate 0x1000 0x13) 3 [0x80000000, 0x80000004] cache_new))"
  using fenced_code_current [OF cache_new_shape(1)] cache_new_shape(2) by blast

end
