(* ===== verification/VirtMachine.thy ===== *)
theory VirtMachine
  imports Exec CsrFile VirtBus CodeCache
begin

unbundle bit_operations_syntax

text \<open>
  The machine of \<^verbatim>\<open>crates/rv64-system/src/virt.rs\<close> (\<^verbatim>\<open>VirtMachine\<close>) and its interpreter back ends
  (with \<^verbatim>\<open>run_cpu_until\<close> of \<^verbatim>\<open>lib.rs\<close>): time keeping, the SBI services of the direct boot, and
  the slice loop. The route to compiled code, a trait object or a closure of the embedder, is a
  parameter with a state of its own. Loops that depend on it or on guest traps take fuel, and
  \<open>None\<close> is a call that has not returned, for want of fuel or because a device call in it never returns.
\<close>

section \<open>State\<close>

definition RTC_FREQ :: u64 where "RTC_FREQ = 10000000"
definition INTERPRETER_SYNC_INTERVAL :: u64 where "INTERPRETER_SYNC_INTERVAL = 64"

record virt_machine =
  vm_cpu :: cpu
  vm_bus :: virt_bus
  vm_cache :: code_cache
  insns_per_tick :: u64
  idle_ticks :: u64
  realtime_ticks :: "u64 option"
  vm_power_off :: bool
  vm_dtb :: "u8 list"
  unsupported_sbi :: "(u64 \<times> u64) option"
  sbi_calls :: "u64 list"

record run_slice_outcome =
  rs_retired :: u64
  rs_idle :: bool

datatype interpreter_stop = CpuStop stop_reason | Compiled

section \<open>Devices reached through the machine\<close>

definition upd_bus :: "(virt_bus \<Rightarrow> virt_bus) \<Rightarrow> virt_machine \<Rightarrow> virt_machine" where
  "upd_bus f m = m\<lparr>vm_bus := f (vm_bus m)\<rparr>"

definition upd_cpu :: "(cpu \<Rightarrow> cpu) \<Rightarrow> virt_machine \<Rightarrow> virt_machine" where
  "upd_cpu f m = m\<lparr>vm_cpu := f (vm_cpu m)\<rparr>"

definition console_output :: "virt_machine \<Rightarrow> u8 list \<times> virt_machine" where
  "console_output m =
     (let (bs, u) = uart_take (vb_uart (vm_bus m)) in (bs, upd_bus (\<lambda>b. b\<lparr>vb_uart := u\<rparr>) m))"

definition console_input :: "u8 list \<Rightarrow> virt_machine \<Rightarrow> virt_machine" where
  "console_input bs = upd_bus (\<lambda>b. b\<lparr>vb_uart := uart_input bs (vb_uart b)\<rparr>)"

text \<open>The index of the first device that satisfies a test.\<close>

fun find_dev :: "(virtio_dev \<Rightarrow> bool) \<Rightarrow> virtio_dev list \<Rightarrow> nat option" where
  "find_dev P [] = None"
| "find_dev P (v # vs) = (if P v then Some 0 else map_option Suc (find_dev P vs))"

definition machine_net_input :: "u8 list \<Rightarrow> virt_machine \<Rightarrow> virt_machine" where
  "machine_net_input frame m =
     (case find_dev (\<lambda>v. device_id v = 1) (vb_virtio (vm_bus m)) of None \<Rightarrow> m
      | Some i \<Rightarrow> upd_bus (\<lambda>b. b\<lparr>vb_virtio := (vb_virtio b)[i := net_input frame (vb_virtio b ! i)]\<rparr>) m)"

definition machine_net_take_output :: "virt_machine \<Rightarrow> u8 list list \<times> virt_machine" where
  "machine_net_take_output m =
     (case find_dev (\<lambda>v. device_id v = 1) (vb_virtio (vm_bus m)) of None \<Rightarrow> ([], m)
      | Some i \<Rightarrow>
          (let (fs, v) = net_take_output (vb_virtio (vm_bus m) ! i)
           in (fs, upd_bus (\<lambda>b. b\<lparr>vb_virtio := (vb_virtio b)[i := v]\<rparr>) m)))"

definition machine_pending_request :: "virt_machine \<Rightarrow> pending_block_request option" where
  "machine_pending_request m =
     (case find_dev (\<lambda>v. pending_request v \<noteq> None) (vb_virtio (vm_bus m)) of None \<Rightarrow> None
      | Some i \<Rightarrow> pending_request (vb_virtio (vm_bus m) ! i))"

definition set_rtc_unix_ns :: "u64 \<Rightarrow> virt_machine \<Rightarrow> virt_machine" where
  "set_rtc_unix_ns ns = upd_bus (\<lambda>b. b\<lparr>vb_rtc := set_host_time_ns ns (vb_rtc b)\<rparr>)"

definition advance_realtime_ns :: "u64 \<Rightarrow> virt_machine \<Rightarrow> virt_machine" where
  "advance_realtime_ns ns m =
     (let ticks = of_nat (unat ns * unat RTC_FREQ div 1000000000) :: u64
      in m\<lparr>realtime_ticks :=
             Some (saturating_add (case realtime_ticks m of None \<Rightarrow> 0 | Some t \<Rightarrow> t) ticks)\<rparr>)"

definition has_external_disk :: "virt_machine \<Rightarrow> bool" where
  "has_external_disk m =
     list_ex (\<lambda>v. case vd_backend v of ExternalBlock _ _ \<Rightarrow> True | _ \<Rightarrow> False) (vb_virtio (vm_bus m))"

section \<open>Time\<close>

definition set_stip :: "virt_bus \<Rightarrow> sys_csrs \<Rightarrow> sys_csrs" where
  "set_stip b y =
     (if vb_mtimecmp b \<le> vb_mtime b then y\<lparr>mip := mip y OR IRQ_STIP\<rparr>
      else y\<lparr>mip := mip y AND NOT IRQ_STIP\<rparr>)"

definition new_mtime :: "virt_machine \<Rightarrow> u64" where
  "new_mtime m =
     (let c = vm_cpu m;
          instruction_time = insn_count c div insns_per_tick m + idle_ticks m;
          visible_time = (case sys c of None \<Rightarrow> vb_mtime (vm_bus m) | Some _ \<Rightarrow> time_value c)
      in case realtime_ticks m of
           Some wall \<Rightarrow> max (max (vb_mtime (vm_bus m)) wall) visible_time
         | None \<Rightarrow> instruction_time)"

definition set_time_scale :: "u64 option \<Rightarrow> u64 \<Rightarrow> u64 \<Rightarrow> u64 \<Rightarrow> sys_csrs \<Rightarrow> sys_csrs" where
  "set_time_scale realtime bus_mtime per_tick count y =
     (let wall_caught_up = (case realtime of None \<Rightarrow> True | Some wall \<Rightarrow> bus_mtime \<le> wall)
      in if wall_caught_up then
           (case checked_sub bus_mtime (count div per_tick) of
              Some offset \<Rightarrow> y\<lparr>time_scale := per_tick, time_offset := offset\<rparr>
            | None \<Rightarrow> y\<lparr>time_scale := 0, time_offset := 0\<rparr>)
         else y\<lparr>time_scale := 0, time_offset := 0\<rparr>)"

definition sync_devices :: "virt_machine \<Rightarrow> virt_machine" where
  "sync_devices m =
     (let t = new_mtime m;
          b = (vm_bus m)\<lparr>vb_mtime := t\<rparr>
      in m\<lparr>vm_bus := b,
           vm_cpu := upd_sys (\<lambda>y.
             let y = y\<lparr>mtime := t\<rparr>;
                 y = (if vb_direct_sbi b then set_stip b y else y)
             in set_time_scale (realtime_ticks m) t (insns_per_tick m) (insn_count (vm_cpu m)) y) (vm_cpu m)\<rparr>)"

definition sync_jit_devices :: "virt_machine \<Rightarrow> virt_machine option" where
  "sync_jit_devices m =
     (let m = sync_devices (upd_bus poll_virtio m);
          m = m\<lparr>vm_power_off := vm_power_off m \<or> vb_power_off (vm_bus m)\<rparr>
      in if vb_hang (vm_bus m) = None then Some m else None)"

definition machine_complete :: "u64 \<Rightarrow> u8 list \<Rightarrow> bool \<Rightarrow> virt_machine \<Rightarrow> bool \<times> virt_machine" where
  "machine_complete i data ok m =
     (case find_dev (\<lambda>v. pending_request v \<noteq> None) (vb_virtio (vm_bus m)) of None \<Rightarrow> (False, m)
      | Some k \<Rightarrow>
          (let b = vm_bus m;
               (res, v, d) = complete_block_request i data ok (vb_virtio b ! k, vb_mem b);
               m = m\<lparr>vm_bus := b\<lparr>vb_virtio := (vb_virtio b)[k := v], vb_mem := d\<rparr>\<rparr>
           in (res, if res then sync_devices m else m)))"

section \<open>The SBI services\<close>

definition NOT_SUPPORTED :: u64 where "NOT_SUPPORTED = - 2"
definition INVALID_PARAM :: u64 where "INVALID_PARAM = - 3"
definition ALREADY_STARTED :: u64 where "ALREADY_STARTED = - 7"
definition BASE :: u64 where "BASE = 0x10"
definition TIMER :: u64 where "TIMER = 0x54494d45"
definition IPI :: u64 where "IPI = 0x735049"
definition RFENCE :: u64 where "RFENCE = 0x52464e43"
definition HSM :: u64 where "HSM = 0x48534d"
definition SRST :: u64 where "SRST = 0x53525354"

lemmas sbi_defs = NOT_SUPPORTED_def INVALID_PARAM_def ALREADY_STARTED_def BASE_def TIMER_def IPI_def
  RFENCE_def HSM_def SRST_def

definition sbi_bucket :: "u64 \<Rightarrow> nat" where
  "sbi_bucket ext =
     (if ext = BASE then 1 else if ext = TIMER then 2 else if ext = IPI then 3 else if ext = RFENCE then 4
      else if ext = HSM then 5 else if ext = SRST then 6 else 7)"

definition count_call :: "u64 \<Rightarrow> virt_machine \<Rightarrow> virt_machine" where
  "count_call ext m =
     (let c = sbi_calls m; c = c[0 := c ! 0 + 1]
      in m\<lparr>sbi_calls := c[sbi_bucket ext := c ! sbi_bucket ext + 1]\<rparr>)"

definition sbi_set_timer :: "u64 \<Rightarrow> virt_machine \<Rightarrow> virt_machine" where
  "sbi_set_timer t m =
     (let m = upd_bus (\<lambda>b. b\<lparr>vb_mtimecmp := t\<rparr>) m in upd_cpu (upd_sys (set_stip (vm_bus m))) m)"

definition sbi_fence_i :: "virt_machine \<Rightarrow> virt_machine" where
  "sbi_fence_i = upd_cpu (\<lambda>c. c\<lparr>icache_gen := icache_gen c + 1\<rparr>)"

definition sbi_power_off :: "virt_machine \<Rightarrow> virt_machine" where
  "sbi_power_off m = (upd_bus (\<lambda>b. b\<lparr>vb_power_off := True\<rparr>) m)\<lparr>vm_power_off := True\<rparr>"

text \<open>The \<^verbatim>\<open>match\<close> on extension and function: the error, the value and the effect.\<close>

definition sbi_call :: "u64 \<Rightarrow> u64 \<Rightarrow> u64 \<Rightarrow> u64 \<Rightarrow> virt_machine \<Rightarrow> u64 \<times> u64 \<times> virt_machine" where
  "sbi_call ext f arg0 arg1 m =
     (if ext = BASE \<and> f = 0 then (0, push_bit 24 2, m)
      else if ext = BASE \<and> f = 1 then (0, 0x52563634, m)
      else if ext = BASE \<and> f = 2 then (0, 1, m)
      else if ext = BASE \<and> f = 3 then (0, b2w (arg0 \<in> {BASE, TIMER, IPI, RFENCE, HSM, SRST}), m)
      else if ext = BASE \<and> (f = 4 \<or> f = 5) then (0, 0, m)
      else if ext = BASE \<and> f = 6 then (0, 1, m)
      else if ext = TIMER \<and> f = 0 then (0, 0, sbi_set_timer arg0 m)
      else if ext = IPI \<and> f = 0 then (if arg1 \<noteq> 0 \<and> arg1 \<noteq> - 1 then INVALID_PARAM else 0, 0, m)
      else if ext = RFENCE \<and> f = 0 then (0, 0, sbi_fence_i m)
      else if ext = RFENCE \<and> 1 \<le> f \<and> f \<le> 6 then (0, 0, m)
      else if ext = HSM \<and> f = 0 then (ALREADY_STARTED, 0, m)
      else if ext = HSM \<and> f = 1 then (INVALID_PARAM, 0, m)
      else if ext = HSM \<and> f = 2 \<and> arg0 = 0 then (0, 0, m)
      else if ext = HSM \<and> f = 2 then (INVALID_PARAM, 0, m)
      else if ext = HSM \<and> f = 3 then (NOT_SUPPORTED, 0, m)
      else if ext = SRST \<and> f = 0 \<and> arg0 \<le> 2 then (0, 0, sbi_power_off m)
      else if ext = SRST \<and> f = 0 then (INVALID_PARAM, 0, m)
      else if ext = 0 then (0, 0, sbi_set_timer arg0 m)
      else if ext = 1 then
        (0, 0, upd_bus (\<lambda>b. b\<lparr>vb_uart := uart_write 0 (ucast arg0) (vb_uart b)\<rparr>) m)
      else if ext = 2 then (0, - 1, m)
      else if ext = 5 then (0, 0, sbi_fence_i m)
      else if (3 \<le> ext \<and> ext \<le> 4) \<or> (6 \<le> ext \<and> ext \<le> 7) then (0, 0, m)
      else if ext = 8 then (0, 0, sbi_power_off m)
      else (NOT_SUPPORTED, 0, m\<lparr>unsupported_sbi := Some (ext, f)\<rparr>))"

definition service_sbi :: "virt_machine \<Rightarrow> virt_machine" where
  "service_sbi m =
     (let x = xreg (vm_cpu m);
          (error, value, m) = sbi_call (x 17) (x 16) (x 10) (x 11) (count_call (x 17) m)
      in upd_cpu (\<lambda>c. c\<lparr>xreg := (xreg c)(10 := error, 11 := value)\<rparr>) m)"

section \<open>Interpreter back ends\<close>

record 'd dispatch =
  dp_contains :: "'d \<Rightarrow> u64 \<Rightarrow> bool"
  dp_observe :: "u64 \<Rightarrow> 'd \<Rightarrow> bool \<times> 'd"

datatype 'd interp = Legacy "(u64 \<Rightarrow> 'd \<Rightarrow> bool \<times> 'd) option" | Cached "'d dispatch" bool

fun until_loop :: "nat \<Rightarrow> 'b bus_ops \<Rightarrow> (u64 \<Rightarrow> 'd \<Rightarrow> bool \<times> 'd) \<Rightarrow> u64 \<Rightarrow> u64 \<Rightarrow> (cpu \<times> 'b) \<Rightarrow> 'd \<Rightarrow>
    (interpreter_stop \<times> (cpu \<times> 'b) \<times> 'd) option" where
  "until_loop 0 ops compiled start max_insns s d = None"
| "until_loop (Suc n) ops compiled start max_insns s d =
     (if insn_count (fst s) - start < max_insns then
        (let (stop, s) = run ops 1 s
         in if stop \<noteq> Budget then Some (CpuStop stop, s, d)
            else
              (let (hit, d) = compiled (pc (fst s)) d
               in if hit then Some (Compiled, s, d) else until_loop n ops compiled start max_insns s d))
      else Some (CpuStop Budget, s, d))"

definition run_cpu_until :: "nat \<Rightarrow> 'b bus_ops \<Rightarrow> (u64 \<Rightarrow> 'd \<Rightarrow> bool \<times> 'd) option \<Rightarrow> u64 \<Rightarrow> (cpu \<times> 'b) \<Rightarrow> 'd \<Rightarrow>
    (interpreter_stop \<times> (cpu \<times> 'b) \<times> 'd) option" where
  "run_cpu_until fuel ops compiled max_insns s d =
     (case compiled of
        None \<Rightarrow> (let (stop, s) = run ops max_insns s in Some (CpuStop stop, s, d))
      | Some f \<Rightarrow> until_loop fuel ops f (insn_count (fst s)) max_insns s d)"

definition run_uncached_one :: "'b bus_ops \<Rightarrow> u64 \<Rightarrow> (cpu \<times> 'b) \<Rightarrow> interpreter_stop option \<times> u64 \<times> (cpu \<times> 'b)" where
  "run_uncached_one ops stalled s =
     (let before = insn_count (fst s);
          (stop, s) = run ops 1 s;
          stalled = (if insn_count (fst s) = before then saturating_add stalled 1 else 0)
      in (if stop \<noteq> Budget then Some (CpuStop stop) else None, stalled, s))"

text \<open>The prefix of a block up to a successor that has compiled code.\<close>

fun clip :: "(u64 \<Rightarrow> bool) \<Rightarrow> u64 \<Rightarrow> decoded_insn list \<Rightarrow> decoded_insn list" where
  "clip contains p [] = []"
| "clip contains p (d # ds) =
     (let p = p + byte_len d in if contains p then [d] else d # clip contains p ds)"

text \<open>
  The block that the loop runs next: nothing when the fetch does not translate to a page of RAM that
  holds a whole instruction.
\<close>

definition next_block :: "virt_bus bus_ops \<Rightarrow> (cpu \<times> virt_bus) \<Rightarrow> code_cache \<Rightarrow>
    decoded_insn list option \<times> (cpu \<times> virt_bus) \<times> code_cache" where
  "next_block ops s c =
     (let p = pc (fst s)
      in case jit_probe_fetch ops p s of
           (None, s) \<Rightarrow> (None, s, c)
         | (Some physical, s) \<Rightarrow>
             (let ram = dm_ram (vb_mem (snd s))
              in if physical AND 0xfff \<noteq> p AND 0xfff
                    \<or> checked_ram_range (length ram) RAM_BASE (physical AND NOT 0xfff) 0x1000 = None
                 then (None, s, c)
                 else (let (r, c) = cache_block ram physical (icache_gen (fst s)) c in (r, s, c))))"

fun cached_loop :: "nat \<Rightarrow> virt_bus bus_ops \<Rightarrow> 'd dispatch \<Rightarrow> bool \<Rightarrow> u64 \<Rightarrow> u64 \<Rightarrow> bool \<Rightarrow> u64 \<Rightarrow>
    (cpu \<times> virt_bus) \<Rightarrow> code_cache \<Rightarrow> 'd \<Rightarrow>
    (interpreter_stop \<times> (cpu \<times> virt_bus) \<times> code_cache \<times> 'd) option" where
  "cached_loop 0 ops dp capable start max_insns first_block stalled s c d = None"
| "cached_loop (Suc n) ops dp capable start max_insns first_block stalled s c d =
     (let (hit, d) = (if first_block then (False, d) else dp_observe dp (pc (fst s)) d)
      in if hit then Some (Compiled, s, c, d)
         else
           (let retired = insn_count (fst s) - start
            in if max_insns \<le> retired \<or> max_insns \<le> stalled then Some (CpuStop Budget, s, c, d)
               else
                 (let remaining = max_insns - retired;
                      p = pc (fst s)
                  in case next_block ops s c of
                       (None, s, c) \<Rightarrow>
                         (case run_uncached_one ops stalled s of
                            (Some stop, stalled, s) \<Rightarrow> Some (stop, s, c, d)
                          | (None, stalled, s) \<Rightarrow>
                              cached_loop n ops dp capable start max_insns False stalled s c d)
                     | (Some block, s, c) \<Rightarrow>
                         (let block = take (unat remaining) block;
                              block = (if capable then clip (dp_contains dp d) p block else block);
                              before = insn_count (fst s)
                          in case run_decoded ops block s of
                               (Stop Budget, s) \<Rightarrow>
                                 cached_loop n ops dp capable start max_insns False 0 s c d
                             | (Stop stop, s) \<Rightarrow> Some (CpuStop stop, s, c, d)
                             | (Trapped, s) \<Rightarrow>
                                 cached_loop n ops dp capable start max_insns False
                                   (if insn_count (fst s) = before then saturating_add stalled 1 else 0)
                                   s c d))))"

definition run_cached_cpu :: "nat \<Rightarrow> virt_bus bus_ops \<Rightarrow> 'd dispatch \<Rightarrow> bool \<Rightarrow> u64 \<Rightarrow>
    (cpu \<times> virt_bus) \<Rightarrow> code_cache \<Rightarrow> 'd \<Rightarrow>
    (interpreter_stop \<times> (cpu \<times> virt_bus) \<times> code_cache \<times> 'd) option" where
  "run_cached_cpu fuel ops dp capable max_insns s c d =
     cached_loop fuel ops dp capable (insn_count (fst s)) max_insns True 0 s c d"

fun backend_run :: "nat \<Rightarrow> virt_bus bus_ops \<Rightarrow> 'd interp \<Rightarrow> u64 \<Rightarrow> (cpu \<times> virt_bus) \<Rightarrow> code_cache \<Rightarrow> 'd \<Rightarrow>
    (interpreter_stop \<times> (cpu \<times> virt_bus) \<times> code_cache \<times> 'd) option" where
  "backend_run fuel ops (Legacy compiled) max_insns s c d =
     map_option (\<lambda>(stop, s, d). (stop, s, c, d)) (run_cpu_until fuel ops compiled max_insns s d)"
| "backend_run fuel ops (Cached dp capable) max_insns s c d = run_cached_cpu fuel ops dp capable max_insns s c d"

fun should_stop :: "'d interp \<Rightarrow> u64 \<Rightarrow> 'd \<Rightarrow> bool \<times> 'd" where
  "should_stop (Legacy None) p d = (False, d)"
| "should_stop (Legacy (Some f)) p d = f p d"
| "should_stop (Cached dp capable) p d = dp_observe dp p d"

fun needs_periodic_sync :: "'d interp \<Rightarrow> bool" where
  "needs_periodic_sync (Legacy compiled) \<longleftrightarrow> compiled \<noteq> None"
| "needs_periodic_sync (Cached dp capable) \<longleftrightarrow> capable"

section \<open>The slice\<close>

definition set_run_state :: "(cpu \<times> virt_bus) \<Rightarrow> code_cache \<Rightarrow> virt_machine \<Rightarrow> virt_machine" where
  "set_run_state s c m = m\<lparr>vm_cpu := fst s, vm_bus := snd s, vm_cache := c\<rparr>"

text \<open>
  The \<^verbatim>\<open>while\<close> loop of \<^verbatim>\<open>run_slice_backend\<close>; \<open>n\<close> bounds its rounds and \<open>fuel\<close> each back-end run.
\<close>

fun slice_loop :: "nat \<Rightarrow> nat \<Rightarrow> i64 \<Rightarrow> 'd interp \<Rightarrow> u64 \<Rightarrow> interpreter_stop \<Rightarrow> virt_machine \<Rightarrow> 'd \<Rightarrow>
    (interpreter_stop \<times> virt_machine \<times> 'd) option" where
  "slice_loop 0 fuel host be remaining stop m d = None"
| "slice_loop (Suc n) fuel host be remaining stop m d =
     (if remaining = 0 \<or> vm_power_off m then Some (stop, m, d)
      else
        (let chunk = (if needs_periodic_sync be \<or> has_external_disk m
                      then min remaining INTERPRETER_SYNC_INTERVAL else remaining);
             before = insn_count (vm_cpu m)
         in case backend_run fuel (virt_bus_ops host) be chunk (vm_cpu m, vm_bus m) (vm_cache m) d of
              None \<Rightarrow> None
            | Some (stop, s, c, d) \<Rightarrow>
                (let m = set_run_state s c m;
                     retired = insn_count (vm_cpu m) - before;
                     remaining = saturating_sub remaining retired
                 in if stop = CpuStop Ecall \<and> vb_direct_sbi (vm_bus m) then
                      (let m = service_sbi m
                       in if unsupported_sbi m \<noteq> None then Some (stop, m\<lparr>vm_power_off := True\<rparr>, d)
                          else if vm_power_off m then Some (stop, m, d)
                          else
                            (let (hit, d) = should_stop be (pc (vm_cpu m)) d
                             in if hit then Some (Compiled, m, d)
                                else slice_loop n fuel host be remaining stop m d))
                    else if stop = CpuStop Budget \<and> remaining \<noteq> 0 then
                      (let m = sync_devices m
                       in if machine_pending_request m \<noteq> None then Some (stop, m, d)
                          else if retired = 0 then Some (stop, m, d)
                          else if \<not> needs_periodic_sync be \<and> \<not> has_external_disk m then Some (stop, m, d)
                          else slice_loop n fuel host be remaining stop m d)
                    else Some (stop, m, d))))"

definition wfi_idle :: "interpreter_stop \<Rightarrow> virt_machine \<Rightarrow> bool \<times> virt_machine" where
  "wfi_idle stop m =
     (if stop = CpuStop Wfi then
        (let nxt = vb_mtimecmp (vm_bus m); now = vb_mtime (vm_bus m)
         in if realtime_ticks m = None \<and> nxt \<noteq> - 1 \<and> now < nxt
            then (False, m\<lparr>idle_ticks := idle_ticks m + (nxt - now)\<rparr>)
            else (True, m))
      else (False, m))"

definition slice_body :: "nat \<Rightarrow> i64 \<Rightarrow> 'd interp \<Rightarrow> u64 \<Rightarrow> virt_machine \<Rightarrow> 'd \<Rightarrow>
    (run_slice_outcome \<times> virt_machine \<times> 'd) option" where
  "slice_body fuel host be max_insns m d =
     (let start = insn_count (vm_cpu m);
          m = sync_devices (upd_bus poll_virtio m)
      in if machine_pending_request m \<noteq> None then Some (\<lparr>rs_retired = 0, rs_idle = False\<rparr>, m, d)
         else
           (case slice_loop (Suc (unat max_insns)) fuel host be max_insns (CpuStop Budget) m d of
              None \<Rightarrow> None
            | Some (stop, m, d) \<Rightarrow>
                (let (idle, m) = wfi_idle stop m;
                     m = sync_devices m;
                     m = m\<lparr>vm_power_off := vm_power_off m \<or> vb_power_off (vm_bus m)\<rparr>
                 in Some (\<lparr>rs_retired = insn_count (vm_cpu m) - start, rs_idle = idle\<rparr>, m, d))))"

text \<open>
  The call returns when its loops end and no device call in it hung: a device hangs in the middle of an
  instruction or a poll, and nothing after that is executed by the program.
\<close>

definition run_slice_backend :: "nat \<Rightarrow> i64 \<Rightarrow> 'd interp \<Rightarrow> u64 \<Rightarrow> virt_machine \<Rightarrow> 'd \<Rightarrow>
    (run_slice_outcome \<times> virt_machine \<times> 'd) option" where
  "run_slice_backend fuel host be max_insns m d =
     (case slice_body fuel host be max_insns m d of None \<Rightarrow> None
      | Some (r, m, d) \<Rightarrow> if vb_hang (vm_bus m) = None then Some (r, m, d) else None)"

text \<open>The entry points of the embedder.\<close>

definition run_slice_inner :: "nat \<Rightarrow> i64 \<Rightarrow> u64 \<Rightarrow> (u64 \<Rightarrow> 'd \<Rightarrow> bool \<times> 'd) option \<Rightarrow> virt_machine \<Rightarrow> 'd \<Rightarrow>
    (run_slice_outcome \<times> virt_machine \<times> 'd) option" where
  "run_slice_inner fuel host max_insns compiled m d = run_slice_backend fuel host (Legacy compiled) max_insns m d"

definition run_slice :: "i64 \<Rightarrow> u64 \<Rightarrow> virt_machine \<Rightarrow> (u64 \<times> virt_machine) option" where
  "run_slice host max_insns m =
     map_option (\<lambda>(r, m, _ :: unit). (rs_retired r, m)) (run_slice_inner 0 host max_insns None m ())"

definition run_slice_until_outcome :: "nat \<Rightarrow> i64 \<Rightarrow> u64 \<Rightarrow> (u64 \<Rightarrow> 'd \<Rightarrow> bool \<times> 'd) \<Rightarrow> virt_machine \<Rightarrow> 'd \<Rightarrow>
    (run_slice_outcome \<times> virt_machine \<times> 'd) option" where
  "run_slice_until_outcome fuel host max_insns compiled = run_slice_inner fuel host max_insns (Some compiled)"

definition run_cached_slice_outcome :: "nat \<Rightarrow> i64 \<Rightarrow> u64 \<Rightarrow> 'd dispatch \<Rightarrow> bool \<Rightarrow> virt_machine \<Rightarrow> 'd \<Rightarrow>
    (run_slice_outcome \<times> virt_machine \<times> 'd) option" where
  "run_cached_slice_outcome fuel host max_insns dp capable = run_slice_backend fuel host (Cached dp capable) max_insns"

end
