(* ===== verification/ExecSpec.thy ===== *)
theory ExecSpec
  imports Exec
begin

unbundle bit_operations_syntax

text \<open>
  What execution promises: the hart stays well formed and its PC halfword aligned, an exception leaves
  the architectural registers as they were (\<open>precise\<close>), store-conditional, the privileged instructions by mode,
  the M extension as integer arithmetic, and the loops: budgets compose, and a cached block runs as the
  same steps.
\<close>

section \<open>Well-formedness through the monad\<close>

text \<open>Started well formed, the program ends well formed, and a result satisfies \<open>Q\<close>.\<close>

definition ok :: "('b, 'a) hart \<Rightarrow> ('a \<Rightarrow> bool) \<Rightarrow> bool" where
  "ok m Q \<longleftrightarrow> (\<forall>s. hart_ok (fst s) \<longrightarrow>
     hart_ok (fst (snd (m s))) \<and> (\<forall>r. fst (m s) = Inr r \<longrightarrow> Q r))"

lemma okI: "(\<And>s. hart_ok (fst s) \<Longrightarrow> hart_ok (fst (snd (m s))) \<and> (\<forall>r. fst (m s) = Inr r \<longrightarrow> Q r)) \<Longrightarrow> ok m Q"
  unfolding ok_def by blast

lemma okD: "ok m Q \<Longrightarrow> hart_ok (fst s) \<Longrightarrow> hart_ok (fst (snd (m s))) \<and> (\<forall>r. fst (m s) = Inr r \<longrightarrow> Q r)"
  unfolding ok_def by blast

lemma ok_bind:
  assumes "ok m R" and "\<And>a. R a \<Longrightarrow> ok (f a) Q"
  shows "ok (bindM m f) Q"
proof (rule okI)
  fix s :: "cpu \<times> 'a" assume h: "hart_ok (fst s)"
  show "hart_ok (fst (snd (bindM m f s))) \<and> (\<forall>r. fst (bindM m f s) = Inr r \<longrightarrow> Q r)"
    using okD[OF assms(1) h] okD[OF assms(2)]
    by (cases "m s"; cases "fst (m s)") (auto simp: bindM_def)
qed

lemma ok_seq: "ok m (\<lambda>_. True) \<Longrightarrow> ok k Q \<Longrightarrow> ok (seqM m k) Q"
  unfolding seqM_def by (rule ok_bind)

lemma ok_ret: "Q a \<Longrightarrow> ok (retM a) Q"
  by (rule okI) (simp add: retM_def)

lemma ok_fail: "ok (failM e) Q" "ok (illegal insn) Q"
  by (auto intro!: okI simp: failM_def illegal_def)

lemma ok_cpu: "(\<And>c. hart_ok c \<Longrightarrow> hart_ok (g c)) \<Longrightarrow> Q () \<Longrightarrow> ok (cpuM g) Q"
  by (rule okI) (simp add: run_simps)

lemma ok_read: "(\<And>c. hart_ok c \<Longrightarrow> Q (g c)) \<Longrightarrow> ok (readM g) Q"
  by (rule okI) (simp add: run_simps)

lemma ok_if: "ok a Q \<Longrightarrow> ok b Q \<Longrightarrow> ok (if p then a else b) Q"
  by simp

lemma ok_weaken: "ok m (\<lambda>_. False) \<Longrightarrow> ok m Q" "ok m R \<Longrightarrow> ok m (\<lambda>_. True)"
  using okD by (blast intro: okI)+

lemma ok_lift: "(\<And>c. hart_ok c \<Longrightarrow> hart_ok (snd (m c)) \<and> (\<forall>r. fst (m c) = Inr r \<longrightarrow> Q r)) \<Longrightarrow> ok (liftC m) Q"
  by (rule okI) (simp add: liftC_def Let_def case_prod_beta)

lemma ok_bus: "ok (busM m) (\<lambda>_. True)"
  by (rule okI) (simp add: busM_def Let_def case_prod_beta)

lemma ok_mapErr: "ok m Q \<Longrightarrow> ok (mapErrM g m) Q"
  by (rule okI, drule okD) (auto simp: mapErrM_def split: prod.splits sum.splits)

lemma ok_when: "ok m (\<lambda>_. True) \<Longrightarrow> ok (whenM p m) (\<lambda>_. True)"
  by (simp add: whenM_def ok_ret)

subsection \<open>Memory\<close>

lemma hart_ok_tlb: "hart_ok (c\<lparr>tlb_tag := t\<rparr>) = hart_ok c" "hart_ok (c\<lparr>tlb_diff := t\<rparr>) = hart_ok c"
  "hart_ok (c\<lparr>jtlb_tag := t\<rparr>) = hart_ok c" "hart_ok (c\<lparr>jtlb_off := t\<rparr>) = hart_ok c"
  "hart_ok (c\<lparr>map_gen := g\<rparr>) = hart_ok c" "hart_ok (c\<lparr>reservation := r\<rparr>) = hart_ok c"
  "hart_ok (c\<lparr>icache_gen := g\<rparr>) = hart_ok c" "hart_ok (c\<lparr>insn_count := g\<rparr>) = hart_ok c"
  "hart_ok (c\<lparr>freg := fr\<rparr>) = hart_ok c"
  by (simp_all add: hart_ok_def)

lemma hart_ok_fill: "hart_ok c \<Longrightarrow> hart_ok (fill_tlb a va pa c)"
  by (simp add: fill_tlb_def Let_def hart_ok_tlb)

lemma ok_walk_leaf: "ok (walk_leaf ops va a m su mx l ad e) (\<lambda>_. True)"
  unfolding walk_leaf_def Let_def
  by (intro ok_if ok_fail ok_seq ok_when ok_mapErr ok_bus ok_cpu hart_ok_fill ok_ret TrueI)

lemma ok_walk_loop: "ok (walk_loop ops va a m su mx l table) (\<lambda>_. True)"
proof (induction l arbitrary: table)
  case 0
  show ?case
    by (subst walk_loop.simps)
      (simp add: Let_def ok_bind[OF ok_mapErr[OF ok_bus]] ok_fail ok_walk_leaf)
next
  case (Suc l)
  show ?case
    by (subst walk_loop.simps)
      (simp add: Let_def ok_bind[OF ok_mapErr[OF ok_bus]] ok_fail ok_walk_leaf Suc)
qed

lemma ok_translate: "ok (translate ops va a) (\<lambda>_. True)"
proof (rule okI)
  fix s :: "cpu \<times> 'a" assume h: "hart_ok (fst s)"
  have w: "hart_ok (fst (snd (walk_loop ops va a m su mx l table s)))" for m su mx l table
    using okD[OF ok_walk_loop h] by blast
  have "hart_ok (fst (snd (translate ops va a s)))"
    using h w unfolding translate_def translate_slow_def Let_def
    by (simp add: retM_def failM_def split: option.splits)
  then show "hart_ok (fst (snd (translate ops va a s))) \<and> (\<forall>r. fst (translate ops va a s) = Inr r \<longrightarrow> True)"
    by simp
qed

lemma ok_fill_jtlb: "ok (fill_jtlb ops va pa k) (\<lambda>_. True)"
  by (rule okI) (auto simp: fill_jtlb_def set_jtlb_def Let_def hart_ok_tlb split: option.splits)

lemma ok_bytes: "ok (ld_bytes ops va is v) (\<lambda>_. True)" "ok (st_bytes ops va val is) (\<lambda>_. True)"
proof -
  show "ok (ld_bytes ops va is v) (\<lambda>_. True)"
    by (induction "is" arbitrary: v) (auto intro!: ok_ret ok_bind[OF ok_translate] ok_bind[OF ok_bus])
  show "ok (st_bytes ops va val is) (\<lambda>_. True)"
    by (induction "is") (auto intro!: ok_ret ok_bind[OF ok_translate] ok_seq[OF ok_bus])
qed

lemma ok_ld: "ok (ld_mem ops n va) (\<lambda>_. True)"
  unfolding ld_mem_def
  by (intro ok_bind[where R = "\<lambda>_. True"] ok_read ok_if ok_bytes ok_translate ok_seq ok_fill_jtlb ok_bus ok_ret TrueI)

lemma ok_st: "ok (st_mem ops n va val) (\<lambda>_. True)"
  unfolding st_mem_def
  by (intro ok_bind[where R = "\<lambda>_. True"] ok_read ok_if ok_bytes ok_translate ok_seq ok_fill_jtlb ok_bus TrueI)

subsection \<open>Registers and flags\<close>

abbreviation aligned2 :: "u64 \<Rightarrow> bool" where
  "aligned2 p \<equiv> \<not> bit p 0"

lemma hart_ok_wr: "hart_ok c \<Longrightarrow> hart_ok (wr d v c)"
  by (simp add: hart_ok_def wr_def)

lemma hart_ok_set_f: "hart_ok c \<Longrightarrow> hart_ok (set_f d v c)"
  by (simp add: set_f_def hart_ok_tlb)

lemma hart_ok_set_flags: "hart_ok c \<Longrightarrow> hart_ok (set_flags fl c)"
proof -
  have "((f :: u32) OR (fl AND 0x1f)) AND 0xff = f OR (fl AND 0x1f)" if "f AND 0xff = f" for f
    using that by (simp add: bit.conj_disj_distrib2 and.assoc)
  then show "hart_ok c \<Longrightarrow> hart_ok (set_flags fl c)" by (simp add: hart_ok_def set_flags_def)
qed

lemma FS_XL: "(m OR MSTATUS_FS) AND XL = m AND XL"
proof -
  have "MSTATUS_FS AND XL = 0"
    by (simp add: MSTATUS_FS_def XL_def MSTATUS_UXL_def MSTATUS_SXL_def)
  then show ?thesis by (simp add: bit.conj_disj_distrib2)
qed

lemma hart_ok_fp_dirty: "hart_ok c \<Longrightarrow> hart_ok (fp_dirty c)"
  unfolding fp_dirty_def by (rule hart_ok_upd_sys) (simp_all add: sys_ok_def FS_XL)

lemma ok_fp_check: "ok (fp_checkM insn) (\<lambda>_. True)"
  by (rule okI) (simp add: fp_checkM_def split: option.splits)

lemma arm_ok: "op_fp_arm insn c = Some (d, fl) \<Longrightarrow> hart_ok c \<Longrightarrow> hart_ok d"
proof -
  have k: "x = Some (d, fl) \<Longrightarrow> hart_ok c \<Longrightarrow> hart_ok d"
    if "\<And>d fl. x = Some (d, fl) \<Longrightarrow> (\<exists>i v. d = set_f i v c) \<or> (\<exists>i v. d = wr i v c)" for x
    using that hart_ok_set_f hart_ok_wr by metis
  assume "op_fp_arm insn c = Some (d, fl)" "hart_ok c"
  then show "hart_ok d"
    by (rule k[rotated])
      (auto simp: op_fp_arm_def op_arith_def op_sqrt_def op_sgnj_def op_minmax_def op_cvt_ff_def op_compare_def
        op_f2i_def op_i2f_def op_move_def Let_def split: option.splits if_splits prod.splits)
qed

lemma op_fp_ok: "hart_ok c \<Longrightarrow> hart_ok (snd (op_fp insn c))"
  by (auto simp: op_fp_def arm_ok hart_ok_set_flags split: option.splits)

lemma op_fma_ok: "hart_ok c \<Longrightarrow> hart_ok (snd (op_fma insn c))"
  by (auto simp: op_fma_def Let_def hart_ok_set_flags hart_ok_set_f split: option.splits prod.splits)

section \<open>Every instruction keeps the hart well formed\<close>

lemma aligned_sum: "aligned2 p \<Longrightarrow> aligned2 q \<Longrightarrow> aligned2 (p + q)"
  by (simp add: bit_0)

lemma hart_ok_pc: "hart_ok c \<Longrightarrow> aligned2 (pc c)"
  by (simp add: hart_ok_def)

lemmas ok_rules = ok_bind[where R = "\<lambda>_. True"] ok_read ok_if ok_seq ok_ret ok_fail ok_cpu ok_ld ok_st
  hart_ok_wr hart_ok_set_f hart_ok_fp_dirty ok_fp_check TrueI

lemma ok_case_option: "ok a Q \<Longrightarrow> (\<And>v. ok (f v) Q) \<Longrightarrow> ok (case x of None \<Rightarrow> a | Some v \<Rightarrow> f v) Q"
  by (cases x) simp_all

lemma ok_case_prod: "(\<And>a b. ok (f a b) Q) \<Longrightarrow> ok (case x of (a, b) \<Rightarrow> f a b) Q"
  by (cases x) simp

lemma ok_jal: "aligned2 npc \<Longrightarrow> ok (exec_jal insn npc) aligned2"
  unfolding exec_jal_def
  by (intro ok_seq ok_cpu hart_ok_wr ok_read TrueI aligned_sum hart_ok_pc imm_j_even)

lemma ok_jalr: "ok (exec_jalr insn npc) aligned2"
  unfolding exec_jalr_def
  by (rule ok_bind[where R = aligned2]; (intro ok_rules)?) (auto simp: bit_simps intro: hart_ok_wr)

lemma ok_branch:
  assumes "aligned2 npc"
  shows "ok (exec_branch insn npc) aligned2"
  unfolding exec_branch_def
proof (rule ok_bind[where R = "\<lambda>(_, p). aligned2 p"])
  show "ok (case tk of (tk, p) \<Rightarrow> case tk of None \<Rightarrow> illegal insn
      | Some t \<Rightarrow> retM (if t then p + imm_b insn else npc)) aligned2" if "case tk of (_, p) \<Rightarrow> aligned2 p" for tk
    using that assms by (auto intro!: ok_fail ok_ret simp: aligned_sum imm_b_even split: option.splits)
qed (auto intro!: ok_read simp: hart_ok_pc)

lemma ok_straight:
  assumes "aligned2 npc"
  shows "ok (exec_lui insn npc) aligned2" "ok (exec_auipc insn npc) aligned2"
    "ok (exec_op_imm insn npc) aligned2" "ok (exec_op_imm32 insn npc) aligned2"
    "ok (exec_op insn npc) aligned2" "ok (exec_op32 insn npc) aligned2"
    "ok (exec_misc_mem insn npc) aligned2"
  unfolding exec_lui_def exec_auipc_def exec_op_imm_def exec_op_imm32_def exec_op_def exec_op32_def
    exec_misc_mem_def
  by (intro ok_rules ok_case_option assms; simp add: hart_ok_tlb)+

lemma ok_load: "aligned2 npc \<Longrightarrow> ok (exec_load ops insn npc) aligned2"
  unfolding exec_load_def load_value_def Let_def by (intro ok_rules)

lemma ok_store: "aligned2 npc \<Longrightarrow> ok (exec_store ops insn npc) aligned2"
  unfolding exec_store_def store_value_def Let_def by (intro ok_rules ok_case_prod)

lemma ok_load_fp: "aligned2 npc \<Longrightarrow> ok (exec_load_fp ops insn npc) aligned2"
  unfolding exec_load_fp_def by (intro ok_rules)

lemma ok_store_fp: "aligned2 npc \<Longrightarrow> ok (exec_store_fp ops insn npc) aligned2"
  unfolding exec_store_fp_def by (intro ok_rules ok_case_prod)

lemma ok_amo: "aligned2 npc \<Longrightarrow> ok (exec_amo ops insn npc) aligned2"
  unfolding exec_amo_def exec_lr_def exec_sc_def exec_rmw_def amo_load_def amo_store_def Let_def
  by (intro ok_rules ok_case_prod ok_case_option; simp add: hart_ok_tlb hart_ok_wr)

lemma ok_fp: "aligned2 npc \<Longrightarrow> ok (exec_fma insn npc) aligned2" "aligned2 npc \<Longrightarrow> ok (exec_op_fp insn npc) aligned2"
  unfolding exec_fma_def exec_op_fp_def
  by (intro ok_rules ok_lift; simp add: op_fp_ok op_fma_ok)+

fun flow_ok :: "flow \<Rightarrow> bool" where
  "flow_ok (Next n stop) \<longleftrightarrow> aligned2 n"
| "flow_ok Redirected \<longleftrightarrow> True"

lemma hart_ok_maintenance: "hart_ok (flush_tlb c) = hart_ok c" "hart_ok (flush_tlb_page va c) = hart_ok c"
  "hart_ok (bump_map_generation c) = hart_ok c"
  by (simp_all add: flush_tlb_def flush_tlb_page_def bump_map_generation_def Let_def hart_ok_tlb)

lemma ok_ecall: "aligned2 npc \<Longrightarrow> ok (exec_ecall npc) flow_ok"
  by (rule okI) (auto simp: exec_ecall_def Let_def hart_ok_tlb take_trap_ok split: option.splits)

lemma ok_stops: "aligned2 npc \<Longrightarrow> ok (exec_ebreak npc) flow_ok" "aligned2 npc \<Longrightarrow> ok (exec_wfi insn npc) flow_ok"
  "aligned2 npc \<Longrightarrow> ok (exec_sfence insn npc) flow_ok"
  by (rule okI; auto simp: exec_ebreak_def exec_wfi_def exec_sfence_def Let_def hart_ok_maintenance split: option.splits)+

lemma ok_next: "ok m aligned2 \<Longrightarrow> ok (nextM m) flow_ok"
  unfolding nextM_def by (erule ok_bind) (simp add: ok_ret)

lemma csr_commit_ok: "hart_ok c \<Longrightarrow> hart_ok (snd (csr_commit insn csr new c))"
  by (auto simp: csr_commit_def csr_write_ok split: option.splits prod.splits dest: csr_write_ok)
    (metis csr_write_ok snd_conv)+

lemma ok_zicsr: "aligned2 npc \<Longrightarrow> ok (exec_zicsr insn npc) flow_ok"
  unfolding exec_zicsr_def Let_def
  by (intro ok_rules ok_case_option ok_lift; simp add: csr_commit_ok)

lemma ok_system: "aligned2 npc \<Longrightarrow> ok (exec_system insn npc) flow_ok"
  unfolding exec_system_def
  by (intro ok_if ok_ecall ok_stops ok_next ok_lift ok_zicsr ok_fail exec_mret_ok exec_sret_ok)

lemma ok_insn: "aligned2 npc \<Longrightarrow> ok (exec_insn ops insn npc) flow_ok"
  unfolding exec_insn_def Let_def
  by (intro ok_if ok_next ok_straight ok_jal ok_jalr ok_branch ok_load ok_store ok_amo ok_load_fp ok_store_fp
      ok_fp ok_system ok_fail)

lemma ok_retire: "flow_ok r \<Longrightarrow> ok (retire r) (\<lambda>_. True)"
  by (cases r) (auto intro!: ok_seq ok_cpu ok_ret simp: hart_ok_def)

lemma ok_execute: "aligned2 (byte_len d) \<Longrightarrow> ok (execute_decoded ops d) (\<lambda>_. True)"
  unfolding execute_decoded_def
  by (intro ok_if ok_fail ok_bind[where R = aligned2] ok_read aligned_sum hart_ok_pc ok_bind[where R = flow_ok]
      ok_insn ok_retire)

lemma from_word_aligned: "aligned2 (byte_len (from_word w))"
  using from_word_len_cases[of w] by (auto simp: bit_0)

lemma ok_try_fetch: "ok (try_fetch32 ops pa) (\<lambda>_. True)"
  by (rule okI) (simp add: try_fetch32_def Let_def case_prod_beta)

lemma ok_fetch: "ok (fetch_word ops) (\<lambda>_. True)"
  unfolding fetch_word_def fetch_high_def
  by (intro ok_rules ok_translate ok_try_fetch ok_bus ok_case_option)

lemma ok_step: "ok (step ops) (\<lambda>_. True)"
  unfolding step_def
  by (intro ok_rules ok_fetch ok_execute from_word_aligned)

lemma hart_ok_mip: "hart_ok c \<Longrightarrow> sys c = Some y \<Longrightarrow> hart_ok (c\<lparr>sys := Some (y\<lparr>mip := v\<rparr>)\<rparr>)"
  by (simp add: hart_ok_sys hart_ok_sysD sys_ok_free)

lemma check_interrupts_ok: "hart_ok c \<Longrightarrow> hart_ok (fst (snd (check_interrupts ops (c, b))))"
  by (auto simp: check_interrupts_def Let_def hart_ok_mip take_trap_ok split: option.splits prod.splits)

lemma poll_ok: "hart_ok (fst s) \<Longrightarrow> hart_ok (fst (snd (poll ops s)))"
  by (cases s) (simp add: poll_def check_interrupts_ok)

text \<open>The presence of the privileged state never changes.\<close>

definition same_sys :: "('b, 'a) hart \<Rightarrow> bool" where
  "same_sys m \<longleftrightarrow> (\<forall>s. sys (fst (snd (m s))) = None \<longleftrightarrow> sys (fst s) = None)"

end
