(* ===== verification/ExecFrame.thy ===== *)
theory ExecFrame
  imports ExecSpec
begin

unbundle bit_operations_syntax

text \<open>
  What an instruction leaves alone. \<open>frame_rel\<close> is the contract of a relation between the hart before and
  after that memory accesses respect (it is a preorder that ignores the translation caches); its two
  interpretations are the state an exception must not change, and the presence of the privileged state.
\<close>

section \<open>Frames through the monad\<close>

definition within :: "(cpu \<Rightarrow> cpu \<Rightarrow> bool) \<Rightarrow> ('b, 'a) hart \<Rightarrow> bool" where
  "within R m \<longleftrightarrow> (\<forall>s. R (fst s) (fst (snd (m s))))"

locale frame_rel =
  fixes R :: "cpu \<Rightarrow> cpu \<Rightarrow> bool"
  assumes R_refl: "R c c"
    and R_trans: "R c d \<Longrightarrow> R d e \<Longrightarrow> R c e"
    and R_tlb: "R c (c\<lparr>tlb_tag := t1\<rparr>)" "R c (c\<lparr>tlb_diff := t2\<rparr>)" "R c (c\<lparr>jtlb_tag := t3\<rparr>)"
      "R c (c\<lparr>jtlb_off := t4\<rparr>)"
begin

lemma within_bind: "within R m \<Longrightarrow> (\<And>a. within R (f a)) \<Longrightarrow> within R (bindM m f)"
  unfolding within_def bindM_def
  by (auto split: sum.splits prod.splits) (metis R_trans fst_conv snd_conv)+

lemma within_seq: "within R m \<Longrightarrow> within R k \<Longrightarrow> within R (seqM m k)"
  unfolding seqM_def by (rule within_bind)

lemma within_prim: "within R (retM a)" "within R (failM e)" "within R (illegal insn)" "within R (readM g)"
  "within R (busM b)" "within R (fp_checkM insn)"
  by (auto simp: within_def retM_def failM_def illegal_def run_readM busM_def Let_def case_prod_beta
      fp_checkM_def R_refl split: option.splits)

lemma within_cpu: "(\<And>c. R c (g c)) \<Longrightarrow> within R (cpuM g)"
  by (simp add: within_def run_cpuM)

lemma within_if: "within R a \<Longrightarrow> within R b \<Longrightarrow> within R (if p then a else b)"
  by simp

lemma within_mapErr: "within R m \<Longrightarrow> within R (mapErrM g m)"
  unfolding within_def mapErrM_def by (auto split: sum.splits prod.splits) (metis fst_conv snd_conv)+

lemma within_when: "within R m \<Longrightarrow> within R (whenM p m)"
  by (simp add: whenM_def within_prim)

lemma within_fill: "within R (cpuM (fill_tlb a va pa))"
  by (rule within_cpu) (simp add: fill_tlb_def Let_def R_trans[OF R_trans[OF R_tlb(3) R_tlb(1)] R_tlb(2)]
      R_trans[OF R_tlb(1) R_tlb(2)])

lemma within_walk_leaf: "within R (walk_leaf ops va a m su mx l ad e)"
  unfolding walk_leaf_def Let_def
  by (intro within_if within_seq within_when within_mapErr within_fill within_prim)

lemma within_walk_loop: "within R (walk_loop ops va a m su mx l table)"
proof (induction l arbitrary: table)
  case 0
  show ?case by (subst walk_loop.simps)
    (simp add: Let_def within_bind within_mapErr within_prim within_walk_leaf)
next
  case (Suc l)
  show ?case by (subst walk_loop.simps)
    (simp add: Let_def within_bind within_mapErr within_prim within_walk_leaf Suc)
qed

lemma within_translate: "within R (translate ops va a)"
  unfolding within_def
proof
  fix s :: "cpu \<times> 'a"
  have w: "R (fst s) (fst (snd (walk_loop ops va a m su mx l table s)))" for m su mx l table
    using within_walk_loop unfolding within_def by blast
  show "R (fst s) (fst (snd (translate ops va a s)))"
    using w unfolding translate_def translate_slow_def Let_def
    by (simp add: retM_def failM_def R_refl split: option.splits)
qed

lemma within_fill_jtlb: "within R (fill_jtlb ops va pa k)"
  unfolding within_def fill_jtlb_def set_jtlb_def Let_def
  by (simp add: R_refl R_trans[OF R_tlb(3) R_tlb(4)] split: option.splits)

lemma within_bytes: "within R (ld_bytes ops va is v)" "within R (st_bytes ops va val is)"
proof -
  show "within R (ld_bytes ops va is v)"
    by (induction "is" arbitrary: v) (simp_all add: within_prim within_bind within_translate)
  show "within R (st_bytes ops va val is)"
    by (induction "is") (simp_all add: within_prim within_bind within_seq within_translate)
qed

lemma within_ld: "within R (ld_mem ops n va)"
  unfolding ld_mem_def
  by (intro within_bind within_prim within_if within_bytes within_translate within_seq within_fill_jtlb)

lemma within_st: "within R (st_mem ops n va val)"
  unfolding st_mem_def
  by (intro within_bind within_prim within_if within_bytes within_translate within_seq within_fill_jtlb)

lemma within_try_fetch: "within R (try_fetch32 ops pa)"
  unfolding within_def try_fetch32_def Let_def by (simp add: case_prod_beta R_refl)

lemma within_case_option: "within R a \<Longrightarrow> (\<And>v. within R (f v)) \<Longrightarrow> within R (case x of None \<Rightarrow> a | Some v \<Rightarrow> f v)"
  by (cases x) simp_all

lemma within_fetch: "within R (fetch_word ops)"
  unfolding fetch_word_def fetch_high_def
  by (intro within_bind within_prim within_if within_translate within_try_fetch within_case_option)

lemma within_amo_load: "within R (amo_load ops is64 addr)" and within_amo_store: "within R (amo_store ops is64 addr v)"
  unfolding amo_load_def amo_store_def by (intro within_if within_ld within_st within_bind within_prim)+

lemma within_access: "within R (load_value ops insn addr)" "within R (store_value ops insn addr val)"
  unfolding load_value_def store_value_def Let_def
  by (intro within_if within_ld within_st within_bind within_prim)+

end

section \<open>The state an exception leaves alone\<close>

text \<open>
  \<open>unchanged c d\<close>: every architectural register is the same, but for the dirty mark a floating-point
  instruction may already have set. The poll counter, the caches and the diagnostics are not architectural.
\<close>

definition fs_marked :: "sys_csrs \<Rightarrow> sys_csrs" where
  "fs_marked y = y\<lparr>mstatus := mstatus y OR MSTATUS_FS\<rparr>"

definition unchanged :: "cpu \<Rightarrow> cpu \<Rightarrow> bool" where
  "unchanged c d \<longleftrightarrow> pc d = pc c \<and> xreg d = xreg c \<and> freg d = freg c \<and> fcsr d = fcsr c
     \<and> insn_count d = insn_count c \<and> reservation d = reservation c
     \<and> (sys d = sys c \<or> sys d = map_option fs_marked (sys c))"

lemma fs_marked_idem: "fs_marked (fs_marked y) = fs_marked y"
  by (simp add: fs_marked_def or.assoc)

definition sys_kept :: "cpu \<Rightarrow> cpu \<Rightarrow> bool" where
  "sys_kept c d \<longleftrightarrow> (sys d = None \<longleftrightarrow> sys c = None)"

interpretation quiet: frame_rel unchanged
proof
  fix c d e :: cpu
  show "unchanged c d \<Longrightarrow> unchanged d e \<Longrightarrow> unchanged c e"
    by (auto simp: unchanged_def option.map_comp fs_marked_idem comp_def)
qed (simp_all add: unchanged_def)

interpretation kept: frame_rel sys_kept
  by unfold_locales (auto simp: sys_kept_def)

section \<open>Precise exceptions\<close>

text \<open>An exception exit leaves the registers unchanged; \<open>nofail\<close> programs have no exception exit.\<close>

definition precise :: "('b, 'a) hart \<Rightarrow> bool" where
  "precise m \<longleftrightarrow> (\<forall>s e. fst (m s) = Inl e \<longrightarrow> unchanged (fst s) (fst (snd (m s))))"

definition nofail :: "('b, 'a) hart \<Rightarrow> bool" where
  "nofail m \<longleftrightarrow> (\<forall>s. \<exists>r t. m s = (Inr r, t))"

lemma precise_quiet: "within unchanged m \<Longrightarrow> precise m"
  by (simp add: precise_def within_def)

lemma precise_nofail: "nofail m \<Longrightarrow> precise m"
  unfolding precise_def nofail_def by (metis Inl_Inr_False fst_conv)

lemma precise_bind:
  assumes "within unchanged m" "\<And>a. precise (f a)"
  shows "precise (bindM m f)"
  unfolding precise_def
proof (intro allI impI)
  fix s e assume e: "fst (bindM m f s) = Inl e"
  obtain r t where m: "m s = (r, t)" by (cases "m s")
  with assms(1) have q: "unchanged (fst s) (fst t)" unfolding within_def by (metis snd_conv)
  show "unchanged (fst s) (fst (snd (bindM m f s)))"
  proof (cases r)
    case (Inl x) then show ?thesis using m q by (simp add: bindM_def)
  next
    case (Inr a)
    then have b: "bindM m f s = f a t" using m by (simp add: bindM_def)
    then have "unchanged (fst t) (fst (snd (f a t)))" using e assms(2) unfolding precise_def by metis
    then show ?thesis unfolding b using q quiet.R_trans by blast
  qed
qed

lemma precise_seq: "within unchanged m \<Longrightarrow> precise k \<Longrightarrow> precise (seqM m k)"
  unfolding seqM_def by (rule precise_bind)

lemma precise_then:
  assumes "precise m" "\<And>a. nofail (f a)"
  shows "precise (bindM m f)"
  unfolding precise_def
proof (intro allI impI)
  fix s e assume e: "fst (bindM m f s) = Inl e"
  obtain r t where m: "m s = (r, t)" by (cases "m s")
  show "unchanged (fst s) (fst (snd (bindM m f s)))"
  proof (cases r)
    case (Inl x)
    then have "unchanged (fst s) (fst t)" using assms(1) m unfolding precise_def by (metis fst_conv snd_conv)
    then show ?thesis using m Inl by (simp add: bindM_def)
  next
    case (Inr a)
    obtain x u where "f a t = (Inr x, u)" using assms(2) unfolding nofail_def by blast
    then show ?thesis using e m Inr by (simp add: bindM_def)
  qed
qed

lemma precise_seq_then: "precise m \<Longrightarrow> nofail k \<Longrightarrow> precise (seqM m k)"
  unfolding seqM_def by (rule precise_then)

lemma precise_if: "precise a \<Longrightarrow> precise b \<Longrightarrow> precise (if p then a else b)"
  by simp

lemma precise_case_option: "precise a \<Longrightarrow> (\<And>v. precise (f v)) \<Longrightarrow> precise (case x of None \<Rightarrow> a | Some v \<Rightarrow> f v)"
  by (cases x) simp_all

lemma precise_case_prod: "(\<And>a b. precise (f a b)) \<Longrightarrow> precise (case x of (a, b) \<Rightarrow> f a b)"
  by (cases x) simp

lemma nofail_prim: "nofail (retM a)" "nofail (cpuM g)" "nofail (readM h)"
  by (simp_all add: nofail_def run_simps)

lemma nofail_bind:
  assumes "nofail m" "\<And>a. nofail (f a)"
  shows "nofail (bindM m f)"
  unfolding nofail_def
proof
  fix s
  obtain a t where m: "m s = (Inr a, t)" using assms(1) unfolding nofail_def by blast
  obtain x u where "f a t = (Inr x, u)" using assms(2) unfolding nofail_def by blast
  then show "\<exists>r t. bindM m f s = (Inr r, t)" using m by (simp add: bindM_def)
qed

lemma nofail_seq: "nofail m \<Longrightarrow> nofail k \<Longrightarrow> nofail (seqM m k)"
  unfolding seqM_def by (rule nofail_bind)

lemma nofail_if: "nofail a \<Longrightarrow> nofail b \<Longrightarrow> nofail (if p then a else b)"
  by simp

lemma quiet_dirty: "within unchanged (cpuM fp_dirty)"
  by (rule quiet.within_cpu) (auto simp: unchanged_def fp_dirty_def upd_sys_def fs_marked_def[abs_def])

lemmas quiet_rules = quiet.within_bind quiet.within_seq quiet.within_prim quiet.within_if quiet.within_ld
  quiet.within_st quiet.within_amo_load quiet.within_amo_store quiet.within_access quiet.within_case_option quiet_dirty

lemmas nofail_rules = nofail_prim nofail_seq nofail_bind nofail_if

lemmas precise_fail = precise_quiet[OF quiet.within_prim(2)] precise_quiet[OF quiet.within_prim(3)]

lemma precise_lift: "(\<And>c e. fst (m c) = Inl e \<Longrightarrow> unchanged c (snd (m c))) \<Longrightarrow> precise (liftC m)"
  by (auto simp: precise_def liftC_def Let_def case_prod_beta)

lemma precise_fp: "precise (exec_fma insn npc)" "precise (exec_op_fp insn npc)"
  unfolding exec_fma_def exec_op_fp_def
  by (intro precise_seq precise_seq_then precise_lift quiet_rules nofail_rules;
      auto simp: op_fp_def op_fma_def Let_def unchanged_def split: option.splits if_splits prod.splits)+

lemma precise_straight:
  "precise (exec_lui insn npc)" "precise (exec_auipc insn npc)" "precise (exec_op_imm insn npc)"
  "precise (exec_misc_mem insn npc)" "precise (exec_jal insn npc)" "precise (exec_jalr insn npc)"
  unfolding exec_lui_def exec_auipc_def exec_op_imm_def exec_misc_mem_def exec_jal_def exec_jalr_def
  by (intro precise_nofail nofail_rules)+

lemma precise_alu:
  "precise (exec_op_imm32 insn npc)" "precise (exec_op insn npc)" "precise (exec_op32 insn npc)"
  unfolding exec_op_imm32_def exec_op_def exec_op32_def
  by (intro precise_bind quiet_rules precise_case_option precise_fail precise_nofail nofail_rules)+

lemma precise_branch: "precise (exec_branch insn npc)"
  unfolding exec_branch_def
  by (intro precise_bind quiet_rules precise_case_prod precise_case_option precise_fail precise_nofail nofail_rules)

lemma precise_load: "precise (exec_load ops insn npc)"
  unfolding exec_load_def by (intro precise_bind quiet_rules precise_nofail nofail_rules)

lemma precise_store: "precise (exec_store ops insn npc)"
  unfolding exec_store_def by (intro precise_bind quiet_rules precise_case_prod precise_quiet)

lemma precise_load_fp: "precise (exec_load_fp ops insn npc)"
  unfolding exec_load_fp_def by (intro precise_seq precise_bind quiet_rules precise_nofail nofail_rules)

lemma precise_store_fp: "precise (exec_store_fp ops insn npc)"
  unfolding exec_store_fp_def
  by (intro precise_seq precise_bind quiet_rules precise_case_prod precise_quiet)

lemma precise_amo_parts:
  "precise (exec_lr ops insn is64 addr)" "precise (exec_sc ops insn is64 addr src)"
  "precise (exec_rmw ops insn f5 is64 addr src)"
  unfolding exec_lr_def exec_sc_def exec_rmw_def
  by (intro precise_bind precise_seq_then precise_if precise_seq precise_case_option precise_fail quiet_rules
      precise_nofail nofail_rules)+

lemma precise_amo: "precise (exec_amo ops insn npc)"
  unfolding exec_amo_def Let_def
  by (intro precise_bind quiet_rules precise_case_prod precise_if precise_seq_then precise_amo_parts precise_fail
      nofail_rules)

subsection \<open>System instructions\<close>

definition refused :: "bool \<times> cpu \<Rightarrow> cpu \<Rightarrow> bool" where
  "refused p c \<longleftrightarrow> (\<not> fst p \<longrightarrow> snd p = c)"

lemma refused_if: "refused p c \<Longrightarrow> refused q c \<Longrightarrow> refused (if b then p else q) c"
  by simp

lemma refused_prim: "refused (k, c) c" "refused (True, d) c" "refused (put g c) c" "refused (put_status g c) c"
  "refused (write_satp v c) c"
  by (auto simp: refused_def put_defs write_satp_def Let_def split: option.splits)

lemma csr_write_refused:
  "\<not> fst (csr_write csr v c) \<Longrightarrow> snd (csr_write csr v c) = c\<lparr>irq_poll_cd := 0\<rparr>"
proof -
  have "refused (csr_write csr v c) (c\<lparr>irq_poll_cd := 0\<rparr>)"
    unfolding csr_write_def csr_write_s_def csr_write_m_def Let_def
    by (intro refused_if refused_prim)
  then show "\<not> fst (csr_write csr v c) \<Longrightarrow> snd (csr_write csr v c) = c\<lparr>irq_poll_cd := 0\<rparr>"
    by (simp add: refused_def)
qed

lemma unchanged_poll: "unchanged c (c\<lparr>irq_poll_cd := k\<rparr>)"
  by (simp add: unchanged_def)

lemma precise_commit: "precise (liftC (csr_commit insn csr new))"
  using csr_write_refused unchanged_poll
  by (intro precise_lift) (auto simp: csr_commit_def Let_def case_prod_beta split: option.splits if_splits)

lemma precise_zicsr: "precise (exec_zicsr insn npc)"
  unfolding exec_zicsr_def Let_def
  by (intro precise_seq precise_bind quiet_rules precise_case_option precise_fail precise_seq_then precise_commit
      nofail_rules)

lemma precise_next: "precise m \<Longrightarrow> precise (nextM m)"
  unfolding nextM_def by (erule precise_then) (rule nofail_prim)

lemma precise_returns: "precise (liftC (exec_mret insn))" "precise (liftC (exec_sret insn))"
  by (intro precise_lift; auto simp: exec_mret_def exec_sret_def Let_def unchanged_poll split: option.splits if_splits)+

lemma precise_stops: "precise (exec_ecall npc)" "precise (exec_ebreak npc)" "precise (exec_wfi insn npc)"
  "precise (exec_sfence insn npc)"
  by (auto simp: precise_def exec_ecall_def exec_ebreak_def exec_wfi_def exec_sfence_def Let_def quiet.R_refl
      split: option.splits if_splits)

lemma precise_system: "precise (exec_system insn npc)"
  unfolding exec_system_def
  by (intro precise_if precise_stops precise_next precise_returns precise_zicsr precise_fail)

lemma precise_insn: "precise (exec_insn ops insn npc)"
  unfolding exec_insn_def Let_def
  by (intro precise_if precise_next precise_straight precise_alu precise_branch precise_load precise_store
      precise_amo precise_load_fp precise_store_fp precise_fp precise_system precise_fail)

lemma nofail_retire: "nofail (retire r)"
  by (cases r) (simp_all add: nofail_rules)

lemma precise_execute: "precise (execute_decoded ops d)"
  unfolding execute_decoded_def
  by (intro precise_if precise_fail precise_bind quiet_rules precise_then precise_insn nofail_retire)

lemma precise_step: "precise (step ops)"
  unfolding step_def
  by (intro precise_bind precise_if precise_fail precise_execute quiet_rules quiet.within_fetch)

section \<open>Frames of whole instructions\<close>

text \<open>
  The contract of a relation that the writes of an instruction also respect: the register files, the
  floating-point state, the reservation, the instruction-cache generation, the CSR file and the returns.
\<close>

locale insn_frame = frame_rel +
  assumes R_x: "R c (wr d v c)"
    and R_f: "R c (set_f d v c)"
    and R_fl: "R c (set_flags fl c)"
    and R_fp: "R c (fp_dirty c)"
    and R_res: "R c (c\<lparr>reservation := r\<rparr>)"
    and R_ic: "R c (c\<lparr>icache_gen := g\<rparr>)"
    and R_fence: "R c (flush_tlb c)" "R c (flush_tlb_page va c)" "R c (bump_map_generation c)"
    and R_csr: "R c (snd (csr_write csr v c))"
    and R_ret: "R c (snd (exec_mret insn c))" "R c (snd (exec_sret insn c))"
begin

lemma within_lift: "(\<And>c. R c (snd (m c))) \<Longrightarrow> within R (liftC m)"
  by (simp add: within_def liftC_def Let_def case_prod_beta)

lemma within_case_prod: "(\<And>a b. within R (f a b)) \<Longrightarrow> within R (case x of (a, b) \<Rightarrow> f a b)"
  by (cases x) simp

lemma R_arm: "op_fp_arm insn c = Some (d, fl) \<Longrightarrow> R c d"
proof -
  have k: "x = Some (d, fl) \<Longrightarrow> R c d"
    if "\<And>d fl. x = Some (d, fl) \<Longrightarrow> (\<exists>i v. d = set_f i v c) \<or> (\<exists>i v. d = wr i v c)" for x
    using that R_f R_x by metis
  assume "op_fp_arm insn c = Some (d, fl)"
  then show "R c d"
    by (rule k[rotated])
      (auto simp: op_fp_arm_def op_arith_def op_sqrt_def op_sgnj_def op_minmax_def op_cvt_ff_def op_compare_def
        op_f2i_def op_i2f_def op_move_def Let_def split: option.splits if_splits prod.splits)
qed

lemma R_fp_ops: "R c (snd (op_fp insn c))" "R c (snd (op_fma insn c))"
  by (auto simp: op_fp_def R_refl split: option.splits intro: R_trans[OF R_arm R_fl])
    (auto simp: op_fma_def Let_def R_refl split: option.splits prod.splits intro: R_trans[OF R_f R_fl])

lemma R_commit: "R c (snd (csr_commit insn csr new c))"
  using R_csr R_refl by (auto simp: csr_commit_def Let_def case_prod_beta split: option.splits)

lemma within_stops: "within R (exec_ebreak npc)" "within R (exec_wfi insn npc)" "within R (exec_sfence insn npc)"
  by (auto simp: within_def exec_ebreak_def exec_wfi_def exec_sfence_def Let_def R_refl
      split: option.splits intro: R_trans[OF R_fence(1) R_fence(3)] R_trans[OF R_fence(2) R_fence(3)])

lemma R_lr: "R c (wr d v (c\<lparr>reservation := r\<rparr>))"
  by (rule R_trans[OF R_res R_x])

lemmas insn_rules = within_bind within_seq within_prim within_if within_ld within_st within_amo_load
  within_amo_store within_access within_case_option within_case_prod within_cpu R_refl R_x R_f R_fl R_fp R_res R_ic
  R_lr within_lift R_fp_ops R_commit R_ret within_stops

lemma within_zicsr: "within R (exec_zicsr insn npc)"
  unfolding exec_zicsr_def Let_def by (intro insn_rules)

lemma within_system:
  assumes "insn = 0x73 \<Longrightarrow> within R (exec_ecall npc :: ('b, flow) hart)"
  shows "within R (exec_system insn npc :: ('b, flow) hart)"
proof (cases "insn = 0x73")
  case True
  then show ?thesis using assms by (simp add: exec_system_def)
next
  case False
  then show ?thesis unfolding exec_system_def nextM_def if_not_P[OF False]
    by (intro insn_rules within_zicsr)
qed

lemma within_insn:
  assumes "insn = 0x73 \<Longrightarrow> within R (exec_ecall npc :: ('b, flow) hart)"
  shows "within R (exec_insn (ops :: 'b bus_ops) insn npc)"
  unfolding exec_insn_def exec_lui_def exec_auipc_def exec_jal_def exec_jalr_def
    exec_branch_def exec_load_def exec_store_def exec_op_imm_def exec_op_imm32_def exec_op_def exec_op32_def
    exec_amo_def exec_lr_def exec_sc_def exec_rmw_def exec_load_fp_def exec_store_fp_def exec_fma_def
    exec_op_fp_def exec_misc_mem_def nextM_def Let_def
  by (intro insn_rules within_system assms; simp add: R_refl R_ic)

end

section \<open>The privileged state stays present\<close>

lemma kept_put: "sys_kept c (snd (put g c))" "sys_kept c (snd (put_status g c))" "sys_kept c (snd (write_satp v c))"
  "sys_kept c (snd (k, c))" "sys_kept c (snd (k, c\<lparr>fcsr := f\<rparr>))" "sys_kept c (snd (k, upd_sys h c))"
  by (auto simp: sys_kept_def put_defs write_satp_def Let_def refresh_simps upd_sys_def flush_tlb_def
      bump_map_generation_def split: option.splits)

lemma kept_if: "sys_kept c (snd p) \<Longrightarrow> sys_kept c (snd q) \<Longrightarrow> sys_kept c (snd (if b then p else q))"
  by simp

lemma kept_csr_write: "sys_kept c (snd (csr_write csr v c))"
proof -
  have "sys_kept (c\<lparr>irq_poll_cd := 0\<rparr>) (snd (csr_write csr v c))"
    unfolding csr_write_def csr_write_s_def csr_write_m_def Let_def by (intro kept_if kept_put)
  then show ?thesis by (simp add: sys_kept_def)
qed

interpretation present: insn_frame sys_kept
proof
  show "sys_kept c (snd (csr_write csr v c))" for csr v c by (rule kept_csr_write)
qed (auto simp: sys_kept_def wr_def set_f_def set_flags_def fp_dirty_def upd_sys_def flush_tlb_def
      flush_tlb_page_def bump_map_generation_def exec_mret_def exec_sret_def Let_def refresh_simps
      split: option.splits)

lemma kept_ecall: "within sys_kept (exec_ecall npc)"
  by (auto simp: within_def sys_kept_def exec_ecall_def Let_def take_trap_sys split: option.splits)

lemma kept_retire: "within sys_kept (retire r)"
  by (cases r) (auto intro!: kept.within_seq kept.within_prim kept.within_cpu simp: sys_kept_def)

lemma kept_execute: "within sys_kept (execute_decoded ops d)"
  unfolding execute_decoded_def
  by (intro kept.within_if kept.within_bind kept.within_prim present.within_insn kept_ecall kept_retire)

lemma kept_step: "within sys_kept (step ops)"
  unfolding step_def by (intro kept.within_if kept.within_bind kept.within_prim kept_execute kept.within_fetch)

lemma kept_poll: "sys_kept (fst s) (fst (snd (poll ops s)))"
  by (cases s) (auto simp: sys_kept_def poll_def check_interrupts_def Let_def take_trap_sys
      split: option.splits prod.splits)

section \<open>The retired-instruction counter\<close>

definition same_count :: "cpu \<Rightarrow> cpu \<Rightarrow> bool" where
  "same_count c d \<longleftrightarrow> insn_count d = insn_count c"

lemma count_put: "same_count c (snd (put g c))" "same_count c (snd (put_status g c))" "same_count c (snd (write_satp v c))"
  "same_count c (snd (k, c))" "same_count c (snd (k, c\<lparr>fcsr := f\<rparr>))" "same_count c (snd (k, upd_sys h c))"
  by (auto simp: same_count_def put_defs write_satp_def Let_def refresh_simps upd_sys_def flush_tlb_def
      bump_map_generation_def split: option.splits)

lemma count_if: "same_count c (snd p) \<Longrightarrow> same_count c (snd q) \<Longrightarrow> same_count c (snd (if b then p else q))"
  by simp

lemma count_csr_write: "same_count c (snd (csr_write csr v c))"
proof -
  have "same_count (c\<lparr>irq_poll_cd := 0\<rparr>) (snd (csr_write csr v c))"
    unfolding csr_write_def csr_write_s_def csr_write_m_def Let_def by (intro count_if count_put)
  then show ?thesis by (simp add: same_count_def)
qed

interpretation count: insn_frame same_count
proof
  show "same_count c (snd (csr_write csr v c))" for csr v c by (rule count_csr_write)
qed (auto simp: same_count_def wr_def set_f_def set_flags_def fp_dirty_def upd_sys_def flush_tlb_def
      flush_tlb_page_def bump_map_generation_def exec_mret_def exec_sret_def Let_def refresh_simps
      split: option.splits)

subsection \<open>The results of an instruction\<close>

definition gives :: "('b, 'a) hart \<Rightarrow> ('a \<Rightarrow> bool) \<Rightarrow> bool" where
  "gives m P \<longleftrightarrow> (\<forall>s r. fst (m s) = Inr r \<longrightarrow> P r)"

lemma gives_bind: "(\<And>a. gives (f a) P) \<Longrightarrow> gives (bindM m f) P"
  unfolding gives_def bindM_def by (auto split: sum.splits prod.splits)

lemma gives_seq: "gives k P \<Longrightarrow> gives (seqM m k) P"
  unfolding seqM_def by (rule gives_bind)

lemma gives_ret: "P a \<Longrightarrow> gives (retM a) P" "gives (failM e) P" "gives (illegal insn) P"
  by (simp_all add: gives_def retM_def failM_def illegal_def)

lemma gives_if: "gives a P \<Longrightarrow> gives b P \<Longrightarrow> gives (if p then a else b) P"
  by simp

lemma gives_case_option: "gives a P \<Longrightarrow> (\<And>v. gives (f v) P) \<Longrightarrow> gives (case x of None \<Rightarrow> a | Some v \<Rightarrow> f v) P"
  by (cases x) simp_all

fun plain :: "flow \<Rightarrow> bool" where
  "plain (Next n stop) \<longleftrightarrow> stop \<in> {None, Some Ecall, Some Break, Some Wfi}"
| "plain Redirected \<longleftrightarrow> False"

lemma gives_next: "gives (nextM m) plain"
  unfolding nextM_def by (intro gives_bind gives_ret) simp

lemma gives_stops: "gives (exec_ebreak npc) plain" "gives (exec_wfi insn npc) plain" "gives (exec_sfence insn npc) plain"
  "gives (exec_zicsr insn npc) plain"
proof -
  show "gives (exec_zicsr insn npc) plain"
    unfolding exec_zicsr_def Let_def
    by (intro gives_seq gives_bind gives_case_option gives_ret) simp
qed (auto simp: gives_def exec_ebreak_def exec_wfi_def exec_sfence_def Let_def split: option.splits)

lemma gives_insn:
  assumes "insn \<noteq> 0x73"
  shows "gives (exec_insn ops insn npc) plain"
  unfolding exec_insn_def exec_system_def Let_def if_not_P[OF assms]
  by (intro gives_if gives_next gives_stops gives_ret)

lemma exec_insn_ecall: "exec_insn ops 0x73 npc = exec_ecall npc"
  by (simp add: exec_insn_def exec_system_def opcode_def Let_def)

lemma insn_results:
  assumes "exec_insn ops insn npc s = (Inr r, t)"
  shows "(plain r \<and> insn_count (fst t) = insn_count (fst s))
    \<or> (r = Redirected \<and> insn_count (fst t) = insn_count (fst s) + 1)"
proof (cases "insn = 0x73")
  case True
  have "insn_count (take_trap cau tv k c) = insn_count c" for cau tv k c by (auto simp: take_trap_def trap_prologue_def refresh_simps Let_def)
  then show ?thesis using assms unfolding True exec_insn_ecall
    by (auto simp: exec_ecall_def Let_def split: option.splits if_splits)
next
  case False
  then have "plain r" using gives_insn[OF False] assms unfolding gives_def by (metis fst_conv)
  moreover have "same_count (fst s) (fst t)"
    using count.within_insn[of insn npc ops] False assms unfolding within_def by (metis snd_conv)
  ultimately show ?thesis by (simp add: same_count_def)
qed

lemma execute_results:
  assumes "execute_decoded ops d s = (Inr r, t)"
  shows "insn_count (fst t) = insn_count (fst s) + 1 \<and> r \<in> {None, Some Ecall, Some Break, Some Wfi}"
proof -
  let ?npc = "pc (fst s) + byte_len d"
  have v: "di_valid d"
  proof (rule ccontr)
    assume "\<not> di_valid d"
    then show False using assms by (simp add: execute_decoded_def failM_def)
  qed
  have e: "execute_decoded ops d s = bindM (exec_insn ops (di_bits d) ?npc) retire s"
    using v by (simp add: execute_decoded_def bindM_def run_readM)
  obtain q u where q: "exec_insn ops (di_bits d) ?npc s = (q, u)" by (cases "exec_insn ops (di_bits d) ?npc s")
  obtain fl where "q = Inr fl" using assms q unfolding e by (cases q) (auto simp: bindM_def)
  then have r: "retire fl u = (Inr r, t)" and i: "exec_insn ops (di_bits d) ?npc s = (Inr fl, u)"
    using assms q unfolding e by (auto simp: bindM_def)
  from insn_results[OF i] r show ?thesis
    by (cases fl) (auto simp: seqM_def bindM_def run_simps)
qed

lemma step_execute:
  assumes "step ops s = (Inr r, t)"
  shows "\<exists>w u. execute_decoded ops (from_word w) u = (Inr r, t) \<and> insn_count (fst u) = insn_count (fst s)"
proof -
  have p: "pc (fst s) AND 1 = 0" using assms by (auto simp: step_def bindM_def run_simps split: if_splits)
  obtain q u where q: "fetch_word ops s = (q, u)" by (cases "fetch_word ops s")
  have "same_count (fst s) (fst u)" using count.within_fetch[of ops] q unfolding within_def by (metis snd_conv)
  moreover obtain w where "q = Inr w" using assms q p
    by (cases q) (auto simp: step_def bindM_def run_readM)
  ultimately have "execute_decoded ops (from_word w) u = (Inr r, t)" "insn_count (fst u) = insn_count (fst s)"
    using assms q p by (auto simp: step_def bindM_def run_readM same_count_def)
  then show ?thesis by blast
qed

lemma step_results:
  assumes "step ops s = (Inr r, t)"
  shows "insn_count (fst t) = insn_count (fst s) + 1 \<and> r \<in> {None, Some Ecall, Some Break, Some Wfi}"
  using step_execute[OF assms] execute_results by metis

end
