(* ===== verification/RunSpec.thy ===== *)
theory RunSpec
  imports ExecFrame
begin

unbundle bit_operations_syntax

text \<open>
  Properties of execution: the interpreter loops \<open>run\<close> and \<open>run_decoded\<close>, precise exceptions, the
  well-formedness invariant, the M and A extensions and the privileged instructions.
\<close>

section \<open>The loop\<close>

lemma exception_to_trap_ok: "hart_ok c \<Longrightarrow> sys c \<noteq> None \<Longrightarrow> hart_ok (exception_to_trap e c)"
  by (simp add: exception_to_trap_def take_trap_ok)

lemma exception_to_trap_sys: "sys (exception_to_trap e c) \<noteq> None"
  by (simp add: exception_to_trap_def take_trap_def Let_def refresh_simps)

lemma exception_to_trap_count: "insn_count (exception_to_trap e c) = insn_count c"
  by (auto simp: exception_to_trap_def take_trap_def trap_prologue_def refresh_simps Let_def)

lemma check_count: "insn_count (fst (snd (check_interrupts ops (c, b)))) = insn_count c"
proof -
  have "insn_count (take_trap cau tv k d) = insn_count d" for cau tv k d
    by (auto simp: take_trap_def trap_prologue_def refresh_simps Let_def)
  then show ?thesis by (auto simp: check_interrupts_def Let_def split: option.splits prod.splits)
qed

lemma poll_count: "insn_count (fst (snd (poll ops s))) = insn_count (fst s)"
  by (cases s) (simp add: poll_def check_count)

definition before_step :: "'b bus_ops \<Rightarrow> bool \<Rightarrow> cpu \<times> 'b \<Rightarrow> cpu \<times> 'b" where
  "before_step ops system s = (if system then snd (poll ops s) else s)"

lemma before_step_facts:
  "hart_ok (fst s) \<Longrightarrow> hart_ok (fst (before_step ops system s))"
  "insn_count (fst (before_step ops system s)) = insn_count (fst s)"
  "sys (fst (before_step ops system s)) = None \<longleftrightarrow> sys (fst s) = None"
  using poll_ok[of s ops] poll_count[of ops s] kept_poll[of s ops]
  by (simp_all add: before_step_def sys_kept_def)

lemma run_loop_Suc:
  "run_loop ops system (Suc n) s =
     (case step ops (before_step ops system s) of
        (Inr None, s2) \<Rightarrow> run_loop ops system n s2
      | (Inr (Some stop), s2) \<Rightarrow> (stop, s2)
      | (Inl e, (c, b)) \<Rightarrow>
          if system then run_loop ops system n (exception_to_trap e c, b) else (TrapStop e, (c, b)))"
  by (simp add: before_step_def Let_def)

declare run_loop.simps(2) [simp del]

text \<open>One round of the loop, as a case distinction the inductions below share.\<close>

lemma run_round:
  assumes "system \<longleftrightarrow> sys (fst s) \<noteq> None"
  obtains (go) s2 where "\<And>n. run_loop ops system (Suc n) s = run_loop ops system n s2"
      "system \<longleftrightarrow> sys (fst s2) \<noteq> None" "hart_ok (fst s) \<Longrightarrow> hart_ok (fst s2)"
      "insn_count (fst s2) \<in> {insn_count (fst s), insn_count (fst s) + 1}"
  | (halt) stop s2 where "\<And>n. run_loop ops system (Suc n) s = (stop, s2)" "stop \<noteq> Budget"
      "sys (fst s2) = None \<longleftrightarrow> sys (fst s) = None" "hart_ok (fst s) \<Longrightarrow> hart_ok (fst s2)"
      "insn_count (fst s2) \<in> {insn_count (fst s), insn_count (fst s) + 1}"
proof -
  let ?s1 = "before_step ops system s"
  obtain q c b where q: "step ops ?s1 = (q, (c, b))" by (cases "step ops ?s1") auto
  have sy: "sys c = None \<longleftrightarrow> sys (fst s) = None"
    using kept_step[of ops] q before_step_facts(3)[of ops system s] unfolding within_def sys_kept_def
    by (metis fst_conv snd_conv)
  have h: "hart_ok (fst s) \<Longrightarrow> hart_ok c"
    using okD[OF ok_step before_step_facts(1)] q by (metis fst_conv snd_conv)
  show thesis
  proof (cases q)
    case (Inl e)
    have "unchanged (fst ?s1) c" using precise_step[of ops] q Inl unfolding precise_def by (metis fst_conv snd_conv)
    then have n: "insn_count c = insn_count (fst s)" using before_step_facts(2) by (simp add: unchanged_def)
    show ?thesis
    proof (cases system)
      case True
      show ?thesis
      proof (rule go)
        show "run_loop ops system (Suc n) s = run_loop ops system n (exception_to_trap e c, b)" for n
          using q Inl True by (simp add: run_loop_Suc)
      qed (use True sy h assms n exception_to_trap_ok exception_to_trap_sys exception_to_trap_count in auto)
    next
      case False
      show ?thesis
      proof (rule halt)
        show "run_loop ops system (Suc n) s = (TrapStop e, (c, b))" for n
          using q Inl False by (simp add: run_loop_Suc)
      qed (use sy h n in auto)
    qed
  next
    case (Inr r)
    then have i: "insn_count c = insn_count (fst s) + 1" "r \<in> {None, Some Ecall, Some Break, Some Wfi}"
      using step_results[of ops ?s1 r "(c, b)"] q before_step_facts(2)[of ops system s] by simp_all
    show ?thesis
    proof (cases r)
      case None
      show ?thesis
      proof (rule go)
        show "run_loop ops system (Suc n) s = run_loop ops system n (c, b)" for n
          using q Inr None by (simp add: run_loop_Suc)
      qed (use sy h i assms in auto)
    next
      case (Some stop)
      show ?thesis
      proof (rule halt)
        show "run_loop ops system (Suc n) s = (stop, (c, b))" for n
          using q Inr Some by (simp add: run_loop_Suc)
      qed (use sy h i Some in auto)
    qed
  qed
qed

lemma run_loop_ok:
  "hart_ok (fst s) \<Longrightarrow> system \<longleftrightarrow> sys (fst s) \<noteq> None \<Longrightarrow> hart_ok (fst (snd (run_loop ops system n s)))"
proof (induction n arbitrary: s)
  case (Suc n)
  from Suc.prems(2) show ?case
  proof (cases rule: run_round[where ops = ops])
    case (go s2) then show ?thesis using Suc by simp
  next
    case (halt stop s2) then show ?thesis using Suc by simp
  qed
qed simp

lemma run_loop_sys:
  "system \<longleftrightarrow> sys (fst s) \<noteq> None \<Longrightarrow> sys (fst (snd (run_loop ops system n s))) = None \<longleftrightarrow> \<not> system"
proof (induction n arbitrary: s)
  case (Suc n)
  from Suc.prems show ?case
  proof (cases rule: run_round[where ops = ops])
    case (go s2) then show ?thesis using Suc by simp
  next
    case (halt stop s2) then show ?thesis using Suc by simp
  qed
qed simp

lemma run_loop_count:
  assumes "system \<longleftrightarrow> sys (fst s) \<noteq> None"
  shows "\<exists>k \<le> n. insn_count (fst (snd (run_loop ops system n s))) = insn_count (fst s) + of_nat k"
  using assms
proof (induction n arbitrary: s)
  case (Suc n)
  from Suc.prems show ?case
  proof (cases rule: run_round[where ops = ops])
    case (go s2)
    from Suc.IH[OF go(2)] obtain k where k: "k \<le> n"
      "insn_count (fst (snd (run_loop ops system n s2))) = insn_count (fst s2) + of_nat k" by blast
    then show ?thesis using go(1,4)
      by (auto intro: exI[of _ k] exI[of _ "Suc k"] simp: add_ac)
  next
    case (halt stop s2)
    then show ?thesis by (auto intro: exI[of _ 0] exI[of _ 1])
  qed
qed simp

lemma run_loop_add:
  assumes "system \<longleftrightarrow> sys (fst s) \<noteq> None"
  shows "run_loop ops system (m + n) s =
    (case run_loop ops system m s of (Budget, t) \<Rightarrow> run_loop ops system n t | r \<Rightarrow> r)"
  using assms
proof (induction m arbitrary: s)
  case (Suc m)
  from Suc.prems show ?case
  proof (cases rule: run_round[where ops = ops])
    case (go s2) then show ?thesis using Suc.IH[OF go(2)] by simp
  next
    case (halt stop s2) then show ?thesis by (cases stop) simp_all
  qed
qed simp

section \<open>Cached blocks\<close>

text \<open>
  \<open>cached ops system ds s\<close>: the decoded instructions are what fetching yields along the block, and fetching
  them has no effect (the code page is mapped and its translation is resident). This is what the page cache of
  decoded instructions maintains.
\<close>

definition fetches :: "'b bus_ops \<Rightarrow> decoded_insn \<Rightarrow> cpu \<times> 'b \<Rightarrow> bool" where
  "fetches ops d s \<longleftrightarrow> (\<exists>w. fetch_word ops s = (Inr w, s) \<and> from_word w = d)"

fun cached :: "'b bus_ops \<Rightarrow> bool \<Rightarrow> decoded_insn list \<Rightarrow> cpu \<times> 'b \<Rightarrow> bool" where
  "cached ops system [] s \<longleftrightarrow> True"
| "cached ops system (d # ds) s \<longleftrightarrow>
     (\<not> (system \<and> fst (poll ops s)) \<longrightarrow>
        (let s1 = before_step ops system s
         in aligned2 (pc (fst s1)) \<and> fetches ops d s1 \<and>
            (\<forall>s2. execute_decoded ops d s1 = (Inr None, s2) \<longrightarrow> pc (fst s2) = pc (fst s1) + byte_len d \<longrightarrow>
               cached ops system ds s2)))"

lemma step_fetches:
  assumes "aligned2 (pc (fst s))" "fetches ops d s"
  shows "step ops s = execute_decoded ops d s"
proof -
  have "pc (fst s) AND 1 = 0" using assms(1) by (simp add: and_1_bit0 bit_0)
  moreover obtain w where "fetch_word ops s = (Inr w, s)" "from_word w = d"
    using assms(2) unfolding fetches_def by blast
  ultimately show ?thesis by (simp add: step_def bindM_def run_readM)
qed

text \<open>How the state after a block relates to the state after the same number of interpreter rounds.\<close>

definition block_end :: "'b bus_ops \<Rightarrow> bool \<Rightarrow> nat \<Rightarrow> cpu \<times> 'b \<Rightarrow> run_outcome \<Rightarrow> cpu \<times> 'b \<Rightarrow> bool" where
  "block_end ops system k s r s' \<longleftrightarrow>
     (case run_loop ops system k s of
        (Budget, t) \<Rightarrow> (s' = t \<and> r \<in> {Stop Budget, Trapped}) \<or> (system \<and> r = Stop Budget \<and> poll ops t = (True, s'))
      | (stop, t) \<Rightarrow> r = Stop stop \<and> s' = t)"

lemma block_end_0: "block_end ops system 0 s r s' \<longleftrightarrow>
    (s' = s \<and> r \<in> {Stop Budget, Trapped}) \<or> (system \<and> r = Stop Budget \<and> poll ops s = (True, s'))"
  by (simp add: block_end_def)

lemma block_end_Suc:
  assumes "step ops (before_step ops system s) = (Inr None, s2)"
  shows "block_end ops system (Suc k) s r s' \<longleftrightarrow> block_end ops system k s2 r s'"
  by (simp add: block_end_def run_loop_Suc assms)

lemma run_decoded_sim:
  assumes "system \<longleftrightarrow> sys (fst s) \<noteq> None" "cached ops system ds s" "run_decoded_loop ops system ds s = (r, s')"
  shows "\<exists>k \<le> length ds. block_end ops system k s r s'"
  using assms
proof (induction ds arbitrary: s)
  case Nil
  then show ?case by (simp add: block_end_0)
next
  case (Cons d ds)
  let ?s1 = "before_step ops system s"
  show ?case
  proof (cases "system \<and> fst (poll ops s)")
    case True
    then have "poll ops s = (True, s')" "r = Stop Budget"
      using Cons.prems(3) by (cases "poll ops s", simp add: Let_def)+
    then show ?thesis using True block_end_0 by blast
  next
    case False
    obtain q c b where q: "execute_decoded ops d ?s1 = (q, (c, b))" by (cases "execute_decoded ops d ?s1") auto
    from False Cons.prems(2) have al: "aligned2 (pc (fst ?s1))" "fetches ops d ?s1"
      and more: "\<And>s2. execute_decoded ops d ?s1 = (Inr None, s2) \<Longrightarrow> pc (fst s2) = pc (fst ?s1) + byte_len d \<Longrightarrow>
        cached ops system ds s2"
      by (auto simp: Let_def)
    have st: "step ops ?s1 = (q, (c, b))" using step_fetches[OF al] q by simp
    have run: "run_decoded_loop ops system (d # ds) s =
        (case (q, (c, b)) of
           (Inr None, s2) \<Rightarrow> if pc (fst s2) \<noteq> pc (fst ?s1) + byte_len d then (Stop Budget, s2)
                            else run_decoded_loop ops system ds s2
         | (Inr (Some stop), s2) \<Rightarrow> (Stop stop, s2)
         | (Inl e, (c, b)) \<Rightarrow> if system then (Trapped, (exception_to_trap e c, b)) else (Stop (TrapStop e), (c, b)))"
      using False q by (cases "poll ops s") (auto simp: before_step_def Let_def split: if_splits)
    have one: "block_end ops system 1 s r s'" if "\<not> (q = Inr None \<and> pc c = pc (fst ?s1) + byte_len d)"
    proof -
      have "t \<noteq> Budget" if "q = Inr (Some t)" for t
        using execute_results[of ops d ?s1 "Some t" "(c, b)"] q that by auto
      then show ?thesis using that Cons.prems(3) st unfolding run
        by (auto simp: block_end_def run_loop_Suc split: sum.splits option.splits stop_reason.splits)
    qed
    show ?thesis
    proof (cases "q = Inr None \<and> pc c = pc (fst ?s1) + byte_len d")
      case True
      then have rd: "run_decoded_loop ops system ds (c, b) = (r, s')" using Cons.prems(3) unfolding run by simp
      have "sys c = None \<longleftrightarrow> sys (fst s) = None"
        using kept_step[of ops] st before_step_facts(3)[of ops system s] unfolding within_def sys_kept_def
        by (metis fst_conv snd_conv)
      then have sy: "system \<longleftrightarrow> sys (fst (c, b)) \<noteq> None" using Cons.prems(1) by simp
      have ca: "cached ops system ds (c, b)" using more[of "(c, b)"] q True by simp
      from Cons.IH[OF sy ca rd] obtain k where "k \<le> length ds" "block_end ops system k (c, b) r s'" by blast
      then show ?thesis using block_end_Suc[of ops system s "(c, b)" k r s'] st True
        by (intro exI[of _ "Suc k"]) simp
    next
      case False
      then show ?thesis using one by (intro exI[of _ 1]) simp
    qed
  qed
qed

section \<open>Properties of the interpreter\<close>

text \<open>A hart without privileged state on a flat memory that holds one NOP, and on an empty one.\<close>

definition nop_mem :: flat_memory where
  "nop_mem = \<lparr>fm_base = 0, fm_mem = [0x13, 0, 0, 0]\<rparr>"

lemma cpu_new_simps: "pc cpu_new = 0" "sys cpu_new = None" "insn_count cpu_new = 0" "xreg cpu_new = (\<lambda>_. 0)"
  by (simp_all add: cpu_new_def)

lemma fetch_nosys:
  assumes "sys (fst s) = None" "pc (fst s) AND 0xfff \<noteq> 0xffe"
    "fetch32_if_safe ops (pc (fst s)) (snd s) = (Some w, snd s)" "w AND 3 = 3"
  shows "fetch_word ops s = (Inr w, s)"
proof -
  have "(w AND 0xffff) AND 3 = 3" using assms(4) by (simp add: and.assoc)
  moreover have "try_fetch32 ops (pc (fst s)) s = (Inr (Some w), s)"
    using assms(2,3) by (simp add: try_fetch32_def)
  ultimately show ?thesis using assms(1)
    by (simp add: fetch_word_def bindM_def run_readM translate_def retM_def)
qed

lemma nop_fetch: "fetch_word flat_bus (cpu_new, nop_mem) = (Inr 0x13, (cpu_new, nop_mem))"
  by (rule fetch_nosys)
    (simp_all add: cpu_new_simps flat_bus_def flat_fetch32_if_safe_def flat_read_def flat_offset_def checked_sub_def
      checked_add_def nop_mem_def slice_at_def)

text \<open>
  Property C8. Execution keeps the hart well formed: from a well-formed hart (PC halfword aligned, x0 zero,
  \<open>fcsr\<close> within its byte, privileged registers within their legal values), every step, every interrupt
  poll and a run of any budget, with any bus, leave it well formed, whether the instruction completes,
  traps or faults.
\<close>

theorem execution_well_formed:
  assumes "hart_ok (fst s)"
  shows "hart_ok (fst (snd (step ops s))) \<and> hart_ok (fst (snd (poll ops s)))
    \<and> hart_ok (fst (snd (run ops budget s)))"
  using okD[OF ok_step assms] poll_ok[OF assms] run_loop_ok[OF assms] by (simp add: run_def)

theorem execution_well_formed_witness:
  "hart_ok (fst (snd (run flat_bus 5 (cpu_new, nop_mem))))"
  using execution_well_formed[of "(cpu_new, nop_mem)" flat_bus 5] hart_ok_new by simp

text \<open>
  Property C4. Exceptions are precise: when a step ends in an exception, at whatever point (fetch, a
  translation, the second half of a split access, the store of an atomic, a refused CSR write), the
  PC, the integer and floating-point registers, \<open>fcsr\<close>, the reservation and the retired count are those
  before the instruction, and the privileged registers too but for the dirty mark of the FP state.
\<close>

theorem precise_exceptions:
  assumes "step ops s = (Inl e, t)"
  shows "pc (fst t) = pc (fst s) \<and> xreg (fst t) = xreg (fst s) \<and> freg (fst t) = freg (fst s)
    \<and> fcsr (fst t) = fcsr (fst s) \<and> reservation (fst t) = reservation (fst s)
    \<and> insn_count (fst t) = insn_count (fst s)
    \<and> (sys (fst t) = sys (fst s) \<or> sys (fst t) = map_option fs_marked (sys (fst s)))"
proof -
  have "unchanged (fst s) (fst t)" using precise_step[of ops] assms unfolding precise_def by (metis fst_conv snd_conv)
  then show ?thesis by (simp add: unchanged_def)
qed

theorem precise_exceptions_witness:
  "pc (fst (snd (step flat_bus (cpu_new\<lparr>pc := 3\<rparr>, nop_mem)))) = 3"
proof -
  have "step flat_bus (cpu_new\<lparr>pc := 3\<rparr>, nop_mem) = (Inl (InstructionAddressMisaligned 3), (cpu_new\<lparr>pc := 3\<rparr>, nop_mem))"
    by (simp add: step_def bindM_def run_readM failM_def)
  from precise_exceptions[OF this] this show ?thesis by simp
qed

text \<open>
  Budgets compose: running with budget \<open>m + n\<close> is running with \<open>m\<close> and, when that budget ran
  out, resuming with \<open>n\<close>. Slicing execution into calls of \<open>run\<close> is not observable.
\<close>

theorem run_budget_split:
  assumes "unat m + unat n < 2 ^ 64"
  shows "run ops (m + n) s = (case run ops m s of (Budget, t) \<Rightarrow> run ops n t | r \<Rightarrow> r)"
proof -
  let ?y = "sys (fst s) \<noteq> None"
  have mn: "unat (m + n) = unat m + unat n" using assms by (simp add: unat_word_ariths)
  have "run ops (m + n) s = (case run_loop ops ?y (unat m) s of
      (Budget, t) \<Rightarrow> run_loop ops ?y (unat n) t | r \<Rightarrow> r)"
    unfolding run_def mn by (rule run_loop_add) (rule refl)
  moreover have "sys (fst (snd (run_loop ops ?y (unat m) s))) = None \<longleftrightarrow> \<not> ?y" by (rule run_loop_sys) simp
  ultimately show ?thesis
    by (cases "run_loop ops ?y (unat m) s") (simp add: run_def split: stop_reason.splits)
qed

theorem run_budget_split_witness:
  "run flat_bus (1 + 2) (cpu_new, nop_mem) =
    (case run flat_bus 1 (cpu_new, nop_mem) of (Budget, t) \<Rightarrow> run flat_bus 2 t | r \<Rightarrow> r)"
  by (rule run_budget_split) simp

text \<open>
  A run retires at most its budget: the retired-instruction counter grows by some \<open>k\<close>, at
  most the budget, and every round that completes an instruction counts it exactly once.
\<close>

theorem run_retires_at_most:
  "(\<exists>k \<le> unat budget. insn_count (fst (snd (run ops budget s))) = insn_count (fst s) + of_nat k)
   \<and> (case step ops s of (Inr r, t) \<Rightarrow> insn_count (fst t) = insn_count (fst s) + 1
      | (Inl e, t) \<Rightarrow> insn_count (fst t) = insn_count (fst s))"
proof
  show "\<exists>k \<le> unat budget. insn_count (fst (snd (run ops budget s))) = insn_count (fst s) + of_nat k"
    unfolding run_def by (rule run_loop_count) simp
  have "unchanged (fst s) (fst (snd (step ops s)))" if "fst (step ops s) = Inl e" for e
    using precise_step[of ops] that unfolding precise_def by blast
  then show "case step ops s of (Inr r, t) \<Rightarrow> insn_count (fst t) = insn_count (fst s) + 1
      | (Inl e, t) \<Rightarrow> insn_count (fst t) = insn_count (fst s)"
    using step_results[of ops s] by (cases "step ops s") (auto simp: unchanged_def split: sum.splits)
qed

text \<open>
  Property C7. A cached block runs as the interpreter does: when the decoded instructions are what fetching
  yields along the way, \<open>run_decoded\<close> ends in the state the interpreter loop reaches after some number
  of rounds not above the block's length (or in that state with the interrupt its next poll takes), with
  the same stop reason; traps, interrupts and taken branches leave the block in time.
\<close>

theorem run_decoded_is_run:
  assumes "cached ops (sys (fst s) \<noteq> None) ds s"
  shows "\<exists>k \<le> length ds. block_end ops (sys (fst s) \<noteq> None) k s (fst (run_decoded ops ds s)) (snd (run_decoded ops ds s))"
  using run_decoded_sim[OF _ assms] by (simp add: run_decoded_def)

theorem run_decoded_is_run_witness:
  "\<exists>k \<le> 1. block_end flat_bus False k (cpu_new, nop_mem)
     (fst (run_decoded flat_bus [from_word 0x13] (cpu_new, nop_mem)))
     (snd (run_decoded flat_bus [from_word 0x13] (cpu_new, nop_mem)))"
proof -
  have "fetches flat_bus (from_word 0x13) (cpu_new, nop_mem)"
    unfolding fetches_def using nop_fetch by blast
  then have "cached flat_bus (sys (fst (cpu_new, nop_mem)) \<noteq> None) [from_word 0x13] (cpu_new, nop_mem)"
    by (simp add: cpu_new_simps before_step_def)
  from run_decoded_is_run[OF this] show ?thesis by (simp add: cpu_new_simps)
qed

section \<open>Properties of instructions\<close>

text \<open>
  Property C25. Multiplication: MUL and each high-half form are the two words of the exact product of their
  operands, read as signed, signed by unsigned, or unsigned.
\<close>

theorem m_multiplication:
  "\<exists>lo h hsu hu. alu_op 1 0 a b = Some lo \<and> alu_op 1 1 a b = Some h \<and> alu_op 1 2 a b = Some hsu
     \<and> alu_op 1 3 a b = Some hu
     \<and> sint h * 2 ^ 64 + uint lo = sint a * sint b
     \<and> sint hsu * 2 ^ 64 + uint lo = sint a * uint b
     \<and> uint hu * 2 ^ 64 + uint lo = uint a * uint b"
  using high_half[of a b] by (simp add: alu_op_def)

text \<open>The laws of a quotient and remainder, signed and unsigned.\<close>

definition division_laws :: "'a::len word \<Rightarrow> 'a word \<Rightarrow> 'a word \<Rightarrow> 'a word \<Rightarrow> 'a word \<Rightarrow> 'a word \<Rightarrow> bool" where
  "division_laws a b q r qu ru \<longleftrightarrow>
     (if b = 0 then q = - 1 \<and> r = a \<and> qu = - 1 \<and> ru = a
      else (if sint a = - (2 ^ (LENGTH('a) - 1)) \<and> b = - 1 then q = a \<and> r = 0
            else sint a = sint b * sint q + sint r \<and> \<bar>sint r\<bar> < \<bar>sint b\<bar>
              \<and> (sint r = 0 \<or> sgn (sint r) = sgn (sint a)))
        \<and> unat a = unat b * unat qu + unat ru \<and> unat ru < unat b)"

lemma division_lawful:
  assumes "1 < LENGTH('a)"
  shows "division_laws (a :: 'a::len word) b (div_s a b) (rem_s a b) (div_u a b) (rem_u a b)"
  using signed_division[of b a] unsigned_division[of b a] division_overflow[OF _ assms, of a]
  unfolding division_laws_def by (auto simp: division_special)

text \<open>
  Property C24. Division: DIV and REM are the truncating quotient and remainder of the signed readings (the
  remainder smaller than the divisor and of the sign of the dividend), DIVU and REMU those of the
  unsigned ones; a zero divisor gives all ones and the dividend, and the one overflow gives the dividend
  and zero. No operand traps. The 32-bit forms satisfy the same laws.
\<close>

theorem m_division:
  "(\<exists>q r qu ru. alu_op 1 4 a b = Some q \<and> alu_op 1 6 a b = Some r \<and> alu_op 1 5 a b = Some qu
      \<and> alu_op 1 7 a b = Some ru \<and> division_laws a b q r qu ru)
   \<and> (\<exists>q r qu ru. alu_op32 1 4 x y = Some q \<and> alu_op32 1 6 x y = Some r \<and> alu_op32 1 5 x y = Some qu
      \<and> alu_op32 1 7 x y = Some ru \<and> division_laws x y q r qu ru)"
  using division_lawful[of a b] division_lawful[of x y] by (simp add: alu_op_def alu_op32_def)

text \<open>
  Property C23. Store-conditional: without a reservation for its address it touches neither memory nor the
  translation caches, writes 1 to \<open>rd\<close> and drops any reservation; with one, it performs the store, and when the
  store succeeds it writes 0 and drops the reservation. A trap drops the reservation, so the first SC
  after a trap fails.
\<close>

theorem store_conditional:
  "(reservation (fst s) \<noteq> Some addr \<longrightarrow>
      exec_sc ops insn wide addr src s = (Inr (), ((wr (rd insn) 1 (fst s))\<lparr>reservation := None\<rparr>, snd s)))
   \<and> (reservation (fst s) = Some addr \<longrightarrow>
      exec_sc ops insn wide addr src s =
        (case amo_store ops wide addr src s of
           (Inr u, t) \<Rightarrow> (Inr (), ((wr (rd insn) 0 (fst t))\<lparr>reservation := None\<rparr>, snd t))
         | (Inl e, t) \<Rightarrow> (Inl e, t)))
   \<and> exec_sc ops insn wide addr src (take_trap cau tval k c, b) =
        (Inr (), ((wr (rd insn) 1 (take_trap cau tval k c))\<lparr>reservation := None\<rparr>, b))"
  by (simp add: exec_sc_def bindM_def seqM_def run_readM run_cpuM take_trap_simps split: sum.splits prod.splits)

theorem store_conditional_witness:
  "exec_sc flat_bus 0x13 True 8 5 (cpu_new, nop_mem) = (Inr (), (cpu_new\<lparr>reservation := None\<rparr>, nop_mem))"
proof -
  have "reservation (fst (cpu_new, nop_mem)) \<noteq> Some 8" "rd 0x13 = 0"
    by (simp_all add: cpu_new_def rd_def)
  then show ?thesis
    using store_conditional[where s = "(cpu_new, nop_mem)" and addr = 8 and ops = flat_bus and insn = "0x13"
        and wide = True and src = 5] by (simp add: wr_def)
qed

lemma same_page_rows:
  assumes "drop_bit 12 va = drop_bit 12 (wa :: u64)"
  shows "tlb_index va = tlb_index wa" "translation_tag e va = translation_tag e wa"
  using assms by (simp_all add: tlb_index_def translation_tag_def)

lemma flush_tlb_no_hit:
  "tlb_tag (flush_tlb c) a i \<noteq> translation_tag e va" "jtlb_tag (flush_tlb c) a i \<noteq> translation_tag e va"
  using tag_not_invalid [of e va] by (auto simp: flush_tlb_def rows_fill_def)

lemma flush_frame:
  "sys (flush_tlb c) = sys c" "xreg (flush_tlb c) = xreg c" "pc (flush_tlb c) = pc c"
  "sys (flush_tlb_page va c) = sys c" "xreg (flush_tlb_page va c) = xreg c" "pc (flush_tlb_page va c) = pc c"
  "sys (bump_map_generation c) = sys c" "xreg (bump_map_generation c) = xreg c" "pc (bump_map_generation c) = pc c"
  "tlb_tag (bump_map_generation c) = tlb_tag c" "jtlb_tag (bump_map_generation c) = jtlb_tag c"
  "map_generation (flush_tlb c) = map_generation c" "map_generation (flush_tlb_page va c) = map_generation c"
  by (simp_all add: flush_tlb_def flush_tlb_page_def bump_map_generation_def map_generation_def Let_def)

lemma sfence_flushes:
  assumes "d = bump_map_generation (if r = 0 then flush_tlb c else flush_tlb_page wa c)"
    and "r = 0 \<or> drop_bit 12 va = drop_bit 12 wa"
  shows "tlb_tag d (access_ix a) (tlb_index va) \<noteq> translation_tag e va
    \<and> jtlb_tag d 0 (tlb_index va) \<noteq> translation_tag e va \<and> jtlb_tag d 1 (tlb_index va) \<noteq> translation_tag e va"
proof (cases "r = 0")
  case True
  then show ?thesis unfolding assms(1) by (simp add: flush_frame flush_tlb_no_hit)
next
  case False
  with assms(2) have p: "drop_bit 12 va = drop_bit 12 wa" by simp
  show ?thesis using flush_page_no_hit [of wa c a e] False
    unfolding assms(1) same_page_rows [OF p] by (simp add: flush_frame)
qed

lemma return_shape:
  assumes "r = (if B then (Inr f, (d, b)) else E)" and "xreg d = x \<and> sys d = Some z" and "z = h (mstatus z)"
    and "\<And>n. n < 64 \<Longrightarrow> bit (mstatus z) n \<longleftrightarrow> p n"
  shows "if B then \<exists>d m. r = (Inr f, (d, b)) \<and> xreg d = x \<and> sys d = Some (h m) \<and> (\<forall>n<64. bit m n \<longleftrightarrow> p n) else r = E"
proof (cases B)
  case True
  with assms show ?thesis unfolding if_P [OF True]
    by (intro exI [of _ d] exI [of _ "mstatus z"]) auto
qed (simp add: assms(1))

text \<open>
  Property C26. The privileged instructions, exactly. MRET is legal in machine mode only, SRET in machine mode and in
  supervisor mode with TSR (bit 22) clear, WFI likewise with TW (21) and SFENCE.VMA with TVM (20).
  Illegal, each is an illegal-instruction exception that leaves the hart as it was but for the poll counter.
  Legal, MRET and SRET jump to the saved PC, take the saved mode and change \<^verbatim>\<open>mstatus\<close> as written out bit by
  bit; WFI goes on, waiting exactly when no enabled interrupt is pending; SFENCE.VMA keeps registers and CSRs,
  counts a new mapping generation and leaves no translation row that hits, in any context and for any
  access: of any page without \<open>rs1\<close>, of the page named in it otherwise.
\<close>

theorem privileged_instructions:
  assumes "sys c = Some y"
  shows "(if sys_mode y = Machine
          then \<exists>d m. exec_system 0x30200073 npc (c, b) = (Inr (Next (mepc y) None), (d, b)) \<and> xreg d = xreg c
            \<and> sys d = Some (y\<lparr>mstatus := m, sys_mode := (if bit (mstatus y) 12 then Machine
                              else if bit (mstatus y) 11 then Supervisor else User)\<rparr>)
            \<and> (\<forall>n<64. bit m n \<longleftrightarrow> (if n = 3 then bit (mstatus y) 7 else if n = 7 then True
                 else if n = 11 \<or> n = 12 then False
                 else if n = 17 then bit (mstatus y) 17 \<and> bit (mstatus y) 12 else bit (mstatus y) n))
          else exec_system 0x30200073 npc (c, b) = (Inl (IllegalInstruction 0x30200073), (c\<lparr>irq_poll_cd := 0\<rparr>, b)))
    \<and> (if sys_mode y = Machine \<or> sys_mode y = Supervisor \<and> \<not> bit (mstatus y) 22
       then \<exists>d m. exec_system 0x10200073 npc (c, b) = (Inr (Next (sepc y) None), (d, b)) \<and> xreg d = xreg c
            \<and> sys d = Some (y\<lparr>mstatus := m, sys_mode := (if bit (mstatus y) 8 then Supervisor else User)\<rparr>)
            \<and> (\<forall>n<64. bit m n \<longleftrightarrow> (if n = 1 then bit (mstatus y) 5 else if n = 5 then True
                 else if n = 8 \<or> n = 17 then False else bit (mstatus y) n))
       else exec_system 0x10200073 npc (c, b) = (Inl (IllegalInstruction 0x10200073), (c\<lparr>irq_poll_cd := 0\<rparr>, b)))
    \<and> (if sys_mode y = Machine \<or> sys_mode y = Supervisor \<and> \<not> bit (mstatus y) 21
       then exec_system 0x10500073 npc (c, b) =
         (Inr (Next npc (if \<exists>n<64. bit (mip y) n \<and> bit (mie y) n then None else Some Wfi)), (c, b))
       else exec_system 0x10500073 npc (c, b) = (Inl (IllegalInstruction 0x10500073), (c, b)))
    \<and> (funct7 insn = 9 \<and> funct3 insn = 0 \<longrightarrow>
       (if sys_mode y = Machine \<or> sys_mode y = Supervisor \<and> \<not> bit (mstatus y) 20
        then \<exists>d. exec_system insn npc (c, b) = (Inr (Next npc None), (d, b))
          \<and> sys d = sys c \<and> xreg d = xreg c \<and> map_generation d = map_generation c + 1
          \<and> (\<forall>va a e. rs1 insn = 0 \<or> drop_bit 12 va = drop_bit 12 (xreg c (rs1 insn)) \<longrightarrow>
               tlb_tag d (access_ix a) (tlb_index va) \<noteq> translation_tag e va
               \<and> jtlb_tag d 0 (tlb_index va) \<noteq> translation_tag e va
               \<and> jtlb_tag d 1 (tlb_index va) \<noteq> translation_tag e va)
        else exec_system insn npc (c, b) = (Inl (IllegalInstruction insn), (c, b))))"
proof -
  have flag: "w AND push_bit i 1 \<noteq> 0 \<longleftrightarrow> bit w i" for w :: u64 and i
    by (simp add: and_exp_eq_0_iff_not_bit)
  have bits: "mstatus y AND MSTATUS_TSR \<noteq> 0 \<longleftrightarrow> bit (mstatus y) 22"
      "mstatus y AND MSTATUS_TW \<noteq> 0 \<longleftrightarrow> bit (mstatus y) 21" "mstatus y AND MSTATUS_TVM \<noteq> 0 \<longleftrightarrow> bit (mstatus y) 20"
      "mstatus y AND MSTATUS_SPP \<noteq> 0 \<longleftrightarrow> bit (mstatus y) 8"
    unfolding MSTATUS_TSR_def MSTATUS_TW_def MSTATUS_TVM_def MSTATUS_SPP_def by (rule flag)+
  have mode: "sys_mode y = Machine \<or> sys_mode y = Supervisor \<and> \<not> B \<longleftrightarrow>
      \<not> (sys_mode y = User \<or> sys_mode y = Supervisor \<and> B)" for B
    by (cases "sys_mode y") auto
  have pend: "(if mip y AND mie y = 0 then Some Wfi else None) =
      (if \<exists>n<64. bit (mip y) n \<and> bit (mie y) n then None else Some Wfi)"
  proof -
    have "mip y AND mie y = 0 \<longleftrightarrow> (\<forall>n<64. \<not> (bit (mip y) n \<and> bit (mie y) n))"
      by (auto simp: bit_eq_iff bit_and_iff)
    then show ?thesis by auto
  qed
  have mret: "mret_sys y = y\<lparr>mstatus := mstatus (mret_sys y), sys_mode := (if bit (mstatus y) 12 then Machine
      else if bit (mstatus y) 11 then Supervisor else User)\<rparr>"
    unfolding mret_sys_mode [symmetric] by (simp add: mret_sys_def Let_def)
  have sret: "sret_sys y = y\<lparr>mstatus := mstatus (sret_sys y),
      sys_mode := (if bit (mstatus y) 8 then Supervisor else User)\<rparr>"
    by (simp add: sret_sys_def Let_def bits)
  have M: "exec_system 0x30200073 npc (c, b) = (if sys_mode y = Machine
      then (Inr (Next (mepc y) None), (refresh_jit_tlb_context (c\<lparr>irq_poll_cd := 0, sys := Some (mret_sys y)\<rparr>), b))
      else (Inl (IllegalInstruction 0x30200073), (c\<lparr>irq_poll_cd := 0\<rparr>, b)))"
    using assms by (simp add: exec_system_def nextM_def bindM_def liftC_def retM_def Let_def exec_mret_def)
  have S: "exec_system 0x10200073 npc (c, b) = (if sys_mode y = Machine \<or> sys_mode y = Supervisor \<and> \<not> bit (mstatus y) 22
      then (Inr (Next (sepc y) None), (refresh_jit_tlb_context (c\<lparr>irq_poll_cd := 0, sys := Some (sret_sys y)\<rparr>), b))
      else (Inl (IllegalInstruction 0x10200073), (c\<lparr>irq_poll_cd := 0\<rparr>, b)))"
    unfolding mode bits [symmetric]
    using assms by (simp add: exec_system_def nextM_def bindM_def liftC_def retM_def Let_def exec_sret_def)
  have W: "exec_system 0x10500073 npc (c, b) = (if sys_mode y = Machine \<or> sys_mode y = Supervisor \<and> \<not> bit (mstatus y) 21
      then (Inr (Next npc (if mip y AND mie y = 0 then Some Wfi else None)), (c, b))
      else (Inl (IllegalInstruction 0x10500073), (c, b)))"
    unfolding mode bits [symmetric] using assms by (simp add: exec_system_def exec_wfi_def)
  have F: "exec_system insn npc (c, b) = (if sys_mode y = Machine \<or> sys_mode y = Supervisor \<and> \<not> bit (mstatus y) 20
      then (Inr (Next npc None), (bump_map_generation (if rs1 insn = 0 then flush_tlb c
              else flush_tlb_page (xreg c (rs1 insn)) c), b))
      else (Inl (IllegalInstruction insn), (c, b)))" if "funct7 insn = 9" "funct3 insn = 0"
  proof -
    have "insn \<notin> {0x73, 0x100073, 0x30200073, 0x10200073, 0x10500073}" using that(1) by (auto simp: funct7_def)
    then show ?thesis unfolding mode bits [symmetric]
      using assms that by (simp add: exec_system_def exec_sfence_def Let_def)
  qed
  have f: "sys d = sys c \<and> xreg d = xreg c \<and> map_generation d = map_generation c + 1"
    if "d = bump_map_generation (if rs1 insn = 0 then flush_tlb c else flush_tlb_page (xreg c (rs1 insn)) c)" for d
    using that by (simp add: flush_frame packed_map_gen)
  have mret_ok: "xreg d = xreg c \<and> sys d = Some (mret_sys y)"
    if "d = refresh_jit_tlb_context (c\<lparr>irq_poll_cd := 0, sys := Some (mret_sys y)\<rparr>)" for d
    using that by (simp add: refresh_simps)
  have sret_ok: "xreg d = xreg c \<and> sys d = Some (sret_sys y)"
    if "d = refresh_jit_tlb_context (c\<lparr>irq_poll_cd := 0, sys := Some (sret_sys y)\<rparr>)" for d
    using that by (simp add: refresh_simps)
  have M': "if sys_mode y = Machine
      then \<exists>d m. exec_system 0x30200073 npc (c, b) = (Inr (Next (mepc y) None), (d, b)) \<and> xreg d = xreg c
        \<and> sys d = Some (y\<lparr>mstatus := m, sys_mode := (if bit (mstatus y) 12 then Machine
                          else if bit (mstatus y) 11 then Supervisor else User)\<rparr>)
        \<and> (\<forall>n<64. bit m n \<longleftrightarrow> (if n = 3 then bit (mstatus y) 7 else if n = 7 then True
             else if n = 11 \<or> n = 12 then False
             else if n = 17 then bit (mstatus y) 17 \<and> bit (mstatus y) 12 else bit (mstatus y) n))
      else exec_system 0x30200073 npc (c, b) = (Inl (IllegalInstruction 0x30200073), (c\<lparr>irq_poll_cd := 0\<rparr>, b))"
    by (rule return_shape, rule M, rule mret_ok [OF refl], rule mret, rule mret_bits)
  have S': "if sys_mode y = Machine \<or> sys_mode y = Supervisor \<and> \<not> bit (mstatus y) 22
      then \<exists>d m. exec_system 0x10200073 npc (c, b) = (Inr (Next (sepc y) None), (d, b)) \<and> xreg d = xreg c
        \<and> sys d = Some (y\<lparr>mstatus := m, sys_mode := (if bit (mstatus y) 8 then Supervisor else User)\<rparr>)
        \<and> (\<forall>n<64. bit m n \<longleftrightarrow> (if n = 1 then bit (mstatus y) 5 else if n = 5 then True
             else if n = 8 \<or> n = 17 then False else bit (mstatus y) n))
      else exec_system 0x10200073 npc (c, b) = (Inl (IllegalInstruction 0x10200073), (c\<lparr>irq_poll_cd := 0\<rparr>, b))"
    by (rule return_shape, rule S, rule sret_ok [OF refl], rule sret, rule sret_bits)
  let ?d = "bump_map_generation (if rs1 insn = 0 then flush_tlb c else flush_tlb_page (xreg c (rs1 insn)) c)"
  have W': "if sys_mode y = Machine \<or> sys_mode y = Supervisor \<and> \<not> bit (mstatus y) 21
      then exec_system 0x10500073 npc (c, b) =
        (Inr (Next npc (if \<exists>n<64. bit (mip y) n \<and> bit (mie y) n then None else Some Wfi)), (c, b))
      else exec_system 0x10500073 npc (c, b) = (Inl (IllegalInstruction 0x10500073), (c, b))"
    unfolding W pend by (rule if_split [THEN iffD2]) simp
  have F': "if sys_mode y = Machine \<or> sys_mode y = Supervisor \<and> \<not> bit (mstatus y) 20
      then \<exists>d. exec_system insn npc (c, b) = (Inr (Next npc None), (d, b))
        \<and> sys d = sys c \<and> xreg d = xreg c \<and> map_generation d = map_generation c + 1
        \<and> (\<forall>va a e. rs1 insn = 0 \<or> drop_bit 12 va = drop_bit 12 (xreg c (rs1 insn)) \<longrightarrow>
             tlb_tag d (access_ix a) (tlb_index va) \<noteq> translation_tag e va
             \<and> jtlb_tag d 0 (tlb_index va) \<noteq> translation_tag e va
             \<and> jtlb_tag d 1 (tlb_index va) \<noteq> translation_tag e va)
      else exec_system insn npc (c, b) = (Inl (IllegalInstruction insn), (c, b))"
    if i: "funct7 insn = 9 \<and> funct3 insn = 0"
  proof (cases "sys_mode y = Machine \<or> sys_mode y = Supervisor \<and> \<not> bit (mstatus y) 20")
    case True
    note e = F [OF conjunct1 [OF i] conjunct2 [OF i], unfolded if_P [OF True]]
    show ?thesis unfolding if_P [OF True]
      by (intro exI [of _ ?d] conjI [OF e] conjI allI impI f [OF refl, THEN conjunct1]
          f [OF refl, THEN conjunct2, THEN conjunct1] f [OF refl, THEN conjunct2, THEN conjunct2])
        (use sfence_flushes [OF refl, of "rs1 insn" _ "xreg c (rs1 insn)" c] in blast)+
  next
    case False
    show ?thesis unfolding if_not_P [OF False]
      using F [OF conjunct1 [OF i] conjunct2 [OF i], unfolded if_not_P [OF False]] .
  qed
  show ?thesis by (intro conjI M' S' W') (rule impI, rule F')
qed

theorem privileged_instructions_witness:
  "exec_system 0x30200073 4 (demo_cpu, nop_mem) =
    (Inl (IllegalInstruction 0x30200073), (demo_cpu\<lparr>irq_poll_cd := 0\<rparr>, nop_mem))
   \<and> (let c = demo_cpu\<lparr>sys := Some (sys_new\<lparr>mepc := 0x40, mstatus := 0x800\<rparr>)\<rparr> in
      \<exists>d. exec_system 0x30200073 4 (c, nop_mem) = (Inr (Next 0x40 None), (d, nop_mem))
        \<and> sys_mode (the (sys d)) = Supervisor)"
proof
  obtain y where y: "sys demo_cpu = Some y" using demo_context(3) by blast
  have "sys_mode y = User" using y demo_context(1)[of Fetch] by (simp add: eff_mode_def Let_def)
  then show "exec_system 0x30200073 4 (demo_cpu, nop_mem) =
    (Inl (IllegalInstruction 0x30200073), (demo_cpu\<lparr>irq_poll_cd := 0\<rparr>, nop_mem))"
    using privileged_instructions[OF y, of 4 nop_mem 0] by simp
  let ?y = "sys_new\<lparr>mepc := 0x40, mstatus := 0x800\<rparr>"
  let ?c = "demo_cpu\<lparr>sys := Some ?y\<rparr>"
  have y: "sys ?c = Some ?y" "sys_mode ?y = Machine" "bit (mstatus ?y) 11" "\<not> bit (mstatus ?y) 12"
    by (simp_all add: sys_new_def bit_iff_odd)
  show "let c = ?c in \<exists>d. exec_system 0x30200073 4 (c, nop_mem) = (Inr (Next 0x40 None), (d, nop_mem))
        \<and> sys_mode (the (sys d)) = Supervisor"
    using conjunct1 [OF privileged_instructions[OF y(1), of 4 nop_mem 0], unfolded if_P [OF y(2)]] y(3,4)
    by (auto simp: Let_def)
qed
end
