(* ===== verification/BusFrame.thy ===== *)
theory BusFrame
  imports RunSpec
begin

unbundle bit_operations_syntax

text \<open>
  An invariant of the bus through the hart. \<open>bus_keeps\<close> is the contract of a bus whose operations keep
  a property of its state; in it every access, instruction, poll and loop of the hart keeps it.
\<close>

abbreviation keeps_b :: "('b \<Rightarrow> bool) \<Rightarrow> ('b, 'a) hart \<Rightarrow> bool" where
  "keeps_b I \<equiv> keeps (\<lambda>s. I (snd s))"

lemma keeps_prim: "keeps_b I (retM a)" "keeps_b I (failM e)" "keeps_b I (illegal insn)" "keeps_b I (readM g)"
  "keeps_b I (fp_checkM insn)" "keeps_b I (cpuM h)" "keeps_b I (liftC k)"
  by (auto simp: keeps_def retM_def failM_def illegal_def run_readM run_cpuM liftC_def Let_def case_prod_beta
      fp_checkM_def split: option.splits)

lemma keeps_busM: "(\<And>b. I b \<Longrightarrow> I (snd (m b))) \<Longrightarrow> keeps_b I (busM m)"
  by (simp add: keeps_def busM_def Let_def case_prod_beta)

lemma keeps_case_prod: "(\<And>a b. keeps_b I (f a b)) \<Longrightarrow> keeps_b I (case x of (a, b) \<Rightarrow> f a b)"
  by (cases x) simp

locale bus_keeps =
  fixes ops :: "'b bus_ops" and I :: "'b \<Rightarrow> bool"
  assumes reads: "I b \<Longrightarrow> I (snd (read8 ops a b))" "I b \<Longrightarrow> I (snd (read16 ops a b))"
      "I b \<Longrightarrow> I (snd (read32 ops a b))" "I b \<Longrightarrow> I (snd (read64 ops a b))"
    and writes: "I b \<Longrightarrow> I (snd (write8 ops a v8 b))" "I b \<Longrightarrow> I (snd (write16 ops a v16 b))"
      "I b \<Longrightarrow> I (snd (write32 ops a v32 b))" "I b \<Longrightarrow> I (snd (write64 ops a v64 b))"
    and fetches: "I b \<Longrightarrow> I (snd (fetch16 ops a b))" "I b \<Longrightarrow> I (snd (fetch32_if_safe ops a b))"
    and lines: "I b \<Longrightarrow> I (snd (irq_lines ops b))"
begin

lemma keeps_bus: "keeps_b I (busM (read8 ops a))" "keeps_b I (busM (read16 ops a))" "keeps_b I (busM (read32 ops a))"
  "keeps_b I (busM (read64 ops a))" "keeps_b I (busM (write8 ops a v8))" "keeps_b I (busM (write16 ops a v16))"
  "keeps_b I (busM (write32 ops a v32))" "keeps_b I (busM (write64 ops a v64))" "keeps_b I (busM (fetch16 ops a))"
  by (rule keeps_busM, erule reads writes fetches)+

lemmas keeps_basic = keeps_bind keeps_seq keeps_prim keeps_if keeps_mapErr keeps_when keeps_bus keeps_case_option
  keeps_case_prod

lemma keeps_walk_leaf: "keeps_b I (walk_leaf ops va a m su mx l ad e)"
  unfolding walk_leaf_def Let_def by (intro keeps_basic)

lemma keeps_walk_loop: "keeps_b I (walk_loop ops va a m su mx l table)"
proof (induction l arbitrary: table)
  case 0
  show ?case by (subst walk_loop.simps) (simp add: Let_def keeps_bind keeps_mapErr keeps_bus keeps_prim keeps_walk_leaf)
next
  case (Suc l)
  show ?case by (subst walk_loop.simps)
    (simp add: Let_def keeps_bind keeps_mapErr keeps_bus keeps_prim keeps_walk_leaf Suc)
qed

lemma keeps_translate: "keeps_b I (translate ops va a)"
  unfolding keeps_def
proof (intro allI impI)
  fix s :: "cpu \<times> 'b" assume "I (snd s)"
  moreover from this have "I (snd (snd (walk_loop ops va a m su mx l table s)))" for m su mx l table
    using keeps_walk_loop unfolding keeps_def by blast
  ultimately show "I (snd (snd (translate ops va a s)))"
    unfolding translate_def translate_slow_def Let_def by (simp add: retM_def failM_def split: option.splits)
qed

lemma keeps_fill_jtlb: "keeps_b I (fill_jtlb ops va pa k)"
  by (simp add: keeps_def fill_jtlb_def split: option.splits)

lemma keeps_bytes: "keeps_b I (ld_bytes ops va is v)" "keeps_b I (st_bytes ops va val is)"
proof -
  show "keeps_b I (ld_bytes ops va is v)"
    by (induction "is" arbitrary: v) (simp_all add: keeps_prim keeps_bus keeps_bind keeps_translate)
  show "keeps_b I (st_bytes ops va val is)"
    by (induction "is") (simp_all add: keeps_prim keeps_bus keeps_bind keeps_seq keeps_translate)
qed

lemma keeps_ld: "keeps_b I (ld_mem ops n va)"
  unfolding ld_mem_def by (intro keeps_basic keeps_bytes keeps_translate keeps_fill_jtlb)

lemma keeps_st: "keeps_b I (st_mem ops n va val)"
  unfolding st_mem_def by (intro keeps_basic keeps_bytes keeps_translate keeps_fill_jtlb)

lemma keeps_try_fetch: "keeps_b I (try_fetch32 ops pa)"
  unfolding keeps_def try_fetch32_def Let_def by (simp add: case_prod_beta fetches)

lemma keeps_fetch: "keeps_b I (fetch_word ops)"
  unfolding fetch_word_def fetch_high_def by (intro keeps_basic keeps_translate keeps_try_fetch)

lemma keeps_amo: "keeps_b I (amo_load ops is64 addr)" "keeps_b I (amo_store ops is64 addr v)"
  unfolding amo_load_def amo_store_def by (intro keeps_basic keeps_ld keeps_st)+

lemma keeps_access: "keeps_b I (load_value ops insn addr)" "keeps_b I (store_value ops insn addr val)"
  unfolding load_value_def store_value_def Let_def by (intro keeps_basic keeps_ld keeps_st)+

lemma keeps_stops: "keeps_b I (exec_ecall npc)" "keeps_b I (exec_ebreak npc)" "keeps_b I (exec_wfi insn npc)"
  "keeps_b I (exec_sfence insn npc)"
  by (auto simp: keeps_def exec_ecall_def exec_ebreak_def exec_wfi_def exec_sfence_def Let_def split: option.splits)

lemma keeps_system: "keeps_b I (exec_system insn npc)"
  unfolding exec_system_def exec_zicsr_def nextM_def Let_def by (intro keeps_basic keeps_stops)

lemma keeps_insn: "keeps_b I (exec_insn ops insn npc)"
  unfolding exec_insn_def exec_lui_def exec_auipc_def exec_jal_def exec_jalr_def
    exec_branch_def exec_load_def exec_store_def exec_op_imm_def exec_op_imm32_def exec_op_def exec_op32_def
    exec_amo_def exec_lr_def exec_sc_def exec_rmw_def exec_load_fp_def exec_store_fp_def exec_fma_def
    exec_op_fp_def exec_misc_mem_def nextM_def Let_def
  by (intro keeps_basic keeps_system keeps_access keeps_amo keeps_ld keeps_st)

lemma keeps_retire: "keeps_b I (retire r)"
  by (cases r) (auto intro!: keeps_basic)

lemma keeps_execute: "keeps_b I (execute_decoded ops d)"
  unfolding execute_decoded_def by (intro keeps_basic keeps_insn keeps_retire)

lemma keeps_step: "keeps_b I (step ops)"
  unfolding step_def by (intro keeps_basic keeps_execute keeps_fetch)

lemma keeps_poll: "I (snd s) \<Longrightarrow> I (snd (snd (poll ops s)))"
  by (cases s) (auto simp: poll_def check_interrupts_def Let_def case_prod_beta lines split: option.splits)

lemma keeps_run_loop: "I (snd s) \<Longrightarrow> I (snd (snd (run_loop ops system n s)))"
proof (induction n arbitrary: s)
  case (Suc n)
  obtain q t where q: "step ops (before_step ops system s) = (q, t)" by (rule prod.exhaust)
  have "I (snd (before_step ops system s))" using Suc.prems keeps_poll by (simp add: before_step_def)
  then have t: "I (snd t)" using keepsE [OF keeps_step] q by blast
  show ?case using q t Suc.IH by (auto simp: run_loop_Suc split: sum.splits option.splits prod.splits)
qed simp

lemma keeps_run: "I (snd s) \<Longrightarrow> I (snd (snd (run ops n s)))"
  unfolding run_def by (rule keeps_run_loop)

lemma keeps_run_decoded: "I (snd s) \<Longrightarrow> I (snd (snd (run_decoded ops ds s)))"
proof -
  have "I (snd s) \<Longrightarrow> I (snd (snd (run_decoded_loop ops system ds s)))" for system
  proof (induction ds arbitrary: s)
    case (Cons d ds)
    obtain taken s1 where p: "(if system then poll ops s else (False, s)) = (taken, s1)" by (rule prod.exhaust)
    have s1: "I (snd s1)" using Cons.prems keeps_poll [of s] p by (auto split: if_splits)
    obtain q t where q: "execute_decoded ops d s1 = (q, t)" by (rule prod.exhaust)
    have t: "I (snd t)" using keepsE [OF keeps_execute q s1] .
    show ?case using p q s1 t Cons.IH [OF t]
      by (auto simp: Let_def split: sum.splits option.splits prod.splits)
  qed simp
  then show "I (snd s) \<Longrightarrow> I (snd (snd (run_decoded ops ds s)))" unfolding run_decoded_def .
qed

lemma keeps_probe:
  assumes "I (snd s)"
  shows "I (snd (snd (jit_probe_fetch ops p s)))"
proof -
  obtain q t where q: "translate ops p Fetch s = (q, t)" by (rule prod.exhaust)
  have "I (snd t)" using keepsE [OF keeps_translate q assms] .
  then show ?thesis using q by (cases q) (simp_all add: jit_probe_fetch_def)
qed

end

end
