(* ===== verification/MachineFrame.thy ===== *)
theory MachineFrame
  imports VirtMachine BusFrame
begin

unbundle bit_operations_syntax

text \<open>
  An invariant of the machine's bus through a whole slice: a recorded hang is a device call that never
  returns, and a machine without virtio devices has none.
\<close>

definition hang_real :: "bool \<Rightarrow> virt_bus \<Rightarrow> bool" where
  "hang_real dev b \<longleftrightarrow>
     (case vb_hang b of None \<Rightarrow> True | Some (qi, s) \<Rightarrow> dev \<and> process_call qi s = None) \<and> (dev \<or> vb_virtio b = [])"

lemma hang_real_upd [simp]:
  "hang_real dev (b\<lparr>vb_mem := x1\<rparr>) = hang_real dev b" "hang_real dev (b\<lparr>vb_mtime := x2\<rparr>) = hang_real dev b"
  "hang_real dev (b\<lparr>vb_mtimecmp := x3\<rparr>) = hang_real dev b" "hang_real dev (b\<lparr>vb_msip := x4\<rparr>) = hang_real dev b"
  "hang_real dev (b\<lparr>vb_rtc := x5\<rparr>) = hang_real dev b" "hang_real dev (b\<lparr>vb_plic := x6\<rparr>) = hang_real dev b"
  "hang_real dev (b\<lparr>vb_uart := x7\<rparr>) = hang_real dev b" "hang_real dev (b\<lparr>vb_power_off := x8\<rparr>) = hang_real dev b"
  "hang_real dev (b\<lparr>vb_virtio := (vb_virtio b)[i := v]\<rparr>) = hang_real dev b"
  by (simp_all add: hang_real_def)

lemma process_dev_real:
  assumes "hang_real dev b" and "vb_virtio b \<noteq> []"
  shows "hang_real dev (process_dev i qi b)" and "vb_virtio (process_dev i qi b) \<noteq> []"
proof -
  have dev using assms by (simp add: hang_real_def)
  then show "hang_real dev (process_dev i qi b)" "vb_virtio (process_dev i qi b) \<noteq> []"
    using assms by (auto simp: process_dev_def hang_real_def split: option.splits prod.splits)
qed

lemma mmio_read_real: "hang_real dev b \<Longrightarrow> hang_real dev (snd (mmio_read addr n b))"
  by (simp add: mmio_read_def Let_def case_prod_beta)

lemma mmio_write_real:
  assumes "hang_real dev b"
  shows "hang_real dev (snd (mmio_write addr val b))"
proof -
  have "hang_real dev (process_dev i q (b\<lparr>vb_virtio := (vb_virtio b)[j := v]\<rparr>))" if "k < length (vb_virtio b)" for i j q v k
    by (rule process_dev_real(1)) (use assms that in auto)
  then show ?thesis using assms by (auto simp: mmio_write_def Let_def case_prod_beta split: option.split)
qed

lemma virt_read_real: "hang_real dev b \<Longrightarrow> hang_real dev (snd (virt_read n addr b))"
  using mmio_read_real [of dev b addr n] by (auto simp: virt_read_def split: option.split prod.split)

lemma virt_write_real:
  assumes "hang_real dev b"
  shows "hang_real dev (snd (virt_write n addr val b))"
proof -
  have c: "hang_real dev (jit_check_store addr b)" using assms by (simp add: jit_check_store_def)
  show ?thesis
  proof (cases "ram_store addr (to_le n val) (jit_check_store addr b)")
    case None
    then show ?thesis using mmio_write_real [OF c] by (simp add: virt_write_def Let_def case_prod_beta)
  next
    case (Some b')
    then have "hang_real dev b'" using c by (auto simp: ram_store_def split: option.splits)
    then show ?thesis using Some by (simp add: virt_write_def)
  qed
qed

lemma fold_process_real:
  "hang_real dev b \<Longrightarrow> vb_virtio b \<noteq> [] \<Longrightarrow>
     hang_real dev (fold (process_dev i) qs b) \<and> vb_virtio (fold (process_dev i) qs b) \<noteq> []"
  by (induction qs arbitrary: b) (simp_all add: process_dev_real)

lemma poll_virtio_real:
  assumes "hang_real dev b"
  shows "hang_real dev (poll_virtio b)"
proof (cases "vb_virtio b = []")
  case True
  then show ?thesis using assms by (simp add: poll_virtio_def)
next
  case False
  have "hang_real dev (fold (\<lambda>i b. fold (process_dev i) [0..<2] b) is b)" for "is"
    using assms False
  proof (induction "is" arbitrary: b)
    case (Cons i "is")
    then show ?case using fold_process_real [OF Cons.prems, of i "[0..<2]"] by simp
  qed simp
  then show ?thesis by (simp add: poll_virtio_def)
qed

lemma real_keeps: "bus_keeps (virt_bus_ops host) (hang_real dev)"
proof
  fix b a assume b: "hang_real dev b"
  show "hang_real dev (snd (fetch16 (virt_bus_ops host) a b))"
    using virt_read_real [OF b, where 'a = 16]
    by (simp add: virt_bus_ops_def default_fetch16_def mapErrM_def split: sum.split prod.split) (metis snd_conv)
  show "hang_real dev (snd (irq_lines (virt_bus_ops host) b))"
    using b by (simp add: virt_bus_ops_def virt_irq_lines_def refresh_plic_def Let_def)
qed (simp_all add: virt_bus_ops_def virt_read_real virt_write_real virt_fetch32_if_safe_def)

section \<open>Through the machine\<close>

text \<open>
  The contract of an invariant of the machine's bus: the bus operations and the poll of the devices keep it,
  and it does not depend on the clock, the power switch and the UART, which the machine itself changes.
\<close>

locale machine_inv = bus_keeps "virt_bus_ops host" I for host and I +
  assumes upd: "I (b\<lparr>vb_mtime := t\<rparr>) = I b" "I (b\<lparr>vb_mtimecmp := t\<rparr>) = I b" "I (b\<lparr>vb_power_off := p\<rparr>) = I b"
      "I (b\<lparr>vb_uart := u\<rparr>) = I b"
    and poll: "I b \<Longrightarrow> I (poll_virtio b)"
begin

lemma sync_inv [simp]: "I (vm_bus (sync_devices m)) = I (vm_bus m)"
  by (simp add: sync_devices_def Let_def upd)

lemma sbi_call_inv: "I (vm_bus m) \<Longrightarrow> I (vm_bus (snd (snd (sbi_call ext f a0 a1 m))))"
proof -
  assume m: "I (vm_bus m)"
  define P where "P r \<longleftrightarrow> I (vm_bus (snd (snd r)))" for r :: "u64 \<times> u64 \<times> virt_machine"
  have if_ok: "P x \<Longrightarrow> P y \<Longrightarrow> P (if c then x else y)" for c x y by simp
  have "P (sbi_call ext f a0 a1 m)" unfolding sbi_call_def
    by (intro if_ok; use m in \<open>simp add: P_def sbi_set_timer_def sbi_fence_i_def sbi_power_off_def upd_cpu_def upd_bus_def upd\<close>)
  then show ?thesis by (simp add: P_def)
qed

lemma service_sbi_inv: "I (vm_bus m) \<Longrightarrow> I (vm_bus (service_sbi m))"
proof -
  assume "I (vm_bus m)"
  then have "I (vm_bus (count_call (xreg (vm_cpu m) 17) m))" by (simp add: count_call_def Let_def)
  from sbi_call_inv [OF this] show ?thesis by (simp add: service_sbi_def Let_def case_prod_beta upd_cpu_def)
qed

lemma next_block_inv:
  "I (snd s) \<Longrightarrow> next_block (virt_bus_ops host) s c = (r, s', c') \<Longrightarrow> I (snd s')"
proof -
  assume s: "I (snd s)" and e: "next_block (virt_bus_ops host) s c = (r, s', c')"
  obtain q t where q: "jit_probe_fetch (virt_bus_ops host) (pc (fst s)) s = (q, t)" by (rule prod.exhaust)
  have "I (snd t)" using keeps_probe [OF s] q by (metis snd_conv)
  moreover have "s' = t" using e q by (auto simp: next_block_def Let_def split: option.splits if_splits prod.splits)
  ultimately show ?thesis by simp
qed

lemma cached_loop_inv:
  "I (snd s) \<Longrightarrow>
   cached_loop n (virt_bus_ops host) dp capable start max_insns first stalled s c d = Some (stop, s', c', d') \<Longrightarrow>
   I (snd s')"
proof (induction n arbitrary: first stalled s c d)
  case (Suc n)
  note IH = Suc.IH
  obtain hit d1 where h: "(if first then (False, d) else dp_observe dp (pc (fst s)) d) = (hit, d1)" by (rule prod.exhaust)
  show ?case
  proof (cases "hit \<or> max_insns \<le> insn_count (fst s) - start \<or> max_insns \<le> stalled")
    case True
    then show ?thesis using Suc.prems h by (auto simp: Let_def split: if_splits)
  next
    case False
    obtain r s1 c1 where b: "next_block (virt_bus_ops host) s c = (r, s1, c1)" by (rule prod_cases3)
    have s1: "I (snd s1)" by (rule next_block_inv [OF Suc.prems(1) b])
    show ?thesis
    proof (cases r)
      case None
      obtain x k s2 where u: "run_uncached_one (virt_bus_ops host) stalled s1 = (x, k, s2)" by (rule prod_cases3)
      have "s2 = snd (run (virt_bus_ops host) 1 s1)" using u
        by (auto simp: run_uncached_one_def Let_def split: prod.splits)
      then have "I (snd s2)" using keeps_run [OF s1, of 1] by simp
      then show ?thesis using Suc.prems(2) h False b None u IH [of s2]
        by (auto simp: Let_def split: option.splits)
    next
      case (Some block)
      let ?block = "if capable then clip (dp_contains dp d1) (pc (fst s)) (take (unat (max_insns - (insn_count (fst s) - start))) block)
        else take (unat (max_insns - (insn_count (fst s) - start))) block"
      obtain o1 s2 where u: "run_decoded (virt_bus_ops host) ?block s1 = (o1, s2)" by (rule prod.exhaust)
      have s2: "I (snd s2)" using keeps_run_decoded [OF s1] u by (metis snd_conv)
      show ?thesis
      proof (cases "o1 = Stop Budget \<or> o1 = Trapped")
        case True
        then obtain st where "cached_loop n (virt_bus_ops host) dp capable start max_insns False st s2 c1 d1 = Some (stop, s', c', d')"
          using Suc.prems(2) h False b Some u by (auto simp: Let_def)
        from IH [OF s2 this] show ?thesis .
      next
        case f: False
        then have "s' = s2" using Suc.prems(2) h False b Some u by (cases o1) (auto simp: Let_def split: stop_reason.splits)
        then show ?thesis using s2 by simp
      qed
    qed
  qed
qed simp

lemma until_loop_inv:
  "I (snd s) \<Longrightarrow> until_loop n (virt_bus_ops host) f start max_insns s d = Some (stop, s', d') \<Longrightarrow>
   I (snd s')"
proof (induction n arbitrary: s d)
  case (Suc n)
  obtain st t where r: "run (virt_bus_ops host) 1 s = (st, t)" by (rule prod.exhaust)
  have "I (snd t)" using keeps_run [OF Suc.prems(1), of 1] r by (metis snd_conv)
  then show ?case using Suc.prems r Suc.IH [of t] by (auto simp: Let_def split: if_splits prod.splits)
qed simp

lemma backend_run_inv:
  assumes "I (snd s)" and "backend_run fuel (virt_bus_ops host) be k s c d = Some (stop, s', c', d')"
  shows "I (snd s')"
proof (cases be)
  case (Legacy compiled)
  show ?thesis
  proof (cases compiled)
    case None
    then show ?thesis using assms Legacy keeps_run [OF assms(1), of k]
      by (auto simp: run_cpu_until_def Let_def split: prod.splits)
  next
    case (Some f)
    then show ?thesis using assms(2) Legacy until_loop_inv [OF assms(1)] by (auto simp: run_cpu_until_def)
  qed
next
  case (Cached dp capable)
  then have "cached_loop fuel (virt_bus_ops host) dp capable (insn_count (fst s)) k True 0 s c d = Some (stop, s', c', d')"
    using assms(2) by (simp add: run_cached_cpu_def)
  from cached_loop_inv [OF assms(1) this] show ?thesis .
qed

lemma slice_loop_inv:
  "I (vm_bus m) \<Longrightarrow> slice_loop n fuel host be remaining stop0 m d = Some (stop, m', d') \<Longrightarrow>
   I (vm_bus m')"
proof (induction n arbitrary: remaining stop0 m d)
  case (Suc n)
  note IH = Suc.IH
  define chunk where "chunk = (if needs_periodic_sync be \<or> has_external_disk m then min remaining INTERPRETER_SYNC_INTERVAL else remaining)"
  show ?case
  proof (cases "remaining = 0 \<or> vm_power_off m")
    case True
    then show ?thesis using Suc.prems by auto
  next
    case False
    obtain st s c d1 where r: "backend_run fuel (virt_bus_ops host) be chunk (vm_cpu m, vm_bus m) (vm_cache m) d = Some (st, s, c, d1)"
      using Suc.prems(2) False by (auto simp: chunk_def Let_def split: option.splits)
    let ?m = "set_run_state s c m"
    have s: "I (vm_bus ?m)" using backend_run_inv [OF _ r] Suc.prems(1) by (simp add: set_run_state_def)
    let ?rest = "saturating_sub remaining (insn_count (vm_cpu ?m) - insn_count (vm_cpu m))"
    have loop: "(if st = CpuStop Ecall \<and> vb_direct_sbi (vm_bus ?m) then
         (let m = service_sbi ?m
          in if unsupported_sbi m \<noteq> None then Some (st, m\<lparr>vm_power_off := True\<rparr>, d1)
             else if vm_power_off m then Some (st, m, d1)
             else (let (hit, d) = should_stop be (pc (vm_cpu m)) d1
                   in if hit then Some (Compiled, m, d)
                      else slice_loop n fuel host be ?rest st m d))
       else if st = CpuStop Budget \<and> ?rest \<noteq> 0 then
         (let m' = sync_devices ?m
          in if machine_pending_request m' \<noteq> None then Some (st, m', d1)
             else if insn_count (vm_cpu ?m) - insn_count (vm_cpu m) = 0 then Some (st, m', d1)
             else if \<not> needs_periodic_sync be \<and> \<not> has_external_disk m' then Some (st, m', d1)
             else slice_loop n fuel host be ?rest st m' d1)
       else Some (st, ?m, d1)) = Some (stop, m', d')"
      using Suc.prems(2) False by (simp only: slice_loop.simps Let_def chunk_def [symmetric] r option.case prod.case if_False)
    obtain hit d2 where h: "should_stop be (pc (vm_cpu (service_sbi ?m))) d1 = (hit, d2)" by (rule prod.exhaust)
    show ?thesis
    proof (cases "st = CpuStop Ecall \<and> vb_direct_sbi (vm_bus ?m)")
      case True
      then show ?thesis using loop service_sbi_inv [OF s] h IH [of "service_sbi ?m"] by (auto simp: Let_def split: if_splits)
    next
      case False
      then show ?thesis using loop s IH [of "sync_devices ?m"] by (auto simp: Let_def split: if_splits)
    qed
  qed
qed simp

lemma slice_body_polled:
  assumes "I (poll_virtio (vm_bus m))" and "slice_body fuel host be max_insns m d = Some (r, m', d')"
  shows "I (vm_bus m')"
proof -
  let ?m = "sync_devices (upd_bus poll_virtio m)"
  define l where "l = slice_loop (Suc (unat max_insns)) fuel host be max_insns (CpuStop Budget) ?m d"
  have p: "I (vm_bus ?m)" using assms(1) by (simp add: upd_bus_def)
  have b: "(if machine_pending_request ?m \<noteq> None then Some (\<lparr>rs_retired = 0, rs_idle = False\<rparr>, ?m, d)
      else (case l of None \<Rightarrow> None
            | Some (stop, m1, d1) \<Rightarrow>
                (case wfi_idle stop m1 of (idle, m2) \<Rightarrow>
                  Some (\<lparr>rs_retired = insn_count (vm_cpu ((sync_devices m2)\<lparr>vm_power_off := vm_power_off (sync_devices m2) \<or> vb_power_off (vm_bus (sync_devices m2))\<rparr>)) - insn_count (vm_cpu m), rs_idle = idle\<rparr>,
                    (sync_devices m2)\<lparr>vm_power_off := vm_power_off (sync_devices m2) \<or> vb_power_off (vm_bus (sync_devices m2))\<rparr>, d1))))
      = Some (r, m', d')"
    using assms(2) unfolding slice_body_def Let_def l_def [symmetric] .
  show ?thesis
  proof (cases "machine_pending_request ?m")
    case (Some q)
    then show ?thesis using b p by simp
  next
    case None
    then obtain stop m1 d1 where l: "l = Some (stop, m1, d1)" using b by (auto split: option.splits)
    have h: "I (vm_bus m1)" by (rule slice_loop_inv [OF p l [unfolded l_def]])
    obtain idle m2 where w: "wfi_idle stop m1 = (idle, m2)" by (rule prod.exhaust)
    then have m2: "vm_bus m2 = vm_bus m1" by (auto simp: wfi_idle_def Let_def split: if_splits)
    have "m' = (sync_devices m2)\<lparr>vm_power_off := vm_power_off (sync_devices m2) \<or> vb_power_off (vm_bus (sync_devices m2))\<rparr>"
      using b None l w by simp
    then show ?thesis using h m2 by simp
  qed
qed

lemma slice_body_inv:
  "I (vm_bus m) \<Longrightarrow> slice_body fuel host be max_insns m d = Some (r, m', d') \<Longrightarrow> I (vm_bus m')"
  by (rule slice_body_polled [OF poll])

end

section \<open>Hangs recorded, and hangs that stay\<close>

interpretation real: machine_inv host "hang_real dev" for host dev
  by (intro machine_inv.intro real_keeps machine_inv_axioms.intro poll_virtio_real hang_real_upd)

text \<open>A recorded hang stays recorded.\<close>

definition hung_at :: "nat \<times> virtio_dev \<times> dma \<Rightarrow> virt_bus \<Rightarrow> bool" where
  "hung_at x b \<longleftrightarrow> vb_hang b = Some x"

lemma hung_at_upd [simp]:
  "hung_at x (b\<lparr>vb_mem := x1\<rparr>) = hung_at x b" "hung_at x (b\<lparr>vb_mtime := x2\<rparr>) = hung_at x b"
  "hung_at x (b\<lparr>vb_mtimecmp := x3\<rparr>) = hung_at x b" "hung_at x (b\<lparr>vb_msip := x4\<rparr>) = hung_at x b"
  "hung_at x (b\<lparr>vb_rtc := x5\<rparr>) = hung_at x b" "hung_at x (b\<lparr>vb_plic := x6\<rparr>) = hung_at x b"
  "hung_at x (b\<lparr>vb_uart := x7\<rparr>) = hung_at x b" "hung_at x (b\<lparr>vb_power_off := x8\<rparr>) = hung_at x b"
  "hung_at x (b\<lparr>vb_virtio := vs\<rparr>) = hung_at x b"
  by (simp_all add: hung_at_def)

lemma process_dev_hung: "hung_at x b \<Longrightarrow> hung_at x (process_dev i qi b)"
  by (auto simp: process_dev_def hung_at_def split: option.splits prod.splits)

lemma poll_virtio_hung: "hung_at x b \<Longrightarrow> hung_at x (poll_virtio b)"
proof -
  have 1: "hung_at x b \<Longrightarrow> hung_at x (fold (process_dev i) qs b)" for i qs b
    by (induction qs arbitrary: b) (simp_all add: process_dev_hung)
  have "hung_at x b \<Longrightarrow> hung_at x (fold (\<lambda>i b. fold (process_dev i) [0..<2] b) is b)" for "is" b
    by (induction "is" arbitrary: b) (simp_all add: 1 del: upt_Suc)
  then show "hung_at x b \<Longrightarrow> hung_at x (poll_virtio b)" by (simp add: poll_virtio_def)
qed

lemma mmio_write_hung: "hung_at x b \<Longrightarrow> hung_at x (snd (mmio_write addr val b))"
  using process_dev_hung [of x] by (auto simp: mmio_write_def Let_def case_prod_beta split: option.split)

lemma virt_write_hung:
  assumes "hung_at x b"
  shows "hung_at x (snd (virt_write n addr val b))"
proof -
  have c: "hung_at x (jit_check_store addr b)" using assms by (simp add: jit_check_store_def)
  show ?thesis
  proof (cases "ram_store addr (to_le n val) (jit_check_store addr b)")
    case None
    then show ?thesis using mmio_write_hung [OF c] by (simp add: virt_write_def Let_def case_prod_beta)
  next
    case (Some b')
    then have "hung_at x b'" using c by (auto simp: ram_store_def split: option.splits)
    then show ?thesis using Some by (simp add: virt_write_def)
  qed
qed

lemma virt_read_hung: "hung_at x b \<Longrightarrow> hung_at x (snd (virt_read n addr b))"
proof -
  assume "hung_at x b"
  then have "hung_at x (snd (mmio_read addr n b))" by (simp add: mmio_read_def Let_def case_prod_beta)
  with \<open>hung_at x b\<close> show ?thesis by (auto simp: virt_read_def split: option.split prod.split)
qed

lemma hung_keeps: "bus_keeps (virt_bus_ops host) (hung_at x)"
proof
  fix b a assume b: "hung_at x b"
  show "hung_at x (snd (fetch16 (virt_bus_ops host) a b))"
    using virt_read_hung [OF b, where 'a = 16]
    by (simp add: virt_bus_ops_def default_fetch16_def mapErrM_def split: sum.split prod.split) (metis snd_conv)
  show "hung_at x (snd (irq_lines (virt_bus_ops host) b))"
    using b by (simp add: virt_bus_ops_def virt_irq_lines_def refresh_plic_def Let_def)
qed (simp_all add: virt_bus_ops_def virt_read_hung virt_write_hung virt_fetch32_if_safe_def)

interpretation hung: machine_inv host "hung_at x" for host x
  by (intro machine_inv.intro hung_keeps machine_inv_axioms.intro poll_virtio_hung hung_at_upd)

end
