(* ===== verification/CacheRun.thy ===== *)
theory CacheRun
  imports VirtBusSpec MachineFrame
begin

unbundle bit_operations_syntax

text \<open>
  The interpreter loop over cached blocks (\<^verbatim>\<open>run_cached_cpu\<close>) and the slice loop around it return for
  every guest, and retire at most their budget; a slice has a result unless a device call it made
  never returns. The argument is a measure: instructions left, then the
  interrupts that can still be taken before one retires (\<open>irq_rank\<close>), then the traps that may
  still stall.
\<close>

declare run_loop.simps(2) [simp del]

section \<open>Interrupts that can still be taken\<close>

definition irq_rank :: "cpu \<Rightarrow> nat" where
  "irq_rank c =
     (case sys c of None \<Rightarrow> 0
      | Some y \<Rightarrow> if sys_mode y = Machine \<and> \<not> bit (mstatus y) 3 then 0
                 else if sys_mode y = Supervisor \<and> \<not> bit (mstatus y) 1 then 1 else 2)"

lemma irq_rank_le: "irq_rank c \<le> 2"
  by (simp add: irq_rank_def split: option.split)

lemma and_single: "w AND push_bit k 1 \<noteq> 0 \<longleftrightarrow> bit (w :: u64) k"
  by (simp add: and_exp_eq_0_iff_not_bit)

lemma trap_mie: "\<not> bit (mstatus (trap_to_m cv tv p y)) 3" and trap_sie: "\<not> bit (mstatus (trap_to_s cv tv p y)) 1"
  by (simp_all add: trap_to_m_mstatus trap_to_s_mstatus mstatus_bits)

text \<open>A trap never raises the rank, and an interrupt lowers it.\<close>

lemma trap_rank:
  assumes "sys c = Some y"
  shows "irq_rank (take_trap cau tval k c) = (if trap_delegated cau k y then 1 else 0)"
  using assms by (simp add: irq_rank_def take_trap_sys trap_to_simps trap_mie trap_sie del: One_nat_def)

lemma exception_rank:
  assumes "sys c \<noteq> None"
  shows "irq_rank (exception_to_trap e c) \<le> irq_rank c"
proof -
  obtain y where y: "sys c = Some y" using assms by blast
  have "\<not> trap_delegated (cause e) False y" if "irq_rank c = 0"
    using that y by (simp add: irq_rank_def trap_delegated_def split: if_splits)
  then show ?thesis using trap_rank [OF y] by (cases "irq_rank c = 0") (auto simp: exception_to_trap_def)
qed

lemma deliver_rank:
  assumes "sys c = Some y" and "irq_deliverable y irq" and "irq \<in> set irq_priority"
  shows "irq_rank (take_trap irq tval True c) < irq_rank c"
proof -
  have "unat (irq AND 63) = unat irq" using assms(3) by (auto simp: irq_priority_def)
  then have d: "trap_delegated irq True y \<longleftrightarrow> sys_mode y \<noteq> Machine \<and> bit (mideleg y) (unat irq)"
    unfolding trap_delegated_def Let_def and_single by simp
  have "bit (mideleg y) (unat irq) \<Longrightarrow> sys_mode y = User \<or> sys_mode y = Supervisor \<and> bit (mstatus y) 1"
    "sys_mode y = Machine \<Longrightarrow> bit (mstatus y) 3"
    using assms(2) unfolding irq_deliverable_def Let_def MSTATUS_SIE_def MSTATUS_MIE_def and_single
    by (auto split: if_splits)
  then show ?thesis unfolding trap_rank [OF assms(1)] d
    using assms(1) by (cases "sys_mode y") (auto simp: irq_rank_def)
qed

lemma first_irq_priority: "first_irq y p irqs = Some irq \<Longrightarrow> irq \<in> set irqs \<and> irq_deliverable y irq"
  by (induction irqs) (auto split: if_splits)

lemma check_rank:
  assumes "check_interrupts ops s = (hit, t)"
  shows "if hit then irq_rank (fst t) < irq_rank (fst s) else irq_rank (fst t) = irq_rank (fst s)"
proof -
  obtain c b where s: "s = (c, b)" by (cases s)
  show ?thesis
  proof (cases "sys c")
    case None
    then show ?thesis using assms by (auto simp: s check_interrupts_def)
  next
    case (Some y0)
    obtain ls b' where l: "irq_lines ops b = (ls, b')" by fastforce
    define y where "y = y0\<lparr>mip := (mip y0 AND NOT HW) OR (ls AND HW)\<rparr>"
    let ?c = "c\<lparr>sys := Some y\<rparr>"
    have r: "irq_rank ?c = irq_rank c" using Some by (simp add: irq_rank_def y_def)
    have run: "check_interrupts ops s =
      (if mip y AND mie y = 0 then (False, ?c, b')
       else (case first_irq y (mip y AND mie y) irq_priority of None \<Rightarrow> (False, ?c, b')
             | Some irq \<Rightarrow> (True, take_trap irq 0 True ?c, b')))"
      unfolding y_def using Some l by (simp add: s check_interrupts_def Let_def)
    show ?thesis
    proof (cases "mip y AND mie y = 0 \<or> first_irq y (mip y AND mie y) irq_priority = None")
      case True
      then have "(hit, t) = (False, ?c, b')" using run assms by auto
      then show ?thesis using r by (simp add: s)
    next
      case False
      then obtain irq where i: "first_irq y (mip y AND mie y) irq_priority = Some irq" by blast
      then have "(hit, t) = (True, take_trap irq 0 True ?c, b')" using run assms False by simp
      moreover have "irq_rank (take_trap irq 0 True ?c) < irq_rank ?c"
        by (rule deliver_rank [where y = y]) (use first_irq_priority [OF i] in auto)
      ultimately show ?thesis using r by (simp add: s)
    qed
  qed
qed

lemma poll_rank:
  assumes "poll ops s = (hit, t)"
  shows "if hit then irq_rank (fst t) < irq_rank (fst s) else irq_rank (fst t) = irq_rank (fst s)"
proof -
  obtain c b where s: "s = (c, b)" by (cases s)
  have r: "irq_rank (c\<lparr>irq_poll_cd := k\<rparr>) = irq_rank c" for k by (simp add: irq_rank_def)
  show ?thesis
  proof (cases "irq_poll_cd c = 0")
    case True
    then have "check_interrupts ops (c\<lparr>irq_poll_cd := IRQ_POLL_INTERVAL\<rparr>, b) = (hit, t)"
      using assms by (simp add: s poll_def)
    from check_rank [OF this] show ?thesis unfolding s fst_conv r .
  next
    case False
    then have "(hit, t) = (False, c\<lparr>irq_poll_cd := irq_poll_cd c - 1\<rparr>, b)" using assms by (simp add: s poll_def)
    then show ?thesis using r by (simp add: s)
  qed
qed

lemma unchanged_rank:
  assumes "unchanged c d"
  shows "irq_rank d = irq_rank c"
proof -
  have "\<not> bit MSTATUS_FS 1" "\<not> bit MSTATUS_FS 3" by (simp_all add: MSTATUS_FS_def bit_simps bit_numeral_rec)
  then have "irq_rank (d\<lparr>sys := map_option fs_marked (sys c)\<rparr>) = irq_rank c"
    by (simp add: irq_rank_def fs_marked_def bit_or_iff split: option.split)
  then show ?thesis using assms by (auto simp: unchanged_def irq_rank_def)
qed

section \<open>What one pass of an interpreter retires\<close>

text \<open>
  \<open>progress k s t\<close>: the hart went from \<open>s\<close> to \<open>t\<close> and retired \<open>k\<close> instructions; if none, no interrupt became
  possible that was not.
\<close>

definition progress :: "nat \<Rightarrow> cpu \<times> 'b \<Rightarrow> cpu \<times> 'b \<Rightarrow> bool" where
  "progress k s t \<longleftrightarrow> insn_count (fst t) = insn_count (fst s) + of_nat k
     \<and> (sys (fst t) = None \<longleftrightarrow> sys (fst s) = None) \<and> (k = 0 \<longrightarrow> irq_rank (fst t) \<le> irq_rank (fst s))"

lemma progress_refl: "progress 0 s s"
  by (simp add: progress_def)

lemma progress_trans: "progress k s t \<Longrightarrow> progress m t u \<Longrightarrow> progress (k + m) s u"
  by (auto simp: progress_def add_ac)

lemma progress_unchanged:
  assumes "unchanged (fst s) (fst t)"
  shows "progress 0 s t"
  using assms unchanged_rank [OF assms] by (auto simp: progress_def unchanged_def)

lemma progress_poll:
  assumes "poll ops s = (hit, t)"
  shows "progress 0 s t"
  using poll_count [of ops s] kept_poll [of s ops] poll_rank [OF assms] assms
  by (auto simp: progress_def sys_kept_def split: if_splits)

lemma progress_before: "system = (sys (fst s) \<noteq> None) \<Longrightarrow> progress 0 s (before_step ops system s)"
  using progress_poll [of ops s "fst (poll ops s)" "snd (poll ops s)"] progress_refl [of s]
  by (simp add: before_step_def)

lemma progress_trap:
  assumes "sys c \<noteq> None"
  shows "progress 0 (c, b) (exception_to_trap e c, b)"
  using assms exception_to_trap_count exception_to_trap_sys [of e c] exception_rank by (auto simp: progress_def)

lemma progress_execute:
  assumes "execute_decoded ops d s = (q, t)"
  shows "case q of Inr r \<Rightarrow> progress 1 s t \<and> r \<noteq> Some Budget | Inl e \<Rightarrow> progress 0 s t"
proof (cases q)
  case (Inl e)
  then have "unchanged (fst s) (fst t)" using precise_execute [of ops d] assms
    unfolding precise_def by (metis fst_conv snd_conv)
  then show ?thesis using Inl progress_unchanged by simp
next
  case (Inr r)
  have "sys_kept (fst s) (fst t)" using kept_execute [of ops d] assms unfolding within_def by (metis snd_conv)
  then show ?thesis using Inr execute_results [of ops d s r t] assms
    by (auto simp: progress_def sys_kept_def)
qed

lemma progress_step:
  assumes "step ops s = (q, t)"
  shows "case q of Inr r \<Rightarrow> progress 1 s t \<and> r \<noteq> Some Budget | Inl e \<Rightarrow> progress 0 s t"
proof (cases q)
  case (Inl e)
  then have "unchanged (fst s) (fst t)" using precise_step [of ops] assms
    unfolding precise_def by (metis fst_conv snd_conv)
  then show ?thesis using Inl progress_unchanged by simp
next
  case (Inr r)
  have "sys_kept (fst s) (fst t)" using kept_step [of ops] assms unfolding within_def by (metis snd_conv)
  then show ?thesis using Inr step_results [of ops s r t] assms
    by (auto simp: progress_def sys_kept_def)
qed

text \<open>The interpreter for one instruction.\<close>

lemma run_one:
  assumes "run ops 1 s = (stop, t)"
  shows "\<exists>k \<le> 1. progress k s t \<and> (stop = Ecall \<longrightarrow> k = 1)"
proof -
  define system where "system = (sys (fst s) \<noteq> None)"
  let ?s1 = "before_step ops system s"
  obtain q c b where q: "step ops ?s1 = (q, (c, b))" by (cases "step ops ?s1") auto
  have p: "progress 0 s ?s1" by (rule progress_before [OF system_def])
  have run: "run_loop ops system (Suc 0) s = (stop, t)" using assms by (simp add: run_def system_def)
  show ?thesis
  proof (cases q)
    case (Inl e)
    have st: "progress 0 s (c, b)" using progress_trans [OF p] progress_step [OF q] Inl by fastforce
    have sy: "sys c \<noteq> None \<longleftrightarrow> system" using st by (simp add: progress_def system_def)
    have "progress 0 s t \<and> stop \<noteq> Ecall"
    proof (cases system)
      case True
      then have "(stop, t) = (Budget, (exception_to_trap e c, b))"
        using run q Inl True by (simp add: run_loop_Suc)
      then show ?thesis using progress_trans [OF st progress_trap] sy True by simp
    next
      case False
      then show ?thesis using run q Inl st by (auto simp: run_loop_Suc)
    qed
    then show ?thesis by blast
  next
    case (Inr r)
    have "progress 1 s (c, b)" using progress_trans [OF p] progress_step [OF q] Inr by fastforce
    moreover have "t = (c, b)" using run q Inr by (cases r) (simp_all add: run_loop_Suc)
    ultimately show ?thesis by auto
  qed
qed

text \<open>A block: when it stops for its budget with nothing retired, an interrupt was taken.\<close>

lemma run_block:
  assumes "system = (sys (fst s) \<noteq> None)" and "run_decoded_loop ops system ds s = (r, t)"
  shows "\<exists>k \<le> length ds. progress k s t \<and> (r = Stop Ecall \<longrightarrow> k \<noteq> 0)
    \<and> (k = 0 \<longrightarrow> ds \<noteq> [] \<longrightarrow> r = Stop Budget \<longrightarrow> irq_rank (fst t) < irq_rank (fst s))"
  using assms
proof (induction ds arbitrary: s)
  case Nil
  then show ?case using progress_refl by fastforce
next
  case (Cons d ds)
  let ?s1 = "before_step ops system s"
  have p: "progress 0 s ?s1" by (rule progress_before) (rule Cons.prems)
  show ?case
  proof (cases "system \<and> fst (poll ops s)")
    case True
    then have po: "poll ops s = (True, t)" and "r = Stop Budget" using Cons.prems(2) by (cases "poll ops s", simp add: Let_def)+
    then show ?thesis using progress_poll [OF po] poll_rank [OF po] by (intro exI [of _ 0]) simp
  next
    case False
    obtain q c b where q: "execute_decoded ops d ?s1 = (q, (c, b))" by (cases "execute_decoded ops d ?s1") auto
    have run: "run_decoded_loop ops system (d # ds) s =
        (case (q, (c, b)) of
           (Inr None, s2) \<Rightarrow> if pc (fst s2) \<noteq> pc (fst ?s1) + byte_len d then (Stop Budget, s2)
                            else run_decoded_loop ops system ds s2
         | (Inr (Some stop), s2) \<Rightarrow> (Stop stop, s2)
         | (Inl e, (c, b)) \<Rightarrow> if system then (Trapped, (exception_to_trap e c, b)) else (Stop (TrapStop e), (c, b)))"
      using False q by (cases "poll ops s") (auto simp: before_step_def Let_def split: if_splits)
    show ?thesis
    proof (cases q)
      case (Inl e)
      have st: "progress 0 s (c, b)" using progress_trans [OF p] progress_execute [OF q] Inl by fastforce
      have sy: "sys c \<noteq> None \<longleftrightarrow> system" using st Cons.prems(1) by (simp add: progress_def)
      have "progress 0 s t \<and> r \<noteq> Stop Ecall \<and> r \<noteq> Stop Budget"
        using Cons.prems(2) Inl st progress_trans [OF st progress_trap] sy unfolding run by (auto split: if_splits)
      then show ?thesis by blast
    next
      case (Inr o')
      have st: "progress 1 s (c, b)" using progress_trans [OF p] progress_execute [OF q] Inr by fastforce
      have sy: "system = (sys (fst (c, b)) \<noteq> None)" using st Cons.prems(1) by (simp add: progress_def)
      show ?thesis
      proof (cases "o' = None \<and> pc c = pc (fst ?s1) + byte_len d")
        case True
        then have "run_decoded_loop ops system ds (c, b) = (r, t)"
          using Cons.prems(2) Inr unfolding run by simp
        from Cons.IH [OF sy this] obtain k where "k \<le> length ds" "progress k (c, b) t" by blast
        then have "progress (1 + k) s t" "1 + k \<le> length (d # ds)" using progress_trans [OF st] by auto
        then show ?thesis by (metis add_is_0 zero_neq_one)
      next
        case False
        then have "t = (c, b)" using Cons.prems(2) Inr unfolding run by (auto split: option.splits if_splits)
        then show ?thesis using st by (intro exI [of _ 1]) simp
      qed
    qed
  qed
qed

section \<open>The cache lends no empty block\<close>

definition filled :: "code_page \<Rightarrow> bool" where
  "filled p \<longleftrightarrow> page_shape p \<and> (\<forall>slot < CODE_PAGE_HALFWORDS. \<forall>a e.
     cb_range (cp_blocks p ! slot) = Some (a, e) \<longrightarrow> a < e \<and> e \<le> length (instructions p))"

lemma filledD:
  "filled p \<Longrightarrow> slot < CODE_PAGE_HALFWORDS \<Longrightarrow> cb_range (cp_blocks p ! slot) = Some (a, e) \<Longrightarrow>
     a < e \<and> e \<le> length (instructions p)"
  unfolding filled_def by blast

lemma filledI:
  "page_shape p \<Longrightarrow> (\<And>slot a e. slot < CODE_PAGE_HALFWORDS \<Longrightarrow> cb_range (cp_blocks p ! slot) = Some (a, e) \<Longrightarrow>
     a < e \<and> e \<le> length (instructions p)) \<Longrightarrow> filled p"
  unfolding filled_def by blast

lemma filled_shape: "filled p \<Longrightarrow> page_shape p"
  by (simp add: filled_def)

lemma empty_filled:
  "page_shape p \<Longrightarrow> filled (p\<lparr>cp_blocks := replicate (length (cp_blocks p)) cb_default, instructions := []\<rparr>)"
  by (rule filledI) (simp_all add: page_shape_def cb_default_def cb_range_def)

definition cache_filled :: "code_cache \<Rightarrow> bool" where
  "cache_filled c \<longleftrightarrow> length c = CODE_CACHE_PAGES \<and> (\<forall>p. Some p \<in> set c \<longrightarrow> filled p)"

lemma cache_new_filled: "cache_filled cache_new"
  by (auto simp: cache_filled_def cache_new_def)

lemma scan_block_length: "length (snd (scan_block page n off)) \<le> n"
proof (induction n arbitrary: off)
  case (Suc n)
  have if_len: "length (snd x) \<le> k \<Longrightarrow> length (snd y) \<le> k \<Longrightarrow> length (snd (if b then x else y)) \<le> k"
    for x y :: "bool \<times> 'b list" and b and k by simp
  show ?case
    unfolding scan_block.simps Let_def case_prod_beta
    by (intro if_len; simp only: snd_conv list.size Suc_le_mono Suc.IH add_0 add_Suc add_Suc_right add_0_right zero_le)
qed simp

lemma fill_block_filled:
  assumes "fill_block page off p = (r, p')" and "filled p"
    and "length (instructions p) + DECODED_BLOCK_MAX \<le> DECODED_PAGE_ARENA_MAX"
  shows "filled p' \<and> r \<noteq> Some []"
proof -
  let ?st = "length (instructions p)"
  obtain fine items where s: "scan_block page DECODED_BLOCK_MAX off = (fine, items)" by fastforce
  have n: "?st + 64 \<le> 8192" "length items \<le> 64"
    using assms(3) scan_block_length [of page DECODED_BLOCK_MAX off] s by (simp_all add: code_sizes)
  let ?q = "p\<lparr>instructions := instructions p @ map snd items\<rparr>"
  let ?w = "?q\<lparr>cp_blocks := set_blocks ?st (map fst items) (cp_blocks p)\<rparr>"
  have sh: "page_shape ?q" using filled_shape [OF assms(2)] n by (simp add: page_shape_def code_sizes)
  have old: "a < e \<and> e \<le> ?st + length items"
    if "slot < CODE_PAGE_HALFWORDS" "cb_range (cp_blocks p ! slot) = Some (a, e)" for slot a e
    using filledD [OF assms(2) that] by simp
  then have q: "filled ?q" using sh by (intro filledI) simp_all
  have "a < e \<and> e \<le> ?st + length items"
    if "slot < CODE_PAGE_HALFWORDS" "cb_range (set_blocks ?st (map fst items) (cp_blocks p) ! slot) = Some (a, e)"
    for slot a e
    using set_blocks_nth [of ?st "map fst items" "cp_blocks p" slot]
  proof
    assume "set_blocks ?st (map fst items) (cp_blocks p) ! slot = cp_blocks p ! slot"
    then show ?thesis using old that by simp
  next
    assume "\<exists>i < length (map fst items). map fst items ! i = slot
      \<and> set_blocks ?st (map fst items) (cp_blocks p) ! slot
        = \<lparr>offset_plus_one = of_nat (?st + 1) + of_nat i, cb_len = of_nat (length (map fst items) - i)\<rparr>"
    then obtain i where i: "i < length items" and "set_blocks ?st (map fst items) (cp_blocks p) ! slot
        = \<lparr>offset_plus_one = of_nat (?st + 1) + of_nat i, cb_len = of_nat (length items - i)\<rparr>"
      unfolding length_map by blast
    from that(2) [unfolded this(2) new_entry_range [OF n(1) i n(2)]] i show ?thesis by simp
  qed
  then have "filled ?w" using sh by (intro filledI) (simp_all add: page_shape_def)
  moreover have "(r, p') = (if \<not> fine \<or> items = [] \<or> 2 ^ 32 \<le> ?st + 1 then (None, ?q) else (Some (map snd items), ?w))"
    unfolding assms(1) [symmetric] by (simp add: fill_block_def s Let_def)
  ultimately show ?thesis using q by (cases "\<not> fine \<or> items = [] \<or> 2 ^ 32 \<le> ?st + 1") simp_all
qed

lemma page_block_filled:
  assumes "page_block ram off p = (r, p')" and "filled p" and "off < 0x1000"
  shows "filled p' \<and> r \<noteq> Some []"
proof (cases "cb_range (cp_blocks p ! (off div 2))")
  case (Some t)
  obtain a e where t: "t = (a, e)" by (cases t)
  have "off div 2 < CODE_PAGE_HALFWORDS" using assms(3) by (simp add: CODE_PAGE_HALFWORDS_def)
  from filledD [OF assms(2) this, of a e] Some t have "a < e \<and> e \<le> length (instructions p)" by simp
  moreover from this have "length (slice_at a (e - a) (instructions p)) \<noteq> 0" by (simp add: length_slice_at)
  ultimately have "get_range t (instructions p) \<noteq> Some []" by (simp add: t get_range_def)
  then show ?thesis using assms(1,2) Some by (auto simp: page_block_def)
next
  case None
  have m: "filled (make_room p)"
    unfolding make_room_def using empty_filled [OF filled_shape [OF assms(2)]] assms(2) by (simp only: split: if_split) simp
  have l: "length (instructions (make_room p)) + DECODED_BLOCK_MAX \<le> DECODED_PAGE_ARENA_MAX"
    unfolding make_room_def code_sizes by simp
  then show ?thesis using assms(1) None m fill_block_filled [OF _ m l]
    by (auto simp: page_block_def Let_def split: option.splits)
qed

lemma cache_block_filled:
  assumes "cache_block ram a gen c = (r, c')" and "cache_filled c"
  shows "cache_filled c' \<and> r \<noteq> Some []"
proof (cases "unat (a AND 0xfff) AND 1 \<noteq> 0 \<or> 0xffe < unat (a AND 0xfff)")
  case True
  then show ?thesis using assms by (auto simp: cache_block_def Let_def)
next
  case False
  let ?pp = "a AND NOT 0xfff" and ?slot = "cache_slot (a AND NOT 0xfff)"
  let ?p = "install_page ?pp gen (c ! ?slot)"
  obtain p' where b: "page_block ram (unat (a AND 0xfff)) ?p = (r, p')" and c': "c' = c[?slot := Some p']"
    using assms(1) False by (auto simp: cache_block_def Let_def split: prod.splits)
  have "?slot < length c" using cache_slot_bound assms(2) by (simp add: cache_filled_def)
  then have old: "c ! ?slot = Some q \<Longrightarrow> filled q" for q using assms(2) by (metis cache_filled_def nth_mem)
  have new: "filled (code_page_new pp g)" "filled q \<Longrightarrow> filled (code_page_reset pp g q)" for pp g q
    by (auto dest!: filled_shape intro!: filledI
        simp: page_shape_def code_page_new_def code_page_reset_def cb_default_def cb_range_def)
  have "filled ?p" using old new by (auto simp: install_page_def split: option.split)
  from page_block_filled [OF b this page_offset_bound] have "filled p'" "r \<noteq> Some []" by blast+
  moreover have "set c' \<subseteq> insert (Some p') (set c)" unfolding c' by (rule set_update_subset_insert)
  ultimately show ?thesis using assms(2) c' by (auto simp: cache_filled_def)
qed

section \<open>The loop over blocks returns\<close>

lemma clip_nonempty: "ds \<noteq> [] \<Longrightarrow> clip contains p ds \<noteq> []"
  by (cases ds) (simp_all add: Let_def)

lemma clip_length: "length (clip contains p ds) \<le> length ds"
  by (induction ds arbitrary: p) (simp_all add: Let_def)

lemma probe_progress:
  assumes "jit_probe_fetch ops va s = (r, t)"
  shows "progress 0 s t"
proof -
  obtain q u where q: "translate ops va Fetch s = (q, u)" by (rule prod.exhaust)
  have "unchanged (fst s) (fst u)"
    using quiet.within_translate [of ops va Fetch] q unfolding within_def by (metis snd_conv)
  moreover have "t = u" using assms q by (cases q) (simp_all add: jit_probe_fetch_def)
  ultimately show ?thesis by (simp add: progress_unchanged)
qed

lemma next_block_ok:
  assumes "next_block ops s c = (r, t, c')" and "cache_filled c"
  shows "progress 0 s t \<and> cache_filled c' \<and> r \<noteq> Some []"
proof -
  obtain q u where q: "jit_probe_fetch ops (pc (fst s)) s = (q, u)" by (rule prod.exhaust)
  note p = probe_progress [OF q]
  show ?thesis
  proof (cases q)
    case None
    then show ?thesis using assms q p by (simp add: next_block_def)
  next
    case (Some a)
    obtain r' k where b: "cache_block (dm_ram (vb_mem (snd u))) a (icache_gen (fst u)) c = (r', k)" by (rule prod.exhaust)
    have "(r, t, c') = (None, u, c) \<or> (r, t, c') = (r', u, k)"
      using assms(1) q Some b by (simp add: next_block_def Let_def split: if_splits)
    then show ?thesis using cache_block_filled [OF b assms(2)] assms(2) p by auto
  qed
qed

lemma run_uncached_ok:
  assumes "run_uncached_one ops stalled s = (stop, stalled', t)"
  shows "\<exists>k \<le> 1. progress k s t \<and> (stop = Some (CpuStop Ecall) \<longrightarrow> k = 1)
    \<and> stalled' = (if k = 0 then saturating_add stalled 1 else 0)"
proof -
  obtain st u where r: "run ops 1 s = (st, u)" by (rule prod.exhaust)
  then have e: "t = u" "stop = (if st \<noteq> Budget then Some (CpuStop st) else None)"
    "stalled' = (if insn_count (fst u) = insn_count (fst s) then saturating_add stalled 1 else 0)"
    using assms by (auto simp: run_uncached_one_def Let_def)
  from run_one [OF r] obtain k where k: "k \<le> 1" "progress k s u" "st = Ecall \<longrightarrow> k = 1" by blast
  then have "insn_count (fst u) = insn_count (fst s) \<longleftrightarrow> k = 0" by (cases k) (auto simp: progress_def)
  then show ?thesis using k e by (intro exI [of _ k]) auto
qed

text \<open>
  The measure: instructions left, the interrupts still possible before the next one retires, and the
  traps that may still stall.
\<close>

definition work :: "u64 \<Rightarrow> nat \<Rightarrow> nat \<Rightarrow> u64 \<Rightarrow> nat" where
  "work max_insns past rank stalled =
     (unat max_insns - past) * (3 * Suc (unat max_insns)) + rank * Suc (unat max_insns)
     + (unat max_insns - unat stalled)"

lemma work_retire:
  assumes "past + k \<le> unat max_insns" and "0 < k" and "rank' \<le> 2"
  shows "work max_insns (past + k) rank' stalled' < work max_insns past rank stalled"
proof -
  let ?n = "unat max_insns"
  define w where "w = Suc ?n"
  have "Suc (?n - (past + k)) * (3 * w) \<le> (?n - past) * (3 * w)" using assms(1,2) by (intro mult_le_mono1) simp
  moreover have "rank' * w \<le> 2 * w" using assms(3) by (rule mult_le_mono1)
  ultimately show ?thesis unfolding work_def w_def [symmetric] mult_Suc using w_def by linarith
qed

lemma work_rank:
  assumes "rank' < rank"
  shows "work max_insns past rank' stalled' < work max_insns past rank stalled"
proof -
  have "Suc rank' * Suc (unat max_insns) \<le> rank * Suc (unat max_insns)" using assms by (intro mult_le_mono1) simp
  then show ?thesis by (simp add: work_def)
qed

lemma saturating_add_1:
  assumes "stalled < m"
  shows "unat (saturating_add stalled 1) = Suc (unat (stalled :: u64))"
proof -
  have "unat m < 2 ^ 64" by (rule order_less_le_trans [OF unsigned_less]) simp
  then have "unat stalled + 1 < 2 ^ 64" using assms by (simp add: word_less_nat_alt)
  then show ?thesis by (simp add: saturating_add_def unat_word_ariths)
qed

lemma work_stall:
  assumes "stalled < max_insns" and "rank' \<le> rank"
  shows "work max_insns past rank' (saturating_add stalled 1) < work max_insns past rank stalled"
proof -
  have "rank' * Suc (unat max_insns) \<le> rank * Suc (unat max_insns)" using assms(2) by (rule mult_le_mono1)
  moreover have "unat max_insns - unat (saturating_add stalled 1) < unat max_insns - unat stalled"
    unfolding saturating_add_1 [OF assms(1)] using assms(1) by (simp add: word_less_nat_alt)
  ultimately show ?thesis by (simp add: work_def)
qed

lemma work_decreases:
  assumes "progress k s t" and "past + k \<le> unat max_insns"
    and "k = 0 \<Longrightarrow> irq_rank (fst t) < irq_rank (fst s) \<or> stalled < max_insns \<and> stalled' = saturating_add stalled 1"
  shows "work max_insns (past + k) (irq_rank (fst t)) stalled' < work max_insns past (irq_rank (fst s)) stalled"
proof (cases "k = 0")
  case True
  then show ?thesis using assms work_rank work_stall by (auto simp: progress_def)
next
  case False
  then show ?thesis using assms(2) irq_rank_le by (intro work_retire) auto
qed

text \<open>What a run of the loop promises, from a state in which \<open>past\<close> instructions have retired.\<close>

definition run_ok :: "u64 \<Rightarrow> u64 \<Rightarrow> nat \<Rightarrow> cpu \<times> virt_bus \<Rightarrow>
    (interpreter_stop \<times> (cpu \<times> virt_bus) \<times> code_cache \<times> 'd) option \<Rightarrow> bool" where
  "run_ok start max_insns past s r \<longleftrightarrow>
     (\<exists>stop t c d k. r = Some (stop, t, c, d) \<and> insn_count (fst t) = start + of_nat k \<and> past \<le> k
        \<and> k \<le> unat max_insns \<and> cache_filled c \<and> (stop = CpuStop Ecall \<longrightarrow> past < k)
        \<and> (sys (fst t) = None \<longleftrightarrow> sys (fst s) = None))"

lemma run_ok_stop:
  assumes "progress k s t" and "insn_count (fst s) = start + of_nat past" and "past + k \<le> unat max_insns"
    and "cache_filled c" and "stop = CpuStop Ecall \<Longrightarrow> k \<noteq> 0"
  shows "run_ok start max_insns past s (Some (stop, t, c, d))"
  unfolding run_ok_def
  by (rule exI [of _ stop], rule exI [of _ t], rule exI [of _ c], rule exI [of _ d], rule exI [of _ "past + k"])
    (use assms in \<open>auto simp: progress_def add_ac\<close>)

lemma run_okI:
  assumes "insn_count (fst t) = start + of_nat k" and "past \<le> k" and "k \<le> unat max_insns" and "cache_filled c"
    and "stop = CpuStop Ecall \<longrightarrow> past < k" and "sys (fst t) = None \<longleftrightarrow> sys (fst s) = None"
  shows "run_ok start max_insns past s (Some (stop, t, c, d))"
  unfolding run_ok_def
  by (rule exI [of _ stop], rule exI [of _ t], rule exI [of _ c], rule exI [of _ d], rule exI [of _ k])
    (intro conjI refl assms)

lemma run_okE:
  assumes "run_ok start max_insns past s r"
  obtains stop t c d k where "r = Some (stop, t, c, d)" and "insn_count (fst t) = start + of_nat k" and "past \<le> k"
    and "k \<le> unat max_insns" and "cache_filled c" and "stop = CpuStop Ecall \<longrightarrow> past < k"
    and "sys (fst t) = None \<longleftrightarrow> sys (fst s) = None"
  using assms unfolding run_ok_def by (elim exE conjE) (rule that)

lemma run_ok_trans:
  assumes "progress k s t" and "run_ok start max_insns (past + k) t r"
  shows "run_ok start max_insns past s r"
proof -
  from assms(2) obtain stop u c d m where r: "r = Some (stop, u, c, d)" "insn_count (fst u) = start + of_nat m"
    "past + k \<le> m" "m \<le> unat max_insns" "cache_filled c" "stop = CpuStop Ecall \<longrightarrow> past + k < m"
    "sys (fst u) = None \<longleftrightarrow> sys (fst t) = None"
    by (rule run_okE)
  have "past \<le> m" using r(3) by simp
  moreover have "stop = CpuStop Ecall \<longrightarrow> past < m" using r(6) by (cases "stop = CpuStop Ecall") auto
  moreover have "sys (fst u) = None \<longleftrightarrow> sys (fst s) = None" using r(7) assms(1) by (simp add: progress_def)
  ultimately show ?thesis unfolding r(1) using r(2,4,5) by (intro run_okI)
qed

lemma cached_loop_returns:
  assumes "cache_filled c" and "insn_count (fst s) = start + of_nat past" and "past \<le> unat max_insns"
    and "work max_insns past (irq_rank (fst s)) stalled < n"
  shows "run_ok start max_insns past s (cached_loop n ops dp capable start max_insns first_block stalled s c d)"
  using assms
proof (induction n arbitrary: past stalled first_block s c d)
  case 0
  then show ?case by simp
next
  case (Suc n)
  have again: "run_ok start max_insns past s (cached_loop n ops dp capable start max_insns False stalled' t c' d')"
    if "progress k s t" "past + k \<le> unat max_insns" "cache_filled c'"
      "k = 0 \<Longrightarrow> irq_rank (fst t) < irq_rank (fst s) \<or> stalled < max_insns \<and> stalled' = saturating_add stalled 1"
    for k t c' d' stalled'
    using Suc.prems(2,4) that work_decreases [OF that(1,2,4)]
    by (intro run_ok_trans [OF that(1)] Suc.IH) (auto simp: progress_def)
  obtain hit d1 where h: "(if first_block then (False, d) else dp_observe dp (pc (fst s)) d) = (hit, d1)" by (rule prod.exhaust)
  have "unat max_insns < 2 ^ 64" by (rule order_less_le_trans [OF unsigned_less]) simp
  then have u: "unat (of_nat past :: u64) = past" using Suc.prems(3) by (intro of_nat_inverse [OF refl]) simp
  have w: "insn_count (fst s) - start = of_nat past" using Suc.prems(2) by simp
  have stop_here: "run_ok start max_insns past s (Some (st, s, c, d1))" if "st \<noteq> CpuStop Ecall" for st
    using run_ok_stop [OF progress_refl Suc.prems(2) _ Suc.prems(1), of max_insns st d1] Suc.prems(3) that by simp
  show ?case
  proof (cases "hit \<or> max_insns \<le> of_nat past \<or> max_insns \<le> stalled")
    case True
    then show ?thesis using stop_here Suc.prems(3) by (auto simp: h w)
  next
    case False
    then have lt: "past < unat max_insns" "stalled < max_insns" using u by (auto simp: word_le_nat_alt word_less_nat_alt)
    obtain r t c1 where b: "next_block ops s c = (r, t, c1)" by (metis prod.exhaust)
    note nb = next_block_ok [OF b Suc.prems(1)]
    show ?thesis
    proof (cases r)
      case None
      obtain stop stalled' t' where o1: "run_uncached_one ops stalled t = (stop, stalled', t')" by (metis prod.exhaust)
      from run_uncached_ok [OF o1] obtain k where k: "k \<le> 1" "progress k t t'" "stop = Some (CpuStop Ecall) \<longrightarrow> k = 1"
        "stalled' = (if k = 0 then saturating_add stalled 1 else 0)" by blast
      have p: "progress k s t'" using progress_trans [OF conjunct1 [OF nb] k(2)] by simp
      show ?thesis
      proof (cases stop)
        case None
        then show ?thesis using again [OF p _ conjunct1 [OF conjunct2 [OF nb]], of stalled' d1] k lt False \<open>r = None\<close>
          by (simp add: h w b o1 del: One_nat_def)
      next
        case (Some st)
        then show ?thesis using run_ok_stop [OF p Suc.prems(2) _ conjunct1 [OF conjunct2 [OF nb]], of max_insns st d1] k lt False \<open>r = None\<close>
          by (simp add: h w b o1 del: One_nat_def)
      qed
    next
      case (Some block)
      define blk where "blk = (if capable then clip (dp_contains dp d1) (pc (fst s)) (take (unat (max_insns - of_nat past)) block)
        else take (unat (max_insns - of_nat past)) block)"
      have un: "unat (max_insns - of_nat past) = unat max_insns - past"
        using lt u by (simp add: unat_sub word_le_nat_alt)
      have blk: "blk \<noteq> []" "length blk \<le> unat max_insns - past"
        using nb Some lt un clip_nonempty clip_length [of "dp_contains dp d1" "pc (fst s)" "take (unat max_insns - past) block"]
        by (auto simp: blk_def un)
      obtain o2 t' where o2: "run_decoded ops blk t = (o2, t')" by (rule prod.exhaust)
      from run_block [OF refl o2 [unfolded run_decoded_def]] obtain k where k: "k \<le> length blk" "progress k t t'"
        "o2 = Stop Ecall \<longrightarrow> k \<noteq> 0" "k = 0 \<longrightarrow> blk \<noteq> [] \<longrightarrow> o2 = Stop Budget \<longrightarrow> irq_rank (fst t') < irq_rank (fst t)"
        by blast
      have p: "progress k s t'" using progress_trans [OF conjunct1 [OF nb] k(2)] by simp
      have le: "past + k \<le> unat max_insns" using k(1) blk(2) lt by simp
      have rk: "irq_rank (fst t) \<le> irq_rank (fst s)" using nb by (simp add: progress_def)
      have cnt: "insn_count (fst t') = insn_count (fst t) \<longleftrightarrow> k = 0"
      proof -
        have "unat (of_nat k :: u64) = k" using le \<open>unat max_insns < 2 ^ 64\<close> by (intro of_nat_inverse [OF refl]) simp
        then show ?thesis using k(2) by (auto simp: progress_def)
      qed
      note cf = conjunct1 [OF conjunct2 [OF nb]]
      have loop: "cached_loop (Suc n) ops dp capable start max_insns first_block stalled s c d =
        (case (o2, t') of
           (Stop Budget, s) \<Rightarrow> cached_loop n ops dp capable start max_insns False 0 s c1 d1
         | (Stop stop, s) \<Rightarrow> Some (CpuStop stop, s, c1, d1)
         | (Trapped, s) \<Rightarrow> cached_loop n ops dp capable start max_insns False
             (if insn_count (fst s) = insn_count (fst t) then saturating_add stalled 1 else 0) s c1 d1)"
        unfolding o2 [symmetric] blk_def using False Some by (simp add: h w b Let_def)
      show ?thesis
      proof (cases "o2 = Trapped \<or> o2 = Stop Budget")
        case True
        then show ?thesis unfolding loop using again [OF p le cf] k(4) blk(1) rk lt cnt by auto
      next
        case False
        then obtain st where "o2 = Stop st" "st \<noteq> Budget" by (cases o2) auto
        then show ?thesis unfolding loop using run_ok_stop [OF p Suc.prems(2) le cf, of "CpuStop st" d1] k(3)
          by (cases st) auto
      qed
    qed
  qed
qed

section \<open>The slice returns\<close>

text \<open>Fuel that is enough for every run with a budget of \<open>n\<close> instructions.\<close>

definition run_fuel :: "nat \<Rightarrow> nat" where
  "run_fuel n = 3 * Suc n * Suc n"

lemma work_start: "work b 0 (irq_rank c) 0 < run_fuel (unat b)"
proof -
  let ?n = "unat b"
  have "irq_rank c * Suc ?n \<le> 2 * Suc ?n" using irq_rank_le by (rule mult_le_mono1)
  moreover have "run_fuel ?n = ?n * (3 * Suc ?n) + 3 * Suc ?n" by (simp add: run_fuel_def algebra_simps)
  ultimately show ?thesis by (simp add: work_def)
qed

lemma run_fuel_mono: "m \<le> n \<Longrightarrow> run_fuel m \<le> run_fuel n"
  unfolding run_fuel_def by (intro mult_le_mono) simp_all

lemma run_cached_ok:
  assumes "cache_filled c" and "run_fuel (unat b) \<le> fuel"
  shows "run_ok (insn_count (fst s)) b 0 s (run_cached_cpu fuel ops dp capable b s c d)"
  unfolding run_cached_cpu_def using assms work_start [of b "fst s"] by (intro cached_loop_returns) simp_all

lemma sync_keeps [simp]:
  "insn_count (vm_cpu (sync_devices m)) = insn_count (vm_cpu m)" "vm_cache (sync_devices m) = vm_cache m"
  "pc (vm_cpu (sync_devices m)) = pc (vm_cpu m)" "xreg (vm_cpu (sync_devices m)) = xreg (vm_cpu m)"
  by (simp_all add: sync_devices_def Let_def upd_sys_def)

lemma sbi_keeps [simp]:
  "insn_count (vm_cpu (service_sbi m)) = insn_count (vm_cpu m)" "vm_cache (service_sbi m) = vm_cache m"
  by (simp_all add: service_sbi_def sbi_call_def count_call_def sbi_set_timer_def sbi_fence_i_def
      sbi_power_off_def upd_cpu_def upd_bus_def upd_sys_def Let_def)

definition slice_ok :: "virt_machine \<Rightarrow> nat \<Rightarrow> (interpreter_stop \<times> virt_machine \<times> 'd) option \<Rightarrow> bool" where
  "slice_ok m budget r \<longleftrightarrow>
     (\<exists>stop m' d k. r = Some (stop, m', d) \<and> insn_count (vm_cpu m') = insn_count (vm_cpu m) + of_nat k
        \<and> k \<le> budget \<and> cache_filled (vm_cache m'))"

lemma slice_ok_stop:
  assumes "insn_count (vm_cpu m') = insn_count (vm_cpu m) + of_nat k" and "k \<le> budget" and "cache_filled (vm_cache m')"
  shows "slice_ok m budget (Some (stop, m', d))"
  unfolding slice_ok_def using assms by blast

lemma slice_okE:
  assumes "slice_ok m budget r"
  obtains stop m' d k where "r = Some (stop, m', d)" and "insn_count (vm_cpu m') = insn_count (vm_cpu m) + of_nat k"
    and "k \<le> budget" and "cache_filled (vm_cache m')"
  using assms unfolding slice_ok_def by (elim exE conjE) (rule that)

lemma slice_ok_trans:
  assumes "slice_ok m1 (budget - k) r" and "insn_count (vm_cpu m1) = insn_count (vm_cpu m) + of_nat k" and "k \<le> budget"
  shows "slice_ok m budget r"
proof -
  from assms(1) obtain stop m' d j where r: "r = Some (stop, m', d)"
    "insn_count (vm_cpu m') = insn_count (vm_cpu m1) + of_nat j" "j \<le> budget - k" "cache_filled (vm_cache m')"
    by (rule slice_okE)
  show ?thesis unfolding r(1) by (rule slice_ok_stop [where k = "k + j"]) (use r assms in \<open>auto simp: add_ac\<close>)
qed

lemma slice_loop_returns:
  assumes "cache_filled (vm_cache m)" and "run_fuel (unat remaining) \<le> fuel" and "unat remaining < n"
  shows "slice_ok m (unat remaining) (slice_loop n fuel host (Cached dp capable) remaining stop0 m d)"
  using assms
proof (induction n arbitrary: remaining stop0 m d)
  case 0
  then show ?case by simp
next
  case (Suc n)
  show ?case
  proof (cases "remaining = 0 \<or> vm_power_off m")
    case True
    then show ?thesis using slice_ok_stop [of m m 0] Suc.prems(1) by simp
  next
    case False
    define chunk where "chunk = (if needs_periodic_sync (Cached dp capable) \<or> has_external_disk m
      then min remaining INTERPRETER_SYNC_INTERVAL else remaining)"
    have ch: "chunk \<le> remaining" by (simp add: chunk_def)
    then have "run_fuel (unat chunk) \<le> fuel"
      using Suc.prems(2) run_fuel_mono order_trans by (meson word_le_nat_alt)
    from run_cached_ok [OF Suc.prems(1) this, of "(vm_cpu m, vm_bus m)" "virt_bus_ops host" dp capable d]
    obtain stop t c d1 k where r: "run_cached_cpu fuel (virt_bus_ops host) dp capable chunk (vm_cpu m, vm_bus m) (vm_cache m) d
        = Some (stop, t, c, d1)" "insn_count (fst t) = insn_count (vm_cpu m) + of_nat k" "k \<le> unat chunk"
      "cache_filled c" "stop = CpuStop Ecall \<longrightarrow> 0 < k"
      unfolding run_ok_def by auto
    let ?m = "set_run_state t c m" and ?rest = "saturating_sub remaining (of_nat k)"
    have "unat chunk < 2 ^ 64" by (rule order_less_le_trans [OF unsigned_less]) simp
    then have uk: "unat (of_nat k :: u64) = k" using r(3) by (intro of_nat_inverse [OF refl]) simp
    have kr: "k \<le> unat remaining" using r(3) ch by (simp add: word_le_nat_alt)
    have rest: "unat ?rest = unat remaining - k"
      using uk kr by (simp add: saturating_sub_def word_le_nat_alt unat_sub)
    have m: "cache_filled (vm_cache ?m)" "insn_count (vm_cpu ?m) = insn_count (vm_cpu m) + of_nat k"
      "insn_count (vm_cpu ?m) - insn_count (vm_cpu m) = of_nat k"
      using r by (simp_all add: set_run_state_def)
    have done_here: "slice_ok m (unat remaining) (Some (st, mm, d2))"
      if "insn_count (vm_cpu mm) = insn_count (vm_cpu ?m)" "vm_cache mm = vm_cache ?m" for st mm and d2 :: 'a
      using that m kr by (intro slice_ok_stop [where k = k]) simp_all
    have again: "slice_ok m (unat remaining) (slice_loop n fuel host (Cached dp capable) ?rest st mm d2)"
      if "insn_count (vm_cpu mm) = insn_count (vm_cpu ?m)" "vm_cache mm = vm_cache ?m" "0 < k" for st mm d2
    proof (rule slice_ok_trans [where k = k])
      have "run_fuel (unat ?rest) \<le> fuel" using Suc.prems(2) run_fuel_mono [of "unat ?rest" "unat remaining"] rest by simp
      from Suc.IH [OF _ this, of mm st d2] that m rest kr Suc.prems(3)
      show "slice_ok mm (unat remaining - k) (slice_loop n fuel host (Cached dp capable) ?rest st mm d2)" by simp
    qed (use that m kr in simp_all)
    have loop: "slice_loop (Suc n) fuel host (Cached dp capable) remaining stop0 m d =
      (if stop = CpuStop Ecall \<and> vb_direct_sbi (vm_bus ?m) then
         (let m = service_sbi ?m
          in if unsupported_sbi m \<noteq> None then Some (stop, m\<lparr>vm_power_off := True\<rparr>, d1)
             else if vm_power_off m then Some (stop, m, d1)
             else (let (hit, d) = should_stop (Cached dp capable) (pc (vm_cpu m)) d1
                   in if hit then Some (Compiled, m, d)
                      else slice_loop n fuel host (Cached dp capable) ?rest stop m d))
       else if stop = CpuStop Budget \<and> ?rest \<noteq> 0 then
         (let m = sync_devices ?m
          in if machine_pending_request m \<noteq> None then Some (stop, m, d1)
             else if of_nat k = (0 :: u64) then Some (stop, m, d1)
             else if \<not> needs_periodic_sync (Cached dp capable) \<and> \<not> has_external_disk m then Some (stop, m, d1)
             else slice_loop n fuel host (Cached dp capable) ?rest stop m d1)
       else Some (stop, ?m, d1))"
      using False by (simp only: slice_loop.simps backend_run.simps Let_def chunk_def [symmetric] r(1) option.case prod.case m(3) if_False)
    have k0: "of_nat k = (0 :: u64) \<longleftrightarrow> k = 0" using uk by auto
    show ?thesis
    proof (cases "stop = CpuStop Ecall \<and> vb_direct_sbi (vm_bus ?m)")
      case True
      obtain hit d2 where "should_stop (Cached dp capable) (pc (vm_cpu (service_sbi ?m))) d1 = (hit, d2)" by (rule prod.exhaust)
      then show ?thesis unfolding loop if_P [OF True] using True r(5) done_here again by (simp add: Let_def)
    next
      case False
      then show ?thesis unfolding loop if_not_P [OF False] using done_here again k0 by (simp add: Let_def)
    qed
  qed
qed

section \<open>The property\<close>

text \<open>The loops of a slice end for every guest.\<close>

lemma slice_body_returns:
  assumes "cache_filled (vm_cache m)" and "run_fuel (unat max_insns) \<le> fuel"
  shows "\<exists>r m' d'. slice_body fuel host (Cached dp capable) max_insns m d = Some (r, m', d')
    \<and> rs_retired r \<le> max_insns \<and> insn_count (vm_cpu m') = insn_count (vm_cpu m) + rs_retired r
    \<and> cache_filled (vm_cache m')"
proof -
  let ?m = "sync_devices (upd_bus poll_virtio m)"
  have m: "insn_count (vm_cpu ?m) = insn_count (vm_cpu m)" "vm_cache ?m = vm_cache m" by (simp_all add: upd_bus_def)
  show ?thesis
  proof (cases "machine_pending_request ?m")
    case (Some q)
    then show ?thesis using m assms(1) by (simp add: slice_body_def Let_def)
  next
    case None
    have "slice_ok ?m (unat max_insns)
      (slice_loop (Suc (unat max_insns)) fuel host (Cached dp capable) max_insns (CpuStop Budget) ?m d)"
      using assms m by (intro slice_loop_returns) simp_all
    then obtain stop m1 d1 k where r: "slice_loop (Suc (unat max_insns)) fuel host (Cached dp capable) max_insns
        (CpuStop Budget) ?m d = Some (stop, m1, d1)" "insn_count (vm_cpu m1) = insn_count (vm_cpu ?m) + of_nat k"
      "k \<le> unat max_insns" "cache_filled (vm_cache m1)" by (rule slice_okE)
    obtain idle m2 where w: "wfi_idle stop m1 = (idle, m2)" by fastforce
    then have m2: "insn_count (vm_cpu m2) = insn_count (vm_cpu m1)" "vm_cache m2 = vm_cache m1"
      by (auto simp: wfi_idle_def Let_def split: if_splits)
    have "unat max_insns < 2 ^ 64" by (rule order_less_le_trans [OF unsigned_less]) simp
    then have "unat (of_nat k :: u64) = k" using r(3) by (intro of_nat_inverse [OF refl]) simp
    then have "of_nat k \<le> max_insns" using r(3) by (simp add: word_le_nat_alt)
    then show ?thesis using None r w m2 m
      by (simp add: slice_body_def Let_def)
  qed
qed

text \<open>
  Property C3. The only way for a slice of the cached interpreter not to return is a device call that never
  returns. For any machine whose cache has been built by the machine itself, any guest, any dispatch of the
  embedder and any budget: either the slice gives a result, even when the guest's trap vector faults
  for ever or its interrupts never stop, and it reports at most the budget as retired; or the machine has a
  virtio device, and the loops of the slice, which end, have met a queue \<open>qi\<close>, a device \<open>v\<close> and a memory
  for which no number of rounds of the service loop is enough. The fuel needed depends on the budget alone.
\<close>

theorem cached_slice_returns:
  assumes "cache_filled (vm_cache m)" and "run_fuel (unat max_insns) \<le> fuel" and "vb_hang (vm_bus m) = None"
  shows "case run_cached_slice_outcome fuel host max_insns dp capable m d of
      Some (r, m', d') \<Rightarrow> rs_retired r \<le> max_insns \<and> insn_count (vm_cpu m') = insn_count (vm_cpu m) + rs_retired r
        \<and> cache_filled (vm_cache m') \<and> vb_hang (vm_bus m') = None
    | None \<Rightarrow> vb_virtio (vm_bus m) \<noteq> []
        \<and> (\<exists>r m' d' qi v mem. slice_body fuel host (Cached dp capable) max_insns m d = Some (r, m', d')
             \<and> vb_hang (vm_bus m') = Some (qi, v, mem) \<and> (\<forall>n. process n qi (v, mem) = None))"
proof -
  from slice_body_returns [OF assms(1,2), of host dp capable d] obtain r m' d' where
    b: "slice_body fuel host (Cached dp capable) max_insns m d = Some (r, m', d')" "rs_retired r \<le> max_insns"
      "insn_count (vm_cpu m') = insn_count (vm_cpu m) + rs_retired r" "cache_filled (vm_cache m')" by blast
  have o: "run_cached_slice_outcome fuel host max_insns dp capable m d
      = (if vb_hang (vm_bus m') = None then Some (r, m', d') else None)"
    by (simp add: run_cached_slice_outcome_def run_slice_backend_def b(1))
  have "hang_real (vb_virtio (vm_bus m) \<noteq> []) (vm_bus m)" using assms(3) by (simp add: hang_real_def)
  from real.slice_body_inv [OF this b(1)]
  have h: "hang_real (vb_virtio (vm_bus m) \<noteq> []) (vm_bus m')" .
  show ?thesis
  proof (cases "vb_hang (vm_bus m')")
    case None
    then show ?thesis using o b by simp
  next
    case (Some x)
    obtain qi v mem where x: "x = (qi, v, mem)" by (rule prod_cases3)
    have "vb_virtio (vm_bus m) \<noteq> []" "process_call qi (v, mem) = None"
      using h Some x by (auto simp: hang_real_def)
    then show ?thesis using o b(1) Some x process_call_None by auto
  qed
qed

theorem cached_slice_returns_witness:
  "let m = \<lparr>vm_cpu = cpu_new, vm_bus = demo_vbus, vm_cache = cache_new, insns_per_tick = 100, idle_ticks = 0,
       realtime_ticks = None, vm_power_off = False, vm_dtb = [], unsupported_sbi = None, sbi_calls = replicate 8 0\<rparr>;
     never = \<lparr>dp_contains = (\<lambda>_ _. False), dp_observe = (\<lambda>_ d. (False, d))\<rparr>
   in \<exists>r m' d'. run_cached_slice_outcome (run_fuel 5) 0 5 never False m () = Some (r, m', d') \<and> rs_retired r \<le> 5
        \<and> insn_count (vm_cpu m') = insn_count (vm_cpu m) + rs_retired r \<and> cache_filled (vm_cache m')"
proof -
  let ?m = "\<lparr>vm_cpu = cpu_new, vm_bus = demo_vbus, vm_cache = cache_new, insns_per_tick = 100, idle_ticks = 0,
       realtime_ticks = None, vm_power_off = False, vm_dtb = [], unsupported_sbi = None, sbi_calls = replicate 8 0\<rparr>"
  let ?never = "\<lparr>dp_contains = (\<lambda>_ _. False), dp_observe = (\<lambda>_ d :: unit. (False, d))\<rparr>"
  have "cache_filled (vm_cache ?m)" "run_fuel (unat (5 :: u64)) \<le> run_fuel 5" "vb_hang (vm_bus ?m) = None"
    "vb_virtio (vm_bus ?m) = []"
    by (simp_all add: cache_new_filled demo_vbus_def)
  from cached_slice_returns [OF this(1-3), of 0 ?never False "()"] this(4) show ?thesis
    unfolding Let_def by (cases "run_cached_slice_outcome (run_fuel 5) 0 5 ?never False ?m ()") auto
qed

text \<open>
  The other case exists: a machine with one network device whose rings the guest has laid over each other
  never finishes a slice, with any back end, budget and fuel.
\<close>

lemma slice_hangs:
  assumes "vb_virtio (vm_bus m) = [hang_dev 0 0]" and "vb_mem (vm_bus m) = hang_dma 0" and "vb_hang (vm_bus m) = None"
  shows "run_slice_backend fuel host be max_insns m d = None"
proof -
  let ?b = "vm_bus m"
  have idle: "process_call 0 (hang_dev 0 0, hang_dma 0) = Some (hang_dev 0 0, hang_dma 0)"
    by (simp add: process_call_def hang_dev_def queue_default_def)
  have stuck: "process_call 1 (hang_dev 0 0, hang_dma 0) = None"
    using overlapping_rings_hang by (simp add: process_call_None)
  have "process_dev 0 0 ?b = ?b" using assms idle by (simp add: process_dev_def)
  moreover have "hung_at (1, hang_dev 0 0, hang_dma 0) (process_dev 0 1 ?b)"
    using assms stuck by (simp add: process_dev_def hung_at_def)
  ultimately have h: "hung_at (1, hang_dev 0 0, hang_dma 0) (poll_virtio ?b)"
    using assms(1) by (simp add: poll_virtio_def upt_rec)
  have "hung_at (1, hang_dev 0 0, hang_dma 0) (vm_bus m')"
    if "slice_body fuel host be max_insns m d = Some (r, m', d')" for r m' d'
    by (rule hung.slice_body_polled [OF h that])
  then show ?thesis
    by (cases "slice_body fuel host be max_insns m d") (auto simp: run_slice_backend_def hung_at_def)
qed

section \<open>The loop that stops at compiled code does not\<close>

text \<open>
  \<^verbatim>\<open>run_cpu_until\<close> has no bound on stalled traps. A guest in machine mode whose trap handler lies where
  nothing can be fetched never retires an instruction, and the loop never returns.
\<close>

definition stuck :: "cpu \<times> flat_memory \<Rightarrow> bool" where
  "stuck s \<longleftrightarrow> fm_mem (snd s) = [] \<and> (\<exists>y. sys (fst s) = Some y \<and> sys_mode y = Machine \<and> mie y = 0)"

lemma stuck_fetch:
  assumes "stuck s"
  shows "\<exists>e. step flat_bus s = (Inl e, s)"
proof (cases "pc (fst s) AND 1 = 0")
  case True
  have none: "flat_offset (snd s) a n = None \<or> n = 0" for a n
    using assms flat_offset_Some [of "snd s" a n] by (cases "flat_offset (snd s) a n") (auto simp: stuck_def unat_eq_0)
  obtain y where y: "sys (fst s) = Some y" "sys_mode y = Machine" using assms by (auto simp: stuck_def)
  then have "eff_mode (fst s) Fetch = Machine" by (simp add: eff_mode_data sys_of_def)
  then have "translate_slow flat_bus (pc (fst s)) Fetch s = (Inr (pc (fst s)), s)"
    by (simp add: translate_slow_def Let_def retM_def)
  then obtain pa where tr: "translate flat_bus (pc (fst s)) Fetch s = (Inr pa, s)"
    using y(1) by (cases "tlb_tag (fst s) (access_ix Fetch) (tlb_index (pc (fst s))) = translation_tag (fst s) (pc (fst s))")
      (simp_all add: translate_def Let_def retM_def)
  have "try_fetch32 flat_bus pa s = (Inr None, s)"
    using none [of pa 4] by (simp add: try_fetch32_def flat_bus_def flat_fetch32_if_safe_def)
  moreover have "fetch16 flat_bus pa (snd s) = (Inl (InstructionAccessFault pa), snd s)"
    using none [of pa 2] by (simp add: flat_bus_def default_fetch16_def mapErrM_def flat_read_def)
  ultimately have "fetch_word flat_bus s = (Inl (InstructionAccessFault pa), s)"
    using tr by (simp add: fetch_word_def bindM_def run_simps busM_def)
  then show ?thesis using True by (simp add: step_def bindM_def run_simps)
next
  case False
  then show ?thesis by (simp add: step_def bindM_def run_simps)
qed

lemma stuck_run:
  assumes "stuck s"
  shows "\<exists>t. run flat_bus 1 s = (Budget, t) \<and> stuck t \<and> insn_count (fst t) = insn_count (fst s)"
proof -
  obtain c b where s: "s = (c, b)" by (rule prod.exhaust)
  obtain y where y: "sys c = Some y" "sys_mode y = Machine" "mie y = 0" using assms by (auto simp: s stuck_def)
  obtain hit c1 b1 where p: "poll flat_bus s = (hit, (c1, b1))" by (metis prod.exhaust)
  have st: "stuck (c1, b1) \<and> insn_count c1 = insn_count c"
    using assms y p by (auto simp: s stuck_def poll_def check_interrupts_def flat_bus_def default_irq_lines_def Let_def split: if_splits)
  then obtain e where e: "step flat_bus (c1, b1) = (Inl e, (c1, b1))" using stuck_fetch by blast
  obtain y1 where y1: "sys c1 = Some y1" "sys_mode y1 = Machine" "mie y1 = 0" using st by (auto simp: stuck_def)
  have "\<not> trap_delegated (cause e) False y1" using y1(2) by (simp add: trap_delegated_def)
  then have "stuck (exception_to_trap e c1, b1)"
    using st y1 by (simp add: stuck_def exception_to_trap_def take_trap_sys trap_to_simps) (simp add: trap_to_m_def)
  moreover have "run flat_bus 1 s = (Budget, (exception_to_trap e c1, b1))"
    using y(1) p e by (simp add: s run_def run_loop_Suc before_step_def)
  ultimately show ?thesis using st exception_to_trap_count by (simp add: s)
qed

theorem legacy_loop_hangs:
  assumes "stuck s" and "0 < max_insns" and "start = insn_count (fst s)"
  shows "until_loop n flat_bus (\<lambda>_ d. (False, d)) start max_insns s d = None"
  using assms
proof (induction n arbitrary: s)
  case (Suc n)
  from stuck_run [OF Suc.prems(1)] obtain t where
    "run flat_bus 1 s = (Budget, t)" "stuck t" "insn_count (fst t) = insn_count (fst s)" by blast
  then show ?case using Suc.IH [of t] Suc.prems by simp
qed simp

end
