(* ===== verification/MachineSpec.thy ===== *)
theory MachineSpec
  imports CacheRun
begin

unbundle bit_operations_syntax

text \<open>
  Properties of the machine: the guest's clock never goes backward once it follows the host
  (\<open>guest_time_monotone\<close>), and what an SBI call does, field by field (\<open>sbi_call_effects\<close>).
\<close>

section \<open>Time\<close>

lemma time_value_sys:
  "sys c = Some y \<Longrightarrow> time_value c = (if time_scale y = 0 then mtime y else insn_count c div time_scale y + time_offset y)"
  by (simp add: time_value_def checked_div_def)

lemma sync_sys:
  assumes "sys (vm_cpu m) = Some y"
  shows "\<exists>z. sys (vm_cpu (sync_devices m)) = Some z \<and> mtime z = new_mtime m
    \<and> (vb_direct_sbi (vm_bus m) \<longrightarrow> (bit (mip z) 5 \<longleftrightarrow> vb_mtimecmp (vm_bus m) \<le> new_mtime m))
    \<and> (time_scale z = 0 \<or> insns_per_tick m = time_scale z
        \<and> time_offset z = new_mtime m - insn_count (vm_cpu m) div insns_per_tick m)
    \<and> (\<forall>wall. realtime_ticks m = Some wall \<longrightarrow> wall < new_mtime m \<longrightarrow> time_scale z = 0)"
proof -
  let ?b = "(vm_bus m)\<lparr>vb_mtime := new_mtime m\<rparr>"
  define y1 where "y1 = (if vb_direct_sbi (vm_bus m) then set_stip ?b (y\<lparr>mtime := new_mtime m\<rparr>) else y\<lparr>mtime := new_mtime m\<rparr>)"
  define z where "z = set_time_scale (realtime_ticks m) (new_mtime m) (insns_per_tick m) (insn_count (vm_cpu m)) y1"
  have mt: "mtime z = mtime y1" "mip z = mip y1"
    by (simp_all add: z_def set_time_scale_def Let_def split: option.split)
  have b5: "bit IRQ_STIP n \<longleftrightarrow> n = 5" for n unfolding IRQ_STIP_def bit_single by auto
  show ?thesis
  proof (intro exI [of _ z] conjI allI impI)
    show "sys (vm_cpu (sync_devices m)) = Some z"
      using assms by (simp add: sync_devices_def Let_def upd_sys_def z_def y1_def sys_of_def)
    show "mtime z = new_mtime m" unfolding mt y1_def by (simp add: set_stip_def)
    show "bit (mip z) 5 \<longleftrightarrow> vb_mtimecmp (vm_bus m) \<le> new_mtime m" if "vb_direct_sbi (vm_bus m)"
      unfolding mt y1_def using that by (simp add: set_stip_def bit_simps b5)
    show "time_scale z = 0 \<or> insns_per_tick m = time_scale z
      \<and> time_offset z = new_mtime m - insn_count (vm_cpu m) div insns_per_tick m"
      by (auto simp: z_def set_time_scale_def Let_def checked_sub_def split: option.split)
    show "time_scale z = 0" if "realtime_ticks m = Some wall" "wall < new_mtime m" for wall
      using that by (auto simp: z_def set_time_scale_def Let_def)
  qed
qed

text \<open>Right after synchronising, the TIME register, the device timer and the hart's copy agree.\<close>

lemma sync_time:
  assumes "sys (vm_cpu m) = Some y"
  shows "time_value (vm_cpu (sync_devices m)) = new_mtime m \<and> vb_mtime (vm_bus (sync_devices m)) = new_mtime m"
proof -
  have "time_value (vm_cpu (sync_devices m)) = new_mtime m"
    using sync_sys [OF assms] by (auto simp: time_value_sys)
  then show ?thesis by (simp add: sync_devices_def Let_def)
qed

lemma new_mtime_bounds:
  assumes "realtime_ticks m = Some wall" and "sys (vm_cpu m) \<noteq> None"
  shows "wall \<le> new_mtime m \<and> vb_mtime (vm_bus m) \<le> new_mtime m \<and> time_value (vm_cpu m) \<le> new_mtime m"
  using assms by (auto simp: new_mtime_def Let_def max_def)

text \<open>
  What moves the guest's clock: instructions that retire, host time, and synchronising. The guard of
  the first rule says that no counter wraps.
\<close>

inductive time_step :: "virt_machine \<Rightarrow> virt_machine \<Rightarrow> bool" where
  retire: "sys (vm_cpu m) = Some y \<Longrightarrow> unat (insn_count (vm_cpu m)) + unat n < 2 ^ 64 \<Longrightarrow>
    unat (time_offset y) + unat ((insn_count (vm_cpu m) + n) div time_scale y) < 2 ^ 64 \<Longrightarrow>
    time_step m (upd_cpu (\<lambda>c. c\<lparr>insn_count := insn_count c + n\<rparr>) m)"
| host: "time_step m (advance_realtime_ns ns m)"
| sync: "insns_per_tick m \<noteq> 0 \<Longrightarrow> time_step m (sync_devices m)"

lemma div_mono_word: "a \<le> b \<Longrightarrow> (a :: u64) div d \<le> b div d"
  by (simp add: word_le_nat_alt unat_div div_le_mono)

lemma add_mono_word:
  assumes "(a :: u64) \<le> b" and "unat k + unat b < 2 ^ 64"
  shows "a + k \<le> b + k"
proof -
  have "unat (a + k) = unat a + unat k" "unat (b + k) = unat b + unat k"
    using assms by (auto simp: word_le_nat_alt intro!: unat_add_lem [THEN iffD1])
  then show ?thesis using assms(1) by (simp add: word_le_nat_alt)
qed

lemma time_step_mono:
  assumes "time_step m m'" and "realtime_ticks m \<noteq> None" and "sys (vm_cpu m) \<noteq> None"
  shows "time_value (vm_cpu m) \<le> time_value (vm_cpu m') \<and> realtime_ticks m' \<noteq> None \<and> sys (vm_cpu m') \<noteq> None"
  using assms
proof cases
  case (retire y n)
  let ?c = "insn_count (vm_cpu m)"
  have "unat (?c + n) = unat ?c + unat n" using retire(3) by (simp add: unat_word_ariths)
  then have "?c \<le> ?c + n" by (simp add: word_le_nat_alt)
  then have "?c div time_scale y \<le> (?c + n) div time_scale y" by (rule div_mono_word)
  then have "?c div time_scale y + time_offset y \<le> (?c + n) div time_scale y + time_offset y"
    by (rule add_mono_word) (rule retire(4))
  moreover have "sys (vm_cpu m') = Some y" using retire(1,2) by (simp add: upd_cpu_def)
  ultimately show ?thesis using retire(1,2) assms(2) by (simp add: time_value_sys) (simp add: upd_cpu_def)
next
  case (host ns)
  then show ?thesis using assms(2,3) by (simp add: advance_realtime_ns_def Let_def)
next
  case sync
  obtain y wall where "sys (vm_cpu m) = Some y" "realtime_ticks m = Some wall" using assms(2,3) by blast
  then show ?thesis using new_mtime_bounds [of m wall] sync_time [of m y] sync
    by (auto simp: sync_devices_def Let_def upd_sys_def)
qed

lemma time_steps_mono:
  assumes "time_step\<^sup>*\<^sup>* m m'" and "realtime_ticks m \<noteq> None" and "sys (vm_cpu m) \<noteq> None"
  shows "time_value (vm_cpu m) \<le> time_value (vm_cpu m') \<and> realtime_ticks m' \<noteq> None \<and> sys (vm_cpu m') \<noteq> None"
  using assms
proof (induction rule: rtranclp_induct)
  case base
  then show ?case by simp
next
  case (step m1 m2)
  then show ?case using time_step_mono [OF step.hyps(2)] order_trans by blast
qed

text \<open>
  Property C14. Once the guest follows the host's clock, its TIME register never goes backward: over any
  sequence of retired instructions, host samples and synchronisations in which no counter wraps.
  Synchronising makes TIME, the device timer and the hart's copy agree at no less than the host's
  time, and when the guest has run ahead of the host, TIME stands still until the host catches up.
\<close>

theorem guest_time_monotone:
  assumes "time_step\<^sup>*\<^sup>* m m'" and "realtime_ticks m \<noteq> None" and "sys (vm_cpu m) \<noteq> None"
  shows "time_value (vm_cpu m) \<le> time_value (vm_cpu m')
    \<and> (\<exists>wall. realtime_ticks m' = Some wall \<and>
        (let c = vm_cpu (sync_devices m'); t = time_value c
         in time_value (vm_cpu m') \<le> t \<and> wall \<le> t \<and> vb_mtime (vm_bus (sync_devices m')) = t
            \<and> (wall < t \<longrightarrow> (\<forall>n. time_value (c\<lparr>insn_count := n\<rparr>) = t))))"
proof -
  note k = time_steps_mono [OF assms]
  then obtain wall y where w: "realtime_ticks m' = Some wall" "sys (vm_cpu m') = Some y" by blast
  note b = new_mtime_bounds [OF w(1)] and t = sync_time [OF w(2)]
  have "time_value ((vm_cpu (sync_devices m'))\<lparr>insn_count := n\<rparr>) = new_mtime m'" if "wall < new_mtime m'" for n
    using sync_sys [OF w(2)] w(1) that by (auto simp: time_value_sys)
  then show ?thesis using k w b t by (simp add: Let_def)
qed

definition demo_machine :: virt_machine where
  "demo_machine = \<lparr>vm_cpu = enable_system 0 cpu_new, vm_bus = demo_vbus, vm_cache = cache_new, insns_per_tick = 100,
     idle_ticks = 0, realtime_ticks = Some 0, vm_power_off = False, vm_dtb = [], unsupported_sbi = None,
     sbi_calls = replicate 8 0\<rparr>"

lemma demo_machine_sys: "sys (vm_cpu demo_machine) \<noteq> None"
  by (simp add: demo_machine_def enable_system_def Let_def refresh_jit_tlb_context_def)

theorem guest_time_monotone_witness:
  "time_value (vm_cpu demo_machine) \<le> time_value (vm_cpu (sync_devices (advance_realtime_ns 1000 demo_machine)))"
proof -
  have "time_step demo_machine (advance_realtime_ns 1000 demo_machine)" by (rule time_step.host)
  moreover have "time_step (advance_realtime_ns 1000 demo_machine) (sync_devices (advance_realtime_ns 1000 demo_machine))"
    by (rule time_step.sync) (simp add: advance_realtime_ns_def demo_machine_def Let_def)
  ultimately have "time_step\<^sup>*\<^sup>* demo_machine (sync_devices (advance_realtime_ns 1000 demo_machine))" by simp
  from guest_time_monotone [OF this] show ?thesis using demo_machine_sys by (simp add: demo_machine_def)
qed

section \<open>SBI calls\<close>

text \<open>
  What the SBI specification promises of the calls the machine answers, written over the numbers of the
  specification: the calls it knows, the error each returns, and the value.
\<close>

definition sbi_listed :: "u64 \<Rightarrow> u64 \<Rightarrow> bool" where
  "sbi_listed ext f \<longleftrightarrow> ext \<le> 8 \<or> ext = 0x10 \<and> f \<le> 6 \<or> ext = 0x54494d45 \<and> f = 0 \<or> ext = 0x735049 \<and> f = 0
     \<or> ext = 0x52464e43 \<and> f \<le> 6 \<or> ext = 0x48534d \<and> f \<le> 3 \<or> ext = 0x53525354 \<and> f = 0"

definition sbi_error :: "u64 \<Rightarrow> u64 \<Rightarrow> u64 \<Rightarrow> u64 \<Rightarrow> u64" where
  "sbi_error ext f a0 a1 =
     (if \<not> sbi_listed ext f \<or> ext = 0x48534d \<and> f = 3 then - 2
      else if ext = 0x48534d \<and> f = 0 then - 7
      else if ext = 0x48534d \<and> (f = 1 \<or> f = 2 \<and> a0 \<noteq> 0) \<or> ext = 0x735049 \<and> a1 \<notin> {0, - 1}
        \<or> ext = 0x53525354 \<and> \<not> a0 \<le> 2 then - 3
      else 0)"

definition sbi_value :: "u64 \<Rightarrow> u64 \<Rightarrow> u64 \<Rightarrow> u64" where
  "sbi_value ext f a0 =
     (if ext = 0x10 \<and> f \<le> 6 then
        [0x2000000, 0x52563634, 1,
         if a0 \<in> {0x10, 0x54494d45, 0x735049, 0x52464e43, 0x48534d, 0x53525354} then 1 else 0, 0, 0, 1] ! unat f
      else if ext = 2 then - 1 else 0)"

lemma small_words: "w \<le> (8 :: u64) \<Longrightarrow> w \<in> {0, 1, 2, 3, 4, 5, 6, 7, 8}"
proof -
  assume "w \<le> 8"
  then have "unat w \<in> {0, 1, 2, 3, 4, 5, 6, 7, 8}" by (auto simp: word_le_nat_alt)
  then have "(of_nat (unat w) :: u64) \<in> of_nat ` {0, 1, 2, 3, 4, 5, 6, 7, 8}" by (rule imageI)
  then show ?thesis by simp
qed

lemma sbi_call_spec:
  "sbi_call ext f a0 a1 m = (sbi_error ext f a0 a1, sbi_value ext f a0,
     if ext = 0x54494d45 \<and> f = 0 \<or> ext = 0 then sbi_set_timer a0 m
     else if ext = 0x52464e43 \<and> f = 0 \<or> ext = 5 then sbi_fence_i m
     else if ext = 1 then upd_bus (\<lambda>b. b\<lparr>vb_uart := uart_write 0 (ucast a0) (vb_uart b)\<rparr>) m
     else if ext = 0x53525354 \<and> f = 0 \<and> a0 \<le> 2 \<or> ext = 8 then sbi_power_off m
     else if sbi_listed ext f then m else m\<lparr>unsupported_sbi := Some (ext, f)\<rparr>)"
proof -
  note defs = sbi_call_def sbi_defs sbi_error_def sbi_value_def sbi_listed_def b2w_def
  consider (legacy) "ext \<le> 8" | (base) "ext = 0x10" "f \<le> 6" | (base') "ext = 0x10" "\<not> f \<le> 6"
    | (time) "ext = 0x54494d45" | (ipi) "ext = 0x735049" | (rf) "ext = 0x52464e43" "f = 0"
    | (rf') "ext = 0x52464e43" "f \<noteq> 0" | (hsm) "ext = 0x48534d" "f \<le> 3" | (hsm') "ext = 0x48534d" "\<not> f \<le> 3"
    | (srst) "ext = 0x53525354"
    | (other) "\<not> ext \<le> 8" "ext \<notin> {0x10, 0x54494d45, 0x735049, 0x52464e43, 0x48534d, 0x53525354}" by blast
  then show ?thesis
  proof cases
    case legacy
    from small_words [OF this] show ?thesis by (elim insertE emptyE) (simp_all add: defs)
  next
    case base
    then have "f \<le> 8" by (simp add: word_le_nat_alt)
    from small_words [OF this] base show ?thesis by (elim insertE emptyE) (simp_all add: defs)
  next
    case base'
    then have "f \<noteq> 0" "f \<noteq> 1" "f \<noteq> 2" "f \<noteq> 3" "f \<noteq> 4" "f \<noteq> 5" "f \<noteq> 6" by (auto simp: word_le_nat_alt)
    with base' show ?thesis by (simp add: defs)
  next
    case rf'
    then have "1 \<le> f" by (simp add: word_le_nat_alt Suc_le_eq unat_gt_0)
    with rf' show ?thesis by (simp add: defs)
  next
    case hsm
    then have "f \<le> 8" by (simp add: word_le_nat_alt)
    from small_words [OF this] hsm show ?thesis by (elim insertE emptyE) (simp_all add: defs)
  next
    case hsm'
    then have "f \<noteq> 0" "f \<noteq> 1" "f \<noteq> 2" "f \<noteq> 3" by (auto simp: word_le_nat_alt)
    with hsm' show ?thesis by (simp add: defs)
  next
    case other
    then have n: "ext \<noteq> 0" "ext \<noteq> 1" "ext \<noteq> 2" "ext \<noteq> 5" "ext \<noteq> 8" "\<not> ext \<le> 4" "\<not> ext \<le> 7"
      by (auto simp: word_le_nat_alt)
    show ?thesis using other n by (simp add: defs)
  qed (simp_all add: defs)
qed

text \<open>
  Property C15. What an SBI call does, field by field. The answer in \<open>a0\<close> and \<open>a1\<close> is the error and the value
  of the tables above. The instruction-cache generation grows by one for \<^verbatim>\<open>remote_fence_i\<close> and its legacy form;
  a timer call stores the deadline and makes STIP (bit 5 of \<^verbatim>\<open>mip\<close>) the level of its comparison at once;
  legacy putchar appends one byte to the console, unless the guest has the divisor latch selected, and raises
  the transmitter interrupt if it is enabled; a valid reset and a legacy shutdown set the power flags; a call
  that is not listed is recorded as unsupported; the counter of all calls and the one of the
  extension grow by one. Every other register, CSR, device, byte of memory, cache and clock is as it was.
\<close>

theorem sbi_call_effects:
  fixes m :: virt_machine
  defines "ext \<equiv> xreg (vm_cpu m) 17" and "f \<equiv> xreg (vm_cpu m) 16" and "a0 \<equiv> xreg (vm_cpu m) 10"
    and "a1 \<equiv> xreg (vm_cpu m) 11" and "c \<equiv> vm_cpu m" and "b \<equiv> vm_bus m" and "u \<equiv> vb_uart (vm_bus m)"
  defines "k \<equiv> if ext = 0x10 then 1 else if ext = 0x54494d45 then 2 else if ext = 0x735049 then 3
      else if ext = 0x52464e43 then 4 else if ext = 0x48534d then 5 else if ext = 0x53525354 then 6 else (7 :: nat)"
    and "timer \<equiv> ext = 0x54494d45 \<and> f = 0 \<or> ext = 0"
    and "fence \<equiv> ext = 0x52464e43 \<and> f = 0 \<or> ext = 5"
    and "off \<equiv> ext = 0x53525354 \<and> f = 0 \<and> a0 \<le> 2 \<or> ext = 8"
  shows "service_sbi m = m\<lparr>
      vm_cpu := c\<lparr>xreg := (xreg c)(10 := sbi_error ext f a0 a1, 11 := sbi_value ext f a0),
        icache_gen := icache_gen c + (if fence then 1 else 0),
        sys := (if timer then map_option (\<lambda>y. y\<lparr>mip := (if a0 \<le> vb_mtime b then mip y OR 0x20 else mip y AND NOT 0x20)\<rparr>) (sys c)
                else sys c)\<rparr>,
      vm_bus := b\<lparr>vb_mtimecmp := (if timer then a0 else vb_mtimecmp b),
        vb_uart := (if ext = 1 \<and> \<not> bit (lcr u) 7
                    then u\<lparr>tx_out := tx_out u @ [ucast a0], thre_ip := (thre_ip u \<or> bit (ier u) 1)\<rparr> else u),
        vb_power_off := (vb_power_off b \<or> off)\<rparr>,
      vm_power_off := (vm_power_off m \<or> off),
      unsupported_sbi := (if sbi_listed ext f then unsupported_sbi m else Some (ext, f)),
      sbi_calls := (sbi_calls m)[0 := sbi_calls m ! 0 + 1, k := sbi_calls m ! k + 1]\<rparr>"
proof -
  have bk: "sbi_bucket ext = k" by (simp add: sbi_bucket_def k_def ext_def sbi_defs)
  have k0: "k \<noteq> 0" by (simp add: k_def)
  have cc: "count_call ext m = m\<lparr>sbi_calls := (sbi_calls m)[0 := sbi_calls m ! 0 + 1, k := sbi_calls m ! k + 1]\<rparr>"
    using k0 by (simp add: count_call_def bk Let_def)
  have uart: "uart_write 0 (ucast a0) u = (if \<not> bit (lcr u) 7
      then u\<lparr>tx_out := tx_out u @ [ucast a0], thre_ip := (thre_ip u \<or> bit (ier u) 1)\<rparr> else u)"
  proof -
    have d: "lcr u AND 0x80 \<noteq> 0 \<longleftrightarrow> bit (lcr u) 7" "ier u AND 2 \<noteq> 0 \<longleftrightarrow> bit (ier u) 1"
      using and_exp_eq_0_iff_not_bit [of "lcr u" 7] and_exp_eq_0_iff_not_bit [of "ier u" 1] by simp_all
    show ?thesis by (simp add: uart_write_def dlab_def Let_def d)
  qed
  note r = sbi_call_spec [of ext f a0 a1 "count_call ext m"]
  then have e: "snd (snd (sbi_call ext f a0 a1 (count_call ext m))) = snd (snd (sbi_error ext f a0 a1, sbi_value ext f a0,
     if timer then sbi_set_timer a0 (count_call ext m) else if fence then sbi_fence_i (count_call ext m)
     else if ext = 1 then upd_bus (\<lambda>b. b\<lparr>vb_uart := uart_write 0 (ucast a0) (vb_uart b)\<rparr>) (count_call ext m)
     else if off then sbi_power_off (count_call ext m)
     else if sbi_listed ext f then count_call ext m else (count_call ext m)\<lparr>unsupported_sbi := Some (ext, f)\<rparr>))"
    unfolding timer_def fence_def off_def by (rule arg_cong)
  have s: "service_sbi m = upd_cpu (\<lambda>c. c\<lparr>xreg := (xreg c)(10 := sbi_error ext f a0 a1, 11 := sbi_value ext f a0)\<rparr>)
      (snd (snd (sbi_call ext f a0 a1 (count_call ext m))))"
    using r by (simp add: service_sbi_def Let_def case_prod_beta ext_def f_def a0_def a1_def)
  consider (t) timer | (fe) "\<not> timer" fence | (p) "\<not> timer" "\<not> fence" "ext = 1"
    | (o) "\<not> timer" "\<not> fence" "ext \<noteq> 1" off | (n) "\<not> timer" "\<not> fence" "ext \<noteq> 1" "\<not> off" by blast
  then show ?thesis
  proof cases
    case t
    then have l: "sbi_listed ext f" "\<not> fence" "\<not> off" "ext \<noteq> 1"
      by (auto simp: timer_def fence_def off_def sbi_listed_def)
    have "snd (snd (sbi_call ext f a0 a1 (count_call ext m))) = sbi_set_timer a0 (count_call ext m)"
      using t unfolding e by simp
    then show ?thesis unfolding s using t l
      by (cases "sys (vm_cpu m)") (simp_all add: cc sbi_set_timer_def upd_bus_def upd_cpu_def upd_sys_def set_stip_def IRQ_STIP_def c_def b_def u_def)
  next
    case fe
    then have l: "sbi_listed ext f" "\<not> off" "ext \<noteq> 1"
      by (auto simp: timer_def fence_def off_def sbi_listed_def)
    have "snd (snd (sbi_call ext f a0 a1 (count_call ext m))) = sbi_fence_i (count_call ext m)"
      using fe unfolding e by simp
    then show ?thesis unfolding s using fe l
      by (simp add: cc sbi_fence_i_def upd_bus_def upd_cpu_def c_def b_def u_def)
  next
    case p
    then have l: "sbi_listed ext f" "\<not> off" by (auto simp: off_def sbi_listed_def)
    have x: "snd (snd (sbi_call ext f a0 a1 (count_call ext m)))
        = upd_bus (\<lambda>b. b\<lparr>vb_uart := uart_write 0 (ucast a0) (vb_uart b)\<rparr>) (count_call ext m)"
      using p unfolding e by simp
    show ?thesis unfolding s unfolding x unfolding cc using p l uart [unfolded u_def] by (simp add: upd_bus_def upd_cpu_def c_def b_def u_def)
  next
    case o
    then have l: "sbi_listed ext f" by (auto simp: off_def sbi_listed_def)
    have "snd (snd (sbi_call ext f a0 a1 (count_call ext m))) = sbi_power_off (count_call ext m)"
      using o unfolding e by simp
    then show ?thesis unfolding s using o l
      by (simp add: cc sbi_power_off_def upd_bus_def upd_cpu_def c_def b_def u_def)
  next
    case n
    have "snd (snd (sbi_call ext f a0 a1 (count_call ext m))) = (if sbi_listed ext f then count_call ext m
        else (count_call ext m)\<lparr>unsupported_sbi := Some (ext, f)\<rparr>)"
      using n unfolding e by simp
    then show ?thesis unfolding s using n
      by (simp add: cc upd_bus_def upd_cpu_def c_def b_def u_def)
  qed
qed

text \<open>
  The fences of other address spaces and the inter-processor interrupt report success, and the calls themselves
  change nothing: neither is a translation dropped nor a software interrupt raised.
\<close>

lemma remote_sfence_changes_nothing:
  "1 \<le> f \<Longrightarrow> f \<le> 6 \<Longrightarrow> sbi_call RFENCE f a0 a1 m = (0, 0, m)"
  "sbi_call IPI 0 a0 0 m = (0, 0, m)"
  by (auto simp: sbi_call_def sbi_defs)

end
