(* ===== verification/BusAccess.thy ===== *)
theory BusAccess
  imports MmuSpec VirtBusSpec
begin

unbundle bit_operations_syntax

text \<open>
  Loads and stores of the hart on the machine's bus, when every byte of the access is resident: its translation
  is in the TLB or needs none. What a store wrote is what a load reads back, also across a page boundary,
  where the accessors split the access into bytes that may lie in unrelated frames.
\<close>

section \<open>RAM behind one access\<close>

text \<open>Where a resident access goes: the physical address of a byte, without a walk.\<close>

definition resident :: "cpu \<Rightarrow> access \<Rightarrow> u64 \<Rightarrow> u64 \<Rightarrow> bool" where
  "resident c a va pa \<longleftrightarrow>
     (if sys c = None then pa = va
      else if tlb_tag c (access_ix a) (tlb_index va) = translation_tag c va
           then pa = va + tlb_diff c (access_ix a) (tlb_index va)
      else bare c a \<and> pa = va)"

lemma translate_resident:
  "resident (fst s) a va pa \<Longrightarrow> translate ops va a s = (Inr pa, s)"
  by (auto simp: resident_def translate_def translate_slow_def bare_def Let_def retM_def run_simps
      split: if_splits option.splits)

definition set_ram :: "u64 \<Rightarrow> u8 list \<Rightarrow> virt_bus \<Rightarrow> virt_bus" where
  "set_ram pa bs b = b\<lparr>vb_mem := (vb_mem b)\<lparr>dm_ram := splice_at (unat pa - 0x80000000) bs (dm_ram (vb_mem b)),
       dm_jit := note_store pa (dm_jit (vb_mem b))\<rparr>\<rparr>"

definition ram_holds :: "virt_bus \<Rightarrow> u64 \<Rightarrow> nat \<Rightarrow> bool" where
  "ram_holds b pa n \<longleftrightarrow> 0x80000000 \<le> unat pa \<and> unat pa + n \<le> 0x80000000 + length (dm_ram (vb_mem b))
     \<and> length (dm_ram (vb_mem b)) < 2 ^ 63"

lemma ram_range:
  "ram_holds b pa n \<Longrightarrow> checked_ram_range (length (dm_ram (vb_mem b))) RAM_BASE pa n
     = Some (unat pa - 0x80000000, unat pa - 0x80000000 + n)"
  by (auto simp: ram_holds_def checked_ram_range_Some RAM_BASE_def)

lemma virt_write_ram:
  "ram_holds b pa n \<Longrightarrow> virt_write n pa val b = (Inr (), set_ram pa (to_le n val) b)"
  using ram_range [of b pa n]
  by (simp add: virt_write_def Let_def ram_store_def jit_check_store_def set_ram_def)

lemma virt_read_ram:
  "ram_holds b pa n \<Longrightarrow> virt_read n pa b = (Inr (from_le (slice_at (unat pa - 0x80000000) n (dm_ram (vb_mem b)))), b)"
  using ram_range [of b pa n] by (simp add: virt_read_def ram_slice_def guest_slice_def)

lemma virt_ops_simps:
  "read8 (virt_bus_ops host) = virt_read 1" "read16 (virt_bus_ops host) = virt_read 2"
  "read32 (virt_bus_ops host) = virt_read 4" "read64 (virt_bus_ops host) = virt_read 8"
  "write8 (virt_bus_ops host) = virt_write 1" "write16 (virt_bus_ops host) = virt_write 2"
  "write32 (virt_bus_ops host) = virt_write 4" "write64 (virt_bus_ops host) = virt_write 8"
  by (simp_all add: virt_bus_ops_def)

definition same_rest :: "virt_bus \<Rightarrow> virt_bus \<Rightarrow> bool" where
  "same_rest b b' \<longleftrightarrow>
     b' = b\<lparr>vb_mem := (vb_mem b)\<lparr>dm_ram := dm_ram (vb_mem b'), dm_jit := dm_jit (vb_mem b')\<rparr>\<rparr>"

lemma same_rest_trans:
  assumes "same_rest a b" and "same_rest b c"
  shows "same_rest a c"
proof -
  obtain r j where b: "b = a\<lparr>vb_mem := (vb_mem a)\<lparr>dm_ram := r, dm_jit := j\<rparr>\<rparr>" using assms(1) unfolding same_rest_def by blast
  obtain s k where c: "c = b\<lparr>vb_mem := (vb_mem b)\<lparr>dm_ram := s, dm_jit := k\<rparr>\<rparr>" using assms(2) unfolding same_rest_def by blast
  show ?thesis unfolding same_rest_def c b by simp
qed

lemma same_rest_refl: "same_rest b b"
  by (simp add: same_rest_def)

text \<open>The memory after a store, and everything else of the bus.\<close>

lemma set_ram_frame:
  assumes "ram_holds b pa (length bs)"
  shows "length (dm_ram (vb_mem (set_ram pa bs b))) = length (dm_ram (vb_mem b))"
    and "k < length (dm_ram (vb_mem b)) \<Longrightarrow> dm_ram (vb_mem (set_ram pa bs b)) ! k =
      (if unat pa \<le> 0x80000000 + k \<and> 0x80000000 + k < unat pa + length bs then bs ! (0x80000000 + k - unat pa)
       else dm_ram (vb_mem b) ! k)"
    and "ram_holds (set_ram pa bs b) q m = ram_holds b q m"
    and "same_rest b (set_ram pa bs b)"
proof -
  note h = assms [unfolded ram_holds_def]
  have fits: "unat pa - 0x80000000 + length bs \<le> length (dm_ram (vb_mem b))" using h by linarith
  show l: "length (dm_ram (vb_mem (set_ram pa bs b))) = length (dm_ram (vb_mem b))"
    using fits by (simp add: set_ram_def)
  show "ram_holds (set_ram pa bs b) q m = ram_holds b q m" by (simp add: ram_holds_def l)
  show "same_rest b (set_ram pa bs b)" by (simp add: set_ram_def same_rest_def)
  have e: "(unat pa - 0x80000000 \<le> k \<and> k < unat pa - 0x80000000 + length bs)
      = (unat pa \<le> 0x80000000 + k \<and> 0x80000000 + k < unat pa + length bs)"
    "k - (unat pa - 0x80000000) = 0x80000000 + k - unat pa"
    using h by auto
  show "dm_ram (vb_mem (set_ram pa bs b)) ! k =
      (if unat pa \<le> 0x80000000 + k \<and> 0x80000000 + k < unat pa + length bs then bs ! (0x80000000 + k - unat pa)
       else dm_ram (vb_mem b) ! k)" if "k < length (dm_ram (vb_mem b))"
    using nth_splice_at [OF fits that]
    unfolding e by (simp add: set_ram_def)
qed

section \<open>Accesses within a page\<close>

lemma fill_jtlb_shape:
  "\<exists>t off. fill_jtlb ops va pa k (c, b) = (Inr (), c\<lparr>jtlb_tag := t, jtlb_off := off\<rparr>, b)"
proof (cases "jit_fast_off ops va pa k b")
  case None
  then show ?thesis by (intro exI [of _ "jtlb_tag c"] exI [of _ "jtlb_off c"]) (simp add: fill_jtlb_def)
next
  case (Some off)
  then show ?thesis by (simp add: fill_jtlb_def set_jtlb_def Let_def) blast
qed

lemma resident_jtlb [simp]: "resident (c\<lparr>jtlb_tag := t, jtlb_off := off\<rparr>) a va pa = resident c a va pa"
proof -
  let ?d = "c\<lparr>jtlb_tag := t, jtlb_off := off\<rparr>"
  have "translation_tag ?d va = translation_tag c va" by (rule tag_sys) simp
  moreover have "bare ?d a = bare c a" by (simp add: bare_def sys_of_def eff_mode_def)
  ultimately show ?thesis by (simp add: resident_def)
qed

lemma wide_bytes:
  assumes "n \<in> {1, 2, 4, 8}" and "length bs = n"
  shows "n = 1 \<Longrightarrow> (ucast (from_le bs :: u8) :: u64) = from_le bs"
    "n = 2 \<Longrightarrow> (ucast (from_le bs :: u16) :: u64) = from_le bs"
    "n = 4 \<Longrightarrow> (ucast (from_le bs :: u32) :: u64) = from_le bs"
  using assms by (auto intro!: bit_word_eqI simp: bit_simps bit_from_le)

lemma narrow_bytes:
  "to_le 1 (ucast (v :: u64) :: u8) = to_le 1 v" "to_le 2 (ucast v :: u16) = to_le 2 v"
  "to_le 4 (ucast v :: u32) = to_le 4 v"
  by (auto intro!: nth_equalityI bit_word_eqI simp: nth_to_le bit_simps)

lemmas narrow = narrow_bytes narrow_bytes(1) [unfolded One_nat_def]

lemma from_le_narrow: "n \<le> 8 \<Longrightarrow> from_le (to_le n v) = take_bit (8 * n) (v :: u64)"
proof (rule bit_word_eqI)
  fix k assume "n \<le> 8" and k: "k < LENGTH(64)"
  have "8 * (k div 8) + k mod 8 = k" "k div 8 < n \<longleftrightarrow> k < 8 * n" by auto
  then show "bit (from_le (to_le n v) :: u64) k = bit (take_bit (8 * n) v) k"
    using k by (auto simp: bit_from_le nth_to_le bit_simps)
qed

lemma st_mem_page:
  assumes "n \<in> {1, 2, 4, 8}" and "\<not> crosses_page n va c" and "resident c access.Store va pa" and "ram_holds b pa n"
  shows "\<exists>t off. st_mem (virt_bus_ops host) n va v (c, b)
    = (Inr (), c\<lparr>jtlb_tag := t, jtlb_off := off\<rparr>, set_ram pa (to_le n v) b)"
proof -
  obtain t off where f: "fill_jtlb (virt_bus_ops host) va pa True (c, b) = (Inr (), c\<lparr>jtlb_tag := t, jtlb_off := off\<rparr>, b)"
    using fill_jtlb_shape [of "virt_bus_ops host" va pa True c b] by blast
  have tr: "translate (virt_bus_ops host) va access.Store (c, b) = (Inr pa, c, b)"
    using assms(3) by (simp add: translate_resident)
  show ?thesis
    by (rule exI [of _ t], rule exI [of _ off])
      (use assms(1,2,4) in \<open>auto simp: st_mem_def bindM_def seqM_def run_simps tr f busM_def virt_ops_simps
        virt_write_ram narrow\<close>)
qed

lemma ld_mem_page:
  assumes "n \<in> {1, 2, 4, 8}" and "\<not> crosses_page n va c" and "resident c Load va pa" and "ram_holds b pa n"
  shows "\<exists>t off. ld_mem (virt_bus_ops host) n va (c, b)
    = (Inr (from_le (slice_at (unat pa - 0x80000000) n (dm_ram (vb_mem b)))), c\<lparr>jtlb_tag := t, jtlb_off := off\<rparr>, b)"
proof -
  obtain t off where f: "fill_jtlb (virt_bus_ops host) va pa False (c, b) = (Inr (), c\<lparr>jtlb_tag := t, jtlb_off := off\<rparr>, b)"
    using fill_jtlb_shape [of "virt_bus_ops host" va pa False c b] by blast
  have tr: "translate (virt_bus_ops host) va Load (c, b) = (Inr pa, c, b)"
    using assms(3) by (simp add: translate_resident)
  have "length (slice_at (unat pa - 0x80000000) n (dm_ram (vb_mem b))) = n"
    using assms(4) unfolding ram_holds_def by (intro length_slice_at) linarith
  note w = wide_bytes [OF assms(1) this]
  show ?thesis
    by (rule exI [of _ t], rule exI [of _ off])
      (use assms(1,2,4) w in \<open>auto simp: ld_mem_def bindM_def seqM_def retM_def run_simps tr f busM_def virt_ops_simps
        virt_read_ram\<close>)
qed

text \<open>The bytes of an access that does not cross a page lie in one frame.\<close>

lemma page_bytes:
  assumes "\<not> crosses_page n va c" and "i < n" and "n \<le> 8"
    and "resident c a va pa" and "resident c a (va + of_nat i) q"
  shows "q = pa + of_nat i"
proof (cases "sys c = None")
  case True
  then show ?thesis using assms(4,5) by (simp add: resident_def)
next
  case False
  have u: "unat (va AND 0xfff) = unat va mod 4096"
  proof -
    have "va AND 0xfff = take_bit 12 va" by (simp add: take_bit_eq_mask mask_eq_exp_minus_1)
    moreover have "unat (take_bit 12 va) = unat va mod 4096" unfolding unsigned_take_bit_eq by (simp add: take_bit_eq_mod)
    ultimately show ?thesis by (rule ssubst)
  qed
  have "unat ((va AND 0xfff) + of_nat n) = unat va mod 4096 + n"
    using assms(3) u by (simp add: unat_word_ariths unat_of_nat)
  then have room: "unat va mod 4096 + n \<le> 4096"
    using assms(1) False by (simp add: crosses_page_def word_less_nat_alt)
  define q0 r0 where "q0 = unat va div 4096" and "r0 = unat va mod 4096"
  have m: "unat va = 4096 * q0 + r0" unfolding q0_def r0_def by simp
  have "unat va < 2 ^ LENGTH(64)" by (rule unsigned_less)
  then have "unat va < 2 ^ 52 * 4096" by simp
  then have q: "q0 < 2 ^ 52" unfolding q0_def by (rule less_mult_imp_div_less)
  have r: "r0 + n \<le> 4096" unfolding r0_def by (rule room)
  have lt: "unat va + i < 2 ^ 64" using q m r assms(2) by simp
  have "(unat va + i) div 4096 = q0"
    by (rule div_nat_eqI) (use m r assms(2) in simp_all)
  then have dv: "(unat va + i) div 4096 = unat va div 4096" by (simp only: q0_def)
  then have "unat (va + of_nat i) div 4096 = unat va div 4096"
    using assms(2,3) lt dv by (simp add: unat_word_ariths unat_of_nat)
  then have "drop_bit 12 (va + of_nat i) = drop_bit 12 va"
    unfolding word_unat_eq_iff unat_drop_bit_eq by (simp add: drop_bit_eq_div)
  then have "tlb_index (va + of_nat i) = tlb_index va" "translation_tag c (va + of_nat i) = translation_tag c va"
    by (simp_all add: tlb_index_def translation_tag_def)
  then show ?thesis using assms(4,5) False by (auto simp: resident_def split: if_splits)
qed

section \<open>Accesses that cross a page\<close>

fun put_all :: "(nat \<Rightarrow> u64) \<Rightarrow> u64 \<Rightarrow> nat list \<Rightarrow> virt_bus \<Rightarrow> virt_bus" where
  "put_all f v [] b = b"
| "put_all f v (i # is) b = put_all f v is (set_ram (f i) [ucast (drop_bit (8 * i) v)] b)"

lemma to_le_one: "to_le (Suc 0) (w :: u8) = [w]"
  by (simp add: to_le_def)

lemma st_bytes_resident:
  assumes "\<And>i. i \<in> set is \<Longrightarrow> resident c access.Store (va + of_nat i) (f i) \<and> ram_holds b (f i) 1"
  shows "st_bytes (virt_bus_ops host) va v is (c, b) = (Inr (), c, put_all f v is b)"
  using assms
proof (induction "is" arbitrary: b)
  case Nil
  then show ?case by (simp add: run_simps)
next
  case (Cons i "is")
  let ?b = "set_ram (f i) [ucast (drop_bit (8 * i) v)] b"
  have r: "resident c access.Store (va + of_nat i) (f i)" "ram_holds b (f i) 1" using Cons.prems by simp_all
  have tr: "translate (virt_bus_ops host) (va + of_nat i) access.Store (c, b) = (Inr (f i), c, b)"
    using r(1) by (simp add: translate_resident)
  have "resident c access.Store (va + of_nat j) (f j) \<and> ram_holds ?b (f j) 1" if "j \<in> set is" for j
    using Cons.prems [of j] that set_ram_frame(3) [of b "f i" "[ucast (drop_bit (8 * i) v)]"] r(2) by simp
  from Cons.IH [OF this] show ?case
    using virt_write_ram [OF r(2), of "ucast (drop_bit (8 * i) v) :: u8"]
    by (simp add: bindM_def seqM_def tr busM_def virt_ops_simps to_le_one)
qed

lemma put_all_frame:
  assumes "\<And>i. i \<in> set is \<Longrightarrow> ram_holds b (f i) 1" and "inj_on f (set is)" and "distinct is"
  shows "length (dm_ram (vb_mem (put_all f v is b))) = length (dm_ram (vb_mem b))"
    and "k < length (dm_ram (vb_mem b)) \<Longrightarrow> i \<in> set is \<Longrightarrow> unat (f i) = 0x80000000 + k
      \<Longrightarrow> dm_ram (vb_mem (put_all f v is b)) ! k = ucast (drop_bit (8 * i) v)"
    and "k < length (dm_ram (vb_mem b)) \<Longrightarrow> \<forall>i \<in> set is. unat (f i) \<noteq> 0x80000000 + k
      \<Longrightarrow> dm_ram (vb_mem (put_all f v is b)) ! k = dm_ram (vb_mem b) ! k"
    and "ram_holds (put_all f v is b) q m = ram_holds b q m"
    and "same_rest b (put_all f v is b)"
proof -
  have *: "length (dm_ram (vb_mem (put_all f v is b))) = length (dm_ram (vb_mem b))
    \<and> (\<forall>k < length (dm_ram (vb_mem b)). dm_ram (vb_mem (put_all f v is b)) ! k =
         (case List.find (\<lambda>i. unat (f i) = 0x80000000 + k) is of Some i \<Rightarrow> ucast (drop_bit (8 * i) v)
          | None \<Rightarrow> dm_ram (vb_mem b) ! k))
    \<and> same_rest b (put_all f v is b)"
    using assms
  proof (induction "is" arbitrary: b)
    case (Cons i "is")
    let ?b = "set_ram (f i) [ucast (drop_bit (8 * i) v)] b"
    have h: "ram_holds b (f i) (length [ucast (drop_bit (8 * i) v) :: u8])" using Cons.prems(1) by simp
    note F = set_ram_frame [OF h]
    have "ram_holds ?b (f j) 1" if "j \<in> set is" for j using Cons.prems(1) that by (simp add: F(3))
    then have IH: "length (dm_ram (vb_mem (put_all f v is ?b))) = length (dm_ram (vb_mem ?b))
      \<and> (\<forall>k < length (dm_ram (vb_mem ?b)). dm_ram (vb_mem (put_all f v is ?b)) ! k =
         (case List.find (\<lambda>i. unat (f i) = 0x80000000 + k) is of Some i \<Rightarrow> ucast (drop_bit (8 * i) v)
          | None \<Rightarrow> dm_ram (vb_mem ?b) ! k))
      \<and> same_rest ?b (put_all f v is ?b)"
      using Cons.IH [of ?b] Cons.prems(2,3) by simp
    have "List.find (\<lambda>j. unat (f j) = 0x80000000 + k) is = None" if "unat (f i) = 0x80000000 + k" for k
    proof -
      have "f j \<noteq> f i" if "j \<in> set is" for j using Cons.prems(2,3) that by (auto simp: inj_on_def)
      then show ?thesis using that by (auto simp: find_None_iff word_unat_eq_iff)
    qed
    then have "dm_ram (vb_mem (put_all f v (i # is) b)) ! k =
         (case List.find (\<lambda>i. unat (f i) = 0x80000000 + k) (i # is) of Some i \<Rightarrow> ucast (drop_bit (8 * i) v)
          | None \<Rightarrow> dm_ram (vb_mem b) ! k)" if "k < length (dm_ram (vb_mem b))" for k
      using IH F(1) F(2) [OF that] that by (auto split: option.split)
    moreover have "same_rest b (put_all f v is ?b)" using same_rest_trans [OF F(4)] IH by blast
    ultimately show ?case using IH F(1) by simp
  qed (simp add: same_rest_refl)
  show l: "length (dm_ram (vb_mem (put_all f v is b))) = length (dm_ram (vb_mem b))" using * by blast
  show "ram_holds (put_all f v is b) q m = ram_holds b q m" by (simp add: ram_holds_def l)
  show "same_rest b (put_all f v is b)" using * by blast
  show "dm_ram (vb_mem (put_all f v is b)) ! k = dm_ram (vb_mem b) ! k"
    if "k < length (dm_ram (vb_mem b))" "\<forall>i \<in> set is. unat (f i) \<noteq> 0x80000000 + k"
  proof -
    have "List.find (\<lambda>i. unat (f i) = 0x80000000 + k) is = None" using that(2) by (auto simp: find_None_iff)
    then show ?thesis using * that(1) by simp
  qed
  show "dm_ram (vb_mem (put_all f v is b)) ! k = ucast (drop_bit (8 * i) v)"
    if k: "k < length (dm_ram (vb_mem b))" "i \<in> set is" "unat (f i) = 0x80000000 + k"
  proof (cases "List.find (\<lambda>i. unat (f i) = 0x80000000 + k) is")
    case None
    then show ?thesis using k by (auto simp: find_None_iff)
  next
    case (Some j)
    then have "j \<in> set is" "unat (f j) = 0x80000000 + k" by (auto simp: find_Some_iff)
    then have "j = i" using k assms(2) by (auto simp: inj_on_def word_unat_eq_iff)
    then show ?thesis using * k(1) Some by simp
  qed
qed

lemma ld_bytes_resident:
  assumes "\<And>i. i \<in> set is \<Longrightarrow> resident c access.Load (va + of_nat i) (f i) \<and> ram_holds b (f i) 1"
  shows "ld_bytes (virt_bus_ops host) va is v (c, b) =
    (Inr (fold (\<lambda>i v. v OR push_bit (8 * i) (ucast (dm_ram (vb_mem b) ! (unat (f i) - 0x80000000)))) is v), c, b)"
  using assms
proof (induction "is" arbitrary: v)
  case Nil
  then show ?case by (simp add: run_simps)
next
  case (Cons i "is")
  have r: "resident c access.Load (va + of_nat i) (f i)" "ram_holds b (f i) 1" using Cons.prems by simp_all
  have tr: "translate (virt_bus_ops host) (va + of_nat i) access.Load (c, b) = (Inr (f i), c, b)"
    using r(1) by (simp add: translate_resident)
  have k: "unat (f i) - 0x80000000 < length (dm_ram (vb_mem b))" using r(2) by (auto simp: ram_holds_def)
  then have "slice_at (unat (f i) - 0x80000000) 1 (dm_ram (vb_mem b)) = [dm_ram (vb_mem b) ! (unat (f i) - 0x80000000)]"
    by (simp add: slice_at_def take_Suc_conv_app_nth)
  then have rd: "virt_read 1 (f i) b = (Inr (dm_ram (vb_mem b) ! (unat (f i) - 0x80000000)), b)"
    using virt_read_ram [OF r(2), where 'a = 8] by simp
  show ?case using Cons by (simp add: bindM_def tr busM_def virt_ops_simps rd [unfolded One_nat_def])
qed

section \<open>What is stored is what is loaded\<close>

text \<open>
  Property C31. A store of 1, 2, 4 or 8 bytes on the machine's bus, in any mode and at any alignment, when each byte
  is resident for storing and for loading at the same physical address of RAM, different for different
  bytes. The store succeeds; the bytes of the value, least significant first, are at those addresses and every
  other byte of RAM, and everything else of the bus but the page bitmaps, is as it was; of the hart only
  the rows of compiled code may change. A load of the same size then reads the value truncated to the size,
  also when the access crosses into a page mapped elsewhere.
\<close>

theorem st_ld_roundtrip:
  assumes "n \<in> {1, 2, 4, 8}"
    and "\<And>i. i < n \<Longrightarrow> resident c access.Store (va + of_nat i) (f i) \<and> resident c access.Load (va + of_nat i) (f i)"
    and "\<And>i. i < n \<Longrightarrow> 0x80000000 \<le> unat (f i) \<and> unat (f i) < 0x80000000 + length (dm_ram (vb_mem b))"
    and "inj_on f {..<n}" and "length (dm_ram (vb_mem b)) < 2 ^ 63"
  shows "\<exists>t off ram jit. let c' = c\<lparr>jtlb_tag := t, jtlb_off := off\<rparr>; b' = b\<lparr>vb_mem := (vb_mem b)\<lparr>dm_ram := ram, dm_jit := jit\<rparr>\<rparr> in
      st_mem (virt_bus_ops host) n va v (c, b) = (Inr (), (c', b'))
      \<and> length ram = length (dm_ram (vb_mem b))
      \<and> (\<forall>i<n. ram ! (unat (f i) - 0x80000000) = ucast (drop_bit (8 * i) v))
      \<and> (\<forall>k<length ram. (\<forall>i<n. unat (f i) \<noteq> 0x80000000 + k) \<longrightarrow> ram ! k = dm_ram (vb_mem b) ! k)
      \<and> fst (ld_mem (virt_bus_ops host) n va (c', b')) = Inr (take_bit (8 * n) v)
      \<and> snd (snd (ld_mem (virt_bus_ops host) n va (c', b'))) = b'"
proof -
  have n8: "n \<le> 8" "0 < n" using assms(1) by auto
  have h1: "ram_holds b (f i) 1" if "i < n" for i using assms(3) [OF that] assms(5) by (simp add: ram_holds_def)
  show ?thesis
  proof (cases "crosses_page n va c")
    case True
    let ?b = "put_all f v [0..<n] b"
    have h: "ram_holds b (f i) 1" if "i \<in> set [0..<n]" for i using h1 that by simp
    have inj: "inj_on f (set [0..<n])" using assms(4) by (simp add: atLeast0LessThan)
    note P = put_all_frame [of "[0..<n]", OF h inj distinct_upt]
    obtain ram jit where b': "?b = b\<lparr>vb_mem := (vb_mem b)\<lparr>dm_ram := ram, dm_jit := jit\<rparr>\<rparr>"
      using P(5) unfolding same_rest_def by blast
    have st: "st_mem (virt_bus_ops host) n va v (c, b) = (Inr (), c, ?b)"
    proof -
      have "st_bytes (virt_bus_ops host) va v [0..<n] (c, b) = (Inr (), c, ?b)"
        by (rule st_bytes_resident) (use assms(2) h in auto)
      then show ?thesis using True by (simp add: st_mem_def bindM_def run_simps)
    qed
    have bytes: "dm_ram (vb_mem ?b) ! (unat (f i) - 0x80000000) = ucast (drop_bit (8 * i) v)" if "i < n" for i
      using P(2) [of "unat (f i) - 0x80000000" i] assms(3) [OF that] that by auto
    have "fold (\<lambda>i w. w OR push_bit (8 * i) (ucast (dm_ram (vb_mem ?b) ! (unat (f i) - 0x80000000)))) [0..<n] 0
        = fold (\<lambda>i w. w OR push_bit (8 * i) (ucast (to_le n v ! i))) [0..<n] (0 :: u64)"
      by (rule fold_cong) (simp_all add: bytes nth_to_le)
    also have "\<dots> = from_le (slice_at 0 n (to_le n v))" using fold_bytes [OF n8(1), of 0 "to_le n v"] by simp
    also have "\<dots> = take_bit (8 * n) v" by (simp add: slice_at_def from_le_narrow n8)
    finally have val: "fold (\<lambda>i w. w OR push_bit (8 * i) (ucast (dm_ram (vb_mem ?b) ! (unat (f i) - 0x80000000)))) [0..<n] 0
        = take_bit (8 * n) v" .
    have ld: "ld_mem (virt_bus_ops host) n va (c, ?b) = (Inr (take_bit (8 * n) v), c, ?b)"
    proof -
      have "ld_bytes (virt_bus_ops host) va [0..<n] 0 (c, ?b) = (Inr (fold (\<lambda>i w. w OR push_bit (8 * i)
          (ucast (dm_ram (vb_mem ?b) ! (unat (f i) - 0x80000000)))) [0..<n] 0), c, ?b)"
        by (rule ld_bytes_resident) (use assms(2) h P(4) in auto)
      then show ?thesis using True val by (simp add: ld_mem_def bindM_def run_simps)
    qed
    have c': "c\<lparr>jtlb_tag := jtlb_tag c, jtlb_off := jtlb_off c\<rparr> = c" by simp
    have ram: "ram = dm_ram (vb_mem ?b)" by (simp add: b')
    show ?thesis
      by (rule exI [of _ "jtlb_tag c"], rule exI [of _ "jtlb_off c"], rule exI [of _ ram], rule exI [of _ jit],
          unfold Let_def c' b' [symmetric])
        (use st ld bytes P(1,3) in \<open>simp add: ram\<close>)
  next
    case False
    have st0: "resident c access.Store va (f 0)" "resident c access.Load va (f 0)" using assms(2) [of 0] n8 by simp_all
    have fi: "f i = f 0 + of_nat i" if "i < n" for i
      using page_bytes [OF False that n8(1) st0(1)] assms(2) [OF that] by blast
    have b0: "0x80000000 \<le> unat (f 0)" "unat (f 0) < 0x80000000 + length (dm_ram (vb_mem b))"
      using assms(3) [of 0] n8(2) by simp_all
    have u: "unat (f i) = unat (f 0) + i" if "i < n" for i
    proof -
      have "unat (f 0) + i < 2 ^ 64" using b0(2) assms(5) that n8(1) by simp
      moreover have "unat (of_nat i :: u64) = i" using that n8(1) by (simp add: unat_of_nat)
      ultimately show ?thesis unfolding fi [OF that] by (simp add: unat_word_ariths)
    qed
    have "unat (f (n - 1)) < 0x80000000 + length (dm_ram (vb_mem b))" using assms(3) [of "n - 1"] n8(2) by simp
    then have h: "ram_holds b (f 0) n" using b0(1) u [of "n - 1"] n8(2) assms(5) by (simp add: ram_holds_def)
    let ?b = "set_ram (f 0) (to_le n v) b"
    have h': "ram_holds b (f 0) (length (to_le n v))" using h by simp
    note P = set_ram_frame [OF h']
    obtain ram jit where b': "?b = b\<lparr>vb_mem := (vb_mem b)\<lparr>dm_ram := ram, dm_jit := jit\<rparr>\<rparr>"
      using P(4) unfolding same_rest_def by blast
    have ram: "ram = dm_ram (vb_mem ?b)" by (simp add: b')
    obtain t off where st: "st_mem (virt_bus_ops host) n va v (c, b) = (Inr (), c\<lparr>jtlb_tag := t, jtlb_off := off\<rparr>, ?b)"
      using st_mem_page [OF assms(1) False st0(1) h] by blast
    let ?c = "c\<lparr>jtlb_tag := t, jtlb_off := off\<rparr>"
    have "\<not> crosses_page n va ?c" "resident ?c access.Load va (f 0)" "ram_holds ?b (f 0) n"
      using False st0(2) h P(3) by (simp_all add: crosses_page_def)
    from ld_mem_page [OF assms(1) this] obtain t' off' where ld: "ld_mem (virt_bus_ops host) n va (?c, ?b)
      = (Inr (from_le (slice_at (unat (f 0) - 0x80000000) n (dm_ram (vb_mem ?b)))), ?c\<lparr>jtlb_tag := t', jtlb_off := off'\<rparr>, ?b)"
      by blast
    have "slice_at (unat (f 0) - 0x80000000) n (dm_ram (vb_mem ?b)) = to_le n v"
    proof -
      have "unat (f 0) - 0x80000000 + length (to_le n v) \<le> length (dm_ram (vb_mem b))"
        using h by (auto simp: ram_holds_def)
      then show ?thesis by (simp add: set_ram_def slice_splice_same)
    qed
    then have val: "fst (ld_mem (virt_bus_ops host) n va (?c, ?b)) = Inr (take_bit (8 * n) v)"
      "snd (snd (ld_mem (virt_bus_ops host) n va (?c, ?b))) = ?b"
      unfolding ld by (simp_all add: from_le_narrow n8)
    have bytes: "dm_ram (vb_mem ?b) ! (unat (f i) - 0x80000000) = ucast (drop_bit (8 * i) v)" if "i < n" for i
      using P(2) [of "unat (f i) - 0x80000000"] u [OF that] b0 assms(3) [OF that] that by (simp add: nth_to_le)
    have rest: "dm_ram (vb_mem ?b) ! k = dm_ram (vb_mem b) ! k"
      if "k < length (dm_ram (vb_mem b))" "\<forall>i<n. unat (f i) \<noteq> 0x80000000 + k" for k
    proof -
      have "\<not> (unat (f 0) \<le> 0x80000000 + k \<and> 0x80000000 + k < unat (f 0) + n)"
      proof
        assume a: "unat (f 0) \<le> 0x80000000 + k \<and> 0x80000000 + k < unat (f 0) + n"
        then have "0x80000000 + k - unat (f 0) < n" "unat (f 0) + (0x80000000 + k - unat (f 0)) = 0x80000000 + k" by linarith+
        with u that(2) show False by metis
      qed
      from P(2) [OF that(1), unfolded length_to_le if_not_P [OF this]] show ?thesis .
    qed
    show ?thesis
      by (rule exI [of _ t], rule exI [of _ off], rule exI [of _ ram], rule exI [of _ jit],
          unfold Let_def b' [symmetric])
        (use st val bytes rest P(1) in \<open>simp add: ram\<close>)
  qed
qed

text \<open>Two bytes across the boundary of the virtual pages 1 and 2, which share the one frame of the machine.\<close>

definition split_cpu :: cpu where
  "split_cpu = demo_cpu\<lparr>tlb_tag := \<lambda>_ i. translation_tag demo_cpu (if i = 1 then 0x1fff else 0x2000),
     tlb_diff := \<lambda>_ i. if i = 1 then 0x7ffff000 else 0x7fffe000\<rparr>"

lemma split_cpu_resident:
  "resident split_cpu a 0x1fff 0x80000fff" "resident split_cpu a 0x2000 0x80000000"
proof -
  have t: "translation_tag split_cpu va = translation_tag demo_cpu va" for va by (rule tag_sys) (simp add: split_cpu_def)
  have s: "sys split_cpu \<noteq> None" using demo_context(3) by (simp add: split_cpu_def)
  have r: "tlb_tag split_cpu k i = translation_tag demo_cpu (if i = 1 then 0x1fff else 0x2000)"
    "tlb_diff split_cpu k i = (if i = 1 then 0x7ffff000 else 0x7fffe000)" for k i by (simp_all add: split_cpu_def)
  have i: "tlb_index 0x1fff = 1" "tlb_index 0x2000 = 2" by (simp_all add: tlb_index_def)
  show "resident split_cpu a 0x1fff 0x80000fff" "resident split_cpu a 0x2000 0x80000000"
    using s by (simp_all add: resident_def t r i)
qed

theorem st_ld_roundtrip_witness:
  "crosses_page 2 0x1fff split_cpu
   \<and> (\<exists>d b'. st_mem (virt_bus_ops 0) 2 0x1fff 0xabcd (split_cpu, demo_vbus) = (Inr (), d, b')
        \<and> dm_ram (vb_mem b') ! 0xfff = 0xcd \<and> dm_ram (vb_mem b') ! 0 = 0xab \<and> dm_ram (vb_mem b') ! 1 = 0
        \<and> fst (ld_mem (virt_bus_ops 0) 2 0x1fff (d, b')) = Inr 0xabcd)"
proof
  have "sys split_cpu \<noteq> None" using demo_context(3) by (simp add: split_cpu_def)
  then show "crosses_page 2 0x1fff split_cpu" by (simp add: crosses_page_def)
  define f :: "nat \<Rightarrow> u64" where "f i = (if i = 0 then 0x80000fff else 0x80000000)" for i
  have two: "(i < 2) = (i = 0 \<or> i = 1)" for i :: nat by auto
  have n: "(2 :: nat) \<in> {1, 2, 4, 8}" by simp
  have r: "resident split_cpu access.Store (0x1fff + of_nat i) (f i) \<and> resident split_cpu access.Load (0x1fff + of_nat i) (f i)"
    if "i < 2" for i using that split_cpu_resident by (auto simp: two f_def)
  have l: "length (dm_ram (vb_mem demo_vbus)) = 0x1000" by (simp add: demo_vbus_def)
  have z: "dm_ram (vb_mem demo_vbus) ! 1 = 0" by (simp add: demo_vbus_def)
  have m: "0x80000000 \<le> unat (f i) \<and> unat (f i) < 0x80000000 + length (dm_ram (vb_mem demo_vbus))" if "i < 2" for i
    unfolding l by (simp add: f_def)
  have inj: "inj_on f {..<2}" by (auto simp: inj_on_def two f_def)
  have len: "length (dm_ram (vb_mem demo_vbus)) < 2 ^ 63" by (simp add: l)
  obtain t off ram jit where R: "st_mem (virt_bus_ops 0) 2 0x1fff 0xabcd (split_cpu, demo_vbus) =
        (Inr (), split_cpu\<lparr>jtlb_tag := t, jtlb_off := off\<rparr>, demo_vbus\<lparr>vb_mem := (vb_mem demo_vbus)\<lparr>dm_ram := ram, dm_jit := jit\<rparr>\<rparr>)"
      "length ram = length (dm_ram (vb_mem demo_vbus))"
      "\<forall>i<2. ram ! (unat (f i) - 0x80000000) = ucast (drop_bit (8 * i) (0xabcd :: u64))"
      "\<forall>k<length ram. (\<forall>i<2. unat (f i) \<noteq> 0x80000000 + k) \<longrightarrow> ram ! k = dm_ram (vb_mem demo_vbus) ! k"
      "fst (ld_mem (virt_bus_ops 0) 2 0x1fff (split_cpu\<lparr>jtlb_tag := t, jtlb_off := off\<rparr>,
        demo_vbus\<lparr>vb_mem := (vb_mem demo_vbus)\<lparr>dm_ram := ram, dm_jit := jit\<rparr>\<rparr>)) = Inr (take_bit (8 * 2) 0xabcd)"
    using st_ld_roundtrip [OF n r m inj len, of 0 "0xabcd"] unfolding Let_def by blast
  have b: "ram ! 0xfff = 0xcd" "ram ! 0 = 0xab" using R(3) [rule_format, of 0] R(3) [rule_format, of 1] by (simp_all add: f_def)
  have "\<forall>i<2. unat (f i) \<noteq> 0x80000000 + 1" by (simp add: f_def)
  then have "ram ! 1 = 0" using R(4) [rule_format, of 1] R(2) z l by simp
  with R(1,5) b show "\<exists>d b'. st_mem (virt_bus_ops 0) 2 0x1fff 0xabcd (split_cpu, demo_vbus) = (Inr (), d, b')
        \<and> dm_ram (vb_mem b') ! 0xfff = 0xcd \<and> dm_ram (vb_mem b') ! 0 = 0xab \<and> dm_ram (vb_mem b') ! 1 = 0
        \<and> fst (ld_mem (virt_bus_ops 0) 2 0x1fff (d, b')) = Inr 0xabcd"
    by (intro exI [of _ "split_cpu\<lparr>jtlb_tag := t, jtlb_off := off\<rparr>"]
        exI [of _ "demo_vbus\<lparr>vb_mem := (vb_mem demo_vbus)\<lparr>dm_ram := ram, dm_jit := jit\<rparr>\<rparr>"]) (simp add: take_bit_eq_mask mask_eq_exp_minus_1)
qed

end
