(* ===== verification/WasmEmit.thy ===== *)
theory WasmEmit
  imports Prelude
begin

unbundle bit_operations_syntax

text \<open>
  The WebAssembly encoder of \<^verbatim>\<open>crates/rv64-jit/src/wasm_emit.rs\<close>: LEB128 integers, the builder
  \<^verbatim>\<open>WasmModule\<close> whose methods append instructions to a byte vector, and the three functions that
  wrap function bodies into a module (\<open>finish\<close>, \<open>finish_batch\<close>, \<open>finish_page_module\<close>).

  A builder method takes the builder last, so that a chain of method calls is a list of functions
  (\<open>chain\<close>). The builder is an extensible record: the translator extends it with its own cells.
\<close>

named_theorems wasm_opcode_defs \<open>the opcode constants\<close>

section \<open>Opcodes\<close>

definition LOCAL_GET :: u8 where [wasm_opcode_defs]: "LOCAL_GET = 0x20"
definition LOCAL_SET :: u8 where [wasm_opcode_defs]: "LOCAL_SET = 0x21"
definition LOCAL_TEE :: u8 where [wasm_opcode_defs]: "LOCAL_TEE = 0x22"
definition I32_CONST :: u8 where [wasm_opcode_defs]: "I32_CONST = 0x41"
definition I64_CONST :: u8 where [wasm_opcode_defs]: "I64_CONST = 0x42"
definition I64_LOAD :: u8 where [wasm_opcode_defs]: "I64_LOAD = 0x29"
definition I64_STORE :: u8 where [wasm_opcode_defs]: "I64_STORE = 0x37"
definition I32_WRAP_I64 :: u8 where [wasm_opcode_defs]: "I32_WRAP_I64 = 0xa7"
definition I64_EXTEND_I32_S :: u8 where [wasm_opcode_defs]: "I64_EXTEND_I32_S = 0xac"
definition I64_ADD :: u8 where [wasm_opcode_defs]: "I64_ADD = 0x7c"
definition I64_SUB :: u8 where [wasm_opcode_defs]: "I64_SUB = 0x7d"
definition I64_MUL :: u8 where [wasm_opcode_defs]: "I64_MUL = 0x7e"
definition I64_AND :: u8 where [wasm_opcode_defs]: "I64_AND = 0x83"
definition I64_OR :: u8 where [wasm_opcode_defs]: "I64_OR = 0x84"
definition I64_XOR :: u8 where [wasm_opcode_defs]: "I64_XOR = 0x85"
definition I64_SHL :: u8 where [wasm_opcode_defs]: "I64_SHL = 0x86"
definition I64_SHR_S :: u8 where [wasm_opcode_defs]: "I64_SHR_S = 0x87"
definition I64_SHR_U :: u8 where [wasm_opcode_defs]: "I64_SHR_U = 0x88"
definition I64_EQ :: u8 where [wasm_opcode_defs]: "I64_EQ = 0x51"
definition I64_NE :: u8 where [wasm_opcode_defs]: "I64_NE = 0x52"
definition I64_LT_S :: u8 where [wasm_opcode_defs]: "I64_LT_S = 0x53"
definition I64_LT_U :: u8 where [wasm_opcode_defs]: "I64_LT_U = 0x54"
definition I64_GT_U :: u8 where [wasm_opcode_defs]: "I64_GT_U = 0x56"
definition I64_GT_S :: u8 where [wasm_opcode_defs]: "I64_GT_S = 0x55"
definition I64_GE_S :: u8 where [wasm_opcode_defs]: "I64_GE_S = 0x59"
definition I64_GE_U :: u8 where [wasm_opcode_defs]: "I64_GE_U = 0x5a"
definition I64_LOAD8_S :: u8 where [wasm_opcode_defs]: "I64_LOAD8_S = 0x30"
definition I64_LOAD8_U :: u8 where [wasm_opcode_defs]: "I64_LOAD8_U = 0x31"
definition I64_LOAD16_S :: u8 where [wasm_opcode_defs]: "I64_LOAD16_S = 0x32"
definition I64_LOAD16_U :: u8 where [wasm_opcode_defs]: "I64_LOAD16_U = 0x33"
definition I64_LOAD32_S :: u8 where [wasm_opcode_defs]: "I64_LOAD32_S = 0x34"
definition I64_LOAD32_U :: u8 where [wasm_opcode_defs]: "I64_LOAD32_U = 0x35"
definition I64_STORE8 :: u8 where [wasm_opcode_defs]: "I64_STORE8 = 0x3c"
definition I64_STORE16 :: u8 where [wasm_opcode_defs]: "I64_STORE16 = 0x3d"
definition I64_STORE32 :: u8 where [wasm_opcode_defs]: "I64_STORE32 = 0x3e"
definition I64_EQZ :: u8 where [wasm_opcode_defs]: "I64_EQZ = 0x50"
definition I32_OR :: u8 where [wasm_opcode_defs]: "I32_OR = 0x72"
definition I32_XOR :: u8 where [wasm_opcode_defs]: "I32_XOR = 0x73"
definition I32_EQZ :: u8 where [wasm_opcode_defs]: "I32_EQZ = 0x45"
definition F64_ADD :: u8 where [wasm_opcode_defs]: "F64_ADD = 0xa0"
definition F64_SUB :: u8 where [wasm_opcode_defs]: "F64_SUB = 0xa1"
definition F64_MUL :: u8 where [wasm_opcode_defs]: "F64_MUL = 0xa2"
definition F64_DIV :: u8 where [wasm_opcode_defs]: "F64_DIV = 0xa3"
definition F64_EQ :: u8 where [wasm_opcode_defs]: "F64_EQ = 0x61"
definition F64_LT :: u8 where [wasm_opcode_defs]: "F64_LT = 0x63"
definition F64_LE :: u8 where [wasm_opcode_defs]: "F64_LE = 0x65"
definition F64_REINTERPRET_I64 :: u8 where [wasm_opcode_defs]: "F64_REINTERPRET_I64 = 0xbf"
definition I64_REINTERPRET_F64 :: u8 where [wasm_opcode_defs]: "I64_REINTERPRET_F64 = 0xbd"
definition UNREACHABLE :: u8 where [wasm_opcode_defs]: "UNREACHABLE = 0x00"
definition DROP :: u8 where [wasm_opcode_defs]: "DROP = 0x1a"
definition I64_EXTEND_I32_U :: u8 where [wasm_opcode_defs]: "I64_EXTEND_I32_U = 0xad"
definition I32_ADD :: u8 where [wasm_opcode_defs]: "I32_ADD = 0x6a"
definition I32_AND :: u8 where [wasm_opcode_defs]: "I32_AND = 0x71"
definition I32_SHL :: u8 where [wasm_opcode_defs]: "I32_SHL = 0x74"
definition BLOCK :: u8 where [wasm_opcode_defs]: "BLOCK = 0x02"
definition LOOP :: u8 where [wasm_opcode_defs]: "LOOP = 0x03"
definition IF :: u8 where [wasm_opcode_defs]: "IF = 0x04"
definition ELSE :: u8 where [wasm_opcode_defs]: "ELSE = 0x05"
definition END :: u8 where [wasm_opcode_defs]: "END = 0x0b"
definition BR :: u8 where [wasm_opcode_defs]: "BR = 0x0c"
definition BR_IF :: u8 where [wasm_opcode_defs]: "BR_IF = 0x0d"
definition BR_TABLE :: u8 where [wasm_opcode_defs]: "BR_TABLE = 0x0e"
definition RETURN :: u8 where [wasm_opcode_defs]: "RETURN = 0x0f"
definition I32_SHR_U :: u8 where [wasm_opcode_defs]: "I32_SHR_U = 0x76"
definition I32_NE :: u8 where [wasm_opcode_defs]: "I32_NE = 0x47"
definition I32_LT_S :: u8 where [wasm_opcode_defs]: "I32_LT_S = 0x48"
definition I32_GE_U :: u8 where [wasm_opcode_defs]: "I32_GE_U = 0x4f"
definition I32_SUB :: u8 where [wasm_opcode_defs]: "I32_SUB = 0x6b"
definition VOID :: u8 where [wasm_opcode_defs]: "VOID = 0x40"
definition I64_DIV_S :: u8 where [wasm_opcode_defs]: "I64_DIV_S = 0x7f"
definition I64_DIV_U :: u8 where [wasm_opcode_defs]: "I64_DIV_U = 0x80"
definition I64_REM_S :: u8 where [wasm_opcode_defs]: "I64_REM_S = 0x81"
definition I64_REM_U :: u8 where [wasm_opcode_defs]: "I64_REM_U = 0x82"
definition SELECT :: u8 where [wasm_opcode_defs]: "SELECT = 0x1b"
definition F64_SQRT :: u8 where [wasm_opcode_defs]: "F64_SQRT = 0x9f"
definition F64_GE :: u8 where [wasm_opcode_defs]: "F64_GE = 0x66"
definition F64_GT :: u8 where [wasm_opcode_defs]: "F64_GT = 0x64"
definition F64_NE :: u8 where [wasm_opcode_defs]: "F64_NE = 0x62"
definition I64_TRUNC_F64_S :: u8 where [wasm_opcode_defs]: "I64_TRUNC_F64_S = 0xb0"
definition F64_CONVERT_I64_S :: u8 where [wasm_opcode_defs]: "F64_CONVERT_I64_S = 0xb9"
definition F64_CONVERT_I64_U :: u8 where [wasm_opcode_defs]: "F64_CONVERT_I64_U = 0xba"
definition F32_ADD :: u8 where [wasm_opcode_defs]: "F32_ADD = 0x92"
definition F32_SUB :: u8 where [wasm_opcode_defs]: "F32_SUB = 0x93"
definition F32_MUL :: u8 where [wasm_opcode_defs]: "F32_MUL = 0x94"
definition F32_DIV :: u8 where [wasm_opcode_defs]: "F32_DIV = 0x95"
definition F32_SQRT :: u8 where [wasm_opcode_defs]: "F32_SQRT = 0x91"
definition F32_EQ :: u8 where [wasm_opcode_defs]: "F32_EQ = 0x5b"
definition F32_LT :: u8 where [wasm_opcode_defs]: "F32_LT = 0x5d"
definition F32_LE :: u8 where [wasm_opcode_defs]: "F32_LE = 0x5f"
definition F32_REINTERPRET_I32 :: u8 where [wasm_opcode_defs]: "F32_REINTERPRET_I32 = 0xbe"
definition I32_REINTERPRET_F32 :: u8 where [wasm_opcode_defs]: "I32_REINTERPRET_F32 = 0xbc"
definition F32_DEMOTE_F64 :: u8 where [wasm_opcode_defs]: "F32_DEMOTE_F64 = 0xb6"
definition F64_PROMOTE_F32 :: u8 where [wasm_opcode_defs]: "F64_PROMOTE_F32 = 0xbb"
definition F32_CONVERT_I64_S :: u8 where [wasm_opcode_defs]: "F32_CONVERT_I64_S = 0xb4"
definition F32_CONVERT_I64_U :: u8 where [wasm_opcode_defs]: "F32_CONVERT_I64_U = 0xb5"
definition I32_TRUNC_F32_S :: u8 where [wasm_opcode_defs]: "I32_TRUNC_F32_S = 0xa8"
definition I64_NE_alias :: u8 where [wasm_opcode_defs]: "I64_NE_alias = 0x52"

definition BLOCK_FUNCTION_TYPE :: "u8 list" where
  "BLOCK_FUNCTION_TYPE = [0x60, 1, 0x7f, 0]"

definition TLB_FILL_FUNCTION_TYPE :: "u8 list" where
  "TLB_FILL_FUNCTION_TYPE = [0x60, 3, 0x7f, 0x7e, 0x7f, 1, 0x7e]"

section \<open>LEB128\<close>

text \<open>Seven bits a byte, least significant first; bit 7 says that another byte follows.\<close>

lemma uleb_shift_less: "drop_bit 7 v \<noteq> (0 :: u64) \<Longrightarrow> unat (drop_bit 7 v) < unat v"
proof -
  assume "drop_bit 7 v \<noteq> 0"
  then have "v \<noteq> 0" by auto
  then have "0 < unat v" by (simp add: unat_gt_0)
  then show ?thesis by (simp add: unat_drop_bit_eq drop_bit_nat_def)
qed

function uleb :: "u64 \<Rightarrow> u8 list \<Rightarrow> u8 list" where
  "uleb v out =
     (let b = ucast (v AND 0x7f); v' = drop_bit 7 v
      in if v' = 0 then out @ [b] else uleb v' (out @ [b OR 0x80]))"
  by auto
termination
  by (relation "measure (\<lambda>(v, out). unat v)") (auto intro: uleb_shift_less)

declare uleb.simps [simp del]

text \<open>The signed shift halves the distance to the values at which the loop stops.\<close>

definition sleb_rank :: "i64 \<Rightarrow> nat" where
  "sleb_rank v = nat (if sint v < 0 then - 1 - sint v else sint v)"

lemma sleb_rank_less:
  assumes "\<not> (signed_drop_bit 7 v = 0 \<and> ucast (v AND 0x7f) AND (0x40 :: u8) = 0
    \<or> signed_drop_bit 7 v = - 1 \<and> ucast (v AND 0x7f) AND (0x40 :: u8) \<noteq> 0)"
  shows "sleb_rank (signed_drop_bit 7 v) < sleb_rank v"
proof -
  have s: "sint (signed_drop_bit 7 v) = sint v div 128"
    by (simp add: sint_signed_drop_bit_eq drop_bit_eq_div)
  have "v \<noteq> 0" using assms by auto
  then have z: "sint v \<noteq> 0" by (metis signed_0 signed_word_eqI)
  have "v \<noteq> - 1" using assms by auto
  then have m: "sint v \<noteq> - 1" by (metis signed_minus_1 signed_word_eqI)
  show ?thesis using z m unfolding sleb_rank_def s by (simp add: div_less_iff_less_mult) linarith
qed

function sleb :: "i64 \<Rightarrow> u8 list \<Rightarrow> u8 list" where
  "sleb v out =
     (let b = ucast (v AND 0x7f); v' = signed_drop_bit 7 v;
          done = (v' = 0 \<and> b AND 0x40 = 0 \<or> v' = - 1 \<and> b AND 0x40 \<noteq> 0)
      in if done then out @ [b] else sleb v' (out @ [b OR 0x80]))"
  by auto
termination
  by (relation "measure (\<lambda>(v, out). sleb_rank v)") (auto intro!: sleb_rank_less)

declare sleb.simps [simp del]

section \<open>The builder\<close>

record wasm_module =
  wm_code :: "u8 list"
  n_locals_i64 :: u32
  n_locals_i32 :: u32
  wants_tlb_fill :: bool
  wants_table :: bool
  wants_chain_next :: bool
  wm_helper :: "u8 list option"

definition with_locals :: "u32 \<Rightarrow> u32 \<Rightarrow> wasm_module" where
  "with_locals n64 n32 = \<lparr>wm_code = [], n_locals_i64 = n64, n_locals_i32 = n32, wants_tlb_fill = False,
     wants_table = False, wants_chain_next = False, wm_helper = None\<rparr>"

definition new_module :: "u32 \<Rightarrow> wasm_module" where
  "new_module n64 = \<lparr>wm_code = [], n_locals_i64 = n64, n_locals_i32 = 0, wants_tlb_fill = False,
     wants_table = False, wants_chain_next = False, wm_helper = None\<rparr>"

text \<open>A chain of method calls, the first call first.\<close>

primrec chain :: "('m \<Rightarrow> 'm) list \<Rightarrow> 'm \<Rightarrow> 'm" where
  "chain [] m = m"
| "chain (f # fs) m = chain fs (f m)"

lemma chain_append: "chain (fs @ gs) m = chain gs (chain fs m)"
  by (induction fs arbitrary: m) simp_all

definition set_helper :: "u8 list \<Rightarrow> 'a wasm_module_scheme \<Rightarrow> u32 \<times> 'a wasm_module_scheme" where
  "set_helper body m =
     (let m' = (if wm_helper m = None then m\<lparr>wm_helper := Some body\<rparr> else m)
      in (b2w (wants_tlb_fill m') + b2w (wants_chain_next m') + 1, m'))"

definition has_helper :: "'a wasm_module_scheme \<Rightarrow> bool" where
  "has_helper m = (wm_helper m \<noteq> None)"

definition into_code :: "'a wasm_module_scheme \<Rightarrow> u8 list" where
  "into_code m = wm_code m"

definition module_locals :: "'a wasm_module_scheme \<Rightarrow> u32 \<times> u32" where
  "module_locals m = (n_locals_i64 m, n_locals_i32 m)"

definition wants_tlb :: "'a wasm_module_scheme \<Rightarrow> bool" where
  "wants_tlb m = wants_tlb_fill m"

definition use_tlb_fill :: "'a wasm_module_scheme \<Rightarrow> 'a wasm_module_scheme" where
  "use_tlb_fill m = m\<lparr>wants_tlb_fill := True\<rparr>"

definition use_table :: "'a wasm_module_scheme \<Rightarrow> 'a wasm_module_scheme" where
  "use_table m = m\<lparr>wants_table := True\<rparr>"

definition use_chain_next :: "'a wasm_module_scheme \<Rightarrow> 'a wasm_module_scheme" where
  "use_chain_next m = m\<lparr>wants_tlb_fill := True, wants_chain_next := True\<rparr>"

text \<open>The appending methods, in the order of the source.\<close>

definition call :: "u32 \<Rightarrow> 'a wasm_module_scheme \<Rightarrow> 'a wasm_module_scheme" where
  "call idx m = m\<lparr>wm_code := uleb (ucast idx) (wm_code m @ [0x10])\<rparr>"

definition return_call :: "u32 \<Rightarrow> 'a wasm_module_scheme \<Rightarrow> 'a wasm_module_scheme" where
  "return_call idx m = m\<lparr>wm_code := uleb (ucast idx) (wm_code m @ [0x12])\<rparr>"

definition call_chain_next :: "'a wasm_module_scheme \<Rightarrow> 'a wasm_module_scheme" where
  "call_chain_next m = m\<lparr>wm_code := uleb 1 (wm_code m @ [0x10])\<rparr>"

definition return_call_indirect :: "u32 \<Rightarrow> 'a wasm_module_scheme \<Rightarrow> 'a wasm_module_scheme" where
  "return_call_indirect type_idx m =
     m\<lparr>wm_code := uleb 0 (uleb (ucast type_idx) (wm_code m @ [0x13]))\<rparr>"

definition i64x2_splat :: "'a wasm_module_scheme \<Rightarrow> 'a wasm_module_scheme" where
  "i64x2_splat m = m\<lparr>wm_code := uleb 0x12 (wm_code m @ [0xfd])\<rparr>"

definition f64x2_relaxed_madd :: "'a wasm_module_scheme \<Rightarrow> 'a wasm_module_scheme" where
  "f64x2_relaxed_madd m = m\<lparr>wm_code := uleb 0x107 (wm_code m @ [0xfd])\<rparr>"

definition f64x2_extract_lane0 :: "'a wasm_module_scheme \<Rightarrow> 'a wasm_module_scheme" where
  "f64x2_extract_lane0 m = m\<lparr>wm_code := uleb 0x21 (wm_code m @ [0xfd]) @ [0x00]\<rparr>"

definition i32_load :: "u64 \<Rightarrow> 'a wasm_module_scheme \<Rightarrow> 'a wasm_module_scheme" where
  "i32_load offset m = m\<lparr>wm_code := uleb offset (uleb 2 (wm_code m @ [0x28]))\<rparr>"

definition call_tlb_fill :: "'a wasm_module_scheme \<Rightarrow> 'a wasm_module_scheme" where
  "call_tlb_fill m = m\<lparr>wm_code := uleb 0 (wm_code m @ [0x10])\<rparr>"

definition op :: "u8 \<Rightarrow> 'a wasm_module_scheme \<Rightarrow> 'a wasm_module_scheme" where
  "op opcode m = m\<lparr>wm_code := wm_code m @ [opcode]\<rparr>"

definition raw_uleb :: "u64 \<Rightarrow> 'a wasm_module_scheme \<Rightarrow> 'a wasm_module_scheme" where
  "raw_uleb v m = m\<lparr>wm_code := uleb v (wm_code m)\<rparr>"

definition i64_const :: "i64 \<Rightarrow> 'a wasm_module_scheme \<Rightarrow> 'a wasm_module_scheme" where
  "i64_const v m = m\<lparr>wm_code := sleb v (wm_code m @ [I64_CONST])\<rparr>"

definition i32_const :: "i32 \<Rightarrow> 'a wasm_module_scheme \<Rightarrow> 'a wasm_module_scheme" where
  "i32_const v m = m\<lparr>wm_code := sleb (scast v) (wm_code m @ [I32_CONST])\<rparr>"

definition local_get :: "u32 \<Rightarrow> 'a wasm_module_scheme \<Rightarrow> 'a wasm_module_scheme" where
  "local_get i m = m\<lparr>wm_code := uleb (ucast i) (wm_code m @ [LOCAL_GET])\<rparr>"

definition local_set :: "u32 \<Rightarrow> 'a wasm_module_scheme \<Rightarrow> 'a wasm_module_scheme" where
  "local_set i m = m\<lparr>wm_code := uleb (ucast i) (wm_code m @ [LOCAL_SET])\<rparr>"

definition local_get_i32 :: "u32 \<Rightarrow> 'a wasm_module_scheme \<Rightarrow> 'a wasm_module_scheme" where
  "local_get_i32 i m = local_get i m"

definition local_set_i32 :: "u32 \<Rightarrow> 'a wasm_module_scheme \<Rightarrow> 'a wasm_module_scheme" where
  "local_set_i32 i m = local_set i m"

definition i64_load :: "u64 \<Rightarrow> 'a wasm_module_scheme \<Rightarrow> 'a wasm_module_scheme" where
  "i64_load offset m = m\<lparr>wm_code := uleb offset (uleb 3 (wm_code m @ [I64_LOAD]))\<rparr>"

definition i64_load_at :: "u64 \<Rightarrow> 'a wasm_module_scheme \<Rightarrow> 'a wasm_module_scheme" where
  "i64_load_at base m = i64_load base m"

definition i64_store :: "u64 \<Rightarrow> 'a wasm_module_scheme \<Rightarrow> 'a wasm_module_scheme" where
  "i64_store offset m = m\<lparr>wm_code := uleb offset (uleb 3 (wm_code m @ [I64_STORE]))\<rparr>"

definition br :: "u32 \<Rightarrow> 'a wasm_module_scheme \<Rightarrow> 'a wasm_module_scheme" where
  "br depth m = m\<lparr>wm_code := uleb (ucast depth) (wm_code m @ [BR])\<rparr>"

definition br_if :: "u32 \<Rightarrow> 'a wasm_module_scheme \<Rightarrow> 'a wasm_module_scheme" where
  "br_if depth m = m\<lparr>wm_code := uleb (ucast depth) (wm_code m @ [BR_IF])\<rparr>"

definition memory_copy :: "'a wasm_module_scheme \<Rightarrow> 'a wasm_module_scheme" where
  "memory_copy m = m\<lparr>wm_code := uleb 10 (wm_code m @ [0xfc]) @ [0x00] @ [0x00]\<rparr>"

definition br_table :: "u32 list \<Rightarrow> u32 \<Rightarrow> 'a wasm_module_scheme \<Rightarrow> 'a wasm_module_scheme" where
  "br_table targets dflt m =
     m\<lparr>wm_code := uleb (ucast dflt)
       (fold (\<lambda>t. uleb (ucast t)) targets (uleb (of_nat (length targets)) (wm_code m @ [BR_TABLE])))\<rparr>"

section \<open>Modules\<close>

text \<open>\<^verbatim>\<open>b"..."\<close>, and the decimal digits that \<^verbatim>\<open>format!\<close> prints.\<close>

definition ascii :: "string \<Rightarrow> u8 list" where
  "ascii s = map of_char s"

fun decimal :: "nat \<Rightarrow> u8 list" where
  "decimal n = (if n < 10 then [of_nat (48 + n)] else decimal (n div 10) @ [of_nat (48 + n mod 10)])"

declare decimal.simps [simp del]

definition wasm_section :: "u8 list \<Rightarrow> u8 \<Rightarrow> u8 list \<Rightarrow> u8 list" where
  "wasm_section m i payload = uleb (of_nat (length payload)) (m @ [i]) @ payload"

definition wasm_magic :: "u8 list" where
  "wasm_magic = [0x00, 0x61, 0x73, 0x6d, 1, 0, 0, 0]"

text \<open>A function body: the groups of locals, the code and the closing \<open>END\<close>.\<close>

definition local_groups :: "u32 \<Rightarrow> u32 \<Rightarrow> (u32 \<times> u8) list" where
  "local_groups n64 n32 = (if n64 > 0 then [(n64, 0x7e)] else []) @ (if n32 > 0 then [(n32, 0x7f)] else [])"

definition function_body :: "u32 \<Rightarrow> u32 \<Rightarrow> u8 list \<Rightarrow> u8 list" where
  "function_body n64 n32 code =
     (let groups = local_groups n64 n32; body = uleb (of_nat (length groups)) []
      in fold (\<lambda>(count, ty) b. uleb (ucast count) b @ [ty]) groups body @ code @ [END])"

definition helper_body :: "u8 list \<Rightarrow> u8 list" where
  "helper_body h = (let hb = uleb 1 (uleb 2 []) @ [0x7e]; hb = uleb 2 hb @ [0x7f] in hb @ h @ [END])"

definition finish_types :: "'a wasm_module_scheme \<Rightarrow> u8 list" where
  "finish_types m =
     [1 + b2w (wants_tlb_fill m) + b2w (wm_helper m \<noteq> None)] @ BLOCK_FUNCTION_TYPE
     @ (if wants_tlb_fill m then TLB_FILL_FUNCTION_TYPE else [])
     @ (if wm_helper m \<noteq> None then [0x60, 0, 1, 0x7f] else [])"

definition finish_imports :: "'a wasm_module_scheme \<Rightarrow> u8 list" where
  "finish_imports m =
     [1 + b2w (wants_tlb_fill m) + b2w (wants_chain_next m) + b2w (wants_table m)]
     @ (if wants_tlb_fill m then [3] @ ascii ''env'' @ [8] @ ascii ''tlb_fill'' @ [0x00, 0x01] else [])
     @ (if wants_chain_next m then [3] @ ascii ''env'' @ [10] @ ascii ''chain_next'' @ [0x00, 0x00] else [])
     @ [3] @ ascii ''env'' @ [6] @ ascii ''memory'' @ [0x02, 0x00, 0x01]
     @ (if wants_table m
        then [3] @ ascii ''env'' @ [25] @ ascii ''__indirect_function_table'' @ [0x01, 0x70, 0x00, 0x00]
        else [])"

definition finish_functions :: "'a wasm_module_scheme \<Rightarrow> u8 list" where
  "finish_functions m =
     (if wm_helper m \<noteq> None then [2, 0, 1 + b2w (wants_tlb_fill m)] else [1, 0])"

definition finish_exports :: "'a wasm_module_scheme \<Rightarrow> u8 list" where
  "finish_exports m =
     [1] @ [3] @ ascii ''run'' @ [0x00, b2w (wants_tlb_fill m) + b2w (wants_chain_next m)]"

definition finish_code :: "'a wasm_module_scheme \<Rightarrow> u8 list" where
  "finish_code m =
     (let body = function_body (n_locals_i64 m) (n_locals_i32 m) (wm_code m);
          sec = uleb (of_nat (length body)) [if wm_helper m \<noteq> None then 2 else 1] @ body
      in case wm_helper m of
           None \<Rightarrow> sec
         | Some h \<Rightarrow> (let hb = helper_body h in uleb (of_nat (length hb)) sec @ hb))"

definition finish :: "'a wasm_module_scheme \<Rightarrow> u8 list" where
  "finish m =
     (let out = wasm_magic;
          out = wasm_section out 1 (finish_types m);
          out = wasm_section out 2 (finish_imports m);
          out = wasm_section out 3 (finish_functions m);
          out = wasm_section out 7 (finish_exports m);
          out = wasm_section out 10 (finish_code m)
      in out)"

type_synonym raw_body = "u8 list \<times> u32 \<times> u32"

datatype function_exports = Run nat | Numbered nat nat

definition multi_exports :: "function_exports \<Rightarrow> u8 list" where
  "multi_exports exports =
     (case exports of
        Run body \<Rightarrow>
          uleb (of_nat (1 + body)) (uleb 3 (uleb 1 []) @ ascii ''run'' @ [0x00])
      | Numbered first_body count \<Rightarrow>
          fold (\<lambda>i sec. let name = ascii ''r'' @ decimal i
                        in uleb (of_nat (1 + first_body + i)) (uleb (of_nat (length name)) sec @ name @ [0x00]))
            [0..<count] (uleb (of_nat count) []))"

definition multi_code :: "raw_body list \<Rightarrow> u8 list" where
  "multi_code bodies =
     fold (\<lambda>(code, n64, n32) sec.
         let body = function_body n64 n32 code in uleb (of_nat (length body)) sec @ body)
       bodies (uleb (of_nat (length bodies)) [])"

definition finish_multi_function :: "raw_body list \<Rightarrow> function_exports \<Rightarrow> u8 list" where
  "finish_multi_function bodies exports =
     (let n_functions = length bodies;
          m = wasm_magic;
          m = wasm_section m 1 ([2] @ BLOCK_FUNCTION_TYPE @ TLB_FILL_FUNCTION_TYPE);
          m = wasm_section m 2
                ([2] @ [3] @ ascii ''env'' @ [8] @ ascii ''tlb_fill'' @ [0x00, 0x01]
                 @ [3] @ ascii ''env'' @ [6] @ ascii ''memory'' @ [0x02, 0x00, 0x01]);
          m = wasm_section m 3 (uleb (of_nat n_functions) [] @ replicate n_functions 0);
          m = wasm_section m 7 (multi_exports exports);
          m = wasm_section m 10 (multi_code bodies)
      in m)"

definition finish_batch :: "raw_body list \<Rightarrow> u8 list" where
  "finish_batch bodies = finish_multi_function bodies (Numbered 0 (length bodies))"

definition finish_page_module :: "raw_body \<Rightarrow> raw_body list \<Rightarrow> u8 list" where
  "finish_page_module router bodies = finish_multi_function (router # bodies) (Run 0)"

end
