(* ===== verification/JitAlu.thy ===== *)
theory JitAlu
  imports WasmEmit Compressed
begin

unbundle bit_operations_syntax

text \<open>
  The translator of guest code, \<^verbatim>\<open>crates/rv64-jit/src/lib.rs\<close>: where the emitted code finds the state of the
  hart (\<open>jit_layout\<close>), the context of a translation (\<open>jit_ctx\<close>: which guest register lives in which local), the
  access to registers, and the integer arms of \<open>emit_simple\<close>.

  The cells \<open>defined\<close> and \<open>fp_defined\<close> of the context, which emission updates, are fields of the builder that
  emission threads (\<open>emitter\<close>).
\<close>

section \<open>Constants and layouts\<close>

definition MAX_BLOCK :: nat where "MAX_BLOCK = 128"

definition MAX_TRACE :: nat where "MAX_TRACE = 256"

definition SCR :: u32 where "SCR = 1"

definition VA :: u32 where "VA = 1"

definition PAGE :: u32 where "PAGE = 2"

definition PA :: u32 where "PA = 3"

definition VAL :: u32 where "VAL = 4"

definition ITER :: u32 where "ITER = 5"

definition TPC :: u32 where "TPC = 6"

definition SCR2 :: u32 where "SCR2 = 7"

definition BASE :: u32 where "BASE = 8"

definition TLB_CONTEXT :: u32 where "TLB_CONTEXT = 10"

definition N_I64_LOCALS :: u32 where "N_I64_LOCALS = 10"

definition JIT_TLB_VPN_MASK :: u64 where "JIT_TLB_VPN_MASK = push_bit 52 1 - 1"

definition TLB_EXEC_MODE_MASK :: u64 where "TLB_EXEC_MODE_MASK = push_bit 52 3"

record sys_mem =
  ftlb_load_tag :: u32
  ftlb_load_off :: u32
  ftlb_store_tag :: u32
  ftlb_store_off :: u32
  tlb_mask :: u32
  context_tag :: u64
  context_addr :: u32

record jit_layout =
  jl_x_base :: u32
  jl_pc_addr :: u32
  jl_mem :: "(u32 \<times> u64) option"
  jl_sys :: "sys_mem option"
  jl_mem_profile :: "u32 list option"
  jl_reg_stress :: bool
  jl_reg_profile_base :: u32
  jl_multi_latch :: bool
  jl_retired_addr :: u32
  jl_f_base :: u32
  jl_fcsr_addr :: u32
  jl_fuel_addr :: u32
  jl_dispatch_base :: u32
  jl_dispatch_mask :: u32
  jl_map_gen_addr :: u32
  jl_mstatus_addr :: u32
  jl_copystat_addr :: u32
  jl_chain_off_addr :: u32
  jl_batch_base_addr :: u32

definition layout_bare :: jit_layout where
  "layout_bare = \<lparr>jl_x_base = 0, jl_pc_addr = 256, jl_mem = None, jl_sys = None, jl_mem_profile = None,
     jl_reg_stress = False, jl_reg_profile_base = 0, jl_multi_latch = False, jl_retired_addr = 264,
     jl_f_base = 0, jl_fcsr_addr = 0, jl_fuel_addr = 0, jl_dispatch_base = 0, jl_dispatch_mask = 0,
     jl_map_gen_addr = 0, jl_mstatus_addr = 0, jl_copystat_addr = 0, jl_chain_off_addr = 0,
     jl_batch_base_addr = 0\<rparr>"

definition len_align :: "u64 \<Rightarrow> u64" where
  "len_align n = (if n = 1 then 0 else if n = 2 then 1 else if n = 4 then 2 else 3)"

definition jit_fetch :: "u8 list \<Rightarrow> u64 \<Rightarrow> u64 \<Rightarrow> (u32 \<times> u64) option" where
  "jit_fetch code base p =
     (case checked_sub p base of
        None \<Rightarrow> None
      | Some d \<Rightarrow>
          (let off = unat d
           in if length code < off + 2 then None
              else (let lo = from_le (slice_at off 2 code) :: u32
                    in if lo AND 3 = 3 then
                         (if length code < off + 4 then None
                          else Some (lo OR push_bit 16 (from_le (slice_at (off + 2) 2 code)), 4))
                       else map_option (\<lambda>e. (e, 2)) (expand (ucast lo)))))"

section \<open>The context\<close>

record jit_ctx =
  jc_lay :: jit_layout
  jc_reg_local :: "u32 list"
  jc_write_mask :: u32
  jc_idxb :: u32
  jc_fp_local :: "u32 list"
  jc_fp_write_mask :: u32
  jc_fma_scratch :: u32
  jc_retired_local :: "u32 option"
  jc_fp_flags :: "(u32 \<times> u32) option"

record emitter = wasm_module +
  em_defined :: u32
  em_fp_defined :: u32

definition push_reg :: "jit_ctx \<Rightarrow> nat \<Rightarrow> emitter \<Rightarrow> emitter" where
  "push_reg c r m =
     (if r = 0 then i64_const 0 m
      else if jc_reg_local c ! r \<noteq> 0 then local_get (jc_reg_local c ! r) m
      else chain [i32_const 0, i64_load (ucast (jl_x_base (jc_lay c)) + of_nat r * 8)] m)"

definition store_pre :: "jit_ctx \<Rightarrow> nat \<Rightarrow> emitter \<Rightarrow> bool \<times> emitter" where
  "store_pre c d m =
     (if d = 0 then (False, m)
      else (True, if jc_reg_local c ! d = 0 then i32_const 0 m else m))"

definition store_post :: "jit_ctx \<Rightarrow> nat \<Rightarrow> emitter \<Rightarrow> emitter" where
  "store_post c d m =
     (let m = m\<lparr>em_defined := em_defined m OR push_bit d 1\<rparr>
      in if jc_reg_local c ! d \<noteq> 0 then local_set (jc_reg_local c ! d) m
         else i64_store (ucast (jl_x_base (jc_lay c)) + of_nat d * 8) m)"

text \<open>\<^verbatim>\<open>if c.store_pre(m, d) { body; c.store_post(m, d) }\<close>, the shape of every arm that writes \<open>rd\<close>.\<close>

definition with_rd :: "jit_ctx \<Rightarrow> nat \<Rightarrow> (emitter \<Rightarrow> emitter) list \<Rightarrow> emitter \<Rightarrow> emitter" where
  "with_rd c d body m =
     (case store_pre c d m of (write, m) \<Rightarrow> if write then store_post c d (chain body m) else m)"

definition LO_MASK :: i64 where "LO_MASK = 0xffffffff"

definition push_mul_high :: "jit_ctx \<Rightarrow> u32 \<Rightarrow> nat \<Rightarrow> nat \<Rightarrow> emitter \<Rightarrow> emitter" where
  "push_mul_high c f3 s1 s2 m =
     (let a_lo = SCR; b_lo = PAGE; mid = PA; carry = VAL
      in chain
        ([push_reg c s1, i64_const LO_MASK, op I64_AND, local_set a_lo,
          push_reg c s2, i64_const LO_MASK, op I64_AND, local_set b_lo,
          local_get a_lo, local_get b_lo, op I64_MUL, i64_const 32, op I64_SHR_U,
          push_reg c s1, i64_const 32, op I64_SHR_U, local_get b_lo, op I64_MUL, op I64_ADD, local_set mid,
          local_get mid, i64_const 32, op I64_SHR_U, local_set carry,
          local_get mid, i64_const LO_MASK, op I64_AND, local_get a_lo, push_reg c s2, i64_const 32, op I64_SHR_U,
          op I64_MUL, op I64_ADD, local_set mid,
          push_reg c s1, i64_const 32, op I64_SHR_U, push_reg c s2, i64_const 32, op I64_SHR_U, op I64_MUL,
          local_get carry, op I64_ADD, local_get mid, i64_const 32, op I64_SHR_U, op I64_ADD]
         @ (if f3 = 1 \<or> f3 = 2
            then [push_reg c s1, i64_const 63, op I64_SHR_S, push_reg c s2, op I64_AND, op I64_SUB] else [])
         @ (if f3 = 1
            then [push_reg c s2, i64_const 63, op I64_SHR_S, push_reg c s1, op I64_AND, op I64_SUB] else [])) m)"

section \<open>Which encodings compile\<close>

definition alu_handled :: "u32 \<Rightarrow> u32 \<Rightarrow> u32 \<Rightarrow> bool" where
  "alu_handled opc f7 f3 =
     (if opc = 0x37 \<or> opc = 0x17 then True
      else if opc = 0x13 then
        (if f3 = 1 then f7 = 0x00 \<or> f7 = 0x01
         else if f3 = 5 then f7 = 0x00 \<or> f7 = 0x01 \<or> f7 = 0x20 \<or> f7 = 0x21
         else True)
      else if opc = 0x33 then f7 = 0x00 \<or> f7 = 0x20 \<and> f3 = 0 \<or> f7 = 0x20 \<and> f3 = 5 \<or> f7 = 0x01 \<and> f3 \<le> 7
      else if opc = 0x1b then
        (if f3 = 0 then True
         else if f3 = 1 then f7 = 0x00
         else if f3 = 5 then f7 = 0x00 \<or> f7 = 0x20
         else False)
      else if opc = 0x3b then
        f7 = 0x00 \<and> f3 = 0 \<or> f7 = 0x20 \<and> f3 = 0 \<or> f7 = 0x01 \<and> f3 = 0 \<or> f7 = 0x00 \<and> f3 = 1
        \<or> f7 = 0x00 \<and> f3 = 5 \<or> f7 = 0x20 \<and> f3 = 5 \<or> f7 = 0x01 \<and> 4 \<le> f3 \<and> f3 \<le> 7
      else False)"

definition amo_handled :: "u32 \<Rightarrow> bool" where
  "amo_handled insn \<longleftrightarrow> (funct3 insn = 2 \<or> funct3 insn = 3)
     \<and> drop_bit 27 insn \<in> {0, 1, 4, 8, 0xc, 0x10, 0x14, 0x18, 0x1c}"

section \<open>The integer arms of emit_simple\<close>

definition emit_upper :: "jit_ctx \<Rightarrow> u32 \<Rightarrow> u64 \<Rightarrow> emitter \<Rightarrow> emitter" where
  "emit_upper c insn p =
     with_rd c (rd insn) [i64_const (if opcode insn = 0x37 then imm_u insn else p + imm_u insn)]"

definition op_imm_body :: "jit_ctx \<Rightarrow> u32 \<Rightarrow> (emitter \<Rightarrow> emitter) list" where
  "op_imm_body c insn =
     (let imm = imm_i insn; f3 = funct3 insn
      in push_reg c (rs1 insn) #
        (if f3 = 0 then [i64_const imm, op I64_ADD]
         else if f3 = 1 then [i64_const (imm AND 0x3f), op I64_SHL]
         else if f3 = 2 then [i64_const imm, op I64_LT_S, op I64_EXTEND_I32_U]
         else if f3 = 3 then [i64_const imm, op I64_LT_U, op I64_EXTEND_I32_U]
         else if f3 = 4 then [i64_const imm, op I64_XOR]
         else if f3 = 5 then
           (if drop_bit 26 insn = 0x10 then [i64_const (imm AND 0x3f), op I64_SHR_S]
            else [i64_const (imm AND 0x3f), op I64_SHR_U])
         else if f3 = 6 then [i64_const imm, op I64_OR]
         else [i64_const imm, op I64_AND]))"

definition emit_op_imm :: "jit_ctx \<Rightarrow> u32 \<Rightarrow> emitter \<Rightarrow> emitter" where
  "emit_op_imm c insn = with_rd c (rd insn) (op_imm_body c insn)"

definition I64_MIN :: i64 where "I64_MIN = push_bit 63 1"

definition op_body :: "jit_ctx \<Rightarrow> u32 \<Rightarrow> u32 \<Rightarrow> nat \<Rightarrow> nat \<Rightarrow> (emitter \<Rightarrow> emitter) list" where
  "op_body c f7 f3 s1 s2 =
     (let r1 = push_reg c s1; r2 = push_reg c s2
      in if f7 = 0x00 \<and> f3 = 0 then [r2, op I64_ADD]
         else if f7 = 0x20 \<and> f3 = 0 then [r2, op I64_SUB]
         else if f7 = 0x01 \<and> f3 = 0 then [r2, op I64_MUL]
         else if f7 = 0x01 \<and> 1 \<le> f3 \<and> f3 \<le> 3 then [push_mul_high c f3 s1 s2]
         else if f7 = 0x00 \<and> f3 = 1 then [r2, i64_const 0x3f, op I64_AND, op I64_SHL]
         else if f7 = 0x00 \<and> f3 = 2 then [r2, op I64_LT_S, op I64_EXTEND_I32_U]
         else if f7 = 0x00 \<and> f3 = 3 then [r2, op I64_LT_U, op I64_EXTEND_I32_U]
         else if f7 = 0x00 \<and> f3 = 4 then [r2, op I64_XOR]
         else if f7 = 0x00 \<and> f3 = 5 then [r2, i64_const 0x3f, op I64_AND, op I64_SHR_U]
         else if f7 = 0x20 \<and> f3 = 5 then [r2, i64_const 0x3f, op I64_AND, op I64_SHR_S]
         else if f7 = 0x00 \<and> f3 = 6 then [r2, op I64_OR]
         else if f7 = 0x00 \<and> f3 = 7 then [r2, op I64_AND]
         else if f7 = 0x01 \<and> f3 = 4 then
           [i64_const 1, r2, r2, op I64_EQZ, r1, i64_const I64_MIN, op I64_EQ, r2, i64_const (- 1), op I64_EQ,
            op I32_AND, op I32_OR, op SELECT, op I64_DIV_S,
            i64_const I64_MIN, r1, i64_const I64_MIN, op I64_EQ, r2, i64_const (- 1), op I64_EQ, op I32_AND,
            op I32_EQZ, op SELECT,
            i64_const (- 1), r2, op I64_EQZ, op I32_EQZ, op SELECT]
         else if f7 = 0x01 \<and> f3 = 5 then
           [i64_const 1, r2, r2, op I64_EQZ, op SELECT, op I64_DIV_U,
            i64_const (- 1), r2, op I64_EQZ, op I32_EQZ, op SELECT]
         else
           [i64_const 1, r2, r2, op I64_EQZ, op SELECT, op (if f3 = 6 then I64_REM_S else I64_REM_U),
            r1, r2, op I64_EQZ, op I32_EQZ, op SELECT])"

definition emit_op :: "jit_ctx \<Rightarrow> u32 \<Rightarrow> emitter \<Rightarrow> emitter option" where
  "emit_op c insn m =
     (let f7 = funct7 insn; f3 = funct3 insn; s1 = rs1 insn; s2 = rs2 insn
      in if \<not> alu_handled 0x33 f7 f3 then None
         else Some (with_rd c (rd insn)
           ((if f7 = 0x01 \<and> 1 \<le> f3 \<and> f3 \<le> 3 then [] else [push_reg c s1]) @ op_body c f7 f3 s1 s2) m))"

definition op_imm32_body :: "jit_ctx \<Rightarrow> u32 \<Rightarrow> (emitter \<Rightarrow> emitter) list" where
  "op_imm32_body c insn =
     (let imm = imm_i insn; f3 = funct3 insn
      in push_reg c (rs1 insn) #
           (if f3 = 0 then [i64_const imm, op I64_ADD]
            else if f3 = 1 then [i64_const (imm AND 0x1f), op I64_SHL]
            else [op I32_WRAP_I64, op I64_EXTEND_I32_U] @
              (if funct7 insn = 0x20
               then [op I32_WRAP_I64, op I64_EXTEND_I32_S, i64_const (imm AND 0x1f), op I64_SHR_S]
               else [i64_const 0xffffffff, op I64_AND, i64_const (imm AND 0x1f), op I64_SHR_U]))
         @ [op I32_WRAP_I64, op I64_EXTEND_I32_S])"

definition emit_op_imm32 :: "jit_ctx \<Rightarrow> u32 \<Rightarrow> emitter \<Rightarrow> emitter option" where
  "emit_op_imm32 c insn m =
     (let f3 = funct3 insn
      in if \<not> (f3 = 0 \<or> f3 = 1 \<or> f3 = 5) then None
         else Some (with_rd c (rd insn) (op_imm32_body c insn) m))"

definition MIN32 :: i64 where "MIN32 = scast (push_bit 31 1 :: i32)"

definition op32_body :: "jit_ctx \<Rightarrow> u32 \<Rightarrow> u32 \<Rightarrow> nat \<Rightarrow> nat \<Rightarrow> (emitter \<Rightarrow> emitter) list" where
  "op32_body c f7 f3 s1 s2 =
     (let push_s = (\<lambda>r. [push_reg c r, op I32_WRAP_I64, op I64_EXTEND_I32_S]);
          push_u = (\<lambda>r. [push_reg c r, i64_const 0xffffffff, op I64_AND])
      in if f3 = 0 then
           [push_reg c s1, push_reg c s2,
            op (if f7 = 0x00 then I64_ADD else if f7 = 0x20 then I64_SUB else I64_MUL)]
         else if f7 = 0x00 \<and> f3 = 1 then
           [push_reg c s1, push_reg c s2, i64_const 0x1f, op I64_AND, op I64_SHL]
         else if f7 = 0x00 \<and> f3 = 5 then
           push_u s1 @ [push_reg c s2, i64_const 0x1f, op I64_AND, op I64_SHR_U]
         else if f7 = 0x20 \<and> f3 = 5 then
           push_s s1 @ [push_reg c s2, i64_const 0x1f, op I64_AND, op I64_SHR_S]
         else if f7 = 0x01 \<and> f3 = 4 then
           push_s s1 @ [i64_const 1] @ push_s s2 @ push_s s2 @ [op I64_EQZ] @ push_s s1
           @ [i64_const MIN32, op I64_EQ] @ push_s s2
           @ [i64_const (- 1), op I64_EQ, op I32_AND, op I32_OR, op SELECT, op I64_DIV_S, i64_const MIN32]
           @ push_s s1 @ [i64_const MIN32, op I64_EQ] @ push_s s2
           @ [i64_const (- 1), op I64_EQ, op I32_AND, op I32_EQZ, op SELECT, i64_const (- 1)]
           @ push_s s2 @ [op I64_EQZ, op I32_EQZ, op SELECT]
         else if f7 = 0x01 \<and> f3 = 5 then
           push_u s1 @ [i64_const 1] @ push_u s2 @ push_u s2 @ [op I64_EQZ, op SELECT, op I64_DIV_U, i64_const (- 1)]
           @ push_u s2 @ [op I64_EQZ, op I32_EQZ, op SELECT]
         else if f7 = 0x01 \<and> f3 = 6 then
           push_s s1 @ [i64_const 1] @ push_s s2 @ push_s s2 @ [op I64_EQZ, op SELECT, op I64_REM_S]
           @ push_s s1 @ push_s s2 @ [op I64_EQZ, op I32_EQZ, op SELECT]
         else
           push_u s1 @ [i64_const 1] @ push_u s2 @ push_u s2 @ [op I64_EQZ, op SELECT, op I64_REM_U]
           @ push_u s1 @ push_u s2 @ [op I64_EQZ, op I32_EQZ, op SELECT])"

definition emit_op32 :: "jit_ctx \<Rightarrow> u32 \<Rightarrow> emitter \<Rightarrow> emitter option" where
  "emit_op32 c insn m =
     (let f7 = funct7 insn; f3 = funct3 insn
      in if \<not> alu_handled 0x3b f7 f3 then None
         else Some (with_rd c (rd insn)
           (op32_body c f7 f3 (rs1 insn) (rs2 insn) @ [op I32_WRAP_I64, op I64_EXTEND_I32_S]) m))"

text \<open>The integer arms of the match on the opcode.\<close>

definition emit_alu :: "jit_ctx \<Rightarrow> u32 \<Rightarrow> u64 \<Rightarrow> emitter \<Rightarrow> emitter option" where
  "emit_alu c insn p m =
     (let opc = opcode insn
      in if opc = 0x37 \<or> opc = 0x17 then Some (emit_upper c insn p m)
         else if opc = 0x13 then Some (emit_op_imm c insn m)
         else if opc = 0x33 then emit_op c insn m
         else if opc = 0x1b then emit_op_imm32 c insn m
         else if opc = 0x3b then emit_op32 c insn m
         else None)"

end
