(* ===== verification/JitArith.thy ===== *)
theory JitArith
  imports JitAlu Alu FpExec
begin

unbundle bit_operations_syntax

text \<open>
  The arithmetic behind the emitted code: the high half of a product from 32-bit limbs, and 32-bit
  operations as the low half of 64-bit ones on extended operands.
\<close>

section \<open>The high half of a product\<close>

lemma limbs_nat:
  fixes a b :: nat
  defines "al \<equiv> a mod 2 ^ 32" and "ah \<equiv> a div 2 ^ 32" and "bl \<equiv> b mod 2 ^ 32" and "bh \<equiv> b div 2 ^ 32"
  defines "mid \<equiv> al * bl div 2 ^ 32 + ah * bl"
  defines "mid2 \<equiv> mid mod 2 ^ 32 + al * bh"
  shows "a * b div 2 ^ 64 = ah * bh + mid div 2 ^ 32 + mid2 div 2 ^ 32"
proof -
  let ?B = "2 ^ 32 :: nat"
  have a: "a = ah * ?B + al" and b: "b = bh * ?B + bl" by (simp_all add: al_def ah_def bl_def bh_def)
  have q: "al * bl = (al * bl div ?B) * ?B + al * bl mod ?B" by simp
  have "a * b = (ah * bh * ?B + ah * bl + al * bh) * ?B + al * bl"
    unfolding a b by (simp add: algebra_simps)
  also have "\<dots> = (ah * bh * ?B + ah * bl + al * bh + al * bl div ?B) * ?B + al * bl mod ?B"
    using q by (simp add: algebra_simps)
  finally have "a * b div ?B = ah * bh * ?B + ah * bl + al * bh + al * bl div ?B" by simp
  also have "\<dots> = ah * bh * ?B + (mid + al * bh)" by (simp add: mid_def)
  also have "mid = mid div ?B * ?B + mid mod ?B" by simp
  finally have "a * b div ?B = (ah * bh + mid div ?B) * ?B + mid2" by (simp add: mid2_def algebra_simps)
  then have "a * b div ?B div ?B = ah * bh + mid div ?B + mid2 div ?B" by simp
  then show ?thesis by (simp add: div_mult2_eq [symmetric])
qed

lemma limb_bound: "(x :: nat) < 2 ^ 32 \<Longrightarrow> y < 2 ^ 32 \<Longrightarrow> z < 2 ^ 32 \<Longrightarrow> z + x * y < 2 ^ 64"
proof -
  assume a: "x < 2 ^ 32" "y < 2 ^ 32" "z < 2 ^ 32"
  then have "x * y \<le> (2 ^ 32 - 1) * (2 ^ 32 - 1)" by (intro mult_le_mono) auto
  then show ?thesis using a by simp
qed

lemma unat_add_small: "unat (a :: u64) + unat b < 2 ^ 64 \<Longrightarrow> unat (a + b) = unat a + unat b"
  by (simp add: unat_word_ariths)

lemma unat_mult_small: "unat (a :: u64) * unat b < 2 ^ 64 \<Longrightarrow> unat (a * b) = unat a * unat b"
  by (simp add: unat_word_ariths)

lemma mulhu_limbs:
  fixes a b :: u64
  defines "al \<equiv> a AND LO_MASK" and "bl \<equiv> b AND LO_MASK" and "ah \<equiv> drop_bit 32 a" and "bh \<equiv> drop_bit 32 b"
  defines "mid \<equiv> drop_bit 32 (al * bl) + ah * bl"
  defines "mid2 \<equiv> (mid AND LO_MASK) + al * bh"
  shows "ah * bh + drop_bit 32 mid + drop_bit 32 mid2 = mulhu a b"
proof -
  have low: "unat (x AND LO_MASK) = unat x mod 2 ^ 32" for x :: u64
    by (simp add: LO_MASK_def mask_simps unsigned_take_bit_eq) (simp add: take_bit_eq_mod)
  have high: "unat (drop_bit 32 x) = unat x div 2 ^ 32" for x :: u64 by (simp add: unat_drop_bit_eq drop_bit_nat_def)
  have w: "unat x < 2 ^ 64" for x :: u64 using unsigned_less [of x] by simp
  have d: "unat x div 2 ^ 32 < 2 ^ 32" for x :: u64 using w [of x] by (simp add: div_less_iff_less_mult)
  have m: "n mod 2 ^ 32 < 2 ^ 32" for n :: nat by simp
  have v: "unat al = unat a mod 2 ^ 32" "unat bl = unat b mod 2 ^ 32" "unat ah = unat a div 2 ^ 32"
    "unat bh = unat b div 2 ^ 32"
    by (simp_all only: al_def bl_def ah_def bh_def low high)
  have k: "unat al < 2 ^ 32" "unat bl < 2 ^ 32" "unat ah < 2 ^ 32" "unat bh < 2 ^ 32" unfolding v by (rule m m d d)+
  have 1: "unat (al * bl) = unat al * unat bl" using limb_bound [OF k(1,2), of 0] by (intro unat_mult_small) simp
  have 2: "unat (ah * bl) = unat ah * unat bl" using limb_bound [OF k(3,2), of 0] by (intro unat_mult_small) simp
  have 3: "unat mid = unat al * unat bl div 2 ^ 32 + unat ah * unat bl"
    unfolding mid_def using limb_bound [OF k(3,2) d [of "al * bl"]]
    by (subst unat_add_small) (simp_all only: 1 2 high)
  have 4: "unat (al * bh) = unat al * unat bh" using limb_bound [OF k(1,4), of 0] by (intro unat_mult_small) simp
  have 5: "unat mid2 = unat mid mod 2 ^ 32 + unat al * unat bh"
    unfolding mid2_def using limb_bound [OF k(1,4) m [of "unat mid"]]
    by (subst unat_add_small) (simp_all only: 4 low)
  have t: "unat a * unat b div 2 ^ 64 = unat ah * unat bh + unat mid div 2 ^ 32 + unat mid2 div 2 ^ 32"
    unfolding 5 3 v by (rule limbs_nat)
  have "unat a * unat b < 2 ^ 64 * 2 ^ 64" using w [of a] w [of b] by (intro mult_strict_mono) auto
  then have "unat a * unat b div 2 ^ 64 < 2 ^ 64" by (simp add: div_less_iff_less_mult)
  note lt = this [unfolded t]
  have "unat (ah * bh) = unat ah * unat bh" using lt by (intro unat_mult_small) linarith
  moreover have "unat (ah * bh + drop_bit 32 mid) = unat ah * unat bh + unat mid div 2 ^ 32"
    using lt calculation by (subst unat_add_small) (simp_all add: high)
  ultimately have "unat (ah * bh + drop_bit 32 mid + drop_bit 32 mid2) = unat a * unat b div 2 ^ 64"
    unfolding t using lt by (subst unat_add_small) (simp_all add: high)
  moreover have "unat (mulhu a b) = unat a * unat b div 2 ^ 64"
  proof -
    have "int (unat (mulhu a b)) = int (unat a * unat b div 2 ^ 64)"
      using high_half(3) [of a b] low_half [of a b] by (simp add: zdiv_int)
    then show ?thesis by (simp only: of_nat_eq_iff)
  qed
  ultimately show ?thesis by (simp add: word_unat_eq_iff)
qed

text \<open>The signed high halves are the unsigned one less the operands whose sign bits are set.\<close>

lemma sign_mask: "signed_drop_bit 63 a AND b = (if sint a < 0 then b else (0 :: u64))"
proof -
  have "sint (signed_drop_bit 63 a) = (if sint a < 0 then - 1 else 0)"
    using sint_bounds64 [of a] int_div_pos_eq [of "sint a" "2 ^ 63" "- 1" "sint a + 2 ^ 63"]
    by (simp add: sint_signed_drop_bit_eq drop_bit_eq_div)
  then have "signed_drop_bit 63 a = (if sint a < 0 then - 1 else 0)"
    by (cases "sint a < 0") (simp_all add: signed_eq_0_iff signed_word_eqI)
  then show ?thesis by simp
qed

lemma sint_uint64: "sint (a :: u64) = uint a - (if sint a < 0 then 2 ^ 64 else 0)"
proof -
  have "uint a = sint a mod 2 ^ 64" by (simp add: uint_sint take_bit_eq_mod)
  then show ?thesis using sint_bounds64 [of a] mod_pos_pos_trivial [of "sint a" "2 ^ 64"] mod_pos_pos_trivial [of "sint a + 2 ^ 64" "2 ^ 64"]
    by simp
qed

lemma mulhsu_limbs: "mulhu a b - (signed_drop_bit 63 a AND b) = mulhsu a b"
proof -
  have "sint a * uint b = uint a * uint b + 2 ^ 64 * (if sint a < 0 then - uint b else 0)"
    by (subst sint_uint64) (simp add: algebra_simps)
  then have "sint a * uint b div 2 ^ 64 = uint a * uint b div 2 ^ 64 + (if sint a < 0 then - uint b else 0)"
    by (simp only: div_mult_self4) simp
  then show ?thesis by (simp add: mulhu_def mulhsu_def sign_mask)
qed

lemma mulh_limbs: "mulhu a b - (signed_drop_bit 63 a AND b) - (signed_drop_bit 63 b AND a) = mulh a b"
proof -
  let ?k = "(if sint a < 0 then - uint b else 0) + (if sint b < 0 then - uint a else 0)
    + (if sint a < 0 \<and> sint b < 0 then 2 ^ 64 else 0)"
  have "sint a * sint b = uint a * uint b + 2 ^ 64 * ?k"
    by (subst sint_uint64 [of a], subst sint_uint64 [of b]) (simp add: algebra_simps)
  then have "sint a * sint b div 2 ^ 64 = uint a * uint b div 2 ^ 64 + ?k"
    by (simp only: div_mult_self4) simp
  moreover have "(2 ^ 64 :: u64) = 0" by simp
  ultimately show ?thesis by (simp add: mulhu_def mulh_def sign_mask)
qed

section \<open>32-bit results from 64-bit operations\<close>

definition zx32 :: "u64 \<Rightarrow> u64" where
  "zx32 x = x AND 0xffffffff"

lemma zx32_ucast: "zx32 x = ucast (ucast x :: u32)"
  by (rule bit_word_eqI) (simp add: zx32_def mask_simps bit_simps)

lemma ucast_u32_u64: "ucast (ucast (w :: u32) :: u64) = w"
  by (rule bit_word_eqI) (simp add: bit_simps)

lemma ucast_low: "ucast (w :: u32) AND 0xffffffff = (ucast w :: u64)"
  by (rule bit_word_eqI) (auto simp: mask_simps bit_simps dest: bit_imp_le_length)

named_theorems narrow \<open>the low 32 bits of a 64-bit result are the 32-bit result\<close>

lemma unat_narrow: "unat (ucast (x :: u64) :: u32) = unat x mod 2 ^ 32"
  by (simp add: unsigned_ucast_eq take_bit_eq_mod)

lemma mod_narrow: "(n :: nat) mod 2 ^ 64 mod 2 ^ 32 = n mod 2 ^ 32"
  by (rule mod_mod_cancel) (simp add: dvd_power_le)

lemma narrow_arith [narrow]:
  "ucast (a + b :: u64) = (ucast a + ucast b :: u32)"
  "ucast (a * b :: u64) = (ucast a * ucast b :: u32)"
  "ucast (a - b :: u64) = (ucast a - ucast b :: u32)"
proof -
  show p: "ucast (a + b :: u64) = (ucast a + ucast b :: u32)" for a b :: u64
  proof -
    have "unat (ucast (a + b) :: u32) = (unat a + unat b) mod 2 ^ 64 mod 2 ^ 32"
      unfolding unat_narrow by (simp add: unat_word_ariths)
    also have "\<dots> = unat (ucast a + ucast b :: u32)"
      unfolding mod_narrow by (simp add: unat_word_ariths unat_narrow mod_add_eq)
    finally show ?thesis by (simp only: word_unat_eq_iff)
  qed
  have "unat (ucast (a * b) :: u32) = (unat a * unat b) mod 2 ^ 64 mod 2 ^ 32"
    unfolding unat_narrow by (simp add: unat_word_ariths)
  also have "\<dots> = unat (ucast a * ucast b :: u32)"
    unfolding mod_narrow by (simp add: unat_word_ariths unat_narrow mod_mult_eq)
  finally show "ucast (a * b :: u64) = (ucast a * ucast b :: u32)" by (simp only: word_unat_eq_iff)
  show "ucast (a - b :: u64) = (ucast a - ucast b :: u32)" using p [of "a - b" b] by simp
qed

lemma ucast_m1: "ucast (- 1 :: u64) = (- 1 :: u32)"
  by (rule bit_word_eqI) (simp add: bit_simps)

lemma narrow_shift [narrow]:
  "ucast (push_bit n (a :: u64)) = (push_bit n (ucast a) :: u32)"
  "ucast (drop_bit n (zx32 a)) = (drop_bit n (ucast a) :: u32)"
  "ucast (signed_drop_bit n (sx32 w)) = (signed_drop_bit n w :: u32)"
proof -
  show "ucast (push_bit n (a :: u64)) = (push_bit n (ucast a) :: u32)"
    "ucast (drop_bit n (zx32 a)) = (drop_bit n (ucast a) :: u32)"
    by (rule bit_word_eqI; auto simp: bit_simps zx32_def mask_simps)+
  show "ucast (signed_drop_bit n (sx32 w)) = (signed_drop_bit n w :: u32)"
  proof (rule bit_word_eqI)
    fix k assume "k < LENGTH(32)"
    then show "bit (ucast (signed_drop_bit n (sx32 w)) :: u32) k = bit (signed_drop_bit n w) k"
      by (cases "n + k < 31"; cases "n + k = 31") (auto simp: bit_simps sx32_def min_def)
  qed
qed

lemma narrow_shamt [narrow]: "unat (b AND 0x1f :: u64) = unat (ucast b AND 0x1f :: u32)"
proof -
  have "(ucast (b AND 0x1f) :: u32) = ucast b AND 0x1f" by (rule bit_word_eqI) (simp add: bit_simps mask_simps)
  moreover have "unat (ucast (b AND 0x1f) :: u32) = unat (b AND 0x1f)"
    using unat_take_bit_less [of 5 b] by (simp add: unsigned_ucast_eq take_bit_nat_eq_self mask_simps)
  ultimately show ?thesis by metis
qed

lemma sint_sx32: "sint (sx32 w) = sint w"
  using sint_ge [of w] sint_less [of w] by (simp add: sx32_def signed_scast_eq signed_take_bit_int_eq_self)

lemma ucast_sx32 [simp]: "ucast (sx32 w) = w"
proof (rule bit_word_eqI)
  fix k assume "k < LENGTH(32)"
  then show "bit (ucast (sx32 w) :: u32) k = bit w k" by (cases "k = 31") (auto simp: sx32_def bit_simps min_def)
qed

lemma ucast_of_int: "ucast (word_of_int k :: u64) = (word_of_int k :: u32)"
  by (rule bit_word_eqI) (simp add: bit_simps)

lemma sx32_eq_iff: "sx32 v = sx32 w \<longleftrightarrow> v = w"
  by (metis ucast_sx32)

lemma sx32_0: "sx32 w = 0 \<longleftrightarrow> w = 0"
  using sx32_eq_iff [of w 0] by (simp add: sx32_def)

lemma sx32_m1: "sx32 w = - 1 \<longleftrightarrow> w = - 1"
  using sx32_eq_iff [of w "- 1"] by (simp add: sx32_def)

lemma sx32_not_min: "sx32 w \<noteq> I64_MIN"
proof -
  have "sint (sx32 w) \<ge> - (2 ^ 31)" using sint_ge [of w] by (simp add: sint_sx32)
  moreover have "sint I64_MIN = - (2 ^ 63)" by (simp add: I64_MIN_def)
  ultimately show ?thesis by force
qed

lemma narrow_div_s [narrow]:
  "ucast (if sx32 b = 0 then - 1 else if sx32 a = MIN32 \<and> sx32 b = - 1 then MIN32 else wrapping_div_i (sx32 a) (sx32 b))
   = div_s a b"
proof -
  have o: "wrapping_div_i (push_bit 31 1 :: u32) (- 1) = push_bit 31 1" by (simp add: wrapping_div_i_def trunc_div_def)
  have m: "MIN32 = sx32 (push_bit 31 1)" by (simp add: MIN32_def sx32_def)
  show ?thesis
    unfolding m sx32_0 sx32_m1 sx32_eq_iff
    using o by (auto simp: div_s_def wrapping_div_i_def sint_sx32 ucast_of_int ucast_m1)
qed

lemma narrow_rem_s [narrow]:
  "ucast (if sx32 b = 0 then sx32 a else wrapping_rem_i (sx32 a) (sx32 b)) = rem_s a b"
  unfolding sx32_0 by (simp add: rem_s_def wrapping_rem_i_def sint_sx32 ucast_of_int)

lemma unat_zx32: "unat (zx32 x) = unat (ucast x :: u32)"
  by (simp add: zx32_def mask_simps unsigned_take_bit_eq unsigned_ucast_eq)

lemma zx32_0: "zx32 x = 0 \<longleftrightarrow> (ucast x :: u32) = 0"
  using unat_zx32 [of x] by (metis unsigned_0 unsigned_word_eqI)

lemma narrow_div_u [narrow]:
  "ucast (if zx32 b = 0 then - 1 else zx32 a div zx32 b) = (div_u (ucast a) (ucast b) :: u32)"
  "ucast (if zx32 b = 0 then zx32 a else zx32 a mod zx32 b) = (rem_u (ucast a) (ucast b) :: u32)"
proof -
  have t: "unat (ucast (w :: u64) :: u32) = unat w" if "unat w = unat v" for w and v :: u32
  proof -
    have "unat v < 2 ^ 32" by (rule order_less_le_trans [OF unsigned_less]) simp
    then show ?thesis using that by (simp add: unat_narrow)
  qed
  have d: "ucast (zx32 a div zx32 b) = (ucast a div ucast b :: u32)"
    using t [of "zx32 a div zx32 b" "ucast a div ucast b"] by (simp only: word_unat_eq_iff unat_div unat_zx32)
  have m: "ucast (zx32 a mod zx32 b) = (ucast a mod ucast b :: u32)"
    using t [of "zx32 a mod zx32 b" "ucast a mod ucast b"] by (simp only: word_unat_eq_iff unat_mod unat_zx32)
  show "ucast (if zx32 b = 0 then - 1 else zx32 a div zx32 b) = (div_u (ucast a) (ucast b) :: u32)"
    unfolding zx32_0 using d by (simp add: div_u_def checked_div_def ucast_m1)
  have z: "ucast (zx32 a) = (ucast a :: u32)" by (rule bit_word_eqI) (simp add: zx32_def bit_simps mask_simps)
  show "ucast (if zx32 b = 0 then zx32 a else zx32 a mod zx32 b) = (rem_u (ucast a) (ucast b) :: u32)"
    unfolding zx32_0 using m z by (simp add: rem_u_def)
qed

end
