(* ===== verification/WasmSpec.thy ===== *)
theory WasmSpec
  imports WasmEmit "HOL-Library.Monad_Syntax"
begin

unbundle bit_operations_syntax

text \<open>
  What the encoder promises, against readers of the binary format: LEB128 integers read back, and a
  finished module reads back as the sections it was built from, with indices that point where they
  should.
\<close>

section \<open>LEB128\<close>

fun get_uleb :: "u8 list \<Rightarrow> (nat \<times> u8 list) option" where
  "get_uleb [] = None"
| "get_uleb (b # bs) =
     (if b < 0x80 then Some (unat b, bs)
      else do { (n, r) \<leftarrow> get_uleb bs; Some (unat b - 128 + 128 * n, r) })"

fun get_sleb :: "u8 list \<Rightarrow> (int \<times> u8 list) option" where
  "get_sleb [] = None"
| "get_sleb (b # bs) =
     (if b < 0x40 then Some (uint b, bs)
      else if b < 0x80 then Some (uint b - 128, bs)
      else do { (n, r) \<leftarrow> get_sleb bs; Some (uint b - 128 + 128 * n, r) })"

lemma uleb_append: "uleb v out = out @ uleb v []"
proof (induction "unat v" arbitrary: v out rule: less_induct)
  case less
  show ?case
  proof (cases "drop_bit 7 v = 0")
    case True
    then show ?thesis by (simp add: uleb.simps [of v] Let_def)
  next
    case False
    note ih = less [OF uleb_shift_less [OF False]]
    show ?thesis
      using False by (simp add: uleb.simps [of v] Let_def ih [of "out @ _"] ih [of "[_]"])
  qed
qed

lemma sleb_stop:
  "signed_drop_bit 7 v = 0 \<and> ucast (v AND 0x7f) AND (0x40 :: u8) = 0
   \<or> signed_drop_bit 7 v = - 1 \<and> ucast (v AND 0x7f) AND (0x40 :: u8) \<noteq> 0
   \<Longrightarrow> sleb v out = out @ [ucast (v AND 0x7f)]"
  by (subst sleb.simps) (simp only: Let_def if_True)

lemma sleb_more:
  "\<not> (signed_drop_bit 7 v = 0 \<and> ucast (v AND 0x7f) AND (0x40 :: u8) = 0
   \<or> signed_drop_bit 7 v = - 1 \<and> ucast (v AND 0x7f) AND (0x40 :: u8) \<noteq> 0)
   \<Longrightarrow> sleb v out = sleb (signed_drop_bit 7 v) (out @ [ucast (v AND 0x7f) OR 0x80])"
  by (subst sleb.simps) (simp only: Let_def if_False)

lemma sleb_append: "sleb v out = out @ sleb v []"
proof (induction "sleb_rank v" arbitrary: v out rule: less_induct)
  case less
  let ?b = "ucast (v AND 0x7f) :: u8" and ?v = "signed_drop_bit 7 v"
  show ?case
  proof (cases "?v = 0 \<and> ?b AND 0x40 = 0 \<or> ?v = - 1 \<and> ?b AND 0x40 \<noteq> 0")
    case True
    then show ?thesis by (simp only: sleb_stop append_Nil)
  next
    case False
    note ih = less [OF sleb_rank_less [OF False]]
    show ?thesis
      unfolding sleb_more [OF False] ih [of "out @ _"] ih [of "[] @ _"] by simp
  qed
qed

text \<open>The byte of a step, as a number: the low seven bits, with bit 7 added when more follow.\<close>

lemma low7: "unat (ucast (v AND 0x7f) :: u8) = unat (v :: u64) mod 128"
proof -
  have "unat (v AND 0x7f) = unat v mod 128"
    by (simp add: mask_simps unsigned_take_bit_eq) (simp add: take_bit_eq_mod)
  moreover have "unat (ucast (v AND 0x7f) :: u8) = unat (v AND 0x7f) mod 256"
    by (simp add: unsigned_ucast_eq take_bit_eq_mod)
  ultimately show ?thesis by simp
qed

lemma low7_less: "(ucast ((v :: u64) AND 0x7f) :: u8) < 0x80"
  using low7 [of v] by (simp add: word_less_nat_alt)

lemma low7_more:
  "unat (ucast (v AND 0x7f) OR 0x80 :: u8) = unat (v :: u64) mod 128 + 128"
proof -
  let ?b = "ucast (v AND 0x7f) :: u8"
  have "?b AND 2 ^ 7 = 0"
    unfolding and_exp_eq_0_iff_not_bit by (simp add: bit_simps mask_simps)
  then have "?b AND 0x80 = 0" by simp
  then have "?b OR 0x80 = ?b + 0x80" by (simp only: disjunctive_add_eq_or)
  then show ?thesis using low7 [of v] by (simp add: unat_word_ariths)
qed

lemma low7_more_not_less: "\<not> (ucast ((v :: u64) AND 0x7f) OR 0x80 :: u8) < 0x80"
  using low7_more [of v] by (simp add: word_less_nat_alt)

lemma get_uleb_more:
  "get_uleb ((ucast (v AND 0x7f) OR 0x80) # bs) =
     do { (n, r) \<leftarrow> get_uleb bs; Some (unat (v :: u64) mod 128 + 128 * n, r) }"
  using low7_more_not_less [of v] by (simp add: low7_more)

theorem get_uleb_uleb [simp]: "get_uleb (uleb v [] @ rest) = Some (unat v, rest)"
proof (induction "unat v" arbitrary: v rule: less_induct)
  case less
  have d: "unat (drop_bit 7 v) = unat v div 128" by (simp add: unat_drop_bit_eq drop_bit_nat_def)
  show ?case
  proof (cases "drop_bit 7 v = 0")
    case True
    then have "unat v div 128 = 0" using d by simp
    then have "unat v mod 128 = unat v" by simp
    then show ?thesis using True low7_less [of v] by (simp add: uleb.simps [of v] low7)
  next
    case False
    have "uleb v [] = (ucast (v AND 0x7f) OR 0x80) # uleb (drop_bit 7 v) []"
      using False by (simp add: uleb.simps [of v] uleb_append [of "drop_bit 7 v" "[_]"])
    then show ?thesis
      using less [OF uleb_shift_less [OF False]] by (simp only: append_Cons get_uleb_more) (simp add: d)
  qed
qed

text \<open>The signed loop stops exactly at the values of seven bits.\<close>

lemma low7_signed: "uint (ucast (v AND 0x7f) :: u8) = sint (v :: i64) mod 128"
proof -
  have "sint v mod 2 ^ 64 = uint v" by (simp add: uint_sint take_bit_eq_mod)
  then have "uint v mod 128 = sint v mod 2 ^ 64 mod 128" by simp
  also have "\<dots> = sint v mod 128" by (rule mod_mod_cancel) simp
  finally have u: "uint v mod 128 = sint v mod 128" .
  have "int (unat (ucast (v AND 0x7f) :: u8)) = int (unat v mod 128)" by (simp only: low7)
  then have "uint (ucast (v AND 0x7f) :: u8) = uint v mod 128"
    by (simp only: of_nat_mod uint_nat [symmetric] of_nat_numeral)
  then show ?thesis by (rule trans [OF _ u])
qed

lemma low7_bit6: "ucast (v AND 0x7f) AND (0x40 :: u8) = 0 \<longleftrightarrow> sint (v :: i64) mod 128 < 64"
proof -
  let ?b = "ucast (v AND 0x7f) :: u8"
  have "0x40 = (2 ^ 6 :: u8)" by simp
  then have "?b AND 0x40 = 0 \<longleftrightarrow> \<not> bit ?b 6" by (simp only: and_exp_eq_0_iff_not_bit)
  also have "bit ?b 6 \<longleftrightarrow> bit (uint ?b) 6" by (simp only: bit_uint_iff) simp
  also have "\<dots> \<longleftrightarrow> odd (sint v mod 128 div 64)" unfolding low7_signed by (simp add: bit_iff_odd)
  also have "\<dots> \<longleftrightarrow> \<not> sint v mod 128 < 64"
  proof -
    define r where "r = sint v mod 128"
    have "0 \<le> r" "r < 128" by (simp_all add: r_def)
    then have "r div 64 = (if r < 64 then 0 else 1)"
      using int_div_pos_eq [of r 64 1 "r - 64"] by (simp add: div_pos_pos_trivial)
    then show ?thesis by (simp add: r_def)
  qed
  finally show ?thesis by simp
qed

lemma sint_shift7: "sint (signed_drop_bit 7 (v :: i64)) = sint v div 128"
  by (simp add: sint_signed_drop_bit_eq drop_bit_eq_div)

lemma shift7_0: "signed_drop_bit 7 (v :: i64) = 0 \<longleftrightarrow> sint v div 128 = 0"
  using signed_word_eqI [of "signed_drop_bit 7 v" 0] by (auto simp: sint_shift7 [symmetric])

lemma shift7_m1: "signed_drop_bit 7 (v :: i64) = - 1 \<longleftrightarrow> sint v div 128 = - 1"
  using signed_word_eqI [of "signed_drop_bit 7 v" "- 1"] by (auto simp: sint_shift7 [symmetric])

lemma sleb_done_iff:
  "signed_drop_bit 7 v = 0 \<and> ucast (v AND 0x7f) AND (0x40 :: u8) = 0
   \<or> signed_drop_bit 7 v = - 1 \<and> ucast (v AND 0x7f) AND (0x40 :: u8) \<noteq> 0
   \<longleftrightarrow> - 64 \<le> sint (v :: i64) \<and> sint v < 64"
proof -
  have "sint v = 128 * (sint v div 128) + sint v mod 128" "0 \<le> sint v mod 128" "sint v mod 128 < 128"
    by simp_all
  then show ?thesis unfolding low7_bit6 shift7_0 shift7_m1 by linarith
qed

lemma sleb_last: "- 64 \<le> sint v \<Longrightarrow> sint v < 64 \<Longrightarrow> sleb v [] = [ucast (v AND 0x7f)]"
  using sleb_stop [of v "[]"] unfolding sleb_done_iff by simp

lemma sleb_step:
  "\<not> (- 64 \<le> sint v \<and> sint v < 64) \<Longrightarrow>
     sleb v [] = (ucast (v AND 0x7f) OR 0x80) # sleb (signed_drop_bit 7 v) []
     \<and> sleb_rank (signed_drop_bit 7 v) < sleb_rank v"
  using sleb_more [of v "[]"] sleb_rank_less [of v] unfolding sleb_done_iff
  by (simp add: sleb_append [of "signed_drop_bit 7 v" "[_]"])

lemma mod_128_signed:
  "- 64 \<le> s \<Longrightarrow> s < 64 \<Longrightarrow> (if s mod 128 < 64 then s mod 128 else s mod 128 - 128) = (s :: int)"
proof (cases "0 \<le> s")
  case True
  assume "s < 64"
  then show ?thesis using True by (simp add: mod_pos_pos_trivial)
next
  case False
  assume "- 64 \<le> s"
  then have "(s + 128) mod 128 = s + 128" using False by (intro mod_pos_pos_trivial) auto
  then have "s mod 128 = s + 128" by simp
  then show ?thesis using \<open>- 64 \<le> s\<close> by simp
qed

lemma if_cases: "(if c then Some (x, z) else Some (y, z)) = Some (if c then x else y, z)"
  by simp

theorem get_sleb_sleb [simp]: "get_sleb (sleb v [] @ rest) = Some (sint v, rest)"
proof (induction "sleb_rank v" arbitrary: v rule: less_induct)
  case less
  let ?b = "ucast (v AND 0x7f) :: u8" and ?r = "sint v mod 128"
  have lt: "?b < 0x40 \<longleftrightarrow> ?r < 64" "?b < 0x80"
    using low7_less [of v] by (simp_all add: word_less_def low7_signed)
  show ?case
  proof (cases "- 64 \<le> sint v \<and> sint v < 64")
    case True
    then have e: "(if ?r < 64 then ?r else ?r - 128) = sint v" by (intro mod_128_signed) simp_all
    have "get_sleb (?b # rest) = Some (if ?r < 64 then ?r else ?r - 128, rest)"
      unfolding get_sleb.simps low7_signed lt(1) if_P [OF lt(2)] by (rule if_cases)
    then show ?thesis unfolding e sleb_last [OF conjunct1 [OF True] conjunct2 [OF True]] append_Cons append_Nil .
  next
    case False
    have "int (unat (?b OR 0x80)) = int (unat ?b + 128)" by (simp only: low7_more low7)
    then have m: "uint (?b OR 0x80) = ?r + 128" by (simp only: of_nat_add uint_nat [symmetric] low7_signed of_nat_numeral)
    moreover have "0 \<le> ?r" by simp
    ultimately have "\<not> uint (?b OR 0x80) < 64" by linarith
    then have n: "\<not> (?b OR 0x80) < 0x40" by (simp add: word_less_def)
    have s: "?r + 128 - 128 + 128 * (sint v div 128) = sint v" by simp
    have ih: "get_sleb (sleb (signed_drop_bit 7 v) [] @ rest) = Some (sint v div 128, rest)"
      using less [OF conjunct2 [OF sleb_step [OF False]]] by (simp only: sint_shift7)
    show ?thesis
      unfolding conjunct1 [OF sleb_step [OF False]] append_Cons get_sleb.simps ih m
        if_not_P [OF n] if_not_P [OF low7_more_not_less] bind.bind_lunit prod.case s ..
  qed
qed

text \<open>A value below \<open>2 ^ (7 * n)\<close> takes at most \<open>n\<close> bytes, as the format demands.\<close>

lemma length_uleb: "unat v < 2 ^ (7 * n) \<Longrightarrow> 0 < n \<Longrightarrow> length (uleb v []) \<le> n"
proof (induction n arbitrary: v)
  case (Suc n)
  have d: "unat (drop_bit 7 v) = unat v div 128" by (simp add: unat_drop_bit_eq drop_bit_nat_def)
  show ?case
  proof (cases "drop_bit 7 v = 0")
    case True
    then show ?thesis by (simp add: uleb.simps [of v])
  next
    case False
    then have p: "unat v div 128 \<noteq> 0" using d by (metis unsigned_0 unsigned_word_eqI)
    then have "0 < n" using Suc.prems(1) by (cases n) auto
    moreover have "unat (drop_bit 7 v) < 2 ^ (7 * n)"
      using Suc.prems(1) unfolding d by (simp add: div_less_iff_less_mult power_add mult.commute)
    ultimately have "length (uleb (drop_bit 7 v) []) \<le> n" by (intro Suc.IH)
    then show ?thesis
      using False by (simp add: uleb.simps [of v] uleb_append [of "drop_bit 7 v" "[_]"])
  qed
qed simp

lemma length_sleb:
  "- (2 ^ (7 * n + 6)) \<le> sint v \<Longrightarrow> sint v < 2 ^ (7 * n + 6) \<Longrightarrow> length (sleb v []) \<le> Suc n"
proof (induction n arbitrary: v)
  case 0
  then show ?case by (simp add: sleb_last)
next
  case (Suc n)
  show ?case
  proof (cases "- 64 \<le> sint v \<and> sint v < 64")
    case True
    then show ?thesis by (simp add: sleb_last)
  next
    case False
    have "- (128 * 2 ^ (7 * n + 6)) \<le> sint v" "sint v < 128 * 2 ^ (7 * n + 6)"
      using Suc.prems by (simp_all add: power_add)
    then have "- (2 ^ (7 * n + 6)) \<le> sint v div 128" "sint v div 128 < 2 ^ (7 * n + 6)" by linarith+
    then have "length (sleb (signed_drop_bit 7 v) []) \<le> Suc n" by (intro Suc.IH) (simp_all add: sint_shift7)
    then show ?thesis using sleb_step [OF False] by simp
  qed
qed

section \<open>A reader of modules\<close>

text \<open>
  Readers of the binary format, as far as the modules of this encoder use it: the five sections, the
  function types, the imports, the exports and the bodies with their groups of locals. A reader is
  given the bytes and returns what it read and the rest.
\<close>

definition get_byte :: "u8 list \<Rightarrow> (u8 \<times> u8 list) option" where
  "get_byte bs = (case bs of [] \<Rightarrow> None | b # r \<Rightarrow> Some (b, r))"

definition get_bytes :: "nat \<Rightarrow> u8 list \<Rightarrow> (u8 list \<times> u8 list) option" where
  "get_bytes n bs = (if n \<le> length bs then Some (take n bs, drop n bs) else None)"

primrec get_many :: "(u8 list \<Rightarrow> ('a \<times> u8 list) option) \<Rightarrow> nat \<Rightarrow> u8 list \<Rightarrow> ('a list \<times> u8 list) option" where
  "get_many p 0 bs = Some ([], bs)"
| "get_many p (Suc n) bs = do { (x, r) \<leftarrow> p bs; (xs, r') \<leftarrow> get_many p n r; Some (x # xs, r') }"

definition get_vec :: "(u8 list \<Rightarrow> ('a \<times> u8 list) option) \<Rightarrow> u8 list \<Rightarrow> ('a list \<times> u8 list) option" where
  "get_vec p bs = do { (n, r) \<leftarrow> get_uleb bs; get_many p n r }"

definition get_name :: "u8 list \<Rightarrow> (u8 list \<times> u8 list) option" where
  "get_name bs = do { (n, r) \<leftarrow> get_uleb bs; get_bytes n r }"

definition get_functype :: "u8 list \<Rightarrow> ((u8 list \<times> u8 list) \<times> u8 list) option" where
  "get_functype bs = do { (t, r) \<leftarrow> get_byte bs;
     if t \<noteq> 0x60 then None
     else do { (ps, r) \<leftarrow> get_vec get_byte r; (rs, r) \<leftarrow> get_vec get_byte r; Some ((ps, rs), r) } }"

datatype import_desc = IFunc nat | ITable u8 nat | IMemory nat

definition get_import :: "u8 list \<Rightarrow> ((u8 list \<times> u8 list \<times> import_desc) \<times> u8 list) option" where
  "get_import bs = do { (md, r) \<leftarrow> get_name bs; (nm, r) \<leftarrow> get_name r; (k, r) \<leftarrow> get_byte r;
     if k = 0 then do { (t, r) \<leftarrow> get_uleb r; Some ((md, nm, IFunc t), r) }
     else if k = 1 then do { (ty, r) \<leftarrow> get_byte r; (f, r) \<leftarrow> get_byte r;
       if f \<noteq> 0 then None else do { (n, r) \<leftarrow> get_uleb r; Some ((md, nm, ITable ty n), r) } }
     else if k = 2 then do { (f, r) \<leftarrow> get_byte r;
       if f \<noteq> 0 then None else do { (n, r) \<leftarrow> get_uleb r; Some ((md, nm, IMemory n), r) } }
     else None }"

definition get_export :: "u8 list \<Rightarrow> ((u8 list \<times> u8 \<times> nat) \<times> u8 list) option" where
  "get_export bs = do { (nm, r) \<leftarrow> get_name bs; (k, r) \<leftarrow> get_byte r; (i, r) \<leftarrow> get_uleb r; Some ((nm, k, i), r) }"

definition get_group :: "u8 list \<Rightarrow> ((nat \<times> u8) \<times> u8 list) option" where
  "get_group bs = do { (n, r) \<leftarrow> get_uleb bs; (t, r) \<leftarrow> get_byte r; Some ((n, t), r) }"

definition get_body :: "u8 list \<Rightarrow> (((nat \<times> u8) list \<times> u8 list) \<times> u8 list) option" where
  "get_body bs = do { (n, r) \<leftarrow> get_uleb bs; (b, r) \<leftarrow> get_bytes n r; (gs, code) \<leftarrow> get_vec get_group b;
     Some ((gs, code), r) }"

text \<open>A section: its number, its size, and a payload that the reader uses up.\<close>

definition get_section :: "u8 \<Rightarrow> (u8 list \<Rightarrow> ('a \<times> u8 list) option) \<Rightarrow> u8 list \<Rightarrow> ('a \<times> u8 list) option" where
  "get_section i p bs = do { (k, r) \<leftarrow> get_byte bs;
     if k \<noteq> i then None
     else do { (n, r) \<leftarrow> get_uleb r; (b, r) \<leftarrow> get_bytes n r; (x, e) \<leftarrow> p b; if e = [] then Some (x, r) else None } }"

record parsed_module =
  p_types :: "(u8 list \<times> u8 list) list"
  p_imports :: "(u8 list \<times> u8 list \<times> import_desc) list"
  p_funcs :: "nat list"
  p_exports :: "(u8 list \<times> u8 \<times> nat) list"
  p_codes :: "((nat \<times> u8) list \<times> u8 list) list"

definition get_module :: "u8 list \<Rightarrow> parsed_module option" where
  "get_module bs = do { (h, r) \<leftarrow> get_bytes 8 bs;
     if h \<noteq> [0x00, 0x61, 0x73, 0x6d, 1, 0, 0, 0] then None
     else do { (ts, r) \<leftarrow> get_section 1 (get_vec get_functype) r;
       (im, r) \<leftarrow> get_section 2 (get_vec get_import) r;
       (fs, r) \<leftarrow> get_section 3 (get_vec get_uleb) r;
       (es, r) \<leftarrow> get_section 7 (get_vec get_export) r;
       (cs, r) \<leftarrow> get_section 10 (get_vec get_body) r;
       if r = [] then Some \<lparr>p_types = ts, p_imports = im, p_funcs = fs, p_exports = es, p_codes = cs\<rparr>
       else None } }"

text \<open>
  Validation of the indices: every import and every function has a type, every function has a body,
  and every export is a function with a body, whose type is the block type. Names differ.
\<close>

definition imported_funcs :: "parsed_module \<Rightarrow> nat list" where
  "imported_funcs P = concat (map (\<lambda>(_, _, d). case d of IFunc t \<Rightarrow> [t] | _ \<Rightarrow> []) (p_imports P))"

definition indices_ok :: "parsed_module \<Rightarrow> bool" where
  "indices_ok P \<longleftrightarrow>
     (\<forall>t \<in> set (imported_funcs P @ p_funcs P). t < length (p_types P))
     \<and> length (p_codes P) = length (p_funcs P)
     \<and> (\<forall>(nm, k, i) \<in> set (p_exports P). k = 0 \<and> length (imported_funcs P) \<le> i
          \<and> i < length (imported_funcs P) + length (p_funcs P)
          \<and> p_types P ! (p_funcs P ! (i - length (imported_funcs P))) = ([0x7f], []))
     \<and> distinct (map fst (p_exports P))"

section \<open>Reading back what was written\<close>

named_theorems get_simps \<open>what a reader returns on the bytes of a writer\<close>

lemma get_byte_Cons [get_simps]: "get_byte (b # r) = Some (b, r)"
  by (simp add: get_byte_def)

lemma get_bytes_append [get_simps]: "n = length xs \<Longrightarrow> get_bytes n (xs @ r) = Some (xs, r)"
  by (simp add: get_bytes_def)

lemma get_many_append:
  assumes "\<And>x r. x \<in> set xs \<Longrightarrow> p (w x @ r) = Some (f x, r)"
  shows "get_many p (length xs) (concat (map w xs) @ r) = Some (map f xs, r)"
  using assms by (induction xs arbitrary: r) simp_all

lemma unat_length: "length xs < 2 ^ 64 \<Longrightarrow> unat (of_nat (length xs) :: u64) = length xs"
  by (simp add: unsigned_of_nat take_bit_nat_eq_self)

lemma get_vec_append:
  assumes "length xs < 2 ^ 64" "\<And>x r. x \<in> set xs \<Longrightarrow> p (w x @ r) = Some (f x, r)"
  shows "get_vec p (uleb (of_nat (length xs)) [] @ concat (map w xs) @ r) = Some (map f xs, r)"
  by (simp add: get_vec_def unat_length [OF assms(1)] get_many_append [of xs p w f, OF assms(2)])

lemma get_uleb_small [get_simps]: "b < 0x80 \<Longrightarrow> get_uleb (b # r) = Some (unat b, r)"
  by simp

lemma get_section_append:
  assumes "p payload = Some (x, [])" "length payload < 2 ^ 64"
  shows "get_section i p (i # uleb (of_nat (length payload)) [] @ payload @ r) = Some (x, r)"
  by (simp add: get_section_def get_simps unat_length [OF assms(2)] assms(1))

lemma wasm_section_append: "wasm_section m i p = m @ i # uleb (of_nat (length p)) [] @ p"
  by (simp add: wasm_section_def uleb_append [of _ "m @ _"])

text \<open>Decimal digits: read back, hence different for different numbers.\<close>

definition undecimal :: "u8 list \<Rightarrow> nat" where
  "undecimal ds = foldl (\<lambda>n d. 10 * n + (unat d - 48)) 0 ds"

lemma undecimal_decimal: "undecimal (decimal n) = n"
proof (induction n rule: decimal.induct)
  case (1 n)
  have u: "k < 10 \<Longrightarrow> unat (of_nat (48 + k) :: u8) = 48 + k" for k
    by (simp add: unsigned_of_nat take_bit_nat_eq_self del: of_nat_add)
  show ?case
  proof (cases "n < 10")
    case True
    then show ?thesis by (simp add: decimal.simps [of n] undecimal_def u del: of_nat_add)
  next
    case False
    then show ?thesis
      using "1.IH" u [of "n mod 10"] by (simp add: decimal.simps [of n] undecimal_def del: of_nat_add)
  qed
qed

lemma inj_decimal: "inj decimal"
  by (metis injI undecimal_decimal)

lemma length_decimal: "length (decimal n) \<le> Suc n"
proof (induction n rule: decimal.induct)
  case (1 n)
  have "\<not> n < 10 \<Longrightarrow> Suc (n div 10) \<le> n" by presburger
  then show ?case using 1 by (fastforce simp: decimal.simps [of n])
qed

lemma fold_append: "(\<And>x s. f x s = s @ w x) \<Longrightarrow> fold f xs s = s @ concat (map w xs)"
  by (induction xs arbitrary: s) simp_all

text \<open>What a module with several functions reads as.\<close>

definition body_parsed :: "raw_body \<Rightarrow> (nat \<times> u8) list \<times> u8 list" where
  "body_parsed b = (case b of (code, n64, n32) \<Rightarrow>
     (map (\<lambda>(c, t). (unat c, t)) (local_groups n64 n32), code @ [END]))"

definition exports_parsed :: "function_exports \<Rightarrow> (u8 list \<times> u8 \<times> nat) list" where
  "exports_parsed e = (case e of Run body \<Rightarrow> [(ascii ''run'', 0, 1 + body)]
     | Numbered first_body count \<Rightarrow>
         map (\<lambda>i. (ascii ''r'' @ decimal i, 0, 1 + first_body + i)) [0..<count])"

definition multi_parsed :: "raw_body list \<Rightarrow> function_exports \<Rightarrow> parsed_module" where
  "multi_parsed bodies e =
     \<lparr>p_types = [([0x7f], []), ([0x7f, 0x7e, 0x7f], [0x7e])],
      p_imports = [(ascii ''env'', ascii ''tlb_fill'', IFunc 1), (ascii ''env'', ascii ''memory'', IMemory 1)],
      p_funcs = replicate (length bodies) 0, p_exports = exports_parsed e, p_codes = map body_parsed bodies\<rparr>"

definition exports_fit :: "function_exports \<Rightarrow> nat \<Rightarrow> bool" where
  "exports_fit e n = (case e of Run body \<Rightarrow> body < n | Numbered first_body count \<Rightarrow> first_body + count \<le> n)"

lemma function_body_append:
  "function_body n64 n32 code =
     uleb (of_nat (length (local_groups n64 n32))) []
     @ concat (map (\<lambda>(c, t). uleb (ucast c) [] @ [t]) (local_groups n64 n32)) @ code @ [END]"
  unfolding function_body_def Let_def
  by (subst fold_append [where w = "\<lambda>(c, t). uleb (ucast c) [] @ [t]"]) (auto simp: uleb_append [of _ "_ # _"] intro: uleb_append)

definition coded :: "u8 list \<Rightarrow> u8 list" where
  "coded b = uleb (of_nat (length b)) [] @ b"

lemma multi_code_append:
  "multi_code bodies =
     uleb (of_nat (length bodies)) [] @ concat (map (\<lambda>(c, n64, n32). coded (function_body n64 n32 c)) bodies)"
  unfolding multi_code_def
  by (rule fold_append) (auto simp: coded_def Let_def intro: uleb_append)

lemma unat_ucast_u32 [simp]: "unat (ucast (c :: u32) :: u64) = unat c"
proof -
  have "unat c < 2 ^ 64" by (rule order_less_trans [OF unsigned_less]) simp
  then show ?thesis by (simp add: unsigned_ucast_eq take_bit_nat_eq_self)
qed

lemma get_group_simp [get_simps]: "get_group (uleb (ucast (c :: u32)) [] @ t # r) = Some ((unat c, t), r)"
  by (simp add: get_group_def get_simps)

lemma get_body_coded [get_simps]:
  assumes "length (function_body n64 n32 code) < 2 ^ 64"
  shows "get_body (coded (function_body n64 n32 code) @ r) = Some (body_parsed (code, n64, n32), r)"
proof -
  have "get_vec get_group (function_body n64 n32 code)
      = Some (map (\<lambda>(c, t). (unat c, t)) (local_groups n64 n32), code @ [END])"
    unfolding function_body_append
    by (rule get_vec_append) (auto simp: local_groups_def get_simps)
  then show ?thesis
    by (simp add: get_body_def coded_def body_parsed_def get_simps unat_length [OF assms])
qed

lemma get_export_append:
  assumes "length nm < 2 ^ 64" "i < 2 ^ 64"
  shows "get_export ((uleb (of_nat (length nm)) [] @ nm @ [0] @ uleb (of_nat i) []) @ r) = Some ((nm, 0, i), r)"
proof -
  have u: "unat (of_nat i :: u64) = i" using assms(2) by (simp add: unsigned_of_nat take_bit_nat_eq_self)
  show ?thesis
    by (simp add: get_export_def get_name_def get_simps unat_length [OF assms(1)] u)
qed

lemma get_codes:
  assumes "length (multi_code bodies) < 2 ^ 64"
  shows "get_vec get_body (multi_code bodies) = Some (map body_parsed bodies, [])"
proof -
  let ?w = "\<lambda>(c, n64, n32). coded (function_body n64 n32 c)"
  have l: "length (concat (map ?w bodies)) < 2 ^ 64" using assms by (simp add: multi_code_append)
  have m: "x \<in> set bodies \<Longrightarrow> length (?w x) \<le> length (concat (map ?w bodies))" for x
    by (simp only: length_concat) (rule member_le_sum_list, auto)
  have "length bodies \<le> length (concat (map ?w bodies))"
    by (induction bodies) (auto simp: coded_def function_body_def Let_def)
  then have "length bodies < 2 ^ 64" using l by linarith
  moreover have "get_body (?w x @ r) = Some (body_parsed x, r)" if "x \<in> set bodies" for x r
  proof -
    obtain c a b where x: "x = (c, a, b)" by (rule prod_cases3)
    have "length (function_body a b c) < 2 ^ 64"
      using m [OF that] l unfolding x by (simp add: coded_def)
    then show ?thesis unfolding x by (simp add: get_simps)
  qed
  ultimately show ?thesis
    using get_vec_append [of bodies get_body ?w body_parsed "[]"] by (simp add: multi_code_append)
qed

lemma get_exports:
  assumes "length (multi_exports e) < 2 ^ 32" "exports_fit e n" "n < 2 ^ 32"
  shows "get_vec get_export (multi_exports e) = Some (exports_parsed e, [])"
proof (cases e)
  case (Run body)
  then have b: "Suc body < 2 ^ 64" using assms by (simp add: exports_fit_def)
  have "multi_exports e = [1, 3] @ ascii ''run'' @ 0 # uleb (of_nat (1 + body)) []"
    unfolding Run multi_exports_def
    by (simp add: uleb_append [of _ "_ # _"] uleb_append [of _ "_ @ _"] uleb.simps [of 1] uleb.simps [of 3])
  moreover have "get_uleb (uleb (of_nat (1 + body)) []) = Some (1 + body, [])"
    using get_uleb_uleb [of "of_nat (1 + body)" "[]"] b by (simp add: unsigned_of_nat take_bit_nat_eq_self del: of_nat_Suc)
  moreover have "length (ascii ''run'') = 3" by (simp add: ascii_def)
  ultimately show ?thesis
    unfolding Run
    by (simp add: get_vec_def get_export_def get_name_def get_simps exports_parsed_def del: of_nat_Suc)
next
  case (Numbered f c)
  let ?nm = "\<lambda>i. ascii ''r'' @ decimal i"
  let ?w = "\<lambda>i. uleb (of_nat (length (?nm i))) [] @ ?nm i @ [0] @ uleb (of_nat (1 + f + i)) []"
  have e: "multi_exports e = uleb (of_nat c) [] @ concat (map ?w [0..<c])"
    unfolding Numbered multi_exports_def
    by simp (rule fold_append, simp add: Let_def uleb_append [of _ "_ @ _"], rule uleb_append)
  have c: "c < 2 ^ 32" "f + c < 2 ^ 32" using assms(2,3) by (simp_all add: Numbered exports_fit_def)
  have "get_export (?w i @ r) = Some ((?nm i, 0, 1 + f + i), r)" if "i \<in> set [0..<c]" for i r
  proof -
    have "length (?nm i) < 2 ^ 64" using length_decimal [of i] that c by (simp add: ascii_def)
    moreover have "1 + f + i < 2 ^ 64" using that c by simp
    ultimately show ?thesis by (rule get_export_append)
  qed
  then show ?thesis
    using get_vec_append [of "[0..<c]" get_export ?w "\<lambda>i. (?nm i, 0, 1 + f + i)" "[]"] c
    unfolding e by (simp add: exports_parsed_def Numbered)
qed

lemma get_types:
  "get_vec get_functype ([2] @ BLOCK_FUNCTION_TYPE @ TLB_FILL_FUNCTION_TYPE)
     = Some ([([0x7f], []), ([0x7f, 0x7e, 0x7f], [0x7e])], [])"
  by code_simp

lemma get_imports:
  "get_vec get_import ([2] @ [3] @ ascii ''env'' @ [8] @ ascii ''tlb_fill'' @ [0x00, 0x01]
     @ [3] @ ascii ''env'' @ [6] @ ascii ''memory'' @ [0x02, 0x00, 0x01])
     = Some ([(ascii ''env'', ascii ''tlb_fill'', IFunc 1), (ascii ''env'', ascii ''memory'', IMemory 1)], [])"
  by code_simp

lemma get_funcs:
  assumes "n < 2 ^ 64"
  shows "get_vec get_uleb (uleb (of_nat n) [] @ replicate n 0) = Some (replicate n 0, [])"
  using get_vec_append [of "replicate n ()" get_uleb "\<lambda>_. [0]" "\<lambda>_. 0" "[]"] assms
  by (simp add: map_replicate_const concat_replicate_single)

lemma indices_ok_multi:
  assumes "exports_fit e (length bodies)"
  shows "indices_ok (multi_parsed bodies e)"
proof -
  have d: "distinct (map fst (exports_parsed e))"
    using inj_decimal by (auto simp: exports_parsed_def distinct_map inj_on_def split: function_exports.splits)
  show ?thesis
    using assms d
    by (auto simp: indices_ok_def multi_parsed_def imported_funcs_def exports_parsed_def exports_fit_def
        split: function_exports.splits)
qed

text \<open>
  Property C38. A module of several functions reads back as the functions it was built from: their types, the two
  imports, every body with its groups of locals and its code, and the exports, whose indices pass over the imported
  function and hit the intended body; all indices are in range and the exported names differ.
\<close>
theorem modules_read_back:
  assumes "length (finish_multi_function bodies e) < 2 ^ 32" "exports_fit e (length bodies)"
  shows "get_module (finish_multi_function bodies e) = Some (multi_parsed bodies e)
    \<and> indices_ok (multi_parsed bodies e)"
proof -
  note w = finish_multi_function_def Let_def wasm_section_append
  define ts where "ts = [2] @ BLOCK_FUNCTION_TYPE @ TLB_FILL_FUNCTION_TYPE"
  define im where "im = [2] @ [3] @ ascii ''env'' @ [8] @ ascii ''tlb_fill'' @ [0x00, 0x01]
     @ [3] @ ascii ''env'' @ [6] @ ascii ''memory'' @ [0x02, 0x00, 0x01 :: u8]"
  define fs where "fs = uleb (of_nat (length bodies)) [] @ replicate (length bodies) 0"
  have split: "finish_multi_function bodies e = wasm_magic @ 1 # uleb (of_nat (length ts)) [] @ ts
      @ 2 # uleb (of_nat (length im)) [] @ im @ 3 # uleb (of_nat (length fs)) [] @ fs
      @ 7 # uleb (of_nat (length (multi_exports e))) [] @ multi_exports e
      @ 10 # uleb (of_nat (length (multi_code bodies))) [] @ multi_code bodies"
    unfolding finish_multi_function_def Let_def wasm_section_append ts_def [symmetric] im_def [symmetric] fs_def [symmetric]
    by (simp only: append_assoc append_Cons)
  have l: "length (multi_exports e) < 2 ^ 32" "length (multi_code bodies) < 2 ^ 64" "length bodies < 2 ^ 32"
    "length ts < 2 ^ 64" "length im < 2 ^ 64" "length fs < 2 ^ 64"
    using assms(1) by (simp_all add: w ts_def im_def fs_def)
  have b: "length bodies < 2 ^ 64" "length (multi_exports e) < 2 ^ 64" using l by simp_all
  have s: "get_section 1 (get_vec get_functype) (1 # uleb (of_nat (length ts)) [] @ ts @ r)
      = Some ([([0x7f], []), ([0x7f, 0x7e, 0x7f], [0x7e])], r)"
    "get_section 2 (get_vec get_import) (2 # uleb (of_nat (length im)) [] @ im @ r)
      = Some ([(ascii ''env'', ascii ''tlb_fill'', IFunc 1), (ascii ''env'', ascii ''memory'', IMemory 1)], r)"
    "get_section 3 (get_vec get_uleb) (3 # uleb (of_nat (length fs)) [] @ fs @ r)
      = Some (replicate (length bodies) 0, r)"
    "get_section 7 (get_vec get_export) (7 # uleb (of_nat (length (multi_exports e))) [] @ multi_exports e @ r)
      = Some (exports_parsed e, r)"
    "get_section 10 (get_vec get_body) (10 # uleb (of_nat (length (multi_code bodies))) [] @ multi_code bodies)
      = Some (map body_parsed bodies, [])" for r
    by (rule get_section_append, rule get_types [folded ts_def], rule l,
        rule get_section_append, rule get_imports [folded im_def], rule l,
        rule get_section_append, rule get_funcs [OF b(1), folded fs_def], rule l,
        rule get_section_append, rule get_exports [OF l(1) assms(2) l(3)], rule b,
        rule get_section_append [where r = "[]", unfolded append_Nil2], rule get_codes [OF l(2)], rule l)
  have h: "get_bytes 8 (wasm_magic @ r) = Some ([0x00, 0x61, 0x73, 0x6d, 1, 0, 0, 0], r)" for r
    by (simp add: get_bytes_def wasm_magic_def)
  have "get_module (finish_multi_function bodies e) = Some (multi_parsed bodies e)"
    by (simp only: split get_module_def h s bind.bind_lunit prod.case refl if_True if_False not_True_eq_False
        multi_parsed_def)
  then show ?thesis using indices_ok_multi [OF assms(2)] by simp
qed

section \<open>Modules of one function\<close>

lemma get_many_numeral [get_simps]:
  "get_many p (numeral n) bs =
     do { (x, r) \<leftarrow> p bs; (xs, r') \<leftarrow> get_many p (pred_numeral n) r; Some (x # xs, r') }"
  by (simp add: numeral_eq_Suc)

definition single_bodies :: "'a wasm_module_scheme \<Rightarrow> raw_body list" where
  "single_bodies m = (wm_code m, n_locals_i64 m, n_locals_i32 m)
     # (case wm_helper m of None \<Rightarrow> [] | Some h \<Rightarrow> [(h, 1, 2)])"

definition single_parsed :: "'a wasm_module_scheme \<Rightarrow> parsed_module" where
  "single_parsed m =
     \<lparr>p_types = ([0x7f], []) # (if wants_tlb_fill m then [([0x7f, 0x7e, 0x7f], [0x7e])] else [])
        @ (if wm_helper m \<noteq> None then [([], [0x7f])] else []),
      p_imports = (if wants_tlb_fill m then [(ascii ''env'', ascii ''tlb_fill'', IFunc 1)] else [])
        @ (if wants_chain_next m then [(ascii ''env'', ascii ''chain_next'', IFunc 0)] else [])
        @ [(ascii ''env'', ascii ''memory'', IMemory 1)]
        @ (if wants_table m then [(ascii ''env'', ascii ''__indirect_function_table'', ITable 0x70 0)] else []),
      p_funcs = 0 # (if wm_helper m \<noteq> None then [1 + of_bool (wants_tlb_fill m)] else []),
      p_exports = [(ascii ''run'', 0, of_bool (wants_tlb_fill m) + of_bool (wants_chain_next m))],
      p_codes = map body_parsed (single_bodies m)\<rparr>"

lemma get_finish_types: "get_vec get_functype (finish_types m) = Some (p_types (single_parsed m), [])"
  by (cases "wants_tlb_fill m"; cases "wm_helper m")
    (simp_all add: finish_types_def single_parsed_def b2w_def BLOCK_FUNCTION_TYPE_def TLB_FILL_FUNCTION_TYPE_def
      get_vec_def get_functype_def get_simps)

lemma ascii_lengths:
  "length (ascii ''env'') = 3" "length (ascii ''tlb_fill'') = 8" "length (ascii ''memory'') = 6"
  "length (ascii ''chain_next'') = 10" "length (ascii ''__indirect_function_table'') = 25" "length (ascii ''run'') = 3"
  by (simp_all add: ascii_def)

lemma get_finish_imports: "get_vec get_import (finish_imports m) = Some (p_imports (single_parsed m), [])"
  by (cases "wants_tlb_fill m"; cases "wants_chain_next m"; cases "wants_table m")
    (simp_all add: finish_imports_def single_parsed_def b2w_def get_vec_def get_import_def get_name_def
      get_simps ascii_lengths)

lemma get_finish_functions: "get_vec get_uleb (finish_functions m) = Some (p_funcs (single_parsed m), [])"
  by (cases "wants_tlb_fill m"; cases "wm_helper m")
    (simp_all add: finish_functions_def single_parsed_def b2w_def get_vec_def get_simps)

lemma get_finish_exports: "get_vec get_export (finish_exports m) = Some (p_exports (single_parsed m), [])"
  by (cases "wants_tlb_fill m"; cases "wants_chain_next m")
    (simp_all add: finish_exports_def single_parsed_def b2w_def get_vec_def get_export_def get_name_def
      get_simps ascii_lengths)

lemma helper_body_function: "helper_body h = function_body 1 2 h"
  by (simp add: helper_body_def function_body_def local_groups_def uleb.simps [of 1] uleb.simps [of 2] Let_def)

lemma finish_code_multi: "finish_code m = multi_code (single_bodies m)"
  by (cases "wm_helper m")
    (simp_all add: finish_code_def multi_code_def single_bodies_def helper_body_function Let_def
      uleb.simps [of 1] uleb.simps [of 2])

text \<open>
  Property C39. A finished module reads back as what the builder asked for: the function type, the import and the
  type of the helper are present exactly when wanted, the export is the body, and the index that \<open>set_helper\<close>
  returned is the helper, a function from nothing to \<open>i32\<close>.
\<close>
theorem finish_reads_back:
  assumes "length (finish m) < 2 ^ 32"
  shows "get_module (finish m) = Some (single_parsed m) \<and> indices_ok (single_parsed m)
    \<and> (has_helper m \<longrightarrow>
         (let P = single_parsed m; i = unat (fst (set_helper b m)) - length (imported_funcs P)
          in i = 1 \<and> p_types P ! (p_funcs P ! i) = ([], [0x7f])
             \<and> p_codes P ! i = body_parsed (the (wm_helper m), 1, 2)))"
proof -
  have l: "length (finish_types m) < 2 ^ 64" "length (finish_imports m) < 2 ^ 64" "length (finish_functions m) < 2 ^ 64"
    "length (finish_exports m) < 2 ^ 64" "length (finish_code m) < 2 ^ 64"
    using assms by (simp_all add: finish_def Let_def wasm_section_append)
  have split: "finish m = wasm_magic @ 1 # uleb (of_nat (length (finish_types m))) [] @ finish_types m
      @ 2 # uleb (of_nat (length (finish_imports m))) [] @ finish_imports m
      @ 3 # uleb (of_nat (length (finish_functions m))) [] @ finish_functions m
      @ 7 # uleb (of_nat (length (finish_exports m))) [] @ finish_exports m
      @ 10 # uleb (of_nat (length (finish_code m))) [] @ finish_code m"
    unfolding finish_def Let_def wasm_section_append by (simp only: append_assoc append_Cons)
  have s: "get_section 1 (get_vec get_functype) (1 # uleb (of_nat (length (finish_types m))) [] @ finish_types m @ r)
      = Some (p_types (single_parsed m), r)"
    "get_section 2 (get_vec get_import) (2 # uleb (of_nat (length (finish_imports m))) [] @ finish_imports m @ r)
      = Some (p_imports (single_parsed m), r)"
    "get_section 3 (get_vec get_uleb) (3 # uleb (of_nat (length (finish_functions m))) [] @ finish_functions m @ r)
      = Some (p_funcs (single_parsed m), r)"
    "get_section 7 (get_vec get_export) (7 # uleb (of_nat (length (finish_exports m))) [] @ finish_exports m @ r)
      = Some (p_exports (single_parsed m), r)"
    "get_section 10 (get_vec get_body) (10 # uleb (of_nat (length (finish_code m))) [] @ finish_code m)
      = Some (map body_parsed (single_bodies m), [])" for r
    by (rule get_section_append, rule get_finish_types, rule l,
        rule get_section_append, rule get_finish_imports, rule l,
        rule get_section_append, rule get_finish_functions, rule l,
        rule get_section_append, rule get_finish_exports, rule l,
        rule get_section_append [where r = "[]", unfolded append_Nil2],
        unfold finish_code_multi, rule get_codes [OF l(5) [unfolded finish_code_multi]],
        rule l(5) [unfolded finish_code_multi])
  have h: "get_bytes 8 (wasm_magic @ r) = Some ([0x00, 0x61, 0x73, 0x6d, 1, 0, 0, 0], r)" for r
    by (simp add: get_bytes_def wasm_magic_def)
  have g: "get_module (finish m) = Some (single_parsed m)"
    by (simp only: split get_module_def h s bind.bind_lunit prod.case refl if_True if_False not_True_eq_False)
      (simp add: single_parsed_def)
  show ?thesis using g 
    by (cases "wants_tlb_fill m"; cases "wants_chain_next m"; cases "wm_helper m")
      (auto simp: indices_ok_def imported_funcs_def single_parsed_def single_bodies_def has_helper_def set_helper_def
        b2w_def Let_def)
qed

section \<open>Witnesses and the integers\<close>

lemma modules_read_back_witness:
  "get_module (finish_page_module ([0x0f], 2, 0) [([], 0, 1)])
     = Some (multi_parsed [([0x0f], 2, 0), ([], 0, 1)] (Run 0))
   \<and> get_module (finish_batch [([0x0f], 2, 0), ([], 0, 1)])
     = Some (multi_parsed [([0x0f], 2, 0), ([], 0, 1)] (Numbered 0 2))"
proof -
  let ?b = "[([0x0f], 2, 0), ([], 0, 1)] :: raw_body list"
  note bytes = finish_multi_function_def Let_def wasm_section_def uleb.simps multi_exports_def multi_code_def
    function_body_def local_groups_def decimal.simps upt_rec ascii_def wasm_magic_def BLOCK_FUNCTION_TYPE_def
    TLB_FILL_FUNCTION_TYPE_def
  have "length (finish_multi_function ?b (Run 0)) < 2 ^ 32" "length (finish_multi_function ?b (Numbered 0 2)) < 2 ^ 32"
    by (simp_all add: bytes)
  then show ?thesis
    using modules_read_back [of ?b "Run 0"] modules_read_back [of ?b "Numbered 0 2"]
    by (simp add: finish_page_module_def finish_batch_def exports_fit_def numeral_2_eq_2)
qed

lemma finish_reads_back_witness:
  "get_module (finish (use_chain_next (snd (set_helper [0x0f] (new_module 3)))))
     = Some (single_parsed (use_chain_next (snd (set_helper [0x0f] (new_module 3)))))"
proof -
  have "length (finish (use_chain_next (snd (set_helper [0x0f] (new_module 3))))) < 2 ^ 32"
    by (simp add: finish_def Let_def wasm_section_def uleb.simps finish_types_def finish_imports_def
      finish_functions_def finish_exports_def finish_code_def function_body_def helper_body_def local_groups_def
      use_chain_next_def set_helper_def new_module_def ascii_def wasm_magic_def BLOCK_FUNCTION_TYPE_def
      TLB_FILL_FUNCTION_TYPE_def)
  then show ?thesis by (rule conjunct1 [OF finish_reads_back [of _ "[]"]])
qed

text \<open>
  Property C40. An encoded integer reads back as its value, unsigned or signed, with what follows untouched, and in
  no more bytes than the format allows: ten for 64 bits, five for 32.
\<close>
theorem leb128_round_trip:
  "get_uleb (uleb v [] @ r) = Some (unat v, r)
   \<and> get_sleb (sleb w [] @ r) = Some (sint w, r)
   \<and> length (uleb v []) \<le> 10 \<and> length (uleb (ucast (i :: u32)) []) \<le> 5
   \<and> length (sleb w []) \<le> 10 \<and> length (sleb (scast (j :: i32)) []) \<le> 5"
proof -
  have "unat v < 2 ^ (7 * 10)" "unat (ucast i :: u64) < 2 ^ (7 * 5)"
    by (rule order_less_le_trans [OF unsigned_less], simp,
        simp only: unat_ucast_u32, rule order_less_le_trans [OF unsigned_less], simp)
  then have "length (uleb v []) \<le> 10" "length (uleb (ucast i) []) \<le> 5"
    using length_uleb [of v 10] length_uleb [of "ucast i" 5] by simp_all
  note u = this
  have "- (2 ^ 63) \<le> sint w" "sint w < 2 ^ 63" "- (2 ^ 31) \<le> sint j" "sint j < 2 ^ 31"
    using sint_ge [of w] sint_lt [of w] sint_ge [of j] sint_lt [of j] by simp_all
  moreover have "sint (scast j :: i64) = sint j"
    using calculation by (simp add: signed_scast_eq signed_take_bit_int_eq_self)
  ultimately have "length (sleb w []) \<le> 10" "length (sleb (scast j) []) \<le> 5"
    using length_sleb [of 9 w] length_sleb [of 4 "scast j"] by simp_all
  then show ?thesis using u by simp
qed

end
