(* ===== verification/Wasm.thy ===== *)
theory Wasm
  imports WasmSpec Alu
begin

unbundle bit_operations_syntax

text \<open>
  The reference for the code the translator emits: the instructions of WebAssembly it uses, their
  binary encoding and a decoder for it, and their meaning on linear memory, locals and an operand
  stack, after the WebAssembly core specification. A trap, and code that the validation of the
  specification would refuse, ends in \<open>Trap\<close>. Imported functions are a parameter of the semantics.
\<close>

section \<open>Instructions\<close>

datatype plain = I64Add | I64Sub | I64Mul | I64DivS | I64DivU | I64RemS | I64RemU | I64And | I64Or | I64Xor
  | I64Shl | I64ShrS | I64ShrU | I64Eq | I64Ne | I64LtS | I64LtU | I64GtS | I64GtU | I64GeS | I64GeU | I64Eqz
  | I32Eqz | I32Ne | I32And | I32Or | I32Xor | I32Add | I32Sub | I32Shl | I32ShrU | I32LtS | I32GeU
  | I32WrapI64 | I64ExtendI32S | I64ExtendI32U | Select | Drop | Unreachable | Return

datatype load_op = L64 | L8S | L8U | L16S | L16U | L32S | L32U

datatype store_op = S64 | S8 | S16 | S32

datatype block_type = Void | ResultI32

datatype wi = Plain plain | I64Const u64 | I32Const u32 | LocalGet u32 | LocalSet u32
  | LoadAt load_op u64 u64 | StoreAt store_op u64 u64 | Call u32 | If block_type "wi list" "wi list"

section \<open>Encoding\<close>

text \<open>The opcode bytes of the specification.\<close>

primrec plain_code :: "plain \<Rightarrow> u8" where
  "plain_code I64Add = 0x7c" | "plain_code I64Sub = 0x7d" | "plain_code I64Mul = 0x7e"
| "plain_code I64DivS = 0x7f" | "plain_code I64DivU = 0x80" | "plain_code I64RemS = 0x81" | "plain_code I64RemU = 0x82"
| "plain_code I64And = 0x83" | "plain_code I64Or = 0x84" | "plain_code I64Xor = 0x85" | "plain_code I64Shl = 0x86"
| "plain_code I64ShrS = 0x87" | "plain_code I64ShrU = 0x88" | "plain_code I64Eq = 0x51" | "plain_code I64Ne = 0x52"
| "plain_code I64LtS = 0x53" | "plain_code I64LtU = 0x54" | "plain_code I64GtS = 0x55" | "plain_code I64GtU = 0x56"
| "plain_code I64GeS = 0x59" | "plain_code I64GeU = 0x5a" | "plain_code I64Eqz = 0x50" | "plain_code I32Eqz = 0x45"
| "plain_code I32Ne = 0x47" | "plain_code I32And = 0x71" | "plain_code I32Or = 0x72" | "plain_code I32Xor = 0x73"
| "plain_code I32Add = 0x6a" | "plain_code I32Sub = 0x6b" | "plain_code I32Shl = 0x74" | "plain_code I32ShrU = 0x76"
| "plain_code I32LtS = 0x48" | "plain_code I32GeU = 0x4f" | "plain_code I32WrapI64 = 0xa7"
| "plain_code I64ExtendI32S = 0xac" | "plain_code I64ExtendI32U = 0xad" | "plain_code Select = 0x1b"
| "plain_code Drop = 0x1a" | "plain_code Unreachable = 0x00" | "plain_code Return = 0x0f"

primrec load_code :: "load_op \<Rightarrow> u8" where
  "load_code L64 = 0x29" | "load_code L8S = 0x30" | "load_code L8U = 0x31" | "load_code L16S = 0x32"
| "load_code L16U = 0x33" | "load_code L32S = 0x34" | "load_code L32U = 0x35"

primrec store_code :: "store_op \<Rightarrow> u8" where
  "store_code S64 = 0x37" | "store_code S8 = 0x3c" | "store_code S16 = 0x3d" | "store_code S32 = 0x3e"

primrec block_code :: "block_type \<Rightarrow> u8" where
  "block_code Void = 0x40" | "block_code ResultI32 = 0x7f"

fun asm1 :: "wi \<Rightarrow> u8 list" and asm :: "wi list \<Rightarrow> u8 list" where
  "asm1 (Plain p) = [plain_code p]"
| "asm1 (I64Const v) = 0x42 # sleb v []"
| "asm1 (I32Const v) = 0x41 # sleb (scast v) []"
| "asm1 (LocalGet i) = 0x20 # uleb (ucast i) []"
| "asm1 (LocalSet i) = 0x21 # uleb (ucast i) []"
| "asm1 (LoadAt l a off) = load_code l # uleb a [] @ uleb off []"
| "asm1 (StoreAt l a off) = store_code l # uleb a [] @ uleb off []"
| "asm1 (Call i) = 0x10 # uleb (ucast i) []"
| "asm1 (If t as bs) = [0x04, block_code t] @ asm as @ (if bs = [] then [] else 0x05 # asm bs) @ [0x0b]"
| "asm [] = []"
| "asm (i # is) = asm1 i @ asm is"

lemma asm_append: "asm (xs @ ys) = asm xs @ asm ys"
  by (induction xs) simp_all

section \<open>Decoding\<close>

definition plains :: "plain list" where
  "plains = [I64Add, I64Sub, I64Mul, I64DivS, I64DivU, I64RemS, I64RemU, I64And, I64Or, I64Xor, I64Shl, I64ShrS,
     I64ShrU, I64Eq, I64Ne, I64LtS, I64LtU, I64GtS, I64GtU, I64GeS, I64GeU, I64Eqz, I32Eqz, I32Ne, I32And, I32Or,
     I32Xor, I32Add, I32Sub, I32Shl, I32ShrU, I32LtS, I32GeU, I32WrapI64, I64ExtendI32S, I64ExtendI32U, Select,
     Drop, Unreachable, Return]"

definition plain_of :: "u8 \<Rightarrow> plain option" where
  "plain_of b = map_of (map (\<lambda>p. (plain_code p, p)) plains) b"

definition load_of :: "u8 \<Rightarrow> load_op option" where
  "load_of b = map_of (map (\<lambda>p. (load_code p, p)) [L64, L8S, L8U, L16S, L16U, L32S, L32U]) b"

definition store_of :: "u8 \<Rightarrow> store_op option" where
  "store_of b = map_of (map (\<lambda>p. (store_code p, p)) [S64, S8, S16, S32]) b"

definition block_of :: "u8 \<Rightarrow> block_type option" where
  "block_of b = (if b = 0x40 then Some Void else if b = 0x7f then Some ResultI32 else None)"

text \<open>Instructions without a nested sequence.\<close>

definition dis_flat :: "u8 \<Rightarrow> u8 list \<Rightarrow> (wi \<times> u8 list) option" where
  "dis_flat b bs =
     (if b = 0x42 then do { (v, r) \<leftarrow> get_sleb bs; Some (I64Const (word_of_int v), r) }
      else if b = 0x41 then do { (v, r) \<leftarrow> get_sleb bs; Some (I32Const (word_of_int v), r) }
      else if b = 0x20 then do { (i, r) \<leftarrow> get_uleb bs; Some (LocalGet (of_nat i), r) }
      else if b = 0x21 then do { (i, r) \<leftarrow> get_uleb bs; Some (LocalSet (of_nat i), r) }
      else if b = 0x10 then do { (i, r) \<leftarrow> get_uleb bs; Some (Call (of_nat i), r) }
      else case plain_of b of Some p \<Rightarrow> Some (Plain p, bs)
      | None \<Rightarrow> (case load_of b of
          Some l \<Rightarrow> do { (a, r) \<leftarrow> get_uleb bs; (off, r) \<leftarrow> get_uleb r; Some (LoadAt l (of_nat a) (of_nat off), r) }
        | None \<Rightarrow> (case store_of b of
            Some l \<Rightarrow> do { (a, r) \<leftarrow> get_uleb bs; (off, r) \<leftarrow> get_uleb r; Some (StoreAt l (of_nat a) (of_nat off), r) }
          | None \<Rightarrow> None)))"

text \<open>A sequence up to its \<open>end\<close> or \<open>else\<close>; the fuel bounds the number of instructions.\<close>

fun dis :: "nat \<Rightarrow> u8 list \<Rightarrow> (wi list \<times> u8 \<times> u8 list) option" where
  "dis 0 bs = None"
| "dis (Suc n) [] = None"
| "dis (Suc n) (b # bs) =
     (if b = 0x0b \<or> b = 0x05 then Some ([], b, bs)
      else if b = 0x04 then
        do { (tb, r) \<leftarrow> get_byte bs; t \<leftarrow> block_of tb; (xs, e, r) \<leftarrow> dis n r;
             (ys, r) \<leftarrow> (if e = 0x05 then do { (ys, e', r) \<leftarrow> dis n r; if e' = 0x0b then Some (ys, r) else None }
                        else Some ([], r));
             map_option (\<lambda>(is, er). (If t xs ys # is, er)) (dis n r) }
      else do { (i, r) \<leftarrow> dis_flat b bs; map_option (\<lambda>(is, er). (i # is, er)) (dis n r) })"

lemma plain_of_code: "plain_of (plain_code p) = Some p"
  by (cases p) (simp_all add: plain_of_def plains_def)

lemma plain_code_other: "plain_code p \<notin> {0x0b, 0x05, 0x04, 0x42, 0x41, 0x20, 0x21, 0x10}"
  by (cases p) simp_all

lemma load_of_code: "load_of (load_code l) = Some l" "plain_of (load_code l) = None"
    "load_code l \<notin> {0x0b, 0x05, 0x04, 0x42, 0x41, 0x20, 0x21, 0x10}"
  by (cases l; simp add: load_of_def plain_of_def plains_def)+

lemma store_of_code: "store_of (store_code l) = Some l" "plain_of (store_code l) = None" "load_of (store_code l) = None"
    "store_code l \<notin> {0x0b, 0x05, 0x04, 0x42, 0x41, 0x20, 0x21, 0x10}"
  by (cases l; simp add: load_of_def store_of_def plain_of_def plains_def)+

lemma block_of_code: "block_of (block_code t) = Some t"
  by (cases t) (simp_all add: block_of_def)

lemma scast_i32 [simp]: "scast (scast (v :: i32) :: i64) = v"
proof (rule bit_word_eqI)
  fix n assume "n < LENGTH(32)"
  then show "bit (scast (scast v :: i64) :: i32) n \<longleftrightarrow> bit v n" by (cases "n = 31") (auto simp: bit_simps)
qed

lemma dis_flat_asm1:
  assumes "\<And>t as bs. i \<noteq> If t as bs"
  shows "\<exists>b r. asm1 i = b # r \<and> b \<notin> {0x0b, 0x05, 0x04} \<and> (\<forall>rest. dis_flat b (r @ rest) = Some (i, rest))"
  using assms plain_code_other load_of_code store_of_code
  by (cases i) (auto simp: dis_flat_def plain_of_code)

lemma dis_flat_step:
  assumes "\<And>t as bs. i \<noteq> If t as bs"
  shows "dis (Suc n) (asm1 i @ rest) = map_option (\<lambda>(is, er). (i # is, er)) (dis n rest)"
  using dis_flat_asm1 [OF assms] by auto

lemma length_asm1: "0 < length (asm1 i)"
  by (cases i) simp_all

lemma dis_asm1_asm:
  "length (asm1 i) \<le> n \<Longrightarrow> dis (Suc n) (asm1 i @ rest) = map_option (\<lambda>(is, er). (i # is, er)) (dis n rest)"
  "e = 0x0b \<or> e = 0x05 \<Longrightarrow> length (asm is) < n \<Longrightarrow> dis n (asm is @ e # r) = Some (is, e, r)"
proof (induction i and "is" arbitrary: n rest and n e r rule: asm1_asm.induct)
  case (9 t as bs)
  show ?case
  proof (cases "bs = []")
    case True
    then show ?thesis using 9 by (simp add: get_byte_Cons block_of_code)
  next
    case False
    then show ?thesis using 9 by (simp add: get_byte_Cons block_of_code)
  qed
next
  case 10
  then show ?case by (cases n) auto
next
  case (11 i "is")
  then obtain m where m: "n = Suc m" by (cases n) auto
  have "length (asm1 i) + length (asm is) < Suc m" using 11(4) by (simp add: m)
  then have "length (asm1 i) \<le> m" "length (asm is) < m" using length_asm1 [of i] by linarith+
  then show ?case using 11(1) [of m] 11(2) [OF 11(3)] by (simp add: m)
qed (rule dis_flat_step, simp)+

text \<open>The decoder reads back an assembled sequence.\<close>

theorem dis_asm: "dis (Suc (length (asm is))) (asm is @ 0x0b # r) = Some (is, 0x0b, r)"
  by (rule dis_asm1_asm) simp_all

lemma asm_inject: "asm xs = asm ys \<Longrightarrow> xs = ys"
  by (metis dis_asm option.inject prod.inject)

section \<open>Meaning\<close>

datatype wval = V32 u32 | V64 u64

record wstate =
  wmem :: "nat \<Rightarrow> u8"
  wsize :: nat
  wlocals :: "wval list"
  wstack :: "wval list"

datatype outcome = Done wstate | Returned wstate | Trap

text \<open>Little-endian access to linear memory.\<close>

definition mem_get :: "(nat \<Rightarrow> u8) \<Rightarrow> nat \<Rightarrow> nat \<Rightarrow> 'a::len word" where
  "mem_get m a n = from_le (map m [a..<a + n])"

definition mem_put :: "nat \<Rightarrow> nat \<Rightarrow> 'a::len word \<Rightarrow> (nat \<Rightarrow> u8) \<Rightarrow> nat \<Rightarrow> u8" where
  "mem_put a n v m = (\<lambda>i. if a \<le> i \<and> i < a + n then to_le n v ! (i - a) else m i)"

text \<open>Division traps on a zero divisor, and signed division on an overflowing quotient.\<close>

definition i64_div_s :: "u64 \<Rightarrow> u64 \<Rightarrow> u64 option" where
  "i64_div_s a b = (if b = 0 \<or> sint a = - (2 ^ 63) \<and> b = - 1 then None
     else Some (word_of_int (trunc_div (sint a) (sint b))))"

definition i64_rem_s :: "u64 \<Rightarrow> u64 \<Rightarrow> u64 option" where
  "i64_rem_s a b = (if b = 0 then None else Some (word_of_int (trunc_rem (sint a) (sint b))))"

text \<open>Pop two operands of 64 or 32 bits, the right one on top.\<close>

definition bin64 :: "(u64 \<Rightarrow> u64 \<Rightarrow> wval option) \<Rightarrow> wval list \<Rightarrow> wval list option" where
  "bin64 f st = (case st of V64 b # V64 a # r \<Rightarrow> (case f a b of Some v \<Rightarrow> Some (v # r) | None \<Rightarrow> None) | _ \<Rightarrow> None)"

definition bin32 :: "(u32 \<Rightarrow> u32 \<Rightarrow> u32) \<Rightarrow> wval list \<Rightarrow> wval list option" where
  "bin32 f st = (case st of V32 b # V32 a # r \<Rightarrow> Some (V32 (f a b) # r) | _ \<Rightarrow> None)"

definition un64 :: "(u64 \<Rightarrow> wval) \<Rightarrow> wval list \<Rightarrow> wval list option" where
  "un64 f st = (case st of V64 a # r \<Rightarrow> Some (f a # r) | _ \<Rightarrow> None)"

definition un32 :: "(u32 \<Rightarrow> wval) \<Rightarrow> wval list \<Rightarrow> wval list option" where
  "un32 f st = (case st of V32 a # r \<Rightarrow> Some (f a # r) | _ \<Rightarrow> None)"

primrec plain_op :: "plain \<Rightarrow> wval list \<Rightarrow> wval list option" where
  "plain_op I64Add = bin64 (\<lambda>a b. Some (V64 (a + b)))"
| "plain_op I64Sub = bin64 (\<lambda>a b. Some (V64 (a - b)))"
| "plain_op I64Mul = bin64 (\<lambda>a b. Some (V64 (a * b)))"
| "plain_op I64DivS = bin64 (\<lambda>a b. map_option V64 (i64_div_s a b))"
| "plain_op I64DivU = bin64 (\<lambda>a b. if b = 0 then None else Some (V64 (a div b)))"
| "plain_op I64RemS = bin64 (\<lambda>a b. map_option V64 (i64_rem_s a b))"
| "plain_op I64RemU = bin64 (\<lambda>a b. if b = 0 then None else Some (V64 (a mod b)))"
| "plain_op I64And = bin64 (\<lambda>a b. Some (V64 (a AND b)))"
| "plain_op I64Or = bin64 (\<lambda>a b. Some (V64 (a OR b)))"
| "plain_op I64Xor = bin64 (\<lambda>a b. Some (V64 (a XOR b)))"
| "plain_op I64Shl = bin64 (\<lambda>a b. Some (V64 (push_bit (unat b mod 64) a)))"
| "plain_op I64ShrS = bin64 (\<lambda>a b. Some (V64 (signed_drop_bit (unat b mod 64) a)))"
| "plain_op I64ShrU = bin64 (\<lambda>a b. Some (V64 (drop_bit (unat b mod 64) a)))"
| "plain_op I64Eq = bin64 (\<lambda>a b. Some (V32 (b2w (a = b))))"
| "plain_op I64Ne = bin64 (\<lambda>a b. Some (V32 (b2w (a \<noteq> b))))"
| "plain_op I64LtS = bin64 (\<lambda>a b. Some (V32 (b2w (slt a b))))"
| "plain_op I64LtU = bin64 (\<lambda>a b. Some (V32 (b2w (a < b))))"
| "plain_op I64GtS = bin64 (\<lambda>a b. Some (V32 (b2w (slt b a))))"
| "plain_op I64GtU = bin64 (\<lambda>a b. Some (V32 (b2w (b < a))))"
| "plain_op I64GeS = bin64 (\<lambda>a b. Some (V32 (b2w (\<not> slt a b))))"
| "plain_op I64GeU = bin64 (\<lambda>a b. Some (V32 (b2w (b \<le> a))))"
| "plain_op I64Eqz = un64 (\<lambda>a. V32 (b2w (a = 0)))"
| "plain_op I32Eqz = un32 (\<lambda>a. V32 (b2w (a = 0)))"
| "plain_op I32Ne = bin32 (\<lambda>a b. b2w (a \<noteq> b))"
| "plain_op I32And = bin32 (\<lambda>a b. a AND b)"
| "plain_op I32Or = bin32 (\<lambda>a b. a OR b)"
| "plain_op I32Xor = bin32 (\<lambda>a b. a XOR b)"
| "plain_op I32Add = bin32 (\<lambda>a b. a + b)"
| "plain_op I32Sub = bin32 (\<lambda>a b. a - b)"
| "plain_op I32Shl = bin32 (\<lambda>a b. push_bit (unat b mod 32) a)"
| "plain_op I32ShrU = bin32 (\<lambda>a b. drop_bit (unat b mod 32) a)"
| "plain_op I32LtS = bin32 (\<lambda>a b. b2w (slt a b))"
| "plain_op I32GeU = bin32 (\<lambda>a b. b2w (b \<le> a))"
| "plain_op I32WrapI64 = un64 (\<lambda>a. V32 (ucast a))"
| "plain_op I64ExtendI32S = un32 (\<lambda>a. V64 (scast a))"
| "plain_op I64ExtendI32U = un32 (\<lambda>a. V64 (ucast a))"
| "plain_op Select = (\<lambda>st. case st of V32 c # V64 b # V64 a # r \<Rightarrow> Some (V64 (if c \<noteq> 0 then a else b) # r)
                       | V32 c # V32 b # V32 a # r \<Rightarrow> Some (V32 (if c \<noteq> 0 then a else b) # r) | _ \<Rightarrow> None)"
| "plain_op Drop = (\<lambda>st. case st of _ # r \<Rightarrow> Some r | [] \<Rightarrow> None)"
| "plain_op Unreachable = (\<lambda>_. None)"
| "plain_op Return = Some"

primrec load_width :: "load_op \<Rightarrow> nat" where
  "load_width L64 = 8" | "load_width L8S = 1" | "load_width L8U = 1" | "load_width L16S = 2"
| "load_width L16U = 2" | "load_width L32S = 4" | "load_width L32U = 4"

primrec load_conv :: "load_op \<Rightarrow> u64 \<Rightarrow> u64" where
  "load_conv L64 v = v" | "load_conv L8S v = scast (ucast v :: u8)" | "load_conv L8U v = v"
| "load_conv L16S v = scast (ucast v :: u16)" | "load_conv L16U v = v"
| "load_conv L32S v = scast (ucast v :: u32)" | "load_conv L32U v = v"

primrec store_width :: "store_op \<Rightarrow> nat" where
  "store_width S64 = 8" | "store_width S8 = 1" | "store_width S16 = 2" | "store_width S32 = 4"

definition load_at :: "load_op \<Rightarrow> u64 \<Rightarrow> wstate \<Rightarrow> outcome" where
  "load_at l off s = (case wstack s of
     V32 i # r \<Rightarrow> (let a = unat i + unat off; n = load_width l
       in if a + n \<le> wsize s then Done (s\<lparr>wstack := V64 (load_conv l (mem_get (wmem s) a n)) # r\<rparr>) else Trap)
   | _ \<Rightarrow> Trap)"

definition store_at :: "store_op \<Rightarrow> u64 \<Rightarrow> wstate \<Rightarrow> outcome" where
  "store_at l off s = (case wstack s of
     V64 v # V32 i # r \<Rightarrow> (let a = unat i + unat off; n = store_width l
       in if a + n \<le> wsize s then Done (s\<lparr>wmem := mem_put a n v (wmem s), wstack := r\<rparr>) else Trap)
   | _ \<Rightarrow> Trap)"

definition same_type :: "wval \<Rightarrow> wval \<Rightarrow> bool" where
  "same_type a b = (case (a, b) of (V32 _, V32 _) \<Rightarrow> True | (V64 _, V64 _) \<Rightarrow> True | _ \<Rightarrow> False)"

fun exec1 :: "(u32 \<Rightarrow> wstate \<Rightarrow> wstate option) \<Rightarrow> wi \<Rightarrow> wstate \<Rightarrow> outcome"
  and exec :: "(u32 \<Rightarrow> wstate \<Rightarrow> wstate option) \<Rightarrow> wi list \<Rightarrow> wstate \<Rightarrow> outcome" where
  "exec1 host (Plain p) s =
     (if p = Return then Returned s
      else case plain_op p (wstack s) of Some st \<Rightarrow> Done (s\<lparr>wstack := st\<rparr>) | None \<Rightarrow> Trap)"
| "exec1 host (I64Const v) s = Done (s\<lparr>wstack := V64 v # wstack s\<rparr>)"
| "exec1 host (I32Const v) s = Done (s\<lparr>wstack := V32 v # wstack s\<rparr>)"
| "exec1 host (LocalGet i) s =
     (if unat i < length (wlocals s) then Done (s\<lparr>wstack := wlocals s ! unat i # wstack s\<rparr>) else Trap)"
| "exec1 host (LocalSet i) s =
     (case wstack s of
        v # r \<Rightarrow> if unat i < length (wlocals s) \<and> same_type v (wlocals s ! unat i)
                then Done (s\<lparr>wlocals := (wlocals s)[unat i := v], wstack := r\<rparr>) else Trap
      | [] \<Rightarrow> Trap)"
| "exec1 host (LoadAt l a off) s = load_at l off s"
| "exec1 host (StoreAt l a off) s = store_at l off s"
| "exec1 host (Call i) s = (case host i s of Some t \<Rightarrow> Done t | None \<Rightarrow> Trap)"
| "exec1 host (If t as bs) s =
     (case wstack s of
        V32 c # r \<Rightarrow> if c \<noteq> 0 then exec host as (s\<lparr>wstack := r\<rparr>) else exec host bs (s\<lparr>wstack := r\<rparr>)
      | _ \<Rightarrow> Trap)"
| "exec host [] s = Done s"
| "exec host (i # is) s =
     (case exec1 host i s of Done t \<Rightarrow> exec host is t | Returned t \<Rightarrow> Returned t | Trap \<Rightarrow> Trap)"

lemma exec_append:
  "exec host (xs @ ys) s = (case exec host xs s of Done t \<Rightarrow> exec host ys t | Returned t \<Rightarrow> Returned t | Trap \<Rightarrow> Trap)"
  by (induction xs arbitrary: s) (auto split: outcome.splits)

end
