(* ===== verification/JitAluSpec.thy ===== *)
theory JitAluSpec
  imports JitArith Wasm Exec
begin

unbundle bit_operations_syntax

text \<open>
  The integer code that the translator emits computes what the interpreter computes.
\<close>

section \<open>What an emitter appends, and what running it does\<close>

definition push :: "wval \<Rightarrow> wstate \<Rightarrow> wstate" where
  "push v s = s\<lparr>wstack := v # wstack s\<rparr>"

definition setl :: "u32 \<Rightarrow> u64 \<Rightarrow> wstate \<Rightarrow> wstate" where
  "setl i v s = s\<lparr>wlocals := (wlocals s)[unat i := V64 v]\<rparr>"

definition setm :: "nat \<Rightarrow> u64 \<Rightarrow> wstate \<Rightarrow> wstate" where
  "setm a v s = s\<lparr>wmem := mem_put a 8 v (wmem s)\<rparr>"

definition getl :: "wstate \<Rightarrow> u32 \<Rightarrow> u64" where
  "getl s i = (case wlocals s ! unat i of V64 v \<Rightarrow> v | V32 _ \<Rightarrow> 0)"

definition is64 :: "wstate \<Rightarrow> u32 \<Rightarrow> bool" where
  "is64 s i \<longleftrightarrow> unat i < length (wlocals s) \<and> (\<exists>v. wlocals s ! unat i = V64 v)"

definition does :: "(u32 \<Rightarrow> wstate \<Rightarrow> wstate option) \<Rightarrow> 'a wasm_module_scheme \<Rightarrow> 'a wasm_module_scheme \<Rightarrow> wstate \<Rightarrow> outcome \<Rightarrow> bool" where
  "does host m m' s r \<longleftrightarrow> (\<exists>is. wm_code m' = wm_code m @ asm is \<and> exec host is s = r)"

lemma doesI: "wm_code m' = wm_code m @ asm is \<Longrightarrow> exec host is s = r \<Longrightarrow> does host m m' s r"
  by (auto simp: does_def)

lemma does_res: "does host m m' s r \<Longrightarrow> r = r' \<Longrightarrow> does host m m' s r'"
  by simp

lemma does_seq:
  assumes "does host m m1 s (Done s1)" "does host m1 m2 s1 r"
  shows "does host m m2 s r"
proof -
  obtain xs ys where "wm_code m1 = wm_code m @ asm xs" "exec host xs s = Done s1"
    "wm_code m2 = wm_code m1 @ asm ys" "exec host ys s1 = r"
    using assms unfolding does_def by auto
  then show ?thesis by (intro doesI [of _ _ "xs @ ys"]) (simp_all add: asm_append exec_append)
qed

lemma does_Nil: "does host m (chain [] m) s (Done s)"
  by (rule doesI [of _ _ "[]"]) simp_all

lemma does_Cons:
  "does host m (f m) s (Done s1) \<Longrightarrow> does host (f m) (chain fs (f m)) s1 r \<Longrightarrow> does host m (chain (f # fs) m) s r"
  by (simp add: does_seq)

lemma does_append:
  "does host m (chain fs m) s (Done s1) \<Longrightarrow> does host (chain fs m) (chain gs (chain fs m)) s1 r
   \<Longrightarrow> does host m (chain (fs @ gs) m) s r"
  by (simp add: does_seq chain_append)

named_theorems does_ops \<open>the effect of one builder call\<close>

lemma does_single:
  assumes "wm_code m' = wm_code m @ asm1 i" "exec1 host i s = Done s'"
  shows "does host m m' s (Done s')"
  by (rule doesI [of _ _ "[i]"]) (use assms in simp_all)

lemma does_i64_const [does_ops]: "does host m (i64_const v m) s (Done (push (V64 v) s))"
  by (rule does_single [of _ _ "I64Const v"]) (simp_all add: i64_const_def I64_CONST_def sleb_append [of _ "_ @ _"] push_def)

lemma does_i32_const [does_ops]: "does host m (i32_const v m) s (Done (push (V32 v) s))"
  by (rule does_single [of _ _ "I32Const v"]) (simp_all add: i32_const_def I32_CONST_def sleb_append [of _ "_ @ _"] push_def)

lemma does_local_get [does_ops]: "is64 s i \<Longrightarrow> does host m (local_get i m) s (Done (push (V64 (getl s i)) s))"
  by (rule does_single [of _ _ "LocalGet i"])
    (auto simp: local_get_def LOCAL_GET_def uleb_append [of _ "_ @ _"] push_def is64_def getl_def)

lemma does_local_set [does_ops]: "is64 s i \<Longrightarrow> does host m (local_set i m) (push (V64 v) s) (Done (setl i v s))"
  by (rule does_single [of _ _ "LocalSet i"])
    (auto simp: local_set_def LOCAL_SET_def uleb_append [of _ "_ @ _"] push_def is64_def setl_def same_type_def)

lemma does_plain:
  assumes "plain_code p = b" "p \<noteq> Return" "plain_op p (wstack s) = Some st"
  shows "does host m (op b m) s (Done (s\<lparr>wstack := st\<rparr>))"
  by (rule does_single [of _ _ "Plain p"]) (use assms in \<open>simp_all add: op_def\<close>)

lemma sint_min: "sint (a :: u64) = - (2 ^ 63) \<longleftrightarrow> a = I64_MIN"
proof -
  have "sint I64_MIN = - (2 ^ 63)" by (simp add: I64_MIN_def)
  moreover have "sint a = sint I64_MIN \<Longrightarrow> a = I64_MIN" by (rule signed_word_eqI)
  ultimately show ?thesis by auto
qed

lemma does_i64_add [does_ops]: "does host m (op I64_ADD m) (push (V64 b) (push (V64 a) s)) (Done (push (V64 (a + b)) s))"
  by (rule does_res [OF does_plain [of I64Add]]) (simp_all add: wasm_opcode_defs bin64_def push_def)

lemma does_i64_sub [does_ops]: "does host m (op I64_SUB m) (push (V64 b) (push (V64 a) s)) (Done (push (V64 (a - b)) s))"
  by (rule does_res [OF does_plain [of I64Sub]]) (simp_all add: wasm_opcode_defs bin64_def push_def)

lemma does_i64_mul [does_ops]: "does host m (op I64_MUL m) (push (V64 b) (push (V64 a) s)) (Done (push (V64 (a * b)) s))"
  by (rule does_res [OF does_plain [of I64Mul]]) (simp_all add: wasm_opcode_defs bin64_def push_def)

lemma does_i64_and [does_ops]: "does host m (op I64_AND m) (push (V64 b) (push (V64 a) s)) (Done (push (V64 (a AND b)) s))"
  by (rule does_res [OF does_plain [of I64And]]) (simp_all add: wasm_opcode_defs bin64_def push_def)

lemma does_i64_or [does_ops]: "does host m (op I64_OR m) (push (V64 b) (push (V64 a) s)) (Done (push (V64 (a OR b)) s))"
  by (rule does_res [OF does_plain [of I64Or]]) (simp_all add: wasm_opcode_defs bin64_def push_def)

lemma does_i64_xor [does_ops]: "does host m (op I64_XOR m) (push (V64 b) (push (V64 a) s)) (Done (push (V64 (a XOR b)) s))"
  by (rule does_res [OF does_plain [of I64Xor]]) (simp_all add: wasm_opcode_defs bin64_def push_def)

lemma does_i64_shl [does_ops]: "does host m (op I64_SHL m) (push (V64 b) (push (V64 a) s)) (Done (push (V64 (push_bit (unat b mod 64) a)) s))"
  by (rule does_res [OF does_plain [of I64Shl]]) (simp_all add: wasm_opcode_defs bin64_def push_def)

lemma does_i64_shr_s [does_ops]: "does host m (op I64_SHR_S m) (push (V64 b) (push (V64 a) s)) (Done (push (V64 (signed_drop_bit (unat b mod 64) a)) s))"
  by (rule does_res [OF does_plain [of I64ShrS]]) (simp_all add: wasm_opcode_defs bin64_def push_def)

lemma does_i64_shr_u [does_ops]: "does host m (op I64_SHR_U m) (push (V64 b) (push (V64 a) s)) (Done (push (V64 (drop_bit (unat b mod 64) a)) s))"
  by (rule does_res [OF does_plain [of I64ShrU]]) (simp_all add: wasm_opcode_defs bin64_def push_def)

lemma does_i64_eq [does_ops]: "does host m (op I64_EQ m) (push (V64 b) (push (V64 a) s)) (Done (push (V32 (b2w (a = b))) s))"
  by (rule does_res [OF does_plain [of I64Eq]]) (simp_all add: wasm_opcode_defs bin64_def push_def)

lemma does_i64_ne [does_ops]: "does host m (op I64_NE m) (push (V64 b) (push (V64 a) s)) (Done (push (V32 (b2w (a \<noteq> b))) s))"
  by (rule does_res [OF does_plain [of I64Ne]]) (simp_all add: wasm_opcode_defs bin64_def push_def)

lemma does_i64_lt_s [does_ops]: "does host m (op I64_LT_S m) (push (V64 b) (push (V64 a) s)) (Done (push (V32 (b2w (slt a b))) s))"
  by (rule does_res [OF does_plain [of I64LtS]]) (simp_all add: wasm_opcode_defs bin64_def push_def)

lemma does_i64_lt_u [does_ops]: "does host m (op I64_LT_U m) (push (V64 b) (push (V64 a) s)) (Done (push (V32 (b2w (a < b))) s))"
  by (rule does_res [OF does_plain [of I64LtU]]) (simp_all add: wasm_opcode_defs bin64_def push_def)

lemma does_i64_gt_s [does_ops]: "does host m (op I64_GT_S m) (push (V64 b) (push (V64 a) s)) (Done (push (V32 (b2w (slt b a))) s))"
  by (rule does_res [OF does_plain [of I64GtS]]) (simp_all add: wasm_opcode_defs bin64_def push_def)

lemma does_i64_gt_u [does_ops]: "does host m (op I64_GT_U m) (push (V64 b) (push (V64 a) s)) (Done (push (V32 (b2w (b < a))) s))"
  by (rule does_res [OF does_plain [of I64GtU]]) (simp_all add: wasm_opcode_defs bin64_def push_def)

lemma does_i64_eqz [does_ops]:
  "does host m (op I64_EQZ m) (push (V64 a) s) (Done (push (V32 (b2w (a = 0))) s))"
  by (rule does_res [OF does_plain [of I64Eqz]]) (auto simp: wasm_opcode_defs bin64_def bin32_def un64_def un32_def push_def split: option.splits)

lemma does_i32_eqz [does_ops]:
  "does host m (op I32_EQZ m) (push (V32 a) s) (Done (push (V32 (b2w (a = 0))) s))"
  by (rule does_res [OF does_plain [of I32Eqz]]) (auto simp: wasm_opcode_defs bin64_def bin32_def un64_def un32_def push_def split: option.splits)

lemma does_i32_and [does_ops]:
  "does host m (op I32_AND m) (push (V32 b) (push (V32 a) s)) (Done (push (V32 (a AND b)) s))"
  by (rule does_res [OF does_plain [of I32And]]) (auto simp: wasm_opcode_defs bin64_def bin32_def un64_def un32_def push_def split: option.splits)

lemma does_i32_or [does_ops]:
  "does host m (op I32_OR m) (push (V32 b) (push (V32 a) s)) (Done (push (V32 (a OR b)) s))"
  by (rule does_res [OF does_plain [of I32Or]]) (auto simp: wasm_opcode_defs bin64_def bin32_def un64_def un32_def push_def split: option.splits)

lemma does_i32_shl [does_ops]:
  "does host m (op I32_SHL m) (push (V32 b) (push (V32 a) s)) (Done (push (V32 (push_bit (unat b mod 32) a)) s))"
  by (rule does_res [OF does_plain [of I32Shl]]) (auto simp: wasm_opcode_defs bin64_def bin32_def un64_def un32_def push_def split: option.splits)

lemma does_i32_wrap_i64 [does_ops]:
  "does host m (op I32_WRAP_I64 m) (push (V64 a) s) (Done (push (V32 (ucast a)) s))"
  by (rule does_res [OF does_plain [of I32WrapI64]]) (auto simp: wasm_opcode_defs bin64_def bin32_def un64_def un32_def push_def split: option.splits)

lemma does_i64_extend_i32_s [does_ops]:
  "does host m (op I64_EXTEND_I32_S m) (push (V32 a) s) (Done (push (V64 (scast a)) s))"
  by (rule does_res [OF does_plain [of I64ExtendI32S]]) (auto simp: wasm_opcode_defs bin64_def bin32_def un64_def un32_def push_def split: option.splits)

lemma does_i64_extend_i32_u [does_ops]:
  "does host m (op I64_EXTEND_I32_U m) (push (V32 a) s) (Done (push (V64 (ucast a)) s))"
  by (rule does_res [OF does_plain [of I64ExtendI32U]]) (auto simp: wasm_opcode_defs bin64_def bin32_def un64_def un32_def push_def split: option.splits)

lemma does_select [does_ops]:
  "does host m (op SELECT m) (push (V32 c) (push (V64 b) (push (V64 a) s))) (Done (push (V64 (if c \<noteq> 0 then a else b)) s))"
  by (rule does_res [OF does_plain [of Select]]) (auto simp: wasm_opcode_defs bin64_def bin32_def un64_def un32_def push_def split: option.splits)

lemma does_i64_div_u [does_ops]:
  "b \<noteq> 0 \<Longrightarrow> does host m (op I64_DIV_U m) (push (V64 b) (push (V64 a) s)) (Done (push (V64 (a div b)) s))"
  by (rule does_res [OF does_plain [of I64DivU]]) (auto simp: wasm_opcode_defs bin64_def bin32_def un64_def un32_def push_def split: option.splits)

lemma does_i64_rem_u [does_ops]:
  "b \<noteq> 0 \<Longrightarrow> does host m (op I64_REM_U m) (push (V64 b) (push (V64 a) s)) (Done (push (V64 (a mod b)) s))"
  by (rule does_res [OF does_plain [of I64RemU]]) (auto simp: wasm_opcode_defs bin64_def bin32_def un64_def un32_def push_def split: option.splits)

lemma does_i64_div_s [does_ops]:
  "b \<noteq> 0 \<Longrightarrow> \<not> (a = I64_MIN \<and> b = - 1) \<Longrightarrow> does host m (op I64_DIV_S m) (push (V64 b) (push (V64 a) s)) (Done (push (V64 (wrapping_div_i a b)) s))"
  by (rule does_res [OF does_plain [of I64DivS]]) (auto simp: i64_div_s_def sint_min [simplified] wrapping_div_i_def wasm_opcode_defs bin64_def bin32_def un64_def un32_def push_def split: option.splits)

lemma does_i64_rem_s [does_ops]:
  "b \<noteq> 0 \<Longrightarrow> does host m (op I64_REM_S m) (push (V64 b) (push (V64 a) s)) (Done (push (V64 (wrapping_rem_i a b)) s))"
  by (rule does_res [OF does_plain [of I64RemS]]) (auto simp: i64_rem_s_def wrapping_rem_i_def wasm_opcode_defs bin64_def bin32_def un64_def un32_def push_def split: option.splits)

lemma does_drop [does_ops]:
  "does host m (op DROP m) (push v s) (Done (s))"
  by (rule does_res [OF does_plain [of Drop]]) (auto simp: wasm_opcode_defs bin64_def bin32_def un64_def un32_def push_def split: option.splits)

section \<open>Registers\<close>

text \<open>
  A state in which emitted code can run: the scratch locals and the locals of registers exist and hold
  64-bit values, different registers have different locals outside the scratch ones, and the register file
  lies in linear memory.
\<close>

definition x_addr :: "jit_ctx \<Rightarrow> nat \<Rightarrow> nat" where
  "x_addr c r = unat (jl_x_base (jc_lay c)) + r * 8"

definition reg_locals_ok :: "jit_ctx \<Rightarrow> bool" where
  "reg_locals_ok c \<longleftrightarrow>
     (\<forall>r < 32. jc_reg_local c ! r = 0 \<or> jc_reg_local c ! r > N_I64_LOCALS)
     \<and> (\<forall>r < 32. \<forall>r' < 32. jc_reg_local c ! r = jc_reg_local c ! r' \<longrightarrow> jc_reg_local c ! r = 0 \<or> r = r')"

definition wt :: "jit_ctx \<Rightarrow> wstate \<Rightarrow> bool" where
  "wt c s \<longleftrightarrow>
     reg_locals_ok c
     \<and> (\<forall>i. 1 \<le> i \<and> i \<le> N_I64_LOCALS \<longrightarrow> is64 s i)
     \<and> (\<forall>r < 32. jc_reg_local c ! r \<noteq> 0 \<longrightarrow> is64 s (jc_reg_local c ! r))
     \<and> x_addr c 32 \<le> wsize s"

definition regval :: "jit_ctx \<Rightarrow> wstate \<Rightarrow> nat \<Rightarrow> u64" where
  "regval c s r =
     (if r = 0 then 0 else if jc_reg_local c ! r \<noteq> 0 then getl s (jc_reg_local c ! r)
      else mem_get (wmem s) (x_addr c r) 8)"

lemma state_fields [simp]:
  "wmem (push v s) = wmem s" "wsize (push v s) = wsize s" "wlocals (push v s) = wlocals s"
  "wstack (push v s) = v # wstack s"
  "wmem (setl i x s) = wmem s" "wsize (setl i x s) = wsize s" "wstack (setl i x s) = wstack s"
  "wmem (setm a x s) = mem_put a 8 x (wmem s)" "wsize (setm a x s) = wsize s" "wlocals (setm a x s) = wlocals s"
  "wstack (setm a x s) = wstack s"
  by (simp_all add: push_def setl_def setm_def)

lemma is64_simps [simp]:
  "is64 (push v s) i = is64 s i" "is64 (setm a x s) i = is64 s i" "is64 s i \<Longrightarrow> is64 (setl j x s) i"
  by (simp_all add: is64_def setl_def) (cases "unat i = unat j"; auto)

lemma getl_simps [simp]:
  "getl (push v s) i = getl s i" "getl (setm a x s) i = getl s i"
  "is64 s i \<Longrightarrow> getl (setl i x s) i = x" "i \<noteq> j \<Longrightarrow> getl (setl j x s) i = getl s i"
  by (auto simp: getl_def setl_def is64_def nth_list_update_neq word_unat_eq_iff)

lemma wt_simps [simp]:
  "wt c (push v s) = wt c s" "wt c (setm a x s) = wt c s" "wt c s \<Longrightarrow> wt c (setl j x s)"
  by (auto simp: wt_def)

lemma wt_scratch: "wt c s \<Longrightarrow> 1 \<le> i \<Longrightarrow> i \<le> 10 \<Longrightarrow> is64 s i"
  by (simp add: wt_def N_I64_LOCALS_def)

lemma wt_reg: "wt c s \<Longrightarrow> r < 32 \<Longrightarrow> jc_reg_local c ! r \<noteq> 0 \<Longrightarrow> is64 s (jc_reg_local c ! r)"
  by (simp add: wt_def)

lemma wt_not_scratch:
  "wt c s \<Longrightarrow> r < 32 \<Longrightarrow> jc_reg_local c ! r \<noteq> 0 \<Longrightarrow> i \<le> 10 \<Longrightarrow> jc_reg_local c ! r \<noteq> i"
  by (auto simp: wt_def reg_locals_ok_def N_I64_LOCALS_def)

lemma regval_simps [simp]:
  "regval c (push v s) r = regval c s r"
  "wt c s \<Longrightarrow> r < 32 \<Longrightarrow> i \<le> 10 \<Longrightarrow> regval c (setl i x s) r = regval c s r"
  using wt_not_scratch by (auto simp: regval_def)

lemma x_offset: "r < 32 \<Longrightarrow> unat (ucast (jl_x_base (jc_lay c)) + of_nat r * 8 :: u64) = x_addr c r"
proof -
  assume r: "r < 32"
  have b: "unat (jl_x_base (jc_lay c)) < 2 ^ 32" using unsigned_less [of "jl_x_base (jc_lay c)"] by simp
  have "unat (of_nat r * 8 :: u64) = r * 8" using r by (simp add: unat_word_ariths unsigned_of_nat take_bit_nat_eq_self)
  then show ?thesis using b r by (simp add: unat_word_ariths x_addr_def)
qed

lemma does_nothing: "does host m m s (Done s)"
  by (rule doesI [of _ _ "[]"]) simp_all

lemma does_i64_load:
  "unat off + 8 \<le> wsize s \<Longrightarrow>
     does host m (i64_load off m) (push (V32 0) s) (Done (push (V64 (mem_get (wmem s) (unat off) 8)) s))"
  by (rule does_single [of _ _ "LoadAt L64 3 off"])
    (simp_all add: i64_load_def I64_LOAD_def uleb_append [of _ "_ @ _"] load_at_def push_def)

lemma does_i64_store:
  "unat off + 8 \<le> wsize s \<Longrightarrow>
     does host m (i64_store off m) (push (V64 v) (push (V32 0) s)) (Done (setm (unat off) v s))"
  by (rule does_single [of _ _ "StoreAt S64 3 off"])
    (simp_all add: i64_store_def I64_STORE_def uleb_append [of _ "_ @ _"] store_at_def push_def
      setm_def)

lemma does_push_reg:
  assumes "wt c s" "r < 32"
  shows "does host m (push_reg c r m) s (Done (push (V64 (regval c s r)) s))"
proof (cases "r = 0")
  case True
  then show ?thesis by (simp add: push_reg_def regval_def does_i64_const)
next
  case r: False
  show ?thesis
  proof (cases "jc_reg_local c ! r = 0")
    case False
    then show ?thesis using r wt_reg [OF assms] by (simp add: push_reg_def regval_def does_local_get)
  next
    case True
    have "x_addr c r + 8 \<le> wsize s" using assms by (auto simp: wt_def x_addr_def)
    then show ?thesis
      using True r assms(2)
      by (simp add: push_reg_def regval_def del: chain.simps)
        (rule does_Cons, rule does_i32_const, rule does_Cons, rule does_i64_load, simp_all add: x_offset does_nothing)
  qed
qed


section \<open>Expressions\<close>

text \<open>
  A list of builder calls computes a function of the guest's registers when running what it appends pushes the
  value and changes nothing else but scratch locals.
\<close>

definition scratch_same :: "jit_ctx \<Rightarrow> wstate \<Rightarrow> wstate \<Rightarrow> bool" where
  "scratch_same c s t \<longleftrightarrow>
     wt c t \<and> wmem t = wmem s \<and> wsize t = wsize s \<and> wstack t = wstack s
     \<and> length (wlocals t) = length (wlocals s) \<and> (\<forall>i. i = 0 \<or> i > 10 \<longrightarrow> wlocals t ! i = wlocals s ! i)"

definition computes :: "jit_ctx \<Rightarrow> (emitter \<Rightarrow> emitter) list \<Rightarrow> ((nat \<Rightarrow> u64) \<Rightarrow> u64) \<Rightarrow> bool" where
  "computes c body f \<longleftrightarrow>
     (\<forall>m. em_defined (chain body m) = em_defined m)
     \<and> (\<forall>host m s. wt c s \<longrightarrow>
          (\<exists>t. does host m (chain body m) s (Done (push (V64 (f (regval c s))) t)) \<and> scratch_same c s t))"

lemma scratch_same_refl: "wt c s \<Longrightarrow> scratch_same c s s"
  by (simp add: scratch_same_def)

lemma scratch_same_setl:
  assumes "scratch_same c s t" "1 \<le> i" "i \<le> 10"
  shows "scratch_same c s (setl i v t)"
proof -
  have "unat i \<noteq> 0" "unat i \<le> 10" using assms by (auto simp: word_le_nat_alt)
  then show ?thesis using assms(1) by (auto simp: scratch_same_def setl_def wt_simps(3) [unfolded setl_def])
qed

lemma regval_scratch_same: "scratch_same c s t \<Longrightarrow> r < 32 \<Longrightarrow> regval c t r = regval c s r"
proof -
  assume a: "scratch_same c s t" "r < 32"
  then have w: "wt c t" by (simp add: scratch_same_def)
  show ?thesis
  proof (cases "jc_reg_local c ! r = 0")
    case True
    then show ?thesis using a by (simp add: regval_def scratch_same_def)
  next
    case False
    have "\<not> jc_reg_local c ! r \<le> 10" using wt_not_scratch [OF w a(2) False, of "jc_reg_local c ! r"] by auto
    then have "unat (jc_reg_local c ! r) > 10" by (simp add: word_le_nat_alt)
    then show ?thesis using a False by (simp add: regval_def scratch_same_def getl_def)
  qed
qed

named_theorems em_simps \<open>builder calls leave the cells of the context\<close>

lemma em_builder [em_simps]:
  "em_defined (op b m) = em_defined m" "em_defined (i64_const v m) = em_defined m"
  "em_defined (i32_const w m) = em_defined m" "em_defined (local_get i m) = em_defined m"
  "em_defined (local_set i m) = em_defined m" "em_defined (i64_load v m) = em_defined m"
  "em_defined (i64_store v m) = em_defined m" "em_defined (push_reg c r m) = em_defined m"
  by (simp_all add: op_def i64_const_def i32_const_def local_get_def local_set_def i64_load_def i64_store_def push_reg_def)

lemma computesI:
  assumes "\<And>m. em_defined (chain body m) = em_defined m"
    "\<And>host m s. wt c s \<Longrightarrow> does host m (chain body m) s (Done (push (V64 (f (regval c s))) s))"
  shows "computes c body f"
  using assms scratch_same_refl unfolding computes_def by blast

lemma computes_cong: "computes c body f \<Longrightarrow> f = g \<Longrightarrow> computes c body g"
  by simp

lemmas does_rules = does_Nil does_Cons does_ops does_push_reg

lemma mod_64_low: "unat (b AND 0x3f :: u64) mod 64 = unat (b AND 0x3f)" "unat (b AND 0x1f :: u64) mod 64 = unat (b AND 0x1f)"
  using unat_take_bit_less [of 6 b] unat_take_bit_less [of 5 b] by (simp_all add: mask_simps)

lemma ucast_b2w [simp]: "ucast (b2w p :: u32) = (b2w p :: u64)"
  by (simp add: b2w_def)

lemma b2w_simps [simp]:
  "b2w p AND b2w q = (b2w (p \<and> q) :: u32)" "b2w p OR b2w q = (b2w (p \<or> q) :: u32)"
  "(b2w p :: u32) = 0 \<longleftrightarrow> \<not> p" "(b2w p :: u32) \<noteq> 0 \<longleftrightarrow> p"
  by (auto simp: b2w_def)

lemma div_guard:
  "(if (b = 0 \<or> a = I64_MIN \<and> b = - 1) then 1 else b) \<noteq> (0 :: u64)"
  "\<not> (a = I64_MIN \<and> (if (b = 0 \<or> a = I64_MIN \<and> b = - 1) then 1 else b) = (- 1 :: u64))"
  "(if b = 0 then 1 else b) \<noteq> (0 :: u64)"
  by auto

lemma div_overflow: "wrapping_div_i I64_MIN (- 1) = I64_MIN"
  by (simp add: wrapping_div_i_def trunc_div_def I64_MIN_def)

lemma computes_lui:
  shows "computes c [i64_const imm] (\<lambda>x. imm)"
  by (rule computesI, simp add: em_simps, rule does_res, ((rule does_rules) | (simp add: div_guard; fail))+)

lemma computes_addi:
  assumes "s1 < 32"
  shows "computes c [push_reg c s1, i64_const imm, op I64_ADD] (\<lambda>x. x s1 + imm)"
  by (rule computesI, simp add: em_simps, rule does_res, ((rule does_rules) | (simp add: assms div_guard; fail))+)

lemma computes_slli:
  assumes "s1 < 32"
  shows "computes c [push_reg c s1, i64_const (imm AND 0x3f), op I64_SHL] (\<lambda>x. push_bit (unat (imm AND 0x3f)) (x s1))"
  by (rule computesI, simp add: em_simps, rule does_res, ((rule does_rules) | (simp add: assms div_guard; fail))+, simp add: mod_64_low)

lemma computes_slti:
  assumes "s1 < 32"
  shows "computes c [push_reg c s1, i64_const imm, op I64_LT_S, op I64_EXTEND_I32_U] (\<lambda>x. b2w (slt (x s1) imm))"
  by (rule computesI, simp add: em_simps, rule does_res, ((rule does_rules) | (simp add: assms div_guard; fail))+)

lemma computes_sltiu:
  assumes "s1 < 32"
  shows "computes c [push_reg c s1, i64_const imm, op I64_LT_U, op I64_EXTEND_I32_U] (\<lambda>x. b2w (x s1 < imm))"
  by (rule computesI, simp add: em_simps, rule does_res, ((rule does_rules) | (simp add: assms div_guard; fail))+)

lemma computes_xori:
  assumes "s1 < 32"
  shows "computes c [push_reg c s1, i64_const imm, op I64_XOR] (\<lambda>x. x s1 XOR imm)"
  by (rule computesI, simp add: em_simps, rule does_res, ((rule does_rules) | (simp add: assms div_guard; fail))+)

lemma computes_srai:
  assumes "s1 < 32"
  shows "computes c [push_reg c s1, i64_const (imm AND 0x3f), op I64_SHR_S] (\<lambda>x. signed_drop_bit (unat (imm AND 0x3f)) (x s1))"
  by (rule computesI, simp add: em_simps, rule does_res, ((rule does_rules) | (simp add: assms div_guard; fail))+, simp add: mod_64_low)

lemma computes_srli:
  assumes "s1 < 32"
  shows "computes c [push_reg c s1, i64_const (imm AND 0x3f), op I64_SHR_U] (\<lambda>x. drop_bit (unat (imm AND 0x3f)) (x s1))"
  by (rule computesI, simp add: em_simps, rule does_res, ((rule does_rules) | (simp add: assms div_guard; fail))+, simp add: mod_64_low)

lemma computes_ori:
  assumes "s1 < 32"
  shows "computes c [push_reg c s1, i64_const imm, op I64_OR] (\<lambda>x. x s1 OR imm)"
  by (rule computesI, simp add: em_simps, rule does_res, ((rule does_rules) | (simp add: assms div_guard; fail))+)

lemma computes_andi:
  assumes "s1 < 32"
  shows "computes c [push_reg c s1, i64_const imm, op I64_AND] (\<lambda>x. x s1 AND imm)"
  by (rule computesI, simp add: em_simps, rule does_res, ((rule does_rules) | (simp add: assms div_guard; fail))+)

lemma computes_add:
  assumes "s1 < 32" "s2 < 32"
  shows "computes c [push_reg c s1, push_reg c s2, op I64_ADD] (\<lambda>x. x s1 + x s2)"
  by (rule computesI, simp add: em_simps, rule does_res, ((rule does_rules) | (simp add: assms div_guard; fail))+)

lemma computes_sub:
  assumes "s1 < 32" "s2 < 32"
  shows "computes c [push_reg c s1, push_reg c s2, op I64_SUB] (\<lambda>x. x s1 - x s2)"
  by (rule computesI, simp add: em_simps, rule does_res, ((rule does_rules) | (simp add: assms div_guard; fail))+)

lemma computes_mul:
  assumes "s1 < 32" "s2 < 32"
  shows "computes c [push_reg c s1, push_reg c s2, op I64_MUL] (\<lambda>x. x s1 * x s2)"
  by (rule computesI, simp add: em_simps, rule does_res, ((rule does_rules) | (simp add: assms div_guard; fail))+)

lemma computes_sll:
  assumes "s1 < 32" "s2 < 32"
  shows "computes c [push_reg c s1, push_reg c s2, i64_const 0x3f, op I64_AND, op I64_SHL] (\<lambda>x. push_bit (unat (x s2 AND 0x3f)) (x s1))"
  by (rule computesI, simp add: em_simps, rule does_res, ((rule does_rules) | (simp add: assms div_guard; fail))+, simp add: mod_64_low)

lemma computes_slt:
  assumes "s1 < 32" "s2 < 32"
  shows "computes c [push_reg c s1, push_reg c s2, op I64_LT_S, op I64_EXTEND_I32_U] (\<lambda>x. b2w (slt (x s1) (x s2)))"
  by (rule computesI, simp add: em_simps, rule does_res, ((rule does_rules) | (simp add: assms div_guard; fail))+)

lemma computes_sltu:
  assumes "s1 < 32" "s2 < 32"
  shows "computes c [push_reg c s1, push_reg c s2, op I64_LT_U, op I64_EXTEND_I32_U] (\<lambda>x. b2w (x s1 < x s2))"
  by (rule computesI, simp add: em_simps, rule does_res, ((rule does_rules) | (simp add: assms div_guard; fail))+)

lemma computes_xor:
  assumes "s1 < 32" "s2 < 32"
  shows "computes c [push_reg c s1, push_reg c s2, op I64_XOR] (\<lambda>x. x s1 XOR x s2)"
  by (rule computesI, simp add: em_simps, rule does_res, ((rule does_rules) | (simp add: assms div_guard; fail))+)

lemma computes_srl:
  assumes "s1 < 32" "s2 < 32"
  shows "computes c [push_reg c s1, push_reg c s2, i64_const 0x3f, op I64_AND, op I64_SHR_U] (\<lambda>x. drop_bit (unat (x s2 AND 0x3f)) (x s1))"
  by (rule computesI, simp add: em_simps, rule does_res, ((rule does_rules) | (simp add: assms div_guard; fail))+, simp add: mod_64_low)

lemma computes_sra:
  assumes "s1 < 32" "s2 < 32"
  shows "computes c [push_reg c s1, push_reg c s2, i64_const 0x3f, op I64_AND, op I64_SHR_S] (\<lambda>x. signed_drop_bit (unat (x s2 AND 0x3f)) (x s1))"
  by (rule computesI, simp add: em_simps, rule does_res, ((rule does_rules) | (simp add: assms div_guard; fail))+, simp add: mod_64_low)

lemma computes_or:
  assumes "s1 < 32" "s2 < 32"
  shows "computes c [push_reg c s1, push_reg c s2, op I64_OR] (\<lambda>x. x s1 OR x s2)"
  by (rule computesI, simp add: em_simps, rule does_res, ((rule does_rules) | (simp add: assms div_guard; fail))+)

lemma computes_and:
  assumes "s1 < 32" "s2 < 32"
  shows "computes c [push_reg c s1, push_reg c s2, op I64_AND] (\<lambda>x. x s1 AND x s2)"
  by (rule computesI, simp add: em_simps, rule does_res, ((rule does_rules) | (simp add: assms div_guard; fail))+)

lemma computes_div:
  assumes "s1 < 32" "s2 < 32"
  shows "computes c [push_reg c s1, i64_const 1, push_reg c s2, push_reg c s2, op I64_EQZ, push_reg c s1, i64_const I64_MIN, op I64_EQ, push_reg c s2, i64_const (- 1), op I64_EQ,
 op I32_AND, op I32_OR, op SELECT, op I64_DIV_S,
 i64_const I64_MIN, push_reg c s1, i64_const I64_MIN, op I64_EQ, push_reg c s2, i64_const (- 1), op I64_EQ, op I32_AND,
 op I32_EQZ, op SELECT,
 i64_const (- 1), push_reg c s2, op I64_EQZ, op I32_EQZ, op SELECT] (\<lambda>x. div_s (x s1) (x s2))"
  by (rule computesI, simp add: em_simps, rule does_res, ((rule does_rules) | (simp add: assms div_guard; fail))+, simp add: div_s_def div_overflow)

lemma computes_divu:
  assumes "s1 < 32" "s2 < 32"
  shows "computes c [push_reg c s1, i64_const 1, push_reg c s2, push_reg c s2, op I64_EQZ, op SELECT, op I64_DIV_U, i64_const (- 1), push_reg c s2, op I64_EQZ, op I32_EQZ, op SELECT] (\<lambda>x. div_u (x s1) (x s2))"
  by (rule computesI, simp add: em_simps, rule does_res, ((rule does_rules) | (simp add: assms div_guard; fail))+, simp add: div_u_def checked_div_def)

lemma computes_rem:
  assumes "s1 < 32" "s2 < 32"
  shows "computes c [push_reg c s1, i64_const 1, push_reg c s2, push_reg c s2, op I64_EQZ, op SELECT, op I64_REM_S, push_reg c s1, push_reg c s2, op I64_EQZ, op I32_EQZ, op SELECT] (\<lambda>x. rem_s (x s1) (x s2))"
  by (rule computesI, simp add: em_simps, rule does_res, ((rule does_rules) | (simp add: assms div_guard; fail))+, simp add: rem_s_def)

lemma computes_remu:
  assumes "s1 < 32" "s2 < 32"
  shows "computes c [push_reg c s1, i64_const 1, push_reg c s2, push_reg c s2, op I64_EQZ, op SELECT, op I64_REM_U, push_reg c s1, push_reg c s2, op I64_EQZ, op I32_EQZ, op SELECT] (\<lambda>x. rem_u (x s1) (x s2))"
  by (rule computesI, simp add: em_simps, rule does_res, ((rule does_rules) | (simp add: assms div_guard; fail))+, simp add: rem_u_def)

text \<open>
  The high half in four pieces: the low limbs, the first cross product with its carry, the second, and the sum
  with the sign corrections.
\<close>

definition limb_state :: "jit_ctx \<Rightarrow> wstate \<Rightarrow> u64 \<Rightarrow> u64 \<Rightarrow> wstate \<Rightarrow> bool" where
  "limb_state c w a b t \<longleftrightarrow>
     scratch_same c w t \<and> getl t SCR = a AND LO_MASK \<and> getl t PAGE = b AND LO_MASK"

lemmas scratch_locals = SCR_def PAGE_def PA_def VAL_def

lemma scratch_simps [simp]:
  "SCR \<le> 10" "PAGE \<le> 10" "PA \<le> 10" "VAL \<le> 10" "1 \<le> SCR" "1 \<le> PAGE" "1 \<le> PA" "1 \<le> VAL"
  "SCR \<noteq> PAGE" "SCR \<noteq> PA" "SCR \<noteq> VAL" "PAGE \<noteq> SCR" "PAGE \<noteq> PA" "PAGE \<noteq> VAL"
  "PA \<noteq> SCR" "PA \<noteq> PAGE" "PA \<noteq> VAL" "VAL \<noteq> SCR" "VAL \<noteq> PAGE" "VAL \<noteq> PA"
  by (simp_all add: scratch_locals)

lemma scratch_same_wt: "scratch_same c s t \<Longrightarrow> wt c t"
  by (simp add: scratch_same_def)

lemma mul_high_low:
  assumes s: "s1 < 32" "s2 < 32" and w: "wt c w"
  shows "\<exists>t. does host m (chain [push_reg c s1, i64_const LO_MASK, op I64_AND, local_set SCR,
      push_reg c s2, i64_const LO_MASK, op I64_AND, local_set PAGE] m) w (Done t)
    \<and> limb_state c w (regval c w s1) (regval c w s2) t"
proof -
  let ?t = "setl PAGE (regval c w s2 AND LO_MASK) (setl SCR (regval c w s1 AND LO_MASK) w)"
  have l: "is64 w SCR" "is64 w PAGE" using w by (simp_all add: wt_scratch)
  have "does host m (chain [push_reg c s1, i64_const LO_MASK, op I64_AND, local_set SCR,
      push_reg c s2, i64_const LO_MASK, op I64_AND, local_set PAGE] m) w (Done ?t)"
    by (rule does_res, ((rule does_rules) | (simp add: w l s; fail))+)
  moreover have "limb_state c w (regval c w s1) (regval c w s2) ?t"
    unfolding limb_state_def using l
    by (auto intro!: scratch_same_setl scratch_same_refl w)
  ultimately show ?thesis by blast
qed

lemma mul_high_mid:
  assumes s: "s1 < 32" "s2 < 32" and t: "limb_state c w a b t" and a: "a = regval c w s1"
  defines "mid \<equiv> drop_bit 32 ((a AND LO_MASK) * (b AND LO_MASK)) + drop_bit 32 a * (b AND LO_MASK)"
  shows "\<exists>t'. does host m (chain [local_get SCR, local_get PAGE, op I64_MUL, i64_const 32, op I64_SHR_U,
      push_reg c s1, i64_const 32, op I64_SHR_U, local_get PAGE, op I64_MUL, op I64_ADD, local_set PA,
      local_get PA, i64_const 32, op I64_SHR_U, local_set VAL] m) t (Done t')
    \<and> limb_state c w a b t' \<and> getl t' PA = mid \<and> getl t' VAL = drop_bit 32 mid"
proof -
  let ?t = "setl VAL (drop_bit 32 mid) (setl PA mid t)"
  have w: "wt c t" using t by (simp add: limb_state_def scratch_same_def)
  have l: "is64 t SCR" "is64 t PAGE" "is64 t PA" "is64 t VAL" using w by (simp_all add: wt_scratch)
  have v: "getl t SCR = a AND LO_MASK" "getl t PAGE = b AND LO_MASK" "regval c t s1 = a"
    using t a s by (simp_all add: limb_state_def regval_scratch_same)
  have "does host m (chain [local_get SCR, local_get PAGE, op I64_MUL, i64_const 32, op I64_SHR_U,
      push_reg c s1, i64_const 32, op I64_SHR_U, local_get PAGE, op I64_MUL, op I64_ADD, local_set PA,
      local_get PA, i64_const 32, op I64_SHR_U, local_set VAL] m) t (Done ?t)"
    by (rule does_res, ((rule does_rules) | (simp add: w l s; fail))+) (simp add: l v mid_def)
  moreover have "limb_state c w a b ?t" "getl ?t PA = mid" "getl ?t VAL = drop_bit 32 mid"
    using t l by (auto simp: limb_state_def intro!: scratch_same_setl)
  ultimately show ?thesis by blast
qed

lemma mul_high_mid2:
  assumes s: "s1 < 32" "s2 < 32" and t: "limb_state c w a b t" and b: "b = regval c w s2"
  defines "mid2 \<equiv> (getl t PA AND LO_MASK) + (a AND LO_MASK) * drop_bit 32 b"
  shows "\<exists>t'. does host m (chain [local_get PA, i64_const LO_MASK, op I64_AND, local_get SCR, push_reg c s2,
      i64_const 32, op I64_SHR_U, op I64_MUL, op I64_ADD, local_set PA] m) t (Done t')
    \<and> limb_state c w a b t' \<and> getl t' PA = mid2 \<and> getl t' VAL = getl t VAL"
proof -
  let ?t = "setl PA mid2 t"
  have w: "wt c t" using t by (simp add: limb_state_def scratch_same_def)
  have l: "is64 t SCR" "is64 t PAGE" "is64 t PA" "is64 t VAL" using w by (simp_all add: wt_scratch)
  have v: "getl t SCR = a AND LO_MASK" "regval c t s2 = b" using t b s by (simp_all add: limb_state_def regval_scratch_same)
  have "does host m (chain [local_get PA, i64_const LO_MASK, op I64_AND, local_get SCR, push_reg c s2,
      i64_const 32, op I64_SHR_U, op I64_MUL, op I64_ADD, local_set PA] m) t (Done ?t)"
    by (rule does_res, ((rule does_rules) | (simp add: w l s; fail))+) (simp add: l v mid2_def)
  moreover have "limb_state c w a b ?t" "getl ?t PA = mid2" "getl ?t VAL = getl t VAL"
    using t l by (auto simp: limb_state_def intro!: scratch_same_setl)
  ultimately show ?thesis by blast
qed

lemma mul_high_sum:
  assumes s: "s1 < 32" "s2 < 32" and w: "wt c t"
  defines "hi \<equiv> drop_bit 32 (regval c t s1) * drop_bit 32 (regval c t s2) + getl t VAL + drop_bit 32 (getl t PA)"
  shows "does host m (chain [push_reg c s1, i64_const 32, op I64_SHR_U, push_reg c s2, i64_const 32, op I64_SHR_U,
      op I64_MUL, local_get VAL, op I64_ADD, local_get PA, i64_const 32, op I64_SHR_U, op I64_ADD] m) t
    (Done (push (V64 hi) t))"
proof -
  have l: "is64 t PA" "is64 t VAL" using w by (simp_all add: wt_scratch)
  show ?thesis by (rule does_res, ((rule does_rules) | (simp add: w l s; fail))+) (simp add: hi_def)
qed

lemma mul_high_sign:
  assumes "s1 < 32" "s2 < 32" "wt c t"
  shows "does host m (chain [push_reg c s1, i64_const 63, op I64_SHR_S, push_reg c s2, op I64_AND, op I64_SUB] m)
    (push (V64 h) t) (Done (push (V64 (h - (signed_drop_bit 63 (regval c t s1) AND regval c t s2))) t))"
  by (rule does_res, ((rule does_rules) | (simp add: assms; fail))+)

lemma computes_mul_high:
  assumes s: "s1 < 32" "s2 < 32"
  shows "computes c [push_mul_high c f3 s1 s2]
    (\<lambda>x. if f3 = 1 then mulh (x s1) (x s2) else if f3 = 2 then mulhsu (x s1) (x s2) else mulhu (x s1) (x s2))"
    (is "computes c _ (\<lambda>x. ?f (x s1) (x s2))")
proof -
  have "\<exists>t. does host m (push_mul_high c f3 s1 s2 m) w (Done (push (V64 (?f (regval c w s1) (regval c w s2))) t))
      \<and> scratch_same c w t" if w: "wt c w" for host m w
  proof -
    let ?a = "regval c w s1" and ?b = "regval c w s2"
    let ?L1 = "[push_reg c s1, i64_const LO_MASK, op I64_AND, local_set SCR,
      push_reg c s2, i64_const LO_MASK, op I64_AND, local_set PAGE]"
    let ?L2 = "[local_get SCR, local_get PAGE, op I64_MUL, i64_const 32, op I64_SHR_U,
      push_reg c s1, i64_const 32, op I64_SHR_U, local_get PAGE, op I64_MUL, op I64_ADD, local_set PA,
      local_get PA, i64_const 32, op I64_SHR_U, local_set VAL]"
    let ?L3 = "[local_get PA, i64_const LO_MASK, op I64_AND, local_get SCR, push_reg c s2,
      i64_const 32, op I64_SHR_U, op I64_MUL, op I64_ADD, local_set PA]"
    let ?L4 = "[push_reg c s1, i64_const 32, op I64_SHR_U, push_reg c s2, i64_const 32, op I64_SHR_U,
      op I64_MUL, local_get VAL, op I64_ADD, local_get PA, i64_const 32, op I64_SHR_U, op I64_ADD]"
    let ?S = "\<lambda>r1 r2. [push_reg c r1, i64_const 63, op I64_SHR_S, push_reg c r2, op I64_AND, op I64_SUB]"
    have split: "push_mul_high c f3 s1 s2 m = chain (if f3 = 1 then ?S s2 s1 else [])
        (chain (if f3 = 1 \<or> f3 = 2 then ?S s1 s2 else [])
          (chain ?L4 (chain ?L3 (chain ?L2 (chain ?L1 m)))))"
      by (simp add: push_mul_high_def Let_def chain_append)
    obtain t1 where 1: "does host m (chain ?L1 m) w (Done t1)" "limb_state c w ?a ?b t1"
      using mul_high_low [OF s w] by blast
    obtain t2 where 2: "does host (chain ?L1 m) (chain ?L2 (chain ?L1 m)) t1 (Done t2)" "limb_state c w ?a ?b t2"
      "getl t2 PA = drop_bit 32 ((?a AND LO_MASK) * (?b AND LO_MASK)) + drop_bit 32 ?a * (?b AND LO_MASK)"
      "getl t2 VAL = drop_bit 32 (getl t2 PA)"
      using mul_high_mid [OF s 1(2) refl] by metis
    obtain t where 3: "does host (chain ?L2 (chain ?L1 m)) (chain ?L3 (chain ?L2 (chain ?L1 m))) t2 (Done t)"
      "limb_state c w ?a ?b t" "getl t PA = (getl t2 PA AND LO_MASK) + (?a AND LO_MASK) * drop_bit 32 ?b"
      "getl t VAL = getl t2 VAL"
      using mul_high_mid2 [OF s 2(2) refl] by metis
    have t: "scratch_same c w t" "wt c t" using 3(2) by (auto simp: limb_state_def scratch_same_wt)
    have r: "regval c t s1 = ?a" "regval c t s2 = ?b" using t s by (simp_all add: regval_scratch_same)
    note run = does_seq [OF does_seq [OF 1(1) 2(1)] 3(1)]
    have 4: "does host m (chain ?L4 (chain ?L3 (chain ?L2 (chain ?L1 m)))) w (Done (push (V64 (mulhu ?a ?b)) t))"
      using does_seq [OF run mul_high_sum [OF s t(2)]] unfolding r 3(3,4) 2(4) unfolding 2(3) mulhu_limbs .
    have sgn: "\<And>m h. does host m (chain (?S s1 s2) m) (push (V64 h) t) (Done (push (V64 (h - (signed_drop_bit 63 ?a AND ?b))) t))"
      "\<And>m h. does host m (chain (?S s2 s1) m) (push (V64 h) t) (Done (push (V64 (h - (signed_drop_bit 63 ?b AND ?a))) t))"
      using mul_high_sign [OF s t(2)] mul_high_sign [OF s(2,1) t(2)] unfolding r by blast+
    have "does host m (push_mul_high c f3 s1 s2 m) w (Done (push (V64 (?f ?a ?b)) t))"
    proof (cases "f3 = 1")
      case True
      then show ?thesis
        using does_seq [OF does_seq [OF 4 sgn(1)] sgn(2)] unfolding split mulh_limbs by simp
    next
      case f: False
      show ?thesis
      proof (cases "f3 = 2")
        case True
        then show ?thesis using does_seq [OF 4 sgn(1)] unfolding split mulhsu_limbs by simp
      next
        case False
        then show ?thesis using f 4 unfolding split by simp
      qed
    qed
    then show ?thesis using t(1) by blast
  qed
  then show ?thesis unfolding computes_def by (auto simp: push_mul_high_def Let_def em_simps chain_append)
qed


lemma guard32:
  "(if (b = 0 \<or> a = MIN32 \<and> b = - 1) then 1 else b) \<noteq> (0 :: u64)" "scast (w :: u32) \<noteq> I64_MIN"
  "\<not> (scast (w :: u32) = I64_MIN \<and> d = (- 1 :: u64))"
  using sx32_not_min [of w] by (auto simp: sx32_def)

lemma div32_cases:
  "(if b = 0 then - 1 else if a = MIN32 \<and> b = - 1 then MIN32
    else wrapping_div_i a (if b = 0 \<or> a = MIN32 \<and> b = - 1 then 1 else b))
   = (if b = 0 then - 1 else if a = MIN32 \<and> b = - 1 then MIN32 else wrapping_div_i a b)"
  by simp

lemma computes_addiw:
  assumes "s1 < 32"
  shows "computes c [push_reg c s1, i64_const imm, op I64_ADD, op I32_WRAP_I64, op I64_EXTEND_I32_S] (\<lambda>x. sx32 (ucast (x s1 + imm)))"
  by (rule computesI, simp add: em_simps, rule does_res, ((rule does_rules) | (simp add: assms div_guard guard32; fail))+, simp add: sx32_def zx32_def)

lemma computes_slliw:
  assumes "s1 < 32"
  shows "computes c [push_reg c s1, i64_const (imm AND 0x1f), op I64_SHL, op I32_WRAP_I64, op I64_EXTEND_I32_S] (\<lambda>x. sx32 (ucast (push_bit (unat (imm AND 0x1f)) (x s1))))"
  by (rule computesI, simp add: em_simps, rule does_res, ((rule does_rules) | (simp add: assms div_guard guard32; fail))+, simp add: mod_64_low sx32_def zx32_def)

lemma computes_sraiw:
  assumes "s1 < 32"
  shows "computes c [push_reg c s1, op I32_WRAP_I64, op I64_EXTEND_I32_U, op I32_WRAP_I64, op I64_EXTEND_I32_S, i64_const (imm AND 0x1f), op I64_SHR_S, op I32_WRAP_I64, op I64_EXTEND_I32_S] (\<lambda>x. sx32 (ucast (signed_drop_bit (unat (imm AND 0x1f)) (sx32 (ucast (x s1))))))"
  by (rule computesI, simp add: em_simps, rule does_res, ((rule does_rules) | (simp add: assms div_guard guard32; fail))+, simp add: mod_64_low ucast_u32_u64 sx32_def zx32_def)

lemma computes_srliw:
  assumes "s1 < 32"
  shows "computes c [push_reg c s1, op I32_WRAP_I64, op I64_EXTEND_I32_U, i64_const 0xffffffff, op I64_AND, i64_const (imm AND 0x1f), op I64_SHR_U, op I32_WRAP_I64, op I64_EXTEND_I32_S] (\<lambda>x. sx32 (ucast (drop_bit (unat (imm AND 0x1f)) (zx32 (x s1)))))"
  by (rule computesI, simp add: em_simps, rule does_res, ((rule does_rules) | (simp add: assms div_guard guard32; fail))+, simp add: mod_64_low zx32_ucast ucast_low sx32_def)

lemma computes_addw:
  assumes "s1 < 32" "s2 < 32"
  shows "computes c [push_reg c s1, push_reg c s2, op I64_ADD, op I32_WRAP_I64, op I64_EXTEND_I32_S] (\<lambda>x. sx32 (ucast (x s1 + x s2)))"
  by (rule computesI, simp add: em_simps, rule does_res, ((rule does_rules) | (simp add: assms div_guard guard32; fail))+, simp add: sx32_def zx32_def)

lemma computes_subw:
  assumes "s1 < 32" "s2 < 32"
  shows "computes c [push_reg c s1, push_reg c s2, op I64_SUB, op I32_WRAP_I64, op I64_EXTEND_I32_S] (\<lambda>x. sx32 (ucast (x s1 - x s2)))"
  by (rule computesI, simp add: em_simps, rule does_res, ((rule does_rules) | (simp add: assms div_guard guard32; fail))+, simp add: sx32_def zx32_def)

lemma computes_mulw:
  assumes "s1 < 32" "s2 < 32"
  shows "computes c [push_reg c s1, push_reg c s2, op I64_MUL, op I32_WRAP_I64, op I64_EXTEND_I32_S] (\<lambda>x. sx32 (ucast (x s1 * x s2)))"
  by (rule computesI, simp add: em_simps, rule does_res, ((rule does_rules) | (simp add: assms div_guard guard32; fail))+, simp add: sx32_def zx32_def)

lemma computes_sllw:
  assumes "s1 < 32" "s2 < 32"
  shows "computes c [push_reg c s1, push_reg c s2, i64_const 0x1f, op I64_AND, op I64_SHL, op I32_WRAP_I64, op I64_EXTEND_I32_S] (\<lambda>x. sx32 (ucast (push_bit (unat (x s2 AND 0x1f)) (x s1))))"
  by (rule computesI, simp add: em_simps, rule does_res, ((rule does_rules) | (simp add: assms div_guard guard32; fail))+, simp add: mod_64_low sx32_def zx32_def)

lemma computes_srlw:
  assumes "s1 < 32" "s2 < 32"
  shows "computes c [push_reg c s1, i64_const 0xffffffff, op I64_AND, push_reg c s2, i64_const 0x1f, op I64_AND, op I64_SHR_U, op I32_WRAP_I64, op I64_EXTEND_I32_S] (\<lambda>x. sx32 (ucast (drop_bit (unat (x s2 AND 0x1f)) (zx32 (x s1)))))"
  by (rule computesI, simp add: em_simps, rule does_res, ((rule does_rules) | (simp add: assms div_guard guard32; fail))+, simp add: mod_64_low sx32_def zx32_def)

lemma computes_sraw:
  assumes "s1 < 32" "s2 < 32"
  shows "computes c [push_reg c s1, op I32_WRAP_I64, op I64_EXTEND_I32_S, push_reg c s2, i64_const 0x1f, op I64_AND, op I64_SHR_S, op I32_WRAP_I64, op I64_EXTEND_I32_S] (\<lambda>x. sx32 (ucast (signed_drop_bit (unat (x s2 AND 0x1f)) (sx32 (ucast (x s1))))))"
  by (rule computesI, simp add: em_simps, rule does_res, ((rule does_rules) | (simp add: assms div_guard guard32; fail))+, simp add: mod_64_low sx32_def zx32_def)

lemma computes_divw:
  assumes "s1 < 32" "s2 < 32"
  shows "computes c [push_reg c s1, op I32_WRAP_I64, op I64_EXTEND_I32_S, i64_const 1, push_reg c s2, op I32_WRAP_I64, op I64_EXTEND_I32_S, push_reg c s2, op I32_WRAP_I64, op I64_EXTEND_I32_S, op I64_EQZ, push_reg c s1, op I32_WRAP_I64, op I64_EXTEND_I32_S, i64_const MIN32, op I64_EQ, push_reg c s2, op I32_WRAP_I64, op I64_EXTEND_I32_S, i64_const (- 1), op I64_EQ, op I32_AND, op I32_OR, op SELECT, op I64_DIV_S, i64_const MIN32, push_reg c s1, op I32_WRAP_I64, op I64_EXTEND_I32_S, i64_const MIN32, op I64_EQ, push_reg c s2, op I32_WRAP_I64, op I64_EXTEND_I32_S, i64_const (- 1), op I64_EQ, op I32_AND, op I32_EQZ, op SELECT, i64_const (- 1), push_reg c s2, op I32_WRAP_I64, op I64_EXTEND_I32_S, op I64_EQZ, op I32_EQZ, op SELECT, op I32_WRAP_I64, op I64_EXTEND_I32_S] (\<lambda>x. sx32 (ucast (if sx32 (ucast (x s2)) = 0 then - 1 else if sx32 (ucast (x s1)) = MIN32 \<and> sx32 (ucast (x s2)) = - 1 then MIN32 else wrapping_div_i (sx32 (ucast (x s1))) (sx32 (ucast (x s2))))))"
  by (rule computesI, simp add: em_simps, rule does_res, ((rule does_rules) | (simp add: assms div_guard guard32; fail))+, simp add: sx32_def zx32_def)

lemma computes_divuw:
  assumes "s1 < 32" "s2 < 32"
  shows "computes c [push_reg c s1, i64_const 0xffffffff, op I64_AND, i64_const 1, push_reg c s2, i64_const 0xffffffff, op I64_AND, push_reg c s2, i64_const 0xffffffff, op I64_AND, op I64_EQZ, op SELECT, op I64_DIV_U, i64_const (- 1), push_reg c s2, i64_const 0xffffffff, op I64_AND, op I64_EQZ, op I32_EQZ, op SELECT, op I32_WRAP_I64, op I64_EXTEND_I32_S] (\<lambda>x. sx32 (ucast (if zx32 (x s2) = 0 then - 1 else zx32 (x s1) div zx32 (x s2))))"
  by (rule computesI, simp add: em_simps, rule does_res, ((rule does_rules) | (simp add: assms div_guard guard32; fail))+, simp add: sx32_def zx32_def)

lemma computes_remw:
  assumes "s1 < 32" "s2 < 32"
  shows "computes c [push_reg c s1, op I32_WRAP_I64, op I64_EXTEND_I32_S, i64_const 1, push_reg c s2, op I32_WRAP_I64, op I64_EXTEND_I32_S, push_reg c s2, op I32_WRAP_I64, op I64_EXTEND_I32_S, op I64_EQZ, op SELECT, op I64_REM_S, push_reg c s1, op I32_WRAP_I64, op I64_EXTEND_I32_S, push_reg c s2, op I32_WRAP_I64, op I64_EXTEND_I32_S, op I64_EQZ, op I32_EQZ, op SELECT, op I32_WRAP_I64, op I64_EXTEND_I32_S] (\<lambda>x. sx32 (ucast (if sx32 (ucast (x s2)) = 0 then sx32 (ucast (x s1)) else wrapping_rem_i (sx32 (ucast (x s1))) (sx32 (ucast (x s2))))))"
  by (rule computesI, simp add: em_simps, rule does_res, ((rule does_rules) | (simp add: assms div_guard guard32; fail))+, simp add: sx32_def zx32_def)

lemma computes_remuw:
  assumes "s1 < 32" "s2 < 32"
  shows "computes c [push_reg c s1, i64_const 0xffffffff, op I64_AND, i64_const 1, push_reg c s2, i64_const 0xffffffff, op I64_AND, push_reg c s2, i64_const 0xffffffff, op I64_AND, op I64_EQZ, op SELECT, op I64_REM_U, push_reg c s1, i64_const 0xffffffff, op I64_AND, push_reg c s2, i64_const 0xffffffff, op I64_AND, op I64_EQZ, op I32_EQZ, op SELECT, op I32_WRAP_I64, op I64_EXTEND_I32_S] (\<lambda>x. sx32 (ucast (if zx32 (x s2) = 0 then zx32 (x s1) else zx32 (x s1) mod zx32 (x s2))))"
  by (rule computesI, simp add: em_simps, rule does_res, ((rule does_rules) | (simp add: assms div_guard guard32; fail))+, simp add: sx32_def zx32_def)

section \<open>The arms\<close>

lemma computes_lui_auipc: "computes c [i64_const v] (\<lambda>x. v)"
  by (rule computes_lui)

lemma computes_op_imm: "computes c (op_imm_body c insn) (\<lambda>x. alu_imm insn (x (rs1 insn)) (imm_i insn))"
  unfolding op_imm_body_def alu_imm_def Let_def
  using computes_addi computes_slli computes_slti computes_sltiu computes_xori computes_srai computes_srli computes_ori
    computes_andi reg_bounds
  by (simp split: if_split)

lemma small_u32: "(w :: u32) < 8 \<Longrightarrow> w \<in> {0, 1, 2, 3, 4, 5, 6, 7}"
proof -
  assume "w < 8"
  then have "unat w \<in> {0, 1, 2, 3, 4, 5, 6, 7}" by (auto simp: word_less_nat_alt)
  then have "(of_nat (unat w) :: u32) \<in> {0, 1, 2, 3, 4, 5, 6, 7}" by (elim insertE) simp_all
  then show ?thesis by simp
qed

lemma computes_op:
  assumes "alu_handled 0x33 f7 f3" "s1 < 32" "s2 < 32" "f3 < 8"
  shows "computes c ((if f7 = 0x01 \<and> 1 \<le> f3 \<and> f3 \<le> 3 then [] else [push_reg c s1]) @ op_body c f7 f3 s1 s2)
    (\<lambda>x. the (alu_op f7 f3 (x s1) (x s2)))"
proof -
  note r = assms(2,3)
  note arms = computes_add [OF r] computes_sub [OF r] computes_mul [OF r] computes_sll [OF r] computes_slt [OF r]
    computes_sltu [OF r] computes_xor [OF r] computes_srl [OF r] computes_sra [OF r] computes_or [OF r]
    computes_and [OF r] computes_div [OF r] computes_divu [OF r] computes_rem [OF r] computes_remu [OF r]
    computes_mul_high [OF r, of c 1, simplified] computes_mul_high [OF r, of c 2, simplified]
    computes_mul_high [OF r, of c 3, simplified]
  have f3: "f3 \<in> {0, 1, 2, 3, 4, 5, 6, 7}" using small_u32 [OF assms(4)] .
  consider "f7 = 0" | "f7 = 0x20" "f3 = 0" | "f7 = 0x20" "f3 = 5" | "f7 = 1"
    using assms(1) by (auto simp: alu_handled_def)
  then show ?thesis
  proof cases
    case 1
    then show ?thesis using f3 arms by (elim insertE emptyE) (simp_all add: op_body_def alu_op_def Let_def)
  next
    case 2
    then show ?thesis using arms by (simp add: op_body_def alu_op_def Let_def)
  next
    case 3
    then show ?thesis using arms by (simp add: op_body_def alu_op_def Let_def)
  next
    case 4
    then show ?thesis using f3 arms by (elim insertE emptyE) (simp_all add: op_body_def alu_op_def Let_def)
  qed
qed

lemma computes_op_imm32:
  assumes "funct3 insn = 0 \<or> funct3 insn = 1 \<or> funct3 insn = 5"
  shows "computes c (op_imm32_body c insn) (\<lambda>x. sx32 (the (alu_imm32 insn (ucast (x (rs1 insn))) (imm_i insn))))"
  using assms computes_addiw [of "rs1 insn" c "imm_i insn"] computes_slliw [of "rs1 insn" c "imm_i insn"]
    computes_sraiw [of "rs1 insn" c "imm_i insn"] computes_srliw [of "rs1 insn" c "imm_i insn"] reg_bounds [of insn]
  by (auto simp: op_imm32_body_def alu_imm32_def Let_def narrow)

lemma computes_op32:
  assumes "alu_handled 0x3b f7 f3" "s1 < 32" "s2 < 32"
  shows "computes c (op32_body c f7 f3 s1 s2 @ [op I32_WRAP_I64, op I64_EXTEND_I32_S])
    (\<lambda>x. sx32 (the (alu_op32 f7 f3 (ucast (x s1)) (ucast (x s2)))))"
proof -
  note r = assms(2,3)
  note arms = computes_addw [OF r, of c, unfolded narrow] computes_subw [OF r, of c, unfolded narrow] 
    computes_mulw [OF r, of c, unfolded narrow] computes_sllw [OF r, of c, unfolded narrow]
    computes_srlw [OF r, of c, unfolded narrow] computes_sraw [OF r, of c, unfolded narrow]
    computes_divw [OF r, of c, unfolded narrow] computes_divuw [OF r, of c, unfolded narrow]
    computes_remw [OF r, of c, unfolded narrow] computes_remuw [OF r, of c, unfolded narrow]
  have "f3 \<in> {4, 5, 6, 7}" if "4 \<le> f3" "f3 \<le> 7"
  proof -
    have "f3 < 8" using that by (simp add: word_le_nat_alt word_less_nat_alt)
    then show ?thesis using small_u32 [of f3] that by (auto simp: word_le_nat_alt)
  qed
  then consider "f7 = 0" "f3 = 0" | "f7 = 0x20" "f3 = 0" | "f7 = 1" "f3 = 0" | "f7 = 0" "f3 = 1" | "f7 = 0" "f3 = 5"
    | "f7 = 0x20" "f3 = 5" | "f7 = 1" "f3 = 4" | "f7 = 1" "f3 = 5" | "f7 = 1" "f3 = 6" | "f7 = 1" "f3 = 7"
    using assms(1) unfolding alu_handled_def by auto
  then show ?thesis
    by cases (use arms in \<open>simp_all add: op32_body_def alu_op32_def Let_def\<close>)
qed


section \<open>Writing the destination\<close>

text \<open>
  The hart's registers in a state of the emitted code. A register with a local is represented only once its local
  is defined, as the translator tracks it.
\<close>

definition holds_reg :: "jit_ctx \<Rightarrow> u32 \<Rightarrow> nat \<Rightarrow> bool" where
  "holds_reg c defd r \<longleftrightarrow> r = 0 \<or> jc_reg_local c ! r = 0 \<or> bit defd r"

definition rep :: "jit_ctx \<Rightarrow> u32 \<Rightarrow> wstate \<Rightarrow> (nat \<Rightarrow> u64) \<Rightarrow> bool" where
  "rep c defd s x \<longleftrightarrow> x 0 = 0 \<and> (\<forall>r < 32. holds_reg c defd r \<longrightarrow> regval c s r = x r)"

text \<open>What emitted integer code may change: locals, and the register file in memory.\<close>

definition reg_frame :: "jit_ctx \<Rightarrow> wstate \<Rightarrow> wstate \<Rightarrow> bool" where
  "reg_frame c s t \<longleftrightarrow>
     wsize t = wsize s \<and> wstack t = wstack s \<and> wlocals t ! 0 = wlocals s ! 0 \<and> length (wlocals t) = length (wlocals s)
     \<and> (\<forall>i. i < x_addr c 1 \<or> x_addr c 32 \<le> i \<longrightarrow> wmem t i = wmem s i)
     \<and> (\<forall>i > 10. (\<forall>r < 32. i \<noteq> unat (jc_reg_local c ! r)) \<longrightarrow> wlocals t ! i = wlocals s ! i)"

lemma mem_get_put: "mem_get (mem_put a 8 v m) a 8 = (v :: u64)"
proof -
  have "map (mem_put a 8 v m) [a..<a + 8] = to_le 8 v"
    by (rule nth_equalityI) (auto simp: mem_put_def)
  then show ?thesis by (simp add: mem_get_def from_le_to_le)
qed

lemma mem_get_put_other: "a + n \<le> b \<or> b + k \<le> a \<Longrightarrow> mem_get (mem_put b k v m) a n = mem_get m a n"
  unfolding mem_get_def by (rule arg_cong [of _ _ from_le], rule map_cong) (auto simp: mem_put_def)

lemma x_addr_disjoint: "r \<noteq> d \<Longrightarrow> x_addr c r + 8 \<le> x_addr c d \<or> x_addr c d + 8 \<le> x_addr c r"
  by (auto simp: x_addr_def)

lemma regval_setm:
  "jc_reg_local c ! d = 0 \<Longrightarrow> regval c (setm (x_addr c d) v s) r = (if r = d \<and> r \<noteq> 0 then v else regval c s r)"
  using x_addr_disjoint [of r d c] by (auto simp: regval_def mem_get_put mem_get_put_other)

lemma regval_setl:
  assumes "wt c s" "d < 32" "d \<noteq> 0" "jc_reg_local c ! d \<noteq> 0" "r < 32"
  shows "regval c (setl (jc_reg_local c ! d) v s) r = (if r = d then v else regval c s r)"
proof -
  have "jc_reg_local c ! r = jc_reg_local c ! d \<longrightarrow> r = d"
    using assms by (auto simp: wt_def reg_locals_ok_def)
  then show ?thesis using assms wt_reg [OF assms(1,2,4)] by (auto simp: regval_def)
qed

lemma bit_set_bit: "d < 32 \<Longrightarrow> bit (w OR 2 ^ d :: u32) r \<longleftrightarrow> bit w r \<or> r = d"
  by (auto simp: bit_simps)

lemma em_store_post: "em_defined (store_post c d m) = em_defined m OR push_bit d 1"
  by (simp add: store_post_def Let_def em_simps)

text \<open>The value on the stack goes to the destination.\<close>

lemma does_store_post_local:
  assumes "wt c s" "d < 32" "jc_reg_local c ! d \<noteq> 0"
  shows "does host m (store_post c d m) (push (V64 v) s) (Done (setl (jc_reg_local c ! d) v s))"
proof -
  have "does host (m\<lparr>em_defined := em_defined m OR push_bit d 1\<rparr>) (store_post c d m) (push (V64 v) s)
      (Done (setl (jc_reg_local c ! d) v s))"
    using assms(3) does_local_set [OF wt_reg [OF assms]] by (simp add: store_post_def Let_def)
  then show ?thesis by (simp add: does_def)
qed

lemma does_store_post_mem:
  assumes "wt c s" "d < 32" "jc_reg_local c ! d = 0"
  shows "does host m (store_post c d m) (push (V64 v) (push (V32 0) s)) (Done (setm (x_addr c d) v s))"
proof -
  have "x_addr c d + 8 \<le> wsize s" using assms by (auto simp: wt_def x_addr_def)
  then have "does host (m\<lparr>em_defined := em_defined m OR push_bit d 1\<rparr>) (store_post c d m)
      (push (V64 v) (push (V32 0) s)) (Done (setm (x_addr c d) v s))"
    using assms(2,3) by (simp add: store_post_def Let_def does_i64_store [of "ucast (jl_x_base (jc_lay c)) + of_nat d * 8" s, unfolded x_offset [OF assms(2)]])
  then show ?thesis by (simp add: does_def)
qed

lemma with_rd_runs:
  assumes w: "wt c s" "d < 32" and b: "computes c body f" and x: "rep c (em_defined m) s x" and v: "f (regval c s) = v"
  shows "\<exists>t. does host m (with_rd c d body m) s (Done t) \<and> wt c t \<and> reg_frame c s t
    \<and> rep c (em_defined (with_rd c d body m)) t (if d = 0 then x else x(d := v))"
proof (cases "d = 0")
  case True
  then have "with_rd c d body m = m" by (simp add: with_rd_def store_pre_def)
  then show ?thesis using True w x does_nothing [of host m s] by (intro exI [of _ s]) (auto simp: reg_frame_def)
next
  case d: False
  let ?D = "em_defined m OR push_bit d 1"
  have e: "em_defined (with_rd c d body m) = ?D"
    using b d by (simp add: with_rd_def store_pre_def em_store_post computes_def em_simps)
  have x0: "x 0 = 0" using x by (simp add: rep_def)
  have goal: ?thesis if m: "does host m (with_rd c d body m) s (Done t)" and t: "wt c t" "reg_frame c s t"
    and r: "\<And>r. r < 32 \<Longrightarrow> regval c t r = (if r = d then v else regval c s r)" for t
  proof -
    have "rep c ?D t (x(d := v))"
      using x d w(2) r by (auto simp: rep_def holds_reg_def bit_set_bit)
    then show ?thesis using m t d e by auto
  qed
  show ?thesis
  proof (cases "jc_reg_local c ! d = 0")
    case False
    obtain u where u: "does host m (chain body m) s (Done (push (V64 v) u))" "scratch_same c s u"
      using b w(1) v unfolding computes_def by blast
    have wu: "wt c u" using u(2) by (rule scratch_same_wt)
    let ?t = "setl (jc_reg_local c ! d) v u"
    have "does host m (with_rd c d body m) s (Done ?t)"
      using does_seq [OF u(1) does_store_post_local [OF wu w(2) False]] d False by (simp add: with_rd_def store_pre_def)
    moreover have "unat (jc_reg_local c ! d) \<noteq> 0" using False by (simp add: unat_eq_0)
    then have "reg_frame c s ?t"
      using u(2) w(2) by (auto simp: reg_frame_def scratch_same_def setl_def)
    ultimately show ?thesis
      using wu u(2) regval_setl [OF wu w(2) d False] by (intro goal) (auto simp: regval_scratch_same)
  next
    case True
    have w0: "wt c (push (V32 0) s)" using w(1) by simp
    obtain u where u: "does host (i32_const 0 m) (chain body (i32_const 0 m)) (push (V32 0) s) (Done (push (V64 v) u))"
      "scratch_same c (push (V32 0) s) u"
      using b w0 v unfolding computes_def by (metis ext regval_simps(1))
    define u' where "u' = u\<lparr>wstack := wstack s\<rparr>"
    have uu: "u = push (V32 0) u'" using u(2) by (simp add: u'_def push_def scratch_same_def)
    have wu: "wt c u'" using scratch_same_wt [OF u(2)] unfolding uu by simp
    let ?t = "setm (x_addr c d) v u'"
    have "does host m (with_rd c d body m) s (Done ?t)"
      using does_seq [OF does_seq [OF does_i32_const u(1)] does_store_post_mem [OF wu w(2) True, folded uu, where m = "chain body (i32_const 0 m)"]] d True
      unfolding uu by (simp add: with_rd_def store_pre_def)
    moreover have "reg_frame c s ?t"
      using u(2) w(2) d unfolding uu by (auto simp: reg_frame_def scratch_same_def mem_put_def x_addr_def)
    moreover have "regval c u' r = regval c s r" if "r < 32" for r
      using regval_scratch_same [OF u(2) that] unfolding uu by simp
    ultimately show ?thesis using wu True d by (intro goal) (auto simp: regval_setm)
  qed
qed


section \<open>Integer instructions\<close>

text \<open>The registers an instruction reads hold defined values.\<close>

definition sources_defined :: "jit_ctx \<Rightarrow> u32 \<Rightarrow> u32 \<Rightarrow> bool" where
  "sources_defined c defd insn \<longleftrightarrow>
     (opcode insn \<in> {0x13, 0x1b, 0x33, 0x3b} \<longrightarrow> holds_reg c defd (rs1 insn))
     \<and> (opcode insn \<in> {0x33, 0x3b} \<longrightarrow> holds_reg c defd (rs2 insn))"

definition alu_opcode :: "u32 \<Rightarrow> bool" where
  "alu_opcode insn \<longleftrightarrow> opcode insn \<in> {0x37, 0x17, 0x13, 0x33, 0x1b, 0x3b}"

definition alu_value :: "u32 \<Rightarrow> u64 \<Rightarrow> (nat \<Rightarrow> u64) \<Rightarrow> u64 option" where
  "alu_value insn p x =
     (let opc = opcode insn; a = x (rs1 insn); b = x (rs2 insn)
      in if opc = 0x37 then Some (imm_u insn)
         else if opc = 0x17 then Some (p + imm_u insn)
         else if opc = 0x13 then Some (alu_imm insn a (imm_i insn))
         else if opc = 0x33 then alu_op (funct7 insn) (funct3 insn) a b
         else if opc = 0x1b then map_option sx32 (alu_imm32 insn (ucast a) (imm_i insn))
         else map_option sx32 (alu_op32 (funct7 insn) (funct3 insn) (ucast a) (ucast b)))"

lemma exec_insn_alu:
  assumes "alu_opcode insn"
  shows "exec_insn ops insn npc (h, b) =
    (case alu_value insn (pc h) (xreg h) of
       None \<Rightarrow> (Inl (IllegalInstruction insn), (h, b))
     | Some v \<Rightarrow> (Inr (Next npc None), (wr (rd insn) v h, b)))"
  using assms unfolding alu_opcode_def
  by (elim insertE emptyE)
    (simp_all add: exec_insn_def alu_value_def Let_def nextM_def exec_lui_def exec_auipc_def exec_op_imm_def exec_op_def
      exec_op_imm32_def exec_op32_def illegal_def monad_defs cpuM_def readM_def split: option.splits)

text \<open>An encoding compiles exactly when the interpreter executes it.\<close>

lemma alu_op_None: "f3 < 8 \<Longrightarrow> alu_op f7 f3 a b = None \<longleftrightarrow> \<not> alu_handled 0x33 f7 f3"
  by (drule small_u32, elim insertE emptyE) (simp_all add: alu_op_def alu_handled_def Let_def)

lemma alu_op32_None: "f3 < 8 \<Longrightarrow> alu_op32 f7 f3 a b = None \<longleftrightarrow> \<not> alu_handled 0x3b f7 f3"
  by (drule small_u32, elim insertE emptyE) (simp_all add: alu_op32_def alu_handled_def Let_def word_le_nat_alt)

lemma alu_imm32_None: "alu_imm32 insn a i = None \<longleftrightarrow> \<not> (funct3 insn = 0 \<or> funct3 insn = 1 \<or> funct3 insn = 5)"
  by (simp add: alu_imm32_def Let_def)

lemma emit_alu_None:
  assumes "alu_opcode insn"
  shows "emit_alu c insn p m = None \<longleftrightarrow> alu_value insn p x = None"
  using assms alu_op_None [OF funct3_bound] alu_op32_None [OF funct3_bound] alu_imm32_None unfolding alu_opcode_def
  by (elim insertE emptyE)
    (simp_all add: emit_alu_def alu_value_def Let_def emit_op_def emit_op_imm32_def emit_op32_def)

text \<open>Every arm is \<open>with_rd\<close> of a body that computes the instruction's value.\<close>

definition arm_of :: "jit_ctx \<Rightarrow> u32 \<Rightarrow> u64 \<Rightarrow> (emitter \<Rightarrow> emitter) list \<Rightarrow> ((nat \<Rightarrow> u64) \<Rightarrow> u64) \<Rightarrow> bool" where
  "arm_of c insn p body f \<longleftrightarrow> computes c body f
     \<and> (\<forall>x y. (opcode insn \<in> {0x13, 0x1b, 0x33, 0x3b} \<longrightarrow> x (rs1 insn) = y (rs1 insn))
          \<longrightarrow> (opcode insn \<in> {0x33, 0x3b} \<longrightarrow> x (rs2 insn) = y (rs2 insn)) \<longrightarrow> alu_value insn p y = Some (f x))"

lemma emit_alu_with_rd:
  assumes "alu_opcode insn" "emit_alu c insn p m = Some m'"
  shows "\<exists>body f. m' = with_rd c (rd insn) body m \<and> arm_of c insn p body f"
proof -
  have arm: ?thesis if "m' = with_rd c (rd insn) body m" "arm_of c insn p body f" for body f
    using that by blast
  note b = reg_bounds [of insn]
  note defs = emit_alu_def alu_value_def Let_def arm_of_def
  have some: "\<exists>v. alu_value insn p y = Some v" for y
    using emit_alu_None [OF assms(1), of c p m y] assms(2) by simp
  consider "opcode insn = 0x37 \<or> opcode insn = 0x17" | "opcode insn = 0x13" | "opcode insn = 0x33"
    | "opcode insn = 0x1b" | "opcode insn = 0x3b"
    using assms(1) by (auto simp: alu_opcode_def)
  then show ?thesis
  proof cases
    case 1
    let ?v = "if opcode insn = 0x37 then imm_u insn else p + imm_u insn"
    show ?thesis
      by (rule arm [of "[i64_const ?v]" "\<lambda>x. ?v"]) (use 1 assms(2) computes_lui in \<open>auto simp: defs emit_upper_def\<close>)
  next
    case 2
    show ?thesis
      by (rule arm) (use 2 assms(2) computes_op_imm [of c insn] in \<open>auto simp: defs emit_op_imm_def\<close>)
  next
    case 3
    have h: "alu_handled 0x33 (funct7 insn) (funct3 insn)"
      using 3 assms(2) by (auto simp: defs emit_op_def split: if_splits)
    show ?thesis
      by (rule arm [OF _ _]) (use 3 assms(2) h some computes_op [OF h b(2,3) funct3_bound] in \<open>auto simp: defs emit_op_def\<close>)
  next
    case 4
    have h: "funct3 insn = 0 \<or> funct3 insn = 1 \<or> funct3 insn = 5"
      using 4 assms(2) by (auto simp: defs emit_op_imm32_def split: if_splits)
    have n: "map_option sx32 (alu_imm32 insn a i) = Some (sx32 (the (alu_imm32 insn a i)))" for a i
      using alu_imm32_None [of insn a i] h by (cases "alu_imm32 insn a i") auto
    show ?thesis
      by (rule arm) (use 4 assms(2) h n computes_op_imm32 [OF h] in \<open>auto simp: defs emit_op_imm32_def\<close>)
  next
    case 5
    have h: "alu_handled 0x3b (funct7 insn) (funct3 insn)"
      using 5 assms(2) by (auto simp: defs emit_op32_def split: if_splits)
    have n: "map_option sx32 (alu_op32 (funct7 insn) (funct3 insn) a b) =
        Some (sx32 (the (alu_op32 (funct7 insn) (funct3 insn) a b)))" for a b
      using alu_op32_None [OF funct3_bound [of insn], of "funct7 insn" a b] h
      by (cases "alu_op32 (funct7 insn) (funct3 insn) a b") auto
    show ?thesis
      by (rule arm) (use 5 assms(2) h n computes_op32 [OF h b(2,3)] in \<open>auto simp: defs emit_op32_def\<close>)
  qed
qed


text \<open>
  Property C2. For an integer instruction the translator emits code exactly when the interpreter does not raise an
  illegal instruction. Run in a state that holds the hart's registers, the code does not trap, leaves the operand stack
  as it was, and ends in a state that holds the registers the interpreter computes; it writes nothing else of linear
  memory than the register file, and the bytes decode to the instructions that were run.
\<close>
theorem jit_alu_correct:
  assumes "alu_opcode insn" "wt c s" "rep c (em_defined m) s (xreg h)" "sources_defined c (em_defined m) insn"
  shows "case emit_alu c insn (pc h) m of
      None \<Rightarrow> exec_insn ops insn npc (h, b) = (Inl (IllegalInstruction insn), (h, b))
    | Some m' \<Rightarrow> \<exists>is t h'. wm_code m' = wm_code m @ asm is \<and> dis (Suc (length (asm is))) (asm is @ [END]) = Some (is, END, [])
        \<and> exec host is s = Done t
        \<and> exec_insn ops insn npc (h, b) = (Inr (Next npc None), (h', b))
        \<and> wt c t \<and> rep c (em_defined m') t (xreg h') \<and> reg_frame c s t"
proof (cases "emit_alu c insn (pc h) m")
  case None
  then have "alu_value insn (pc h) (xreg h) = None"
    using emit_alu_None [OF assms(1), of c "pc h" m "xreg h"] by simp
  then show ?thesis using None unfolding exec_insn_alu [OF assms(1), of ops npc h b] by simp
next
  case (Some m')
  obtain body f where m': "m' = with_rd c (rd insn) body m" and a: "arm_of c insn (pc h) body f"
    using emit_alu_with_rd [OF assms(1) Some] by blast
  have v: "alu_value insn (pc h) (xreg h) = Some (f (regval c s))"
    using a assms(3,4) reg_bounds [of insn] unfolding arm_of_def by (auto simp: rep_def sources_defined_def)
  have "computes c body f" using a by (simp add: arm_of_def)
  from with_rd_runs [OF assms(2) reg_bounds(1) this assms(3) refl]
  obtain t where t: "does host m m' s (Done t)" "wt c t" "reg_frame c s t"
    "rep c (em_defined m') t (if rd insn = 0 then xreg h else (xreg h)(rd insn := f (regval c s)))"
    unfolding m' by blast
  obtain "is" where i: "wm_code m' = wm_code m @ asm is" "exec host is s = Done t" using t(1) by (auto simp: does_def)
  have "exec_insn ops insn npc (h, b) = (Inr (Next npc None), (wr (rd insn) (f (regval c s)) h, b))"
    unfolding exec_insn_alu [OF assms(1), of ops npc h b] v by simp
  moreover have "rep c (em_defined m') t (xreg (wr (rd insn) (f (regval c s)) h))" using t(4) by (auto simp: wr_def)
  ultimately show ?thesis
    using i t(2,3) dis_asm [of "is" "[]"] unfolding Some by (auto simp: END_def)
qed

text \<open>\<^verbatim>\<open>mulh x5, x6, x7\<close> with \<^verbatim>\<open>x5\<close> and \<^verbatim>\<open>x6\<close> in locals and \<^verbatim>\<open>x7\<close> in memory.\<close>

definition wit_ctx :: jit_ctx where
  "wit_ctx = \<lparr>jc_lay = layout_bare, jc_reg_local = (replicate 32 0)[5 := 11, 6 := 12], jc_write_mask = 0x20,
     jc_idxb = 0, jc_fp_local = replicate 32 0, jc_fp_write_mask = 0,
     jc_fma_scratch = 0, jc_retired_local = None, jc_fp_flags = None\<rparr>"
definition wit_state :: wstate where
  "wit_state = \<lparr>wmem = \<lambda>_. 0, wsize = 1024, wlocals = V32 0 # replicate 12 (V64 0), wstack = []\<rparr>"
definition wit_em :: emitter where
  "wit_em = \<lparr>wm_code = [], n_locals_i64 = 12, n_locals_i32 = 0, wants_tlb_fill = False,
     wants_table = False, wants_chain_next = False, wm_helper = None, em_defined = 0x40, em_fp_defined = 0\<rparr>"

definition wit_mem :: flat_memory where
  "wit_mem = \<lparr>fm_base = 0, fm_mem = []\<rparr>"

lemma wit_locals: "r < 32 \<Longrightarrow> jc_reg_local wit_ctx ! r = (if r = 5 then 11 else if r = 6 then 12 else 0)"
  by (auto simp: wit_ctx_def nth_list_update)

lemma wit_wt: "wt wit_ctx wit_state"
proof -
  have l: "is64 wit_state i" if "1 \<le> i" "i \<le> 12" for i :: u32
  proof -
    have "unat i \<le> 12" "unat i \<noteq> 0" using that by (auto simp: word_le_nat_alt)
    then show ?thesis by (auto simp: is64_def wit_state_def nth_Cons')
  qed
  have "x_addr wit_ctx 32 \<le> wsize wit_state" by (simp add: x_addr_def wit_ctx_def layout_bare_def wit_state_def)
  moreover have "is64 wit_state i" if "1 \<le> i" "i \<le> N_I64_LOCALS" for i
    by (rule l) (use that in \<open>auto simp: N_I64_LOCALS_def intro: order_trans\<close>)
  ultimately show ?thesis
    unfolding wt_def reg_locals_ok_def using l by (auto simp: wit_locals N_I64_LOCALS_def)
qed

lemma wit_rep: "rep wit_ctx d wit_state (xreg cpu_new)"
proof -
  have "regval wit_ctx wit_state r = 0" if "r < 32" for r
    using that by (auto simp: regval_def wit_locals getl_def wit_state_def mem_get_def upt_rec )
  then show ?thesis by (simp add: rep_def cpu_new_def)
qed

theorem jit_alu_correct_witness:
  "case emit_alu wit_ctx 0x027312b3 (pc cpu_new) wit_em of
      None \<Rightarrow> exec_insn flat_bus 0x027312b3 4 (cpu_new, wit_mem) = (Inl (IllegalInstruction 0x027312b3), (cpu_new, wit_mem))
    | Some m' \<Rightarrow> \<exists>is t h'. wm_code m' = wm_code wit_em @ asm is
        \<and> dis (Suc (length (asm is))) (asm is @ [END]) = Some (is, END, [])
        \<and> exec (\<lambda>_ _. None) is wit_state = Done t
        \<and> exec_insn flat_bus 0x027312b3 4 (cpu_new, wit_mem) = (Inr (Next 4 None), (h', wit_mem))
        \<and> wt wit_ctx t \<and> rep wit_ctx (em_defined m') t (xreg h') \<and> reg_frame wit_ctx wit_state t"
  by (rule jit_alu_correct [OF _ wit_wt wit_rep])
    (simp_all add: alu_opcode_def sources_defined_def holds_reg_def opcode_def rs1_def rs2_def wit_em_def wit_locals)
end
