(* ===== verification/Spec2Isabelle.thy ===== *)
theory Spec2Isabelle
  imports RvcTable SoftFpSpec MachineSpec BusAccess JitAluSpec
begin

text \<open>
  A model of the RISC-V system emulator of this repository: a 64-bit hart with machine, supervisor
  and user mode, its bus and devices, and the machine that runs it from a cache of decoded blocks.
  Every theory imports \<open>Prelude\<close> (integers at their Rust width, the state-and-error monad in which the
  interpreter is written, little-endian bytes, word lemmas).

  The hart, \<^verbatim>\<open>src/crates/rv64-core\<close>.
  \<open>Decode\<close> is \<^verbatim>\<open>decode.rs\<close> (register fields and immediates); \<open>Compressed\<close> is \<^verbatim>\<open>compressed.rs\<close> (the
  expansion of 16-bit instructions) and \<open>RvcTable\<close> checks it against a table of the C extension, the
  extension's encodings written independently of the code. \<open>Exceptions\<close> is \<^verbatim>\<open>exception.rs\<close>, \<open>Csr\<close> is
  \<^verbatim>\<open>csr.rs\<close> (modes, CSR numbers, the record of control registers, reset), \<open>Bus\<close> is \<^verbatim>\<open>bus.rs\<close>: the trait is
  a record of operations, its provided methods are functions of the required ones, and \<^verbatim>\<open>FlatMem\<close> is an
  instance. \<^verbatim>\<open>cpu.rs\<close> is split by part: \<open>Insn\<close> (\<^verbatim>\<open>DecodedInsn\<close>), \<open>CpuState\<close> (the record \<^verbatim>\<open>Cpu\<close>, the
  translation buffers and their flushing), \<open>Mmu\<close> (buffer lookup, page walk, loads, stores and fetches), \<open>Trap\<close>
  (trap entry and return, interrupts), \<open>CsrFile\<close> (reading and writing control registers), \<open>Alu\<close> (integer
  arithmetic), \<open>FpExec\<close> and \<open>HostFp\<close> (the floating-point instructions and the host arithmetic they use) and
  \<open>Exec\<close> (\<open>execute_decoded\<close>, \<open>step\<close>, \<open>run_decoded\<close>). \<open>SoftFp\<close> is \<^verbatim>\<open>softfp.rs\<close>, one definition per
  function of the macro, with the format as an argument.

  The machine, \<^verbatim>\<open>src/crates/rv64-system\<close>.
  \<open>JitPages\<close> is \<^verbatim>\<open>lib.rs\<close>: the bitmaps of pages whose content some compiled block depends on, and the
  fence; \<open>Rtc\<close> is \<^verbatim>\<open>rtc.rs\<close>; \<open>Dma\<close> and \<open>Virtio\<close> are \<^verbatim>\<open>virtio.rs\<close> (access of a device to guest RAM; the
  register file, the split queues, console, network, disk and entropy devices); \<open>Plic\<close>, \<open>Uart\<close>, \<open>VirtBus\<close>,
  \<open>CodeCache\<close> and \<open>VirtMachine\<close> are the parts of \<^verbatim>\<open>virt.rs\<close>: interrupt controller, serial port, address
  map, the cache of decoded blocks, and the machine with its SBI and its interpreter loops.

  The translator, \<^verbatim>\<open>src/crates/rv64-jit\<close>.
  \<open>WasmEmit\<close> is \<^verbatim>\<open>wasm_emit.rs\<close>: LEB128 integers, the module builder and the functions that wrap function
  bodies into a module. \<open>WasmSpec\<close> reads the bytes back with readers of the binary format. \<open>Wasm\<close> is the reference for
  the emitted code: the instructions it uses, their encoding and a decoder, and their meaning.
  \<open>JitAlu\<close> is the part of \<^verbatim>\<open>lib.rs\<close> that emits integer code: layouts, the context of a translation, access to
  guest registers, and the integer arms of \<^verbatim>\<open>emit_simple\<close>. The cells of the context that emission updates are fields
  of the builder (\<open>emitter\<close>).

  How the parts meet. A machine step hands the hart a bus (\<open>vb_ops\<close>, an instance of the record of
  \<open>Bus\<close>); loads and stores reach RAM or a device through it; a store to RAM and every write of a device are
  noted in \<open>jit_pages\<close>, from which the code cache learns which pages changed, and the machine takes the
  interrupt lines of the bus into the hart's \<open>mip\<close> before each slice.

  What is proved. \<open>MmuSpec\<close>: the page walk refines the architectural table walk, a permission is never
  granted that the leaf does not give, and a hit in a translation buffer gives what the walk would. \<open>BusAccess\<close>: on
  the bus of the machine a load reads back what a store wrote, also when the access is split across two pages.
  \<open>CpuState\<close>: flushing and page invalidation. \<open>Trap\<close>, \<open>CsrFile\<close>: trap entry,
  its inverse by the return instructions, interrupt selection, access control, the fields of \<^verbatim>\<open>sstatus\<close>, bit by bit.
  \<open>Rtc\<close>: when an alarm is raised, cleared and armed. \<open>ExecSpec\<close>,
  \<open>ExecFrame\<close>, \<open>RunSpec\<close>: every instruction keeps the hart well formed, an exception leaves the architectural
  state, division and multiplication, store-conditional, the modes in which a privileged instruction is illegal,
  and the equality of the two interpreter loops.
  \<open>SoftFpSpec\<close>: comparison, minimum and maximum on the number a pattern stands for, the square root loop.
  \<open>VirtioSpec\<close>, \<open>VirtBusSpec\<close>: the devices stay in bounds, a completion is one commit, each write to a page of compiled code is
  reported, and the interrupt lines are those of the sources. \<open>CodeCache\<close>: no block is executed that does not
  decode current memory, when a fence was seen since the write. \<open>CacheRun\<close>, \<open>MachineSpec\<close>: the loop over cached
  blocks returns, a slice returns unless a device call of it never does, guest time does not go backward, and what an
  SBI call does to each field of the machine. \<open>BusFrame\<close>, \<open>MachineFrame\<close> carry an invariant of the bus through the hart and
  through a slice. \<open>WasmSpec\<close>: encoded integers and
  modules read back. \<open>JitArith\<close>, \<open>JitAluSpec\<close>: emitted integer code, run by \<open>exec\<close> in a state that represents the hart
  (\<open>rep\<close>), does what \<open>exec_insn\<close> does; each list of builder calls \<open>computes\<close> a function of the guest's registers.

  Interfaces as locales: \<open>word_bus\<close> (\<open>Bus\<close>), the laws of memory that the hart relies on, interpreted on
  \<^verbatim>\<open>FlatMem\<close> and, in \<open>VirtBus\<close>, on the bus of the machine; \<open>frame_rel\<close> and its extension \<open>insn_frame\<close>
  (\<open>ExecFrame\<close>), the contract of a relation between the hart before and after that every instruction keeps,
  interpreted on four such relations; \<open>bus_keeps\<close> (\<open>BusFrame\<close>), a bus whose operations keep a property of its state, and its
  extension \<open>machine_inv\<close> (\<open>MachineFrame\<close>), the same for every operation a slice makes on the bus, interpreted on
  the bus of the machine with \<open>hang_real\<close> (a recorded hang is a device call that never returns) and \<open>hung_at\<close> (a
  hang, once recorded, stays).

  Bounds. \<open>run_loop\<close> and the loops of the machine take fuel; \<open>CacheRun\<close> proves that \<open>run_fuel\<close> is
  enough for the loop over cached blocks. The service loop of a queue may run for ever, because the guest can lay the used
  ring over the available ring: \<open>process_call\<close> is a partial function whose value \<open>None\<close> is a call that never returns, and
  \<open>process n\<close> is its first \<open>n\<close> rounds. The bus records such a call in \<open>vb_hang\<close>, and a slice (\<open>run_slice_backend\<close>) that
  made one has no result. \<open>VirtioSpec\<close> shows one (\<open>overlapping_rings_hang\<close>), \<open>CacheRun\<close> a slice that makes it
  (\<open>slice_hangs\<close>); transmission over rings that the guest keeps apart returns within 65536 rounds, the entries that a 16-bit
  ring index can tell apart.

  Not modelled: the floating-point unit of the host is replaced by exact rounding of IEEE 754 (\<open>HostFp\<close>), which is
  what Rust documents of its float types; host callbacks (console, network and disk back ends, clock) are
  arguments or results of the operations; of the translator, the emission of memory and floating-point instructions,
  control flow, loops and superblocks; \<^verbatim>\<open>rv64-wasm\<close>, the relay over a socket, threads and the command-line
  programs are input and output around the machine.
\<close>

end
